(* ===== verification/Prelude.thy ===== *)
theory Prelude
  imports "HOL-Library.Word"
begin

text \<open>
  Shared vocabulary of the development: the machine integer types of
  \<^verbatim>\<open>kernels1/types.h\<close>, the faults a kernel routine can end in (a failed \<^verbatim>\<open>assert\<close>,
  a \<^verbatim>\<open>panic\<close>, an access outside an array), byte-addressed memory with little-endian loads and
  stores, and the generic lemmas on words, address ranges and memory that the component
  theories use. A range of \<open>k\<close> bytes starting at \<open>a\<close> is the set of addresses \<open>b\<close> with
  \<open>unat (b - a) < k\<close>: the subtraction wraps like the pointer arithmetic of the code.
\<close>

unbundle bit_operations_syntax

subsection \<open>Machine integers and faults\<close>

type_synonym u8 = "8 word"
type_synonym u16 = "16 word"
type_synonym u32 = "32 word"
type_synonym u64 = "64 word"
type_synonym addr = "64 word"
type_synonym memory = "64 word \<Rightarrow> 8 word"

datatype fault =
    AssertFail string      \<comment> \<open>\<open>assert_fail\<close>: message, then the machine only waits for the keyboard\<close>
  | Panic string           \<comment> \<open>\<open>panic\<close>\<close>
  | OutOfBounds string     \<comment> \<open>an index outside the array it names\<close>
  | BadWrite string        \<comment> \<open>a store through a pointer to constant memory\<close>
  | BadVarargs             \<comment> \<open>\<open>va_arg\<close> with no or the wrong kind of argument left\<close>
  | KernelData             \<comment> \<open>a user pointer reached the kernel's own variables, the console or a device\<close>
  | Diverges               \<comment> \<open>a loop of the source that never ends\<close>
  | OutOfFuel              \<comment> \<open>an iteration bound of the model was reached\<close>

type_synonym 'a res = "fault + 'a"

definition check :: "bool \<Rightarrow> fault \<Rightarrow> 'a res \<Rightarrow> 'a res" where
  "check b e r = (if b then r else Inl e)"

definition bind_res :: "'a res \<Rightarrow> ('a \<Rightarrow> 'b res) \<Rightarrow> 'b res" where
  "bind_res r f = (case r of Inl e \<Rightarrow> Inl e | Inr x \<Rightarrow> f x)"

named_theorems res_simps \<open>rewriting of fallible computations\<close>

lemma check_True [simp, res_simps]: "check True e r = r"
  by (simp add: check_def)

lemma check_False [simp, res_simps]: "check False e r = Inl e"
  by (simp add: check_def)

lemma check_Inr_iff [res_simps]: "check b e r = Inr x \<longleftrightarrow> b \<and> r = Inr x"
  by (simp add: check_def)

lemma bind_res_Inl [simp, res_simps]: "bind_res (Inl e) f = Inl e"
  by (simp add: bind_res_def)

lemma bind_res_Inr [simp, res_simps]: "bind_res (Inr x) f = f x"
  by (simp add: bind_res_def)

lemma bind_res_Inr_iff [res_simps]:
  "bind_res r f = Inr y \<longleftrightarrow> (\<exists>x. r = Inr x \<and> f x = Inr y)"
  by (cases r) (simp_all add: bind_res_def)

lemma bind_res_Inl_iff [res_simps]:
  "bind_res r f = Inl e \<longleftrightarrow> r = Inl e \<or> (\<exists>x. r = Inr x \<and> f x = Inl e)"
  by (cases r) (simp_all add: bind_res_def)

lemma bind_res_cong [fundef_cong]:
  "r = r' \<Longrightarrow> (\<And>x. r' = Inr x \<Longrightarrow> f x = f' x) \<Longrightarrow> bind_res r f = bind_res r' f'"
  by (cases r') (simp_all add: bind_res_def)

lemma check_cong [fundef_cong]:
  "b = b' \<Longrightarrow> e = e' \<Longrightarrow> (b' \<Longrightarrow> r = r') \<Longrightarrow> check b e r = check b' e' r'"
  by (simp add: check_def)

subsection \<open>Distances between addresses\<close>

named_theorems range_simps \<open>arithmetic of wrapped address ranges\<close>

lemma unat_diff_Suc [range_simps]:
  fixes a b :: addr
  assumes "b \<noteq> a"
  shows "unat (b - (a + 1)) = unat (b - a) - 1"
proof -
  have "b - a \<noteq> 0" using assms by simp
  then have "unat ((b - a) - 1) = unat (b - a) - 1" by (rule unat_minus_one)
  moreover have "b - (a + 1) = (b - a) - 1" by (simp add: diff_diff_add)
  ultimately show ?thesis by (simp only:)
qed

lemma unat_diff_pos [range_simps]:
  fixes a b :: addr
  shows "b \<noteq> a \<Longrightarrow> 0 < unat (b - a)"
  by (metis eq_iff_diff_eq_0 neq0_conv unat_eq_zero)

lemma unat_diff_0_iff [simp]:
  fixes a b :: addr
  shows "unat (b - a) = 0 \<longleftrightarrow> b = a"
  by (metis eq_iff_diff_eq_0 unat_eq_zero)

lemma unat_less_2_64 [simp]: "unat (x :: 64 word) < 18446744073709551616"
  using unsigned_less [of x, where ?'a = nat] by simp

lemma unat_ge_2_64 [simp]: "\<not> 18446744073709551616 \<le> unat (x :: 64 word)"
  by (simp only: not_le unat_less_2_64)

lemma unat_addr_bound: "unat (x :: addr) < 2 ^ 64"
  using unsigned_less [of x, where ?'a = nat] by simp

lemma unat_of_nat64: "n < 2 ^ 64 \<Longrightarrow> unat (of_nat n :: 64 word) = n"
  by (simp add: unat_of_nat take_bit_nat_eq_self)

lemma unat_of_int64: "0 \<le> k \<Longrightarrow> k < 2 ^ 64 \<Longrightarrow> unat (of_int k :: 64 word) = nat k"
  by (simp add: unsigned_of_int take_bit_int_eq_self)

lemma unat_ucast_32_64 [simp]: "unat (ucast (x :: 32 word) :: 64 word) = unat x"
  using unsigned_less [of x, where ?'a = nat]
  by (simp add: unsigned_ucast_eq take_bit_nat_eq_self)

lemma unat_ucast_8_64 [simp]: "unat (ucast (x :: 8 word) :: 64 word) = unat x"
  using unsigned_less [of x, where ?'a = nat]
  by (simp add: unsigned_ucast_eq take_bit_nat_eq_self)

lemma unat_add64: "unat x + unat y < 2 ^ 64 \<Longrightarrow> unat (x + y :: 64 word) = unat x + unat y"
  using unat_add_lem [of x y] by simp

lemma unat_mult64: "unat x * unat y < 2 ^ 64 \<Longrightarrow> unat (x * y :: 64 word) = unat x * unat y"
  using unat_mult_lem [of x y] by simp

lemma unat_sub64: "unat y \<le> unat x \<Longrightarrow> unat (x - y :: 64 word) = unat x - unat y"
  by (simp add: unat_sub_if')

lemma sint_neg_iff: "sint (x :: 64 word) < 0 \<longleftrightarrow> 2 ^ 63 \<le> unat x"
proof -
  have u: "0 \<le> uint x" "uint x < 2 ^ 64" using uint_lt2p [of x] by simp_all
  have s: "sint x = (uint x + 2 ^ 63) mod 2 ^ 64 - 2 ^ 63"
    by (simp add: sint_uint signed_take_bit_eq_take_bit_shift take_bit_eq_mod)
  have "sint x < 0 \<longleftrightarrow> 2 ^ 63 \<le> uint x"
  proof (cases "uint x < 2 ^ 63")
    case True
    then have "(uint x + 2 ^ 63) mod 2 ^ 64 = uint x + 2 ^ 63" using u by (intro mod_pos_pos_trivial) auto
    then show ?thesis using s u True by simp
  next
    case False
    have "(uint x + 2 ^ 63) mod 2 ^ 64 = (uint x - 2 ^ 63) mod 2 ^ 64"
      using mod_add_self2 [of "uint x - 2 ^ 63" "2 ^ 64"] by (simp add: add.commute)
    also have "\<dots> = uint x - 2 ^ 63" using u False by (intro mod_pos_pos_trivial) auto
    finally show ?thesis using s u False by simp
  qed
  moreover have "uint x = int (unat x)" by simp
  ultimately show ?thesis by (metis of_nat_le_iff of_nat_numeral of_nat_power)
qed

lemma addr_offset: "(b :: addr) = a + of_nat (unat (b - a))"
  by simp

lemma unat_offset_diff:
  fixes a :: addr
  assumes "i < 2 ^ 64"
  shows "unat (a + of_nat i - a) = i"
  using assms by (simp add: unat_of_nat64)

lemma unat_minus_one_word_eq: "unat (-1 :: addr) = 2 ^ 64 - 1"
  by (simp add: unsigned_minus_1_eq_mask mask_eq_exp_minus_1)

lemma range_head_notin_tail:
  fixes a :: addr
  assumes "k < 2 ^ 64"
  shows "\<not> unat (a - (a + 1)) < k"
proof -
  have "a - (a + 1) = (-1 :: addr)" by simp
  with unat_minus_one_word_eq show ?thesis using assms by simp
qed

subsection \<open>Little-endian loads and stores\<close>

text \<open>
  The processor reads and writes integers of one to eight bytes at any address, least
  significant byte first. \<open>loadn\<close> and \<open>storen\<close> are the accesses of \<open>k\<close> bytes.
\<close>

fun loadn :: "nat \<Rightarrow> memory \<Rightarrow> addr \<Rightarrow> nat" where
  "loadn 0 m a = 0"
| "loadn (Suc k) m a = unat (m a) + 256 * loadn k m (a + 1)"

fun storen :: "nat \<Rightarrow> memory \<Rightarrow> addr \<Rightarrow> nat \<Rightarrow> memory" where
  "storen 0 m a v = m"
| "storen (Suc k) m a v = (storen k m (a + 1) (v div 256))(a := of_nat v)"

definition load16 :: "memory \<Rightarrow> addr \<Rightarrow> u16" where
  "load16 m a = of_nat (loadn 2 m a)"

definition load32 :: "memory \<Rightarrow> addr \<Rightarrow> u32" where
  "load32 m a = of_nat (loadn 4 m a)"

definition load64 :: "memory \<Rightarrow> addr \<Rightarrow> u64" where
  "load64 m a = of_nat (loadn 8 m a)"

definition store32 :: "memory \<Rightarrow> addr \<Rightarrow> u32 \<Rightarrow> memory" where
  "store32 m a v = storen 4 m a (unat v)"

definition store64 :: "memory \<Rightarrow> addr \<Rightarrow> u64 \<Rightarrow> memory" where
  "store64 m a v = storen 8 m a (unat v)"

lemma loadn_bound: "loadn k m a < 256 ^ k"
proof (induction k arbitrary: a)
  case (Suc k)
  have "unat (m a) < 256" using unsigned_less [of "m a", where ?'a = nat] by simp
  with Suc [of "a + 1"] show ?case by simp
qed simp

lemma storen_outside: "k \<le> unat (b - a) \<Longrightarrow> storen k m a v b = m b"
proof (induction k arbitrary: a v)
  case (Suc k)
  then have "b \<noteq> a" by auto
  with Suc show ?case by (simp add: unat_diff_Suc)
qed simp

lemma loadn_cong:
  "(\<And>b. unat (b - a) < k \<Longrightarrow> m b = m' b) \<Longrightarrow> k \<le> 2 ^ 64 \<Longrightarrow> loadn k m a = loadn k m' a"
proof (induction k arbitrary: a)
  case (Suc k)
  have "loadn k m (a + 1) = loadn k m' (a + 1)"
  proof (rule Suc.IH)
    fix b assume b: "unat (b - (a + 1)) < k"
    have "b \<noteq> a" using b range_head_notin_tail [of k a] Suc.prems(2) by auto
    with b have "unat (b - a) < Suc k" by (simp add: unat_diff_Suc)
    then show "m b = m' b" by (rule Suc.prems(1))
  qed (use Suc.prems in simp)
  moreover have "m a = m' a" using Suc.prems(1) [of a] by simp
  ultimately show ?case by simp
qed simp

lemma loadn_storen_same: "k \<le> 2 ^ 64 \<Longrightarrow> loadn k (storen k m a v) a = v mod 256 ^ k"
proof (induction k arbitrary: a v)
  case (Suc k)
  let ?t = "storen k m (a + 1) (v div 256)"
  have "loadn k (?t(a := of_nat v)) (a + 1) = loadn k ?t (a + 1)"
    using Suc.prems range_head_notin_tail [of k a] by (intro loadn_cong) auto
  moreover have "loadn k ?t (a + 1) = (v div 256) mod 256 ^ k"
    using Suc by simp
  moreover have "unat (of_nat v :: 8 word) = v mod 256"
    by (simp add: unat_of_nat take_bit_eq_mod)
  moreover have "v mod 256 + 256 * ((v div 256) mod 256 ^ k) = v mod (256 * 256 ^ k)"
    by (metis add.commute mod_mult2_eq)
  ultimately show ?case by (simp del: fun_upd_apply add: fun_upd_same)
qed simp

lemma unat_mod_2_64 [simp]: "unat (v :: u64) mod 18446744073709551616 = unat v"
  by (rule mod_less) simp

lemma load64_store64_same [simp]: "load64 (store64 m a v) a = v"
proof -
  have "loadn 8 (storen 8 m a (unat v)) a = unat v"
    by (subst loadn_storen_same) simp_all
  then show ?thesis by (simp add: load64_def store64_def)
qed

lemma store64_outside: "8 \<le> unat (b - a) \<Longrightarrow> store64 m a v b = m b"
  by (simp add: store64_def storen_outside)

lemma load64_cong:
  "(\<And>b. unat (b - a) < 8 \<Longrightarrow> m b = m' b) \<Longrightarrow> load64 m a = load64 m' a"
  by (simp add: load64_def loadn_cong [of a 8 m m'])

lemma load64_bytes:
  "load64 m a = of_nat (unat (m a) + 256 * (unat (m (a + 1)) + 256 * (unat (m (a + 2)) +
     256 * (unat (m (a + 3)) + 256 * (unat (m (a + 4)) + 256 * (unat (m (a + 5)) +
     256 * (unat (m (a + 6)) + 256 * unat (m (a + 7)))))))))"
proof -
  have eight: "8 = Suc (Suc (Suc (Suc (Suc (Suc (Suc (Suc 0)))))))" by simp
  show ?thesis unfolding load64_def eight loadn.simps by (simp add: add.assoc)
qed

lemma load32_bytes:
  "load32 m a = of_nat (unat (m a) + 256 * (unat (m (a + 1)) + 256 * (unat (m (a + 2)) + 256 * unat (m (a + 3)))))"
proof -
  have four: "4 = Suc (Suc (Suc (Suc 0)))" by simp
  show ?thesis unfolding load32_def four loadn.simps by (simp add: add.assoc)
qed

lemma load16_bytes: "load16 m a = of_nat (unat (m a) + 256 * unat (m (a + 1)))"
  unfolding load16_def numeral_2_eq_2 loadn.simps by simp

subsection \<open>Aligned words do not overlap\<close>

definition aligned :: "nat \<Rightarrow> addr \<Rightarrow> bool" where
  "aligned k a \<longleftrightarrow> unat a mod k = 0"

lemma aligned_block_div:
  assumes "aligned k a" and "unat (b - a) < k" and "k dvd 2 ^ 64" and "0 < k"
  shows "unat b div k = unat a div k"
proof -
  obtain q where q: "unat a = k * q"
    using assms(1) by (auto simp: aligned_def)
  obtain r where r: "(2::nat) ^ 64 = k * r" using assms(3) by (rule dvdE)
  have "k * q < k * r" using unat_addr_bound [of a] q r by simp
  then have "q < r" by simp
  then have "k * (q + 1) \<le> k * r" by (intro mult_le_mono) auto
  then have fit: "unat a + unat (b - a) < 2 ^ 64" using q r assms(2) by simp
  have "unat b = unat (a + (b - a))" by simp
  also have "\<dots> = unat a + unat (b - a)"
    using fit by (subst unat_add_lem [THEN iffD1]) simp_all
  finally show ?thesis using q assms(2,4) by simp
qed

lemma aligned_blocks_disjoint:
  assumes "aligned k a" "aligned k a'" "a \<noteq> a'" "k dvd 2 ^ 64" "0 < k" "unat (b - a') < k"
  shows "k \<le> unat (b - a)"
proof (rule ccontr)
  assume "\<not> k \<le> unat (b - a)"
  then have "unat (b - a) < k" by simp
  then have "unat a div k = unat a' div k"
    using aligned_block_div [of k a b] aligned_block_div [of k a' b] assms by simp
  moreover have "unat a mod k = unat a' mod k"
    using assms(1,2) by (simp add: aligned_def)
  ultimately have "unat a = unat a'"
    by (metis div_mult_mod_eq)
  then show False using assms(3) by (simp add: word_unat_eq_iff)
qed

lemma load64_store64_other:
  assumes "aligned 8 a" "aligned 8 a'" "a \<noteq> a'"
  shows "load64 (store64 m a v) a' = load64 m a'"
proof (rule load64_cong)
  fix b :: addr assume "unat (b - a') < 8"
  then have "8 \<le> unat (b - a)"
    using aligned_blocks_disjoint [OF assms] by simp
  then show "store64 m a v b = m b" by (rule store64_outside)
qed

end
