(* ===== verification/Clib.thy ===== *)
theory Clib
  imports Prelude
begin

text \<open>
  The C library subset of \<^verbatim>\<open>kernels1/lib.cc\<close> and the arithmetic and character helpers of
  \<^verbatim>\<open>kernels1/lib.hh\<close>. Functions on raw memory take the memory and return the new one; a
  returned pointer is an \<open>addr option\<close> with \<open>None\<close> for \<open>nullptr\<close>. A loop that stops only at a
  NUL byte is a \<open>partial_function (option)\<close>, so an unterminated string is the value \<open>None\<close>;
  \<open>cstring_at\<close> says that a terminated string lies at an address. Routines that only read a
  string (\<open>strtoul\<close>, \<open>strtol\<close>) take the list of its bytes before the NUL: reading at its end
  yields 0.
\<close>

subsection \<open>Memory blocks\<close>

fun memcpy_loop :: "memory \<Rightarrow> addr \<Rightarrow> addr \<Rightarrow> nat \<Rightarrow> memory" where
  "memcpy_loop m d s 0 = m"
| "memcpy_loop m d s (Suc n) = memcpy_loop (m(d := m s)) (d + 1) (s + 1) n"

definition memcpy :: "memory \<Rightarrow> addr \<Rightarrow> addr \<Rightarrow> u64 \<Rightarrow> memory" where
  "memcpy m dst src n = memcpy_loop m dst src (unat n)"

fun memmove_down :: "memory \<Rightarrow> addr \<Rightarrow> addr \<Rightarrow> nat \<Rightarrow> memory" where
  "memmove_down m d s 0 = m"
| "memmove_down m d s (Suc n) = memmove_down (m(d - 1 := m (s - 1))) (d - 1) (s - 1) n"

definition memmove :: "memory \<Rightarrow> addr \<Rightarrow> addr \<Rightarrow> u64 \<Rightarrow> memory" where
  "memmove m d s n =
     (if s < d \<and> s + n > d then memmove_down m (d + n) (s + n) (unat n)
      else memcpy_loop m d s (unat n))"

fun memset_loop :: "memory \<Rightarrow> addr \<Rightarrow> u8 \<Rightarrow> nat \<Rightarrow> memory" where
  "memset_loop m p c 0 = m"
| "memset_loop m p c (Suc n) = memset_loop (m(p := c)) (p + 1) c n"

definition memset :: "memory \<Rightarrow> addr \<Rightarrow> int \<Rightarrow> u64 \<Rightarrow> memory" where
  "memset m v c n = memset_loop m v (of_int c) (unat n)"

definition cmp3 :: "u8 \<Rightarrow> u8 \<Rightarrow> int" where
  "cmp3 x y = (if x > y then 1 else 0) - (if x < y then 1 else 0)"

fun memcmp_loop :: "memory \<Rightarrow> addr \<Rightarrow> addr \<Rightarrow> nat \<Rightarrow> int" where
  "memcmp_loop m a b 0 = 0"
| "memcmp_loop m a b (Suc n) =
     (if m a \<noteq> m b then cmp3 (m a) (m b) else memcmp_loop m (a + 1) (b + 1) n)"

definition memcmp :: "memory \<Rightarrow> addr \<Rightarrow> addr \<Rightarrow> u64 \<Rightarrow> int" where
  "memcmp m a b n = memcmp_loop m a b (unat n)"

fun memchr_loop :: "memory \<Rightarrow> addr \<Rightarrow> u8 \<Rightarrow> nat \<Rightarrow> addr option" where
  "memchr_loop m s c 0 = None"
| "memchr_loop m s c (Suc n) = (if m s = c then Some s else memchr_loop m (s + 1) c n)"

definition memchr :: "memory \<Rightarrow> addr \<Rightarrow> int \<Rightarrow> u64 \<Rightarrow> addr option" where
  "memchr m s c n = memchr_loop m s (of_int c) (unat n)"

subsection \<open>Strings in memory\<close>

partial_function (option) strlen_loop :: "memory \<Rightarrow> addr \<Rightarrow> u64 \<Rightarrow> u64 option" where
  "strlen_loop m s n = (if m s = 0 then Some n else strlen_loop m (s + 1) (n + 1))"

definition strlen :: "memory \<Rightarrow> addr \<Rightarrow> u64 option" where
  "strlen m s = strlen_loop m s 0"

fun strnlen_loop :: "memory \<Rightarrow> addr \<Rightarrow> u64 \<Rightarrow> nat \<Rightarrow> u64" where
  "strnlen_loop m s n 0 = n"
| "strnlen_loop m s n (Suc k) = (if m s = 0 then n else strnlen_loop m (s + 1) (n + 1) k)"

definition strnlen :: "memory \<Rightarrow> addr \<Rightarrow> u64 \<Rightarrow> u64" where
  "strnlen m s maxlen = strnlen_loop m s 0 (unat maxlen)"

partial_function (option) strcpy :: "memory \<Rightarrow> addr \<Rightarrow> addr \<Rightarrow> memory option" where
  "strcpy m d s =
     (let m' = m(d := m s) in if m' d = 0 then Some m' else strcpy m' (d + 1) (s + 1))"

fun strncpy_pad :: "memory \<Rightarrow> addr \<Rightarrow> nat \<Rightarrow> memory" where
  "strncpy_pad m d 0 = m"
| "strncpy_pad m d (Suc k) = strncpy_pad (m(d := 0)) (d + 1) k"

fun strncpy_loop :: "memory \<Rightarrow> addr \<Rightarrow> addr \<Rightarrow> nat \<Rightarrow> memory" where
  "strncpy_loop m d s 0 = m"
| "strncpy_loop m d s (Suc k) =
     (if m s \<noteq> 0 then strncpy_loop (m(d := m s)) (d + 1) (s + 1) k
      else strncpy_pad m d (Suc k))"

definition strncpy :: "memory \<Rightarrow> addr \<Rightarrow> addr \<Rightarrow> u64 \<Rightarrow> memory" where
  "strncpy m dst src maxlen = strncpy_loop m dst src (unat maxlen)"

partial_function (option) strcmp :: "memory \<Rightarrow> addr \<Rightarrow> addr \<Rightarrow> int option" where
  "strcmp m a b =
     (if m a = 0 \<or> m b = 0 \<or> m a \<noteq> m b then Some (cmp3 (m a) (m b))
      else strcmp m (a + 1) (b + 1))"

fun strncmp_loop :: "memory \<Rightarrow> addr \<Rightarrow> addr \<Rightarrow> nat \<Rightarrow> int" where
  "strncmp_loop m a b 0 = cmp3 0 0"
| "strncmp_loop m a b (Suc n) =
     (if m a = 0 \<or> m b = 0 \<or> m a \<noteq> m b then cmp3 (m a) (m b)
      else strncmp_loop m (a + 1) (b + 1) n)"

definition strncmp :: "memory \<Rightarrow> addr \<Rightarrow> addr \<Rightarrow> u64 \<Rightarrow> int" where
  "strncmp m a b n = strncmp_loop m a b (unat n)"

partial_function (option) strchr :: "memory \<Rightarrow> addr \<Rightarrow> int \<Rightarrow> addr option option" where
  "strchr m s c =
     (if m s \<noteq> 0 \<and> m s \<noteq> of_int c then strchr m (s + 1) c
      else if m s = of_int c then Some (Some s) else Some None)"

subsection \<open>Character traits\<close>

definition isspace :: "int \<Rightarrow> bool" where
  "isspace c \<longleftrightarrow> (c \<ge> 9 \<and> c \<le> 13) \<or> c = 32"

definition isdigit :: "int \<Rightarrow> bool" where
  "isdigit c \<longleftrightarrow> (of_int c :: u32) - 48 < 10"

definition islower :: "int \<Rightarrow> bool" where
  "islower c \<longleftrightarrow> (of_int c :: u32) - 97 < 26"

definition isupper :: "int \<Rightarrow> bool" where
  "isupper c \<longleftrightarrow> (of_int c :: u32) - 65 < 26"

definition isalpha :: "int \<Rightarrow> bool" where
  "isalpha c \<longleftrightarrow> ((of_int c :: u32) OR 0x20) - 97 < 26"

definition isalnum :: "int \<Rightarrow> bool" where
  "isalnum c \<longleftrightarrow> isalpha c \<or> isdigit c"

definition tolower :: "int \<Rightarrow> int" where
  "tolower c = (if isupper c then c + 97 - 65 else c)"

definition toupper :: "int \<Rightarrow> int" where
  "toupper c = (if islower c then c + 65 - 97 else c)"

definition tolower8 :: "u8 \<Rightarrow> u8" where
  "tolower8 c = of_int (tolower (uint c))"

partial_function (option) strcasecmp :: "memory \<Rightarrow> addr \<Rightarrow> addr \<Rightarrow> int option" where
  "strcasecmp m a b =
     (let ac = tolower8 (m a); bc = tolower8 (m b)
      in if ac = 0 \<or> bc = 0 \<or> ac \<noteq> bc then Some (cmp3 ac bc)
         else strcasecmp m (a + 1) (b + 1))"

fun strncasecmp_loop :: "memory \<Rightarrow> addr \<Rightarrow> addr \<Rightarrow> nat \<Rightarrow> int" where
  "strncasecmp_loop m a b 0 = cmp3 0 0"
| "strncasecmp_loop m a b (Suc n) =
     (let ac = tolower8 (m a); bc = tolower8 (m b)
      in if ac = 0 \<or> bc = 0 \<or> ac \<noteq> bc then cmp3 ac bc
         else strncasecmp_loop m (a + 1) (b + 1) n)"

definition strncasecmp :: "memory \<Rightarrow> addr \<Rightarrow> addr \<Rightarrow> u64 \<Rightarrow> int" where
  "strncasecmp m a b n = strncasecmp_loop m a b (unat n)"

subsection \<open>Strings to integers\<close>

text \<open>\<open>hd0 s\<close> is \<open>*s\<close>: the byte at the read position, the NUL at the end of the string.\<close>

definition hd0 :: "u8 list \<Rightarrow> u8" where
  "hd0 s = (case s of [] \<Rightarrow> 0 | c # _ \<Rightarrow> c)"

fun skip_space :: "u8 list \<Rightarrow> u8 list" where
  "skip_space [] = []"
| "skip_space (c # s) = (if isspace (sint c) then skip_space s else c # s)"

definition digit_of :: "int \<Rightarrow> u8 \<Rightarrow> u64 option" where
  "digit_of base b =
     (let c = sint b
      in if c \<ge> 48 \<and> c < 48 + base then Some (of_int (c - 48))
         else if base > 10 \<and> c \<ge> 97 \<and> c < 97 + base - 10 then Some (of_int (c - 97 + 10))
         else if base > 10 \<and> c \<ge> 65 \<and> c < 65 + base - 10 then Some (of_int (c - 65 + 10))
         else None)"

fun strtoul_loop :: "int \<Rightarrow> u64 \<Rightarrow> bool \<Rightarrow> u8 list \<Rightarrow> u64 \<times> bool \<times> u8 list" where
  "strtoul_loop base x overflow [] = (x, overflow, [])"
| "strtoul_loop base x overflow (c # s) =
     (case digit_of base c of
        None \<Rightarrow> (x, overflow, c # s)
      | Some digit \<Rightarrow>
          if x > (- 1 - digit) div of_int base then strtoul_loop base x True s
          else strtoul_loop base (x * of_int base + digit) overflow s)"

definition has_0x :: "u8 list \<Rightarrow> bool" where
  "has_0x s \<longleftrightarrow> hd0 s = 48 \<and> (hd0 (tl s) = 120 \<or> hd0 (tl s) = 88)"

definition detect_base :: "int \<Rightarrow> u8 list \<Rightarrow> int \<times> u8 list" where
  "detect_base base s =
     (if base = 0 then
        (if has_0x s then (16, drop 2 s) else if hd0 s = 48 then (8, s) else (10, s))
      else if base = 16 \<and> has_0x s then (base, drop 2 s)
      else (base, s))"

definition strtoul :: "u8 list \<Rightarrow> int \<Rightarrow> u64 \<times> u8 list" where
  "strtoul s0 base0 =
     (let s1 = skip_space s0;
          negative = (hd0 s1 = 45);
          s2 = (if negative \<or> hd0 s1 = 43 then tl s1 else s1);
          (base, s3) = detect_base base0 s2;
          (x, overflow, rest) = strtoul_loop base 0 False s3;
          x1 = (if overflow then - 1 else x);
          x2 = (if negative then - x1 else x1)
      in (x2, rest))"

definition strtol :: "u8 list \<Rightarrow> int \<Rightarrow> u64 \<times> u8 list" where
  "strtol s0 base =
     (let s1 = skip_space s0;
          negative = (hd0 s1 = 45);
          s2 = (if negative then tl s1 else s1);
          (u, rest) = strtoul s2 base;
          bound = push_bit 63 1 - (if \<not> negative then 1 else 0);
          u1 = (if u > bound then bound else u);
          u2 = (if negative then - u1 else u1)
      in (u2, rest))"

subsection \<open>Pseudorandom numbers\<close>

record rand_state =
  rand_seed_set :: bool
  rand_seed :: u64

definition RAND_MAX :: u64 where
  "RAND_MAX = 0x7FFFFFFF"

definition srand :: "u32 \<Rightarrow> rand_state" where
  "srand seed = \<lparr>rand_seed_set = True, rand_seed = push_bit 32 (ucast seed) OR ucast seed\<rparr>"

definition rand :: "rand_state \<Rightarrow> u64 \<times> rand_state" where
  "rand st =
     (let st1 = (if rand_seed_set st then st else srand 819234718);
          seed = rand_seed st1 * 6364136223846793005 + 1
      in (drop_bit 32 seed AND RAND_MAX, st1\<lparr>rand_seed := seed\<rparr>))"

definition rand_range :: "rand_state \<Rightarrow> u32 \<Rightarrow> u32 \<Rightarrow> (u32 \<times> rand_state) res" where
  "rand_range st mn mx =
     check (sint mn \<le> sint mx) (AssertFail ''min <= max'')
    (check (sint (mx - mn) \<le> 0x7FFFFFFF) (AssertFail ''max - min <= RAND_MAX'')
    (let (r, st') = rand st;
         span = scast (mx - mn + 1) :: u64
     in Inr (ucast (scast mn + (r * span) div (RAND_MAX + 1)), st')))"

subsection \<open>Arithmetic helpers\<close>

definition round_down :: "u64 \<Rightarrow> u32 \<Rightarrow> u64" where
  "round_down x m = x - x mod ucast m"

definition round_up :: "u64 \<Rightarrow> u32 \<Rightarrow> u64" where
  "round_up x m = round_down (x + ucast m - 1) m"

fun msb_from :: "nat \<Rightarrow> u64 \<Rightarrow> nat" where
  "msb_from 0 x = 0"
| "msb_from (Suc k) x = (if bit x k then Suc k else msb_from k x)"

definition msb64 :: "u64 \<Rightarrow> nat" where
  "msb64 x = msb_from 64 x"

fun lsb_from :: "nat \<Rightarrow> nat \<Rightarrow> u64 \<Rightarrow> nat" where
  "lsb_from 0 i x = 0"
| "lsb_from (Suc k) i x = (if bit x i then Suc i else lsb_from k (Suc i) x)"

definition lsb64 :: "u64 \<Rightarrow> nat" where
  "lsb64 x = lsb_from 64 0 x"

definition round_down_pow2 :: "u64 \<Rightarrow> u64" where
  "round_down_pow2 x = (if x \<noteq> 0 then push_bit (msb64 x - 1) 1 else 0)"

definition round_up_pow2 :: "u64 \<Rightarrow> u64" where
  "round_up_pow2 x = (if x \<noteq> 0 then push_bit (msb64 (x - 1)) 1 else 0)"

subsection \<open>Specifications\<close>

text \<open>
  \<open>cstring_at m s xs\<close>: the NUL-terminated string with bytes \<open>xs\<close> lies at \<open>s\<close>.
  \<open>scan_digits\<close> splits off the longest prefix of digits of a base and \<open>digits_val\<close> is the
  natural number they denote, the reference for \<open>strtoul\<close>.
\<close>

definition cstring_at :: "memory \<Rightarrow> addr \<Rightarrow> u8 list \<Rightarrow> bool" where
  "cstring_at m s xs \<longleftrightarrow> 0 \<notin> set xs \<and> map (\<lambda>i. m (s + of_nat i)) [0..<length xs] = xs
     \<and> m (s + of_nat (length xs)) = 0 \<and> length xs < 2 ^ 64"

definition digits_val :: "nat \<Rightarrow> nat \<Rightarrow> u64 list \<Rightarrow> nat" where
  "digits_val base x ds = foldl (\<lambda>v d. v * base + unat d) x ds"

fun scan_digits :: "int \<Rightarrow> u8 list \<Rightarrow> u64 list \<times> u8 list" where
  "scan_digits base [] = ([], [])"
| "scan_digits base (c # s) =
     (case digit_of base c of
        None \<Rightarrow> ([], c # s)
      | Some d \<Rightarrow> (let (ds, rest) = scan_digits base s in (d # ds, rest)))"

subsection \<open>Block operations\<close>

lemma memcpy_loop_closed:
  assumes "n \<le> unat (d - s) \<or> d = s" "n < 2 ^ 64"
  shows "memcpy_loop m d s n = (\<lambda>b. if unat (b - d) < n then m (s + (b - d)) else m b)"
  using assms
proof (induction n arbitrary: m d s)
  case (Suc n)
  let ?m = "m(d := m s)"
  have "n \<le> unat ((d + 1) - (s + 1)) \<or> d + 1 = s + 1" using Suc.prems by auto
  then have IH: "memcpy_loop ?m (d + 1) (s + 1) n =
      (\<lambda>b. if unat (b - (d + 1)) < n then ?m (s + 1 + (b - (d + 1))) else ?m b)"
    using Suc.prems(2) by (intro Suc.IH) simp_all
  show ?case
  proof
    fix b
    have step: "s + 1 + (b - (d + 1)) = s + (b - d)" by simp
    show "memcpy_loop m d s (Suc n) b = (if unat (b - d) < Suc n then m (s + (b - d)) else m b)"
    proof (cases "b = d")
      case True
      then show ?thesis using range_head_notin_tail [of n d] Suc.prems(2) by (simp add: IH)
    next
      case False
      have "s + (b - d) \<noteq> d \<or> d = s" if "unat (b - d) < Suc n"
      proof (rule ccontr)
        assume "\<not> (s + (b - d) \<noteq> d \<or> d = s)"
        then have "b - d = d - s" and "d \<noteq> s" by (auto simp: algebra_simps)
        with that Suc.prems(1) show False by auto
      qed
      with False show ?thesis
        unfolding memcpy_loop.simps IH step
        using unat_diff_pos [of b d] by (auto simp: unat_diff_Suc)
    qed
  qed
qed simp

lemma memset_loop_closed:
  "n < 2 ^ 64 \<Longrightarrow> memset_loop m p c n = (\<lambda>b. if unat (b - p) < n then c else m b)"
proof (induction n arbitrary: m p)
  case (Suc n)
  show ?case
  proof
    fix b
    show "memset_loop m p c (Suc n) b = (if unat (b - p) < Suc n then c else m b)"
      using Suc range_head_notin_tail [of n p] unat_diff_pos [of b p]
      by (cases "b = p") (auto simp: unat_diff_Suc)
  qed
qed simp

lemma memmove_down_closed:
  assumes "n \<le> unat (s - d) \<or> d = s" "n < 2 ^ 64"
  shows "memmove_down m d s n = (\<lambda>b. if unat (d - 1 - b) < n then m (s - (d - b)) else m b)"
  using assms
proof (induction n arbitrary: m d s)
  case (Suc n)
  let ?m = "m(d - 1 := m (s - 1))"
  have IH: "memmove_down ?m (d - 1) (s - 1) n =
      (\<lambda>b. if unat (d - 1 - 1 - b) < n then ?m (s - 1 - (d - 1 - b)) else ?m b)"
    using Suc.prems by (intro Suc.IH) auto
  show ?case
  proof
    fix b
    have step: "s - 1 - (d - 1 - b) = s - (d - b)" by simp
    show "memmove_down m d s (Suc n) b = (if unat (d - 1 - b) < Suc n then m (s - (d - b)) else m b)"
    proof (cases "b = d - 1")
      case True
      have "d - 1 - 1 - (d - 1) = (-1 :: addr)" by simp
      then have "\<not> unat (d - 1 - 1 - (d - 1)) < n"
        using unat_minus_one_word_eq Suc.prems(2) by simp
      then show ?thesis using True by (simp add: IH)
    next
      case False
      have "s - (d - b) \<noteq> d - 1 \<or> d = s" if "unat (d - 1 - b) < Suc n"
      proof (rule ccontr)
        assume "\<not> (s - (d - b) \<noteq> d - 1 \<or> d = s)"
        then have "d - 1 - b = s - d" and "d \<noteq> s" by (auto simp: algebra_simps)
        with that Suc.prems(1) show False by auto
      qed
      moreover have "unat (d - 1 - 1 - b) = unat (d - 1 - b) - 1"
      proof -
        have "d - 1 - b \<noteq> 0" using False by auto
        then have "unat (d - 1 - b - 1) = unat (d - 1 - b) - 1" by (rule unat_minus_one)
        then show ?thesis by (simp add: algebra_simps)
      qed
      moreover have "0 < unat (d - 1 - b)" using False unat_diff_pos [of "d - 1" b] by auto
      ultimately show ?thesis using False
        unfolding memmove_down.simps IH step by auto
    qed
  qed
qed simp
lemma unat_down_range:
  fixes b d n :: addr
  shows "unat (d + n - 1 - b) < unat n \<longleftrightarrow> unat (b - d) < unat n"
proof (cases "n = 0")
  case False
  have "n - 1 - (b - d) < n \<longleftrightarrow> b - d < n"
    using False by unat_arith
  moreover have "d + n - 1 - b = n - 1 - (b - d)" by (simp add: algebra_simps)
  ultimately show ?thesis by (simp only: word_less_nat_alt)
qed simp

lemma wrapped_gap:
  fixes s d n :: addr
  assumes "s < d" "unat d + unat n < 2 ^ 64"
  shows "unat n \<le> unat (s - d)"
  using assms by (simp add: unat_sub_if' word_less_nat_alt)

text \<open>
  C10: \<open>memmove\<close> copies the source as it was before the call, for overlapping ranges too,
  and changes nothing else.
\<close>
theorem memmove_correct:
  assumes "unat s + unat n < 2 ^ 64" "unat d + unat n < 2 ^ 64"
  shows "memmove m d s n = (\<lambda>b. if unat (b - d) < unat n then m (s + (b - d)) else m b)"
proof (cases "s < d \<and> s + n > d")
  case True
  have "unat n \<le> unat ((s + n) - (d + n))"
    using wrapped_gap [of s d n] True assms(2) by simp
  then have "memmove_down m (d + n) (s + n) (unat n) =
      (\<lambda>b. if unat (d + n - 1 - b) < unat n then m (s + n - (d + n - b)) else m b)"
    by (intro memmove_down_closed) (simp_all add: unat_addr_bound)
  moreover have "s + n - (d + n - b) = s + (b - d)" for b by simp
  ultimately show ?thesis using True by (simp only: memmove_def unat_down_range) simp
next
  case False
  have "unat n \<le> unat (d - s) \<or> d = s"
  proof (cases "d < s")
    case True
    then show ?thesis using wrapped_gap [of d s n] assms(1) by simp
  next
    case nless: False
    show ?thesis
    proof (cases "d = s")
      case ne: False
      with nless have "s < d" by simp
      with False have "s + n \<le> d" by simp
      moreover have "unat (s + n) = unat s + unat n"
        using assms(1) by (subst unat_add_lem [THEN iffD1]) simp_all
      ultimately show ?thesis using \<open>s < d\<close>
        by (intro disjI1) (simp add: unat_sub_if' word_le_nat_alt word_less_nat_alt)
    qed simp
  qed
  then show ?thesis
    using False memcpy_loop_closed [of "unat n" d s m]
    by (simp only: memmove_def if_False unat_addr_bound)
qed

lemma map_shift_upt: "map f [0..<Suc n] = f 0 # map (\<lambda>i. f (Suc i)) [0..<n]"
  by (simp only: upt_conv_Cons [of 0 "Suc n"] map_Suc_upt [symmetric] list.map) simp

lemma cstring_at_Nil [simp]: "cstring_at m s [] \<longleftrightarrow> m s = 0"
  by (simp add: cstring_at_def)

lemma cstring_at_Cons [simp]:
  "length xs + 1 < 2 ^ 64 \<Longrightarrow>
   cstring_at m s (x # xs) \<longleftrightarrow> x \<noteq> 0 \<and> m s = x \<and> cstring_at m (s + 1) xs"
  by (auto simp: cstring_at_def map_shift_upt add.assoc simp del: upt_Suc)

lemma cstring_at_length: "cstring_at m s xs \<Longrightarrow> length xs < 2 ^ 64"
  by (simp add: cstring_at_def)

lemma cstring_at_ConsD:
  assumes "cstring_at m s (x # xs)"
  shows "x \<noteq> 0" "m s = x" "cstring_at m (s + 1) xs"
  using assms cstring_at_length [OF assms] by (auto simp del: One_nat_def)

lemma strlen_loop_cstring:
  "cstring_at m s xs \<Longrightarrow> strlen_loop m s n = Some (n + of_nat (length xs))"
proof (induction xs arbitrary: s n)
  case Nil
  then show ?case by (simp add: strlen_loop.simps)
next
  case (Cons x xs)
  note c = cstring_at_ConsD [OF Cons.prems]
  have "strlen_loop m s n = strlen_loop m (s + 1) (n + 1)"
    using c by (subst strlen_loop.simps) simp
  with Cons.IH [OF c(3)] show ?case by (simp add: algebra_simps)
qed

lemma strcmp_cstring:
  "cstring_at m a xs \<Longrightarrow> cstring_at m b ys \<Longrightarrow>
   \<exists>r. strcmp m a b = Some r \<and> (r = 0 \<longleftrightarrow> xs = ys) \<and> (r < 0 \<longleftrightarrow> ord_class.lexordp xs ys)"
proof (induction xs arbitrary: a b ys)
  case Nil
  then show ?case
    by (cases ys) (auto simp: strcmp.simps [of m a b] cmp3_def word_gt_0 dest: cstring_at_ConsD)
next
  case (Cons x xs)
  note c = cstring_at_ConsD [OF Cons.prems(1)]
  show ?case
  proof (cases ys)
    case Nil
    with Cons.prems(2) c show ?thesis by (simp add: strcmp.simps [of m a b] cmp3_def word_gt_0)
  next
    case (Cons y ys')
    then have d: "y \<noteq> 0" "m b = y" "cstring_at m (b + 1) ys'"
      using cstring_at_ConsD Cons.prems(2) by auto
    show ?thesis
    proof (cases "x = y")
      case True
      with c d Cons Cons.IH [OF c(3) d(3)] show ?thesis
        by (subst strcmp.simps) simp
    next
      case False
      with c d Cons show ?thesis
        by (subst strcmp.simps) (auto simp: cmp3_def)
    qed
  qed
qed

lemma cstring_at_upd:
  assumes "length xs < unat (b - s)"
  shows "cstring_at (m(b := v)) s xs \<longleftrightarrow> cstring_at m s xs"
proof -
  have ne: "s + of_nat i \<noteq> b" if "i \<le> length xs" for i
  proof
    assume "s + of_nat i = b"
    then have "unat (b - s) = unat (of_nat i :: addr)" by auto
    moreover have "unat (of_nat i :: addr) \<le> i" by (simp add: unat_of_nat take_bit_eq_mod)
    ultimately show False using assms that by simp
  qed
  have "map (\<lambda>i. (m(b := v)) (s + of_nat i)) [0..<length xs] =
      map (\<lambda>i. m (s + of_nat i)) [0..<length xs]"
    using ne by (intro map_cong) auto
  then show ?thesis using ne [of "length xs"] by (simp only: cstring_at_def) simp
qed

lemma strcpy_memcpy_loop:
  "cstring_at m s xs \<Longrightarrow> length xs < unat (d - s) \<or> d = s \<Longrightarrow> 
   strcpy m d s = Some (memcpy_loop m d s (Suc (length xs)))"
proof (induction xs arbitrary: m d s)
  case Nil
  then show ?case by (subst strcpy.simps) (simp add: fun_upd_def)
next
  case (Cons x xs)
  note c = cstring_at_ConsD [OF Cons.prems(1)]
  let ?m = "m(d := m s)"
  have "cstring_at ?m (s + 1) xs"
  proof (cases "d = s")
    case True
    then show ?thesis using c(3) by (simp only: fun_upd_triv)
  next
    case False
    then have "length xs < unat (d - (s + 1))"
      using Cons.prems(2) by (simp add: unat_diff_Suc)
    then show ?thesis using c by (simp add: cstring_at_upd)
  qed
  moreover have "length xs < unat ((d + 1) - (s + 1)) \<or> d + 1 = s + 1"
    using Cons.prems(2) by auto
  ultimately have "strcpy ?m (d + 1) (s + 1) = Some (memcpy_loop ?m (d + 1) (s + 1) (Suc (length xs)))"
    by (rule Cons.IH)
  moreover have "strcpy m d s = strcpy ?m (d + 1) (s + 1)"
    using c by (subst strcpy.simps) simp
  ultimately show ?case by simp
qed

lemma digits_val_simps [simp]:
  "digits_val base x [] = x"
  "digits_val base x (d # ds) = digits_val base (x * base + unat d) ds"
  by (simp_all add: digits_val_def)

lemma digits_val_ge: "0 < base \<Longrightarrow> x \<le> digits_val base x ds"
proof (induction ds arbitrary: x)
  case (Cons d ds)
  have "x \<le> x * base + unat d" using Cons.prems by (simp add: trans_le_add1)
  also have "\<dots> \<le> digits_val base (x * base + unat d) ds" by (rule Cons.IH [OF Cons.prems])
  finally show ?case by simp
qed simp

lemma digit_of_lt:
  assumes "digit_of base c = Some d" "base \<le> 36"
  shows "unat d < nat base"
proof -
  obtain k where "d = of_int k" "0 \<le> k" "k < base"
    using assms by (auto simp: digit_of_def Let_def simp del: of_int_diff of_int_add split: if_splits)
  then show ?thesis using assms(2) by (simp add: unat_of_int64)
qed

lemma overflow_test:
  fixes x digit :: u64
  assumes "0 < b" "b \<le> 36"
  shows "x > (- 1 - digit) div of_int b \<longleftrightarrow> 2 ^ 64 \<le> unat x * nat b + unat digit"
proof -
  have b: "unat (of_int b :: u64) = nat b" using assms by (simp add: unat_of_int64)
  have "unat digit \<le> unat (-1 :: u64)"
    unfolding unat_minus_one_word_eq using unat_addr_bound [of digit] by linarith
  then have "unat (- 1 - digit) = 2 ^ 64 - 1 - unat digit"
    by (simp add: unat_sub_if' unat_minus_one_word_eq)
  then have "unat ((- 1 - digit) div of_int b) = (2 ^ 64 - 1 - unat digit) div nat b"
    by (simp add: unat_div b)
  then have "x > (- 1 - digit) div of_int b \<longleftrightarrow> (2 ^ 64 - 1 - unat digit) div nat b < unat x"
    by (simp add: word_less_nat_alt)
  also have "\<dots> \<longleftrightarrow> 2 ^ 64 - 1 - unat digit < unat x * nat b"
    using assms by (simp add: div_less_iff_less_mult)
  also have "\<dots> \<longleftrightarrow> 2 ^ 64 \<le> unat x * nat b + unat digit"
    using unat_addr_bound [of digit] by linarith
  finally show ?thesis .
qed

lemma strtoul_loop_scan:
  assumes "0 < base" "base \<le> 36"
  shows "strtoul_loop base x True s = (x', ov, rest) \<Longrightarrow> ov \<and> rest = snd (scan_digits base s)"
    and "strtoul_loop base x False s = (x', ov, rest) \<Longrightarrow>
      rest = snd (scan_digits base s)
      \<and> (ov \<longleftrightarrow> 2 ^ 64 \<le> digits_val (nat base) (unat x) (fst (scan_digits base s)))
      \<and> (\<not> ov \<longrightarrow> unat x' = digits_val (nat base) (unat x) (fst (scan_digits base s)))"
proof (induction s arbitrary: x)
  case Nil
  { case 1 then show ?case by simp next case 2 then show ?case using unat_addr_bound[of x] by auto }
next
  case (Cons c s)
  have b: "unat (of_int base :: u64) = nat base" using assms by (simp add: unat_of_int64)
  { case 1 with Cons.IH(1) show ?case by (auto split: option.splits if_splits prod.splits)
  next
    case 2
    show ?case
    proof (cases "digit_of base c")
      case None
      with 2 show ?thesis using unat_addr_bound[of x] by auto
    next
      case (Some digit)
      let ?v = "unat x * nat base + unat digit"
      show ?thesis
      proof (cases "2 ^ 64 \<le> ?v")
        case True
        then have "strtoul_loop base x True s = (x', ov, rest)"
          using 2 Some overflow_test [OF assms, of digit x] by simp
        moreover have "2 ^ 64 \<le> digits_val (nat base) ?v (fst (scan_digits base s))"
          using True digits_val_ge [of "nat base" ?v] assms(1) by (meson order_trans zero_less_nat_eq)
        ultimately show ?thesis using Cons.IH(1) Some by (auto split: prod.splits)
      next
        case False
        then have "strtoul_loop base (x * of_int base + digit) False s = (x', ov, rest)"
          using 2 Some overflow_test [OF assms, of digit x] by simp
        from Cons.IH(2) [OF this] have "rest = snd (scan_digits base s)
            \<and> (ov \<longleftrightarrow> 2 ^ 64 \<le> digits_val (nat base) ?v (fst (scan_digits base s)))
            \<and> (\<not> ov \<longrightarrow> unat x' = digits_val (nat base) ?v (fst (scan_digits base s)))"
          using False b by (simp add: unat_word_ariths)
        then show ?thesis using Some by (simp split: prod.splits)
      qed
    qed }
qed

subsection \<open>Arithmetic and random numbers\<close>

lemma rand_bound: "unat (fst (rand st)) < 2 ^ 31"
proof -
  have "fst (rand st) \<le> RAND_MAX"
    by (simp add: rand_def Let_def word_and_le1)
  then show ?thesis by (simp add: RAND_MAX_def word_le_nat_alt)
qed

lemma sint_of_int32: "- (2 ^ 31) \<le> k \<Longrightarrow> k < 2 ^ 31 \<Longrightarrow> sint (of_int k :: 32 word) = k"
  by (simp add: signed_of_int signed_take_bit_int_eq_self)

lemma scaled_le:
  fixes r k M :: nat
  assumes "r < M"
  shows "(r * (k + 1)) div M \<le> k"
proof -
  have "r * (k + 1) < M * (k + 1)" using assms by (intro mult_strict_right_mono) simp_all
  then have "(r * (k + 1)) div M < k + 1"
    using assms by (metis less_mult_imp_div_less mult.commute)
  then show ?thesis by simp
qed

lemma ucast_of_int_64_32: "(ucast (of_int k :: u64) :: u32) = of_int k"
  by (rule bit_word_eqI) (simp add: bit_ucast_iff bit_word_of_int_iff)

lemma rand_range_bounds:
  assumes "sint mn \<le> sint mx" and "sint mx - sint mn < 2 ^ 31 - 1"
  shows "\<exists>v st'. rand_range st mn mx = Inr (v, st') \<and> sint mn \<le> sint v \<and> sint v \<le> sint mx"
proof -
  define k where "k = sint mx - sint mn"
  have k: "0 \<le> k" "k < 2 ^ 31 - 1" using assms by (simp_all add: k_def)
  have diff: "mx - mn = of_int k" by (simp add: k_def)
  then have diff1: "mx - mn + 1 = of_int (k + 1)" by simp
  have sd: "sint (mx - mn) = k" unfolding diff using k by (simp add: sint_of_int32)
  have "sint (mx - mn + 1) = k + 1" unfolding diff1 using k by (intro sint_of_int32) simp_all
  then have span: "unat (scast (mx - mn + 1) :: u64) = nat (k + 1)"
    using k by (simp add: scast_eq unat_of_int64 del: of_int_add)
  define r where "r = fst (rand st)"
  define q where "q = (unat r * (nat k + 1)) div 2 ^ 31"
  have q: "q \<le> nat k" using scaled_le rand_bound by (simp add: q_def r_def)
  have "unat r * (nat k + 1) \<le> 2 ^ 31 * 2 ^ 31"
    using rand_bound [of st] k by (intro mult_le_mono) (simp_all add: r_def)
  then have "unat (r * scast (mx - mn + 1)) = unat r * (nat k + 1)"
    using span k by (subst unat_mult64) (simp_all add: nat_add_distrib)
  then have "unat ((r * scast (mx - mn + 1)) div (RAND_MAX + 1)) = q"
    by (simp add: unat_div q_def RAND_MAX_def)
  then have "(r * scast (mx - mn + 1)) div (RAND_MAX + 1) = of_nat q"
    using arg_cong [of _ _ "of_nat :: nat \<Rightarrow> u64"] by force
  then have v: "rand_range st mn mx = Inr (ucast (scast mn + of_nat q :: u64), snd (rand st))"
    using assms(1) sd k by (simp add: rand_range_def r_def case_prod_beta)
  have "(scast mn + of_nat q :: u64) = of_int (sint mn + int q)" by simp
  then have "(ucast (scast mn + of_nat q :: u64) :: u32) = of_int (sint mn + int q)"
    by (simp only: ucast_of_int_64_32)
  moreover have "sint (of_int (sint mn + int q) :: u32) = sint mn + int q"
    using q k sint_lt [of mx] sint_ge [of mn] by (intro sint_of_int32) (auto simp: k_def)
  ultimately show ?thesis using v q k by (auto simp: k_def)
qed

theorem rand_range_in_range:
  assumes "sint mn \<le> sint mx" and "sint mx - sint mn < 2 ^ 31 - 1"
  shows "\<exists>v st'. rand_range st mn mx = Inr (v, st') \<and> sint mn \<le> sint v \<and> sint v \<le> sint mx"
  using assms by (rule rand_range_bounds)

lemma round_down_nat:
  assumes "m \<noteq> 0"
  shows "unat (round_down x m) = (unat x div unat m) * unat m"
proof -
  have "unat (ucast m :: u64) = unat m" by simp
  then have "unat (x mod ucast m) = unat x mod unat m" by (simp add: unat_mod)
  moreover have "unat x mod unat m \<le> unat x" by simp
  ultimately have "unat (round_down x m) = unat x - unat x mod unat m"
    by (simp add: round_down_def unat_sub_if')
  then show ?thesis by (simp add: minus_mod_eq_div_mult)
qed

theorem round_up_least:
  assumes "m \<noteq> 0" and "unat x + unat m \<le> 2 ^ 64"
  shows "unat m dvd unat (round_up x m) \<and> unat x \<le> unat (round_up x m)
     \<and> unat (round_up x m) < unat x + unat m"
proof -
  have m: "0 < unat m" using assms(1) by (simp add: unat_gt_0)
  have um: "unat (ucast m :: u64) = unat m" by simp
  have "unat (ucast m - 1 :: u64) = unat m - 1"
    using m um by (metis unat_minus_one unat_gt_0 word_gt_0)
  then have "unat (x + (ucast m - 1)) = unat x + unat m - 1"
    using assms(2) m by (subst unat_add64) simp_all
  then have "unat (x + ucast m - 1) = unat x + unat m - 1"
    by (simp only: add_diff_eq)
  then have r: "unat (round_up x m) = ((unat x + unat m - 1) div unat m) * unat m"
    using assms(1) by (simp add: round_up_def round_down_nat)
  define t where "t = unat x + unat m - 1"
  have "t = (t div unat m) * unat m + t mod unat m" by simp
  moreover have "t mod unat m < unat m" using m by simp
  ultimately have "unat x \<le> (t div unat m) * unat m" "(t div unat m) * unat m < unat x + unat m"
    using m unfolding t_def by linarith+
  then show ?thesis unfolding r t_def by simp
qed

lemma msb_from_spec:
  "take_bit k x = x \<Longrightarrow> (msb_from k x = 0 \<longleftrightarrow> x = 0)
   \<and> (x \<noteq> 0 \<longrightarrow> 2 ^ (msb_from k x - 1) \<le> unat x) \<and> unat x < 2 ^ msb_from k x"
proof (induction k)
  case 0
  then show ?case by simp
next
  case (Suc k)
  show ?case
  proof (cases "bit x k")
    case True
    have "unat x < 2 ^ Suc k"
      using Suc.prems by (metis unsigned_take_bit_eq take_bit_nat_less_exp)
    moreover have "2 ^ k \<le> unat x"
    proof (rule ccontr)
      assume "\<not> 2 ^ k \<le> unat x"
      then have "take_bit k (unat x) = unat x" by (simp add: take_bit_nat_eq_self)
      then have "\<not> bit (unat x) k" by (metis bit_take_bit_iff less_irrefl)
      then show False using True by (simp add: bit_unsigned_iff)
    qed
    ultimately show ?thesis using True by auto
  next
    case False
    have "take_bit k x = x"
    proof (rule bit_word_eqI)
      fix n
      have "bit x n \<Longrightarrow> n < Suc k" using Suc.prems by (metis bit_take_bit_iff)
      then show "bit (take_bit k x) n \<longleftrightarrow> bit x n"
        using False by (auto simp: bit_take_bit_iff less_Suc_eq)
    qed
    with Suc.IH False show ?thesis by simp
  qed
qed

theorem memmove_correct_witness:
  "memmove (\<lambda>b. ucast b) 0x1001 0x1000 8 0x1008 = 7 \<and> memmove (\<lambda>b. ucast b) 0x1001 0x1000 8 0x1001 = 0"
  using memmove_correct [of "0x1000" 8 "0x1001" "\<lambda>b. ucast b"] by simp

theorem rand_range_in_range_witness:
  "\<exists>v st'. rand_range (srand 1) 1 6 = Inr (v, st') \<and> 1 \<le> sint v \<and> sint v \<le> 6"
  using rand_range_in_range [of 1 6 "srand 1"] by simp

theorem round_up_least_witness:
  "unat (0x1000 :: u32) dvd unat (round_up 0x12345 0x1000) \<and> 0x12345 \<le> unat (round_up 0x12345 0x1000)"
  using round_up_least [of "0x1000" "0x12345"] by simp

end
