(* ===== verification/Printf.thy ===== *)
theory Printf
  imports Clib
begin

text \<open>
  \<^verbatim>\<open>printer::vprintf\<close> of \<^verbatim>\<open>kernels1/lib.cc\<close> and the string printer behind \<^verbatim>\<open>snprintf\<close>.
  A format is the list of its bytes before the NUL. An argument is an eight-byte vararg slot,
  \<open>VNum\<close> for integers and pointers and \<open>VStr\<close> for the bytes a \<^verbatim>\<open>char*\<close> points at;
  \<^verbatim>\<open>va_arg(val, int)\<close> reads the low half of a slot. \<open>vprintf\<close> yields the sequence of
  \<^verbatim>\<open>putc(c, color)\<close> calls; a printer object is a state with a \<open>putc\<close> operation, run over that
  sequence by \<open>printer_run\<close>.
\<close>

subsection \<open>Digits\<close>

definition ascii :: "string \<Rightarrow> u8 list" where
  "ascii s = map of_char s"

definition upper_digits :: "u8 list" where
  "upper_digits = ascii ''0123456789ABCDEF''"

definition lower_digits :: "u8 list" where
  "lower_digits = ascii ''0123456789abcdef''"

text \<open>The loop of \<open>fill_numbuf\<close>: the bytes from \<open>numbuf_end\<close> to the NUL are the accumulator.\<close>

partial_function (option) fill_loop :: "u8 list \<Rightarrow> u64 \<Rightarrow> u64 \<Rightarrow> u8 list \<Rightarrow> u8 list option" where
  "fill_loop digits base val acc =
     (let acc' = digits ! unat (val mod base) # acc; val' = val div base
      in if val' \<noteq> 0 then fill_loop digits base val' acc' else Some acc')"

definition fill_numbuf :: "u64 \<Rightarrow> int \<Rightarrow> u8 list option" where
  "fill_numbuf val base =
     (if base < 0 then fill_loop lower_digits (of_int (- base)) val []
      else fill_loop upper_digits (of_int base) val [])"

subsection \<open>Varargs\<close>

datatype va = VNum u64 | VStr "u8 list"

fun va_int :: "va list \<Rightarrow> (u32 \<times> va list) res" where
  "va_int (VNum x # r) = Inr (ucast x, r)"
| "va_int _ = Inl BadVarargs"

fun va_long :: "va list \<Rightarrow> (u64 \<times> va list) res" where
  "va_long (VNum x # r) = Inr (x, r)"
| "va_long _ = Inl BadVarargs"

fun va_str :: "va list \<Rightarrow> (u8 list \<times> va list) res" where
  "va_str (VStr s # r) = Inr (s, r)"
| "va_str _ = Inl BadVarargs"

subsection \<open>Parsing a conversion\<close>

definition flag_chars :: "u8 list" where
  "flag_chars = ascii ''#0- +''"

definition FLAG_ALT :: nat where "FLAG_ALT = 0"
definition FLAG_ZERO :: nat where "FLAG_ZERO = 1"
definition FLAG_LEFTJUSTIFY :: nat where "FLAG_LEFTJUSTIFY = 2"
definition FLAG_SPACEPOSITIVE :: nat where "FLAG_SPACEPOSITIVE = 3"
definition FLAG_PLUSPOSITIVE :: nat where "FLAG_PLUSPOSITIVE = 4"
definition FLAG_NUMERIC :: nat where "FLAG_NUMERIC = 5"
definition FLAG_SIGNED :: nat where "FLAG_SIGNED = 6"
definition FLAG_NEGATIVE :: nat where "FLAG_NEGATIVE = 7"
definition FLAG_ALT2 :: nat where "FLAG_ALT2 = 8"

lemmas flag_defs = FLAG_ALT_def FLAG_ZERO_def FLAG_LEFTJUSTIFY_def FLAG_SPACEPOSITIVE_def
  FLAG_PLUSPOSITIVE_def FLAG_NUMERIC_def FLAG_SIGNED_def FLAG_NEGATIVE_def FLAG_ALT2_def

fun list_index :: "u8 \<Rightarrow> u8 list \<Rightarrow> nat option" where
  "list_index c [] = None"
| "list_index c (x # xs) = (if c = x then Some 0 else map_option Suc (list_index c xs))"

fun parse_flags :: "u8 list \<Rightarrow> u32 \<Rightarrow> u32 \<times> u8 list" where
  "parse_flags [] flags = (flags, [])"
| "parse_flags (c # f) flags =
     (case list_index c flag_chars of
        Some k \<Rightarrow> parse_flags f (set_bit k flags)
      | None \<Rightarrow> (flags, c # f))"

definition is_dec :: "u8 \<Rightarrow> bool" where
  "is_dec c \<longleftrightarrow> 48 \<le> c \<and> c \<le> 57"

fun scan_int :: "int \<Rightarrow> u8 list \<Rightarrow> int \<times> u8 list" where
  "scan_int w [] = (w, [])"
| "scan_int w (c # f) = (if is_dec c then scan_int (10 * w + uint c - 48) f else (w, c # f))"

definition parse_width :: "u8 list \<Rightarrow> va list \<Rightarrow> (int \<times> u8 list \<times> va list) res" where
  "parse_width f args =
     (if 49 \<le> hd0 f \<and> hd0 f \<le> 57 then (let (w, f') = scan_int 0 f in Inr (w, f', args))
      else if hd0 f = 42 then
        bind_res (va_int args) (\<lambda>(w, args'). Inr (sint w, tl f, args'))
      else Inr (- 1, f, args))"

definition parse_precision :: "u8 list \<Rightarrow> va list \<Rightarrow> (int \<times> u8 list \<times> va list) res" where
  "parse_precision f args =
     (if hd0 f = 46 then
        (let f1 = tl f
         in if is_dec (hd0 f1) then (let (p, f') = scan_int 0 f1 in Inr (max p 0, f', args))
            else if hd0 f1 = 42 then
              bind_res (va_int args) (\<lambda>(p, args'). Inr (max (sint p) 0, tl f1, args'))
            else Inr (0, f1, args))
      else Inr (- 1, f, args))"

definition parse_length :: "u8 list \<Rightarrow> bool \<times> u8 list" where
  "parse_length f =
     (if hd0 f = 108 \<or> hd0 f = 116 \<or> hd0 f = 122 then (True, tl f)
      else if hd0 f = 104 then (False, tl f)
      else (False, f))"

record fspec =
  flags :: u32
  width :: int
  precision :: int
  long :: bool

definition parse_spec :: "u8 list \<Rightarrow> va list \<Rightarrow> (fspec \<times> u8 list \<times> va list) res" where
  "parse_spec f args =
     (let (fl, f1) = parse_flags f 0
      in bind_res (parse_width f1 args) (\<lambda>(w, f2, args2).
         bind_res (parse_precision f2 args2) (\<lambda>(p, f3, args3).
         let (l, f4) = parse_length f3
         in Inr (\<lparr>flags = fl, width = w, precision = p, long = l\<rparr>, f4, args3))))"

subsection \<open>The conversion itself\<close>

text \<open>
  The main switch: either \<open>%C\<close>, which only changes the colour, or the base, the number and
  the string to print with the updated flags.
\<close>

datatype conv = SetColor u32 "va list" | Data u32 int u64 "u8 list" "va list"

definition cstr :: "u8 list \<Rightarrow> u8 list" where
  "cstr s = takeWhile (\<lambda>b. b \<noteq> 0) s"

definition format_unsigned :: "int \<Rightarrow> u32 \<Rightarrow> bool \<Rightarrow> va list \<Rightarrow> conv res" where
  "format_unsigned base fl l args =
     bind_res (if l then va_long args
               else bind_res (va_int args) (\<lambda>(x, r). Inr (ucast x, r))) (\<lambda>(num, r).
     Inr (Data (set_bit FLAG_NUMERIC fl) base num [] r))"

definition convert :: "u8 \<Rightarrow> fspec \<Rightarrow> va list \<Rightarrow> conv res" where
  "convert c sp args =
     (if c = 100 \<or> c = 105 then
        bind_res (if long sp then va_long args
                  else bind_res (va_int args) (\<lambda>(x, r). Inr (scast x, r))) (\<lambda>(x, r).
        let negative = sint x < 0;
            num = (if negative then - x else x);
            fl = set_bit FLAG_SIGNED (set_bit FLAG_NUMERIC (flags sp))
        in Inr (Data (if negative then set_bit FLAG_NEGATIVE fl else fl) 10 num [] r))
      else if c = 117 then format_unsigned 10 (flags sp) (long sp) args
      else if c = 120 then format_unsigned (- 16) (flags sp) (long sp) args
      else if c = 88 then format_unsigned 16 (flags sp) (long sp) args
      else if c = 112 then
        bind_res (va_long args) (\<lambda>(num, r).
        Inr (Data (set_bit FLAG_NUMERIC (set_bit FLAG_ALT2 (set_bit FLAG_ALT (flags sp))))
               (- 16) num [] r))
      else if c = 115 then
        bind_res (va_str args) (\<lambda>(s, r). Inr (Data (flags sp) 10 0 s r))
      else if c = 67 then
        bind_res (va_int args) (\<lambda>(col, r). Inr (SetColor col r))
      else if c = 99 then
        bind_res (va_int args) (\<lambda>(x, r). Inr (Data (flags sp) 10 0 [ucast x] r))
      else Inr (Data (flags sp) 10 0 [if c \<noteq> 0 then c else 37] args))"

definition prefix_of :: "u32 \<Rightarrow> int \<Rightarrow> u64 \<Rightarrow> u8 list" where
  "prefix_of fl base num =
     (if bit fl FLAG_NUMERIC \<and> bit fl FLAG_SIGNED then
        (if bit fl FLAG_NEGATIVE then ascii ''-''
         else if bit fl FLAG_PLUSPOSITIVE then ascii ''+''
         else if bit fl FLAG_SPACEPOSITIVE then ascii '' '' else [])
      else if bit fl FLAG_NUMERIC \<and> bit fl FLAG_ALT \<and> (base = 16 \<or> base = - 16)
        \<and> (num \<noteq> 0 \<or> bit fl FLAG_ALT2)
      then (if base = - 16 then ascii ''0x'' else ascii ''0X'') else [])"

definition datalen_of :: "u32 \<Rightarrow> int \<Rightarrow> u8 list \<Rightarrow> int" where
  "datalen_of fl prec data =
     (if prec \<ge> 0 \<and> \<not> bit fl FLAG_NUMERIC then int (length (cstr (take (nat prec) data)))
      else int (length (cstr data)))"

definition zeros_of :: "u32 \<Rightarrow> int \<Rightarrow> int \<Rightarrow> int \<Rightarrow> int \<Rightarrow> int" where
  "zeros_of fl w prec datalen plen =
     (if bit fl FLAG_NUMERIC \<and> prec \<ge> 0 then (if prec > datalen then prec - datalen else 0)
      else if bit fl FLAG_NUMERIC \<and> bit fl FLAG_ZERO \<and> \<not> bit fl FLAG_LEFTJUSTIFY
        \<and> datalen + plen < w then w - datalen - plen
      else 0)"

definition layout :: "u32 \<Rightarrow> int \<Rightarrow> int \<Rightarrow> int \<Rightarrow> u64 \<Rightarrow> u8 list \<Rightarrow> u8 list" where
  "layout fl w0 prec base num data =
     (let prefix = prefix_of fl base num;
          datalen = datalen_of fl prec data;
          zeros = zeros_of fl w0 prec datalen (int (length prefix));
          w = w0 - (datalen + zeros + int (length prefix));
          left = bit fl FLAG_LEFTJUSTIFY
      in replicate (if left then 0 else nat w) 32 @ prefix @ replicate (nat zeros) 48
         @ take (nat datalen) data @ replicate (if left then nat w else 0) 32)"

lemma parse_flags_length: "parse_flags f fl = (fl', f') \<Longrightarrow> length f' \<le> length f"
  by (induction f fl rule: parse_flags.induct) (auto split: option.splits)

lemma scan_int_length: "scan_int w f = (w', f') \<Longrightarrow> length f' \<le> length f"
  by (induction w f rule: scan_int.induct) (auto split: if_splits)

lemma parse_width_length: "parse_width f args = Inr (w, f', args') \<Longrightarrow> length f' \<le> length f"
  by (auto simp: parse_width_def res_simps dest: scan_int_length split: if_splits prod.splits)

lemma parse_precision_length:
  "parse_precision f args = Inr (p, f', args') \<Longrightarrow> length f' \<le> length f"
  by (auto simp: parse_precision_def res_simps Let_def dest!: scan_int_length
      split: if_splits prod.splits)

lemma parse_length_length: "parse_length f = (l, f') \<Longrightarrow> length f' \<le> length f"
  by (auto simp: parse_length_def split: if_splits)

lemma parse_spec_length:
  assumes "parse_spec f args = Inr (sp, f', args')"
  shows "length f' \<le> length f"
proof -
  obtain fl f1 where 1: "parse_flags f 0 = (fl, f1)" by (cases "parse_flags f 0") auto
  obtain w f2 args2 where 2: "parse_width f1 args = Inr (w, f2, args2)"
    using assms 1 by (auto simp: parse_spec_def res_simps)
  obtain p f3 args3 where 3: "parse_precision f2 args2 = Inr (p, f3, args3)"
    using assms 1 2 by (auto simp: parse_spec_def res_simps)
  obtain l where 4: "parse_length f3 = (l, f')"
    using assms 1 2 3 by (auto simp: parse_spec_def split: prod.splits)
  show ?thesis
    using parse_flags_length [OF 1] parse_width_length [OF 2] parse_precision_length [OF 3]
      parse_length_length [OF 4] by simp
qed

function vprintf :: "u32 \<Rightarrow> u8 list \<Rightarrow> va list \<Rightarrow> (u8 \<times> u32) list res" where
  "vprintf color [] args = Inr []"
| "vprintf color (c # f) args =
     (if c \<noteq> 37 then bind_res (vprintf color f args) (\<lambda>out. Inr ((c, color) # out))
      else bind_res (parse_spec f args) (\<lambda>(sp, f', args').
        bind_res (convert (hd0 f') sp args') (\<lambda>cv.
        case cv of
          SetColor col r \<Rightarrow> vprintf col (tl f') r
        | Data fl base num data0 r \<Rightarrow>
            bind_res (if bit fl FLAG_NUMERIC
                      then (case fill_numbuf num base of
                              None \<Rightarrow> Inl OutOfFuel | Some d \<Rightarrow> Inr d)
                      else Inr data0) (\<lambda>data.
            bind_res (vprintf color (tl f') r) (\<lambda>out.
            Inr (map (\<lambda>b. (b, color))
                   (layout fl (width sp) (precision sp) base num data) @ out))))))"
  by pat_completeness auto
termination
  by (relation "measure (\<lambda>(color, f, args). length f)")
    (auto dest!: parse_spec_length simp: less_Suc_eq_le)

subsection \<open>Printers\<close>

fun printer_run :: "('s \<Rightarrow> u8 \<Rightarrow> u32 \<Rightarrow> 's res) \<Rightarrow> 's \<Rightarrow> (u8 \<times> u32) list \<Rightarrow> 's res" where
  "printer_run putc s [] = Inr s"
| "printer_run putc s ((c, col) # out) = bind_res (putc s c col) (\<lambda>s'. printer_run putc s' out)"

record string_printer =
  sp_mem :: memory
  sp_s :: addr
  sp_end :: addr
  sp_n :: u64

definition string_putc :: "string_printer \<Rightarrow> u8 \<Rightarrow> u32 \<Rightarrow> string_printer res" where
  "string_putc sp c col =
     (let sp1 = (if sp_s sp < sp_end sp
                 then sp\<lparr>sp_mem := (sp_mem sp)(sp_s sp := c), sp_s := sp_s sp + 1\<rparr> else sp)
      in Inr (sp1\<lparr>sp_n := sp_n sp1 + 1\<rparr>))"

definition vsnprintf ::
  "memory \<Rightarrow> addr \<Rightarrow> u64 \<Rightarrow> u8 list \<Rightarrow> va list \<Rightarrow> (u64 \<times> memory) res" where
  "vsnprintf m s sz format val =
     bind_res (vprintf 0 format val) (\<lambda>out.
     bind_res (printer_run string_putc
                 \<lparr>sp_mem = m, sp_s = s, sp_end = s + sz, sp_n = 0\<rparr> out) (\<lambda>sp.
     let m' = sp_mem sp
     in Inr (sp_n sp,
          if sz \<noteq> 0 \<and> sp_s sp < sp_end sp then m'(sp_s sp := 0)
          else if sz \<noteq> 0 then m'(sp_end sp - 1 := 0) else m')))"

subsection \<open>Specifications\<close>

text \<open>
  \<open>nat_digits b n\<close> are the digits of a number, most significant first; \<open>decimal\<close> and
  \<open>hexadecimal\<close> the strings made of them. \<open>string_inv\<close> is the invariant of the string printer:
  the write position stays in the buffer and no byte outside it changes.
\<close>

fun nat_digits :: "nat \<Rightarrow> nat \<Rightarrow> nat list" where
  "nat_digits b n = (if b < 2 \<or> n < b then [n] else nat_digits b (n div b) @ [n mod b])"

definition decimal :: "u64 \<Rightarrow> u8 list" where
  "decimal val = map ((!) upper_digits) (nat_digits 10 (unat val))"

definition hexadecimal :: "u64 \<Rightarrow> u8 list" where
  "hexadecimal val = map ((!) lower_digits) (nat_digits 16 (unat val))"

definition string_inv :: "memory \<Rightarrow> addr \<Rightarrow> u64 \<Rightarrow> string_printer \<Rightarrow> bool" where
  "string_inv m s sz sp \<longleftrightarrow> unat s + unat sz < 2 ^ 64 \<and> sp_end sp = s + sz
     \<and> unat (sp_s sp - s) \<le> unat sz \<and> (\<forall>b. unat sz \<le> unat (b - s) \<longrightarrow> sp_mem sp b = m b)"

definition string_after :: "memory \<Rightarrow> addr \<Rightarrow> u64 \<Rightarrow> (u8 \<times> u32) list \<Rightarrow> string_printer" where
  "string_after m s sz out =
     \<lparr>sp_mem = (\<lambda>b. if unat (b - s) < min (length out) (unat sz) then fst (out ! unat (b - s)) else m b),
      sp_s = s + of_nat (min (length out) (unat sz)), sp_end = s + sz, sp_n = of_nat (length out)\<rparr>"

subsection \<open>Printing numbers\<close>

declare nat_digits.simps [simp del]

lemma nat_digits_bound: "2 \<le> b \<Longrightarrow> d \<in> set (nat_digits b n) \<Longrightarrow> d < b"
proof (induction b n rule: nat_digits.induct)
  case (1 b n)
  then show ?case by (subst (asm) nat_digits.simps) (auto split: if_splits)
qed

lemma foldl_nat_digits: "2 \<le> b \<Longrightarrow> foldl (\<lambda>v d. v * b + d) 0 (nat_digits b n) = n"
proof (induction b n rule: nat_digits.induct)
  case (1 b n)
  then show ?case by (subst nat_digits.simps) auto
qed

lemma nat_digits_length: "2 \<le> b \<Longrightarrow> n < b ^ Suc k \<Longrightarrow> length (nat_digits b n) \<le> Suc k"
proof (induction k arbitrary: n)
  case 0
  then show ?case by (subst nat_digits.simps) auto
next
  case (Suc k)
  have "n div b < b ^ Suc k" using Suc.prems by (simp add: less_mult_imp_div_less mult.commute)
  then have "length (nat_digits b (n div b)) \<le> Suc k" using Suc by simp
  then show ?case by (subst nat_digits.simps) auto
qed

lemma nat_digits_hd: "2 \<le> b \<Longrightarrow> 0 < n \<Longrightarrow> hd (nat_digits b n) \<noteq> 0"
proof (induction b n rule: nat_digits.induct)
  case (1 b n)
  show ?case
  proof (cases "n < b")
    case True
    with "1.prems" show ?thesis by (subst nat_digits.simps) auto
  next
    case False
    then have "0 < n div b" using "1.prems" by (simp add: div_greater_zero_iff)
    then have "hd (nat_digits b (n div b)) \<noteq> 0" using False "1" by simp
    moreover have "nat_digits b (n div b) \<noteq> []" by (subst nat_digits.simps) simp
    ultimately show ?thesis using False "1.prems" by (subst nat_digits.simps) auto
  qed
qed

lemma fill_loop_digits:
  assumes "2 \<le> unat base"
  shows "fill_loop digits base val acc =
     Some (map ((!) digits) (nat_digits (unat base) (unat val)) @ acc)"
proof (induction "unat val" arbitrary: val acc rule: less_induct)
  case less
  let ?b = "unat base"
  have d: "unat (val div base) = unat val div ?b" and m: "unat (val mod base) = unat val mod ?b"
    by (simp_all add: unat_div unat_mod)
  show ?case
  proof (cases "unat val < ?b")
    case True
    then have "val div base = 0" using d by (simp add: unat_eq_zero [symmetric])
    with True m show ?thesis
      by (subst fill_loop.simps, subst nat_digits.simps) simp
  next
    case False
    then have "val div base \<noteq> 0"
    proof -
      have "0 < unat val div ?b" using False assms by (simp add: div_greater_zero_iff)
      then show ?thesis using d by (metis less_irrefl unat_0)
    qed
    moreover have "unat (val div base) < unat val"
      using d False assms by simp
    ultimately show ?thesis
      using less [of "val div base"] False assms d m
      by (subst fill_loop.simps, subst nat_digits.simps) simp
  qed
qed

lemma fill_numbuf_digits:
  assumes "base = 10 \<or> base = 16 \<or> base = - 16"
  shows "fill_numbuf val base =
     Some (map ((!) (if base < 0 then lower_digits else upper_digits))
       (nat_digits (nat \<bar>base\<bar>) (unat val)))"
  using assms by (auto simp: fill_numbuf_def fill_loop_digits)

lemma digit_tables_nonzero: "0 \<notin> set upper_digits" "0 \<notin> set lower_digits"
  by code_simp+

lemma digit_tables_length [simp]: "length upper_digits = 16" "length lower_digits = 16"
  by (simp_all add: upper_digits_def lower_digits_def ascii_def)

lemma fill_numbuf_bounds:
  assumes "base = 10 \<or> base = 16 \<or> base = - 16"
  shows "\<exists>ds. fill_numbuf val base = Some ds \<and> ds \<noteq> [] \<and> length ds + 1 \<le> 24 \<and> 0 \<notin> set ds"
proof -
  define b where "b = nat \<bar>base\<bar>"
  define tab where "tab = (if base < 0 then lower_digits else upper_digits)"
  have b: "2 \<le> b" "b \<le> 16" using assms by (auto simp: b_def)
  have "(2::nat) ^ 64 \<le> b ^ Suc 19" using assms by (auto simp: b_def)
  with unat_addr_bound [of val] have "unat val < b ^ Suc 19" by (rule less_le_trans)
  then have len: "length (nat_digits b (unat val)) \<le> 20"
    using nat_digits_length [of b "unat val" 19] b by simp
  have "0 \<notin> set (map ((!) tab) (nat_digits b (unat val)))"
  proof
    assume "0 \<in> set (map ((!) tab) (nat_digits b (unat val)))"
    then obtain d where d: "d \<in> set (nat_digits b (unat val))" "tab ! d = 0" by auto
    then have "d < 16" using nat_digits_bound [of b d "unat val"] b by simp
    with d(2) have "d < 16" "tab ! d = 0" by simp_all
    then have "0 \<in> set tab" by (metis nth_mem digit_tables_length tab_def)
    then show False using digit_tables_nonzero by (simp add: tab_def split: if_splits)
  qed
  moreover have "nat_digits b (unat val) \<noteq> []" by (subst nat_digits.simps) simp
  ultimately show ?thesis using len fill_numbuf_digits [OF assms] by (simp add: b_def tab_def)
qed

lemma digit_of_upper:
  "d < 10 \<Longrightarrow> digit_of 10 (upper_digits ! d) = Some (of_nat d)"
  "d < 16 \<Longrightarrow> digit_of 16 (upper_digits ! d) = Some (of_nat d)"
  "d < 16 \<Longrightarrow> digit_of 16 (lower_digits ! d) = Some (of_nat d)"
proof -
  have "list_all (\<lambda>d. digit_of 10 (upper_digits ! d) = Some (of_nat d)) [0..<10]" by code_simp
  then show "d < 10 \<Longrightarrow> digit_of 10 (upper_digits ! d) = Some (of_nat d)" by (simp add: list_all_iff)
  have "list_all (\<lambda>d. digit_of 16 (upper_digits ! d) = Some (of_nat d)) [0..<16]" by code_simp
  then show "d < 16 \<Longrightarrow> digit_of 16 (upper_digits ! d) = Some (of_nat d)" by (simp add: list_all_iff)
  have "list_all (\<lambda>d. digit_of 16 (lower_digits ! d) = Some (of_nat d)) [0..<16]" by code_simp
  then show "d < 16 \<Longrightarrow> digit_of 16 (lower_digits ! d) = Some (of_nat d)" by (simp add: list_all_iff)
qed
lemma scan_digits_all:
  "(\<And>d. d \<in> set ds \<Longrightarrow> digit_of base (f d) = Some (of_nat d)) \<Longrightarrow>
   scan_digits base (map f ds) = (map of_nat ds, [])"
  by (induction ds) auto

lemma digits_val_nat:
  "(\<And>d. d \<in> set ds \<Longrightarrow> d < 2 ^ 64) \<Longrightarrow>
   digits_val b v (map of_nat ds) = foldl (\<lambda>v d. v * b + d) v ds"
  by (induction ds arbitrary: v) (simp_all add: unat_of_nat64)

lemma strtoul_loop_digits:
  fixes val :: u64
  assumes "base = 10 \<or> base = 16" and
    "\<And>d. d < nat base \<Longrightarrow> digit_of base (f d) = Some (of_nat d)"
  shows "strtoul_loop base 0 False (map f (nat_digits (nat base) (unat val))) = (val, False, [])"
proof -
  let ?ds = "nat_digits (nat base) (unat val)"
  have b: "0 < base" "base \<le> 36" "2 \<le> nat base" using assms(1) by auto
  have bd: "d < nat base" if "d \<in> set ?ds" for d using nat_digits_bound [OF b(3) that] .
  have bd64: "d < 2 ^ 64" if "d \<in> set ?ds" for d using bd [OF that] assms(1) by auto
  have sc: "scan_digits base (map f ?ds) = (map of_nat ?ds, [])"
    using assms(2) bd by (intro scan_digits_all) blast
  have "digits_val (nat base) 0 (map of_nat ?ds) = unat val"
    using bd64 foldl_nat_digits [OF b(3), of "unat val"] by (subst digits_val_nat) simp_all
  moreover obtain x ov rest where r: "strtoul_loop base 0 False (map f ?ds) = (x, ov, rest)"
    by (cases "strtoul_loop base 0 False (map f ?ds)") auto
  ultimately show ?thesis
    using strtoul_loop_scan(2) [OF b(1,2) r] sc by (simp add: word_unat_eq_iff)
qed
lemma digit_chars_plain:
  "d < 16 \<Longrightarrow> \<not> isspace (sint (upper_digits ! d)) \<and> upper_digits ! d \<noteq> 45 \<and> upper_digits ! d \<noteq> 43"
  "d < 16 \<Longrightarrow> \<not> isspace (sint (lower_digits ! d)) \<and> lower_digits ! d \<noteq> 45 \<and> lower_digits ! d \<noteq> 43"
proof -
  have "list_all (\<lambda>d. \<not> isspace (sint (upper_digits ! d)) \<and> upper_digits ! d \<noteq> 45
      \<and> upper_digits ! d \<noteq> 43) [0..<16]" by code_simp
  then show "d < 16 \<Longrightarrow> \<not> isspace (sint (upper_digits ! d)) \<and> upper_digits ! d \<noteq> 45 \<and> upper_digits ! d \<noteq> 43"
    by (simp add: list_all_iff)
  have "list_all (\<lambda>d. \<not> isspace (sint (lower_digits ! d)) \<and> lower_digits ! d \<noteq> 45
      \<and> lower_digits ! d \<noteq> 43) [0..<16]" by code_simp
  then show "d < 16 \<Longrightarrow> \<not> isspace (sint (lower_digits ! d)) \<and> lower_digits ! d \<noteq> 45 \<and> lower_digits ! d \<noteq> 43"
    by (simp add: list_all_iff)
qed

lemma decimal_cases:
  obtains c s where "decimal val = c # s" "\<not> isspace (sint c)" "c \<noteq> 45" "c \<noteq> 43"
proof -
  obtain d ds where d: "nat_digits 10 (unat val) = d # ds"
    by (cases "nat_digits 10 (unat val)") (auto simp: nat_digits.simps [of 10 "unat val"] split: if_splits)
  then have "d < 10" using nat_digits_bound [of 10 d "unat val"] by simp
  then show thesis using that digit_chars_plain(1) [of d] d by (simp add: decimal_def)
qed

lemma strtoul_loop_decimal: "strtoul_loop 10 0 False (decimal val) = (val, False, [])"
  unfolding decimal_def using strtoul_loop_digits [of 10 "(!) upper_digits" val] digit_of_upper(1) by simp

lemma strtoul_loop_hexadecimal: "strtoul_loop 16 0 False (hexadecimal val) = (val, False, [])"
  unfolding hexadecimal_def
  using strtoul_loop_digits [of 16 "(!) lower_digits" val] digit_of_upper(3) by simp

lemma strtoul_decimal: "strtoul (decimal val) 10 = (val, [])"
proof -
  obtain c s where c: "decimal val = c # s" "\<not> isspace (sint c)" "c \<noteq> 45" "c \<noteq> 43" by (rule decimal_cases)
  then have "skip_space (decimal val) = decimal val" "hd0 (decimal val) = c" by (simp_all add: hd0_def)
  then show ?thesis using c strtoul_loop_decimal [of val]
    by (simp add: strtoul_def detect_base_def Let_def)
qed

lemma fill_numbuf_decimal [simp]: "fill_numbuf val 10 = Some (decimal val)"
  by (simp add: fill_numbuf_digits decimal_def)

lemma fill_numbuf_hexadecimal [simp]: "fill_numbuf val (- 16) = Some (hexadecimal val)"
  by (simp add: fill_numbuf_digits hexadecimal_def)

lemma cstr_nonzero: "0 \<notin> set s \<Longrightarrow> cstr s = s"
  by (auto simp: cstr_def takeWhile_eq_all_conv)

lemma cstr_decimal [simp]: "cstr (decimal val) = decimal val"
  using fill_numbuf_bounds [of 10 val] by (auto intro: cstr_nonzero)

lemma cstr_hexadecimal [simp]: "cstr (hexadecimal val) = hexadecimal val"
  using fill_numbuf_bounds [of "- 16" val] by (auto intro: cstr_nonzero)

lemmas vprintf_eval = ascii_def parse_spec_def parse_width_def parse_precision_def parse_length_def
  hd0_def is_dec_def flag_chars_def convert_def format_unsigned_def flag_defs bit_simps
  layout_def prefix_of_def datalen_of_def zeros_of_def Let_def

text \<open>Enough to see that a format matches its arguments, leaving the layout unevaluated.\<close>

lemmas vprintf_match = ascii_def parse_spec_def parse_width_def parse_precision_def parse_length_def
  hd0_def is_dec_def flag_chars_def convert_def format_unsigned_def flag_defs bit_simps Let_def

lemma vprintf_lu: "vprintf col (ascii ''%lu'') [VNum x] = Inr (map (\<lambda>b. (b, col)) (decimal x))"
  by (simp add: vprintf_eval)

lemma vprintf_p:
  "vprintf col (ascii ''%p'') [VNum x] = Inr (map (\<lambda>b. (b, col)) (ascii ''0x'' @ hexadecimal x))"
  by (simp add: vprintf_eval)

lemma vprintf_ld:
  "vprintf col (ascii ''%ld'') [VNum x] = Inr (map (\<lambda>b. (b, col))
     (if sint x < 0 then ascii ''-'' @ decimal (- x) else decimal x))"
  by (simp add: vprintf_eval)

lemma vprintf_d:
  "vprintf col (ascii ''%d'') [VNum x] = Inr (map (\<lambda>b. (b, col))
     (let y = scast (ucast x :: u32) in if sint y < 0 then ascii ''-'' @ decimal (- y) else decimal y))"
  by (simp add: vprintf_eval)


text \<open>
  C19: Printing a 64-bit signed integer with \<open>%ld\<close> and reading the text back with
  \<open>strtol(..., 10)\<close> gives the integer, for all values, and consumes the whole text;
  every character has the colour given.
\<close>
theorem printf_strtol_roundtrip:
  "\<exists>out. vprintf col (ascii ''%ld'') [VNum x] = Inr out \<and> strtol (map fst out) 10 = (x, [])
    \<and> snd ` set out \<subseteq> {col}"
proof -
  have nn: "strtol (decimal x) 10 = (x, [])" if "\<not> sint x < 0"
  proof -
    obtain c s where c: "decimal x = c # s" "\<not> isspace (sint c)" "c \<noteq> 45" "c \<noteq> 43" by (rule decimal_cases)
    then have "skip_space (decimal x) = decimal x" "hd0 (decimal x) = c" by (simp_all add: hd0_def)
    moreover have "\<not> push_bit 63 1 - 1 < x"
      using that by (simp add: sint_neg_iff word_less_nat_alt)
    ultimately show ?thesis using c strtoul_decimal [of x] by (simp add: strtol_def Let_def)
  qed
  have neg: "strtol (ascii ''-'' @ decimal (- x)) 10 = (x, [])" if "sint x < 0"
  proof -
    have "x \<noteq> 0" using that by auto
    then have "unat (- x) = 2 ^ 64 - unat x"
      using unat_sub_if' [of 0 x] by (simp add: unat_gt_0 [symmetric])
    then have "\<not> push_bit 63 1 < - x"
      using that by (simp add: sint_neg_iff word_less_nat_alt)
    then show ?thesis using strtoul_decimal [of "- x"]
      by (simp add: strtol_def Let_def ascii_def isspace_def hd0_def)
  qed
  show ?thesis using nn neg by (auto simp: vprintf_ld comp_def)
qed

theorem printf_p_strtoul_roundtrip:
  "\<exists>out. vprintf col (ascii ''%p'') [VNum x] = Inr out \<and> strtoul (map fst out) 0 = (x, [])"
proof -
  have "strtoul (ascii ''0x'' @ hexadecimal x) 0 = (x, [])"
    using strtoul_loop_hexadecimal [of x]
    by (simp add: strtoul_def detect_base_def has_0x_def Let_def ascii_def isspace_def hd0_def)
  then show ?thesis by (simp add: vprintf_p comp_def)
qed

lemma printer_run_append:
  "printer_run putc s (xs @ ys) = bind_res (printer_run putc s xs) (\<lambda>s'. printer_run putc s' ys)"
proof (induction xs arbitrary: s)
  case (Cons x xs)
  then show ?case by (cases x; cases "putc s (fst x) (snd x)") auto
qed simp

lemma printer_run_rel:
  assumes "\<And>s c col s'. putc s c col = Inr s' \<Longrightarrow> R s s'" "\<And>s. R s s"
    "\<And>a b c. R a b \<Longrightarrow> R b c \<Longrightarrow> R a c"
  shows "printer_run putc s out = Inr s' \<Longrightarrow> R s s'"
proof (induction out arbitrary: s)
  case (Cons p out)
  then obtain s1 where "putc s (fst p) (snd p) = Inr s1" "printer_run putc s1 out = Inr s'"
    by (cases p) (auto simp: res_simps)
  then show ?case using assms(1,3) Cons.IH by blast
qed (use assms(2) in simp)

locale printer =
  fixes putc :: "'s \<Rightarrow> u8 \<Rightarrow> u32 \<Rightarrow> 's res"
    and inv :: "'s \<Rightarrow> bool"
  assumes putc_ok: "inv s \<Longrightarrow> \<exists>s'. putc s c col = Inr s' \<and> inv s'"
begin

lemma run_ok: "inv s \<Longrightarrow> \<exists>s'. printer_run putc s out = Inr s' \<and> inv s'"
proof (induction out arbitrary: s)
  case (Cons p out)
  obtain s1 where s1: "putc s (fst p) (snd p) = Inr s1" "inv s1"
    using putc_ok Cons.prems by blast
  obtain s2 where "printer_run putc s1 out = Inr s2" "inv s2"
    using Cons.IH [OF s1(2)] by blast
  with s1 show ?case by (cases p) simp
qed simp

end

lemma cursor_less_end:
  fixes s sz p :: addr
  assumes "unat s + unat sz < 2 ^ 64" "unat (p - s) \<le> unat sz"
  shows "p < s + sz \<longleftrightarrow> unat (p - s) < unat sz"
proof -
  have "unat p = unat (s + (p - s))" by simp
  also have "\<dots> = unat s + unat (p - s)" using assms by (subst unat_add64) simp_all
  finally show ?thesis using assms by (simp add: word_less_nat_alt unat_add64)
qed

lemma unat_cursor_Suc:
  fixes s p :: addr
  assumes "unat (p - s) < 2 ^ 64 - 1"
  shows "unat (p + 1 - s) = Suc (unat (p - s))"
proof -
  have "p + 1 - s = (p - s) + 1" by simp
  then show ?thesis using assms by (simp only:) (subst unat_add64, simp_all)
qed

interpretation str_printer: printer string_putc "string_inv m s sz" for m s sz
proof
  fix sp c col
  assume inv: "string_inv m s sz sp"
  let ?sp = "(if sp_s sp < sp_end sp
      then sp\<lparr>sp_mem := (sp_mem sp)(sp_s sp := c), sp_s := sp_s sp + 1\<rparr> else sp)"
  have "string_inv m s sz ?sp"
    using inv cursor_less_end [of s sz "sp_s sp"] unat_addr_bound [of sz] unat_cursor_Suc [of "sp_s sp" s]
    by (auto simp: string_inv_def)
  then show "\<exists>s'. string_putc sp c col = Inr s' \<and> string_inv m s sz s'"
    by (auto simp: string_putc_def Let_def string_inv_def)
qed

subsection \<open>Bounded formatting\<close>

lemma string_run:
  assumes "unat s + unat sz < 2 ^ 64"
  shows "printer_run string_putc \<lparr>sp_mem = m, sp_s = s, sp_end = s + sz, sp_n = 0\<rparr> out =
     Inr (string_after m s sz out)"
proof (induction out rule: rev_induct)
  case Nil
  then show ?case by (simp add: string_after_def)
next
  case (snoc p out)
  obtain c col where p: "p = (c, col)" by (cases p)
  let ?k = "min (length out) (unat sz)"
  have k: "unat (s + of_nat ?k - s) = ?k"
    by (intro unat_offset_diff) (simp add: min_less_iff_disj)
  have less: "s + of_nat ?k < s + sz \<longleftrightarrow> length out < unat sz"
    using cursor_less_end [OF assms, of "s + of_nat ?k"] unfolding k by auto
  have "string_putc (string_after m s sz out) c col = Inr (string_after m s sz (out @ [p]))"
  proof (cases "length out < unat sz")
    case True
    have "(\<lambda>b. if unat (b - s) < length out then fst (out ! unat (b - s)) else m b)
        (s + of_nat (length out) := c) =
      (\<lambda>b. if unat (b - s) < Suc (length out) then fst ((out @ [p]) ! unat (b - s)) else m b)"
      (is "?f = ?g")
    proof
      fix b
      have "unat (b - s) = length out \<longleftrightarrow> b = s + of_nat (length out)"
        using k True by (metis addr_offset min.absorb3)
      then show "?f b = ?g b" by (auto simp: nth_append p less_Suc_eq)
    qed
    with True less show ?thesis
      by (simp add: string_putc_def string_after_def Let_def ac_simps)
  next
    case False
    then show ?thesis using less
      by (auto simp: string_putc_def string_after_def Let_def nth_append ac_simps)
  qed
  then show ?case using snoc by (simp add: printer_run_append p)
qed

lemma vsnprintf_spec:
  assumes "vprintf 0 fmt args = Inr out" and "unat s + unat sz < 2 ^ 64" and "sz \<noteq> 0"
  defines "k \<equiv> min (length out) (unat sz - 1)"
  shows "\<exists>m'. vsnprintf m s sz fmt args = Inr (of_nat (length out), m')
    \<and> (\<forall>i < k. m' (s + of_nat i) = fst (out ! i)) \<and> m' (s + of_nat k) = 0
    \<and> (\<forall>b. unat sz \<le> unat (b - s) \<longrightarrow> m' b = m b)"
proof -
  have sz: "0 < unat sz" using assms(3) by (simp add: unat_gt_0)
  let ?sp = "string_after m s sz out"
  let ?k' = "min (length out) (unat sz)"
  have k': "unat (s + of_nat ?k' - s) = ?k'"
    by (intro unat_offset_diff) (simp add: min_less_iff_disj)
  have less: "sp_s ?sp < sp_end ?sp \<longleftrightarrow> length out < unat sz"
    using cursor_less_end [OF assms(2), of "s + of_nat ?k'"] unfolding k' by (auto simp: string_after_def)
  have off: "unat (s + of_nat i - s) = i" if "i < unat sz" for i
    using less_trans [OF that unat_addr_bound] by (rule unat_offset_diff)
  define m' where "m' = (sp_mem ?sp)(s + of_nat k := 0)"
  have "vsnprintf m s sz fmt args = Inr (of_nat (length out), m')"
  proof (cases "length out < unat sz")
    case True
    then have "k = length out" by (simp add: k_def)
    with True have "sp_s ?sp = s + of_nat k" by (simp add: string_after_def)
    then show ?thesis
      using less True assms(1,3) string_run [OF assms(2)]
      by (simp add: vsnprintf_def m'_def Let_def) (simp add: string_after_def)
  next
    case False
    then have "k = unat sz - 1" by (simp add: k_def)
    then have "sp_end ?sp - 1 = s + of_nat k"
      using sz by (simp add: string_after_def of_nat_diff)
    then show ?thesis
      using less False assms(1,3) string_run [OF assms(2)]
      by (simp add: vsnprintf_def m'_def Let_def) (simp add: string_after_def)
  qed
  moreover have kk: "k < unat sz" using sz by (simp add: k_def)
  have "m' (s + of_nat i) = fst (out ! i)" if "i < k" for i
  proof -
    have "s + of_nat i \<noteq> s + of_nat k" using off [of i] off [of k] kk that by (metis less_irrefl less_trans)
    moreover have i: "i < length out" "i < unat sz" using that kk by (auto simp: k_def)
    ultimately show ?thesis using off [OF i(2)] by (simp add: m'_def string_after_def)
  qed
  moreover have "m' b = m b" if "unat sz \<le> unat (b - s)" for b
  proof -
    have "b \<noteq> s + of_nat k" using off [of k] kk that by auto
    then show ?thesis using that by (simp add: m'_def string_after_def)
  qed
  ultimately show ?thesis by (auto simp: m'_def)
qed

subsection \<open>Properties\<close>

theorem fill_numbuf_fits:
  assumes "base = 10 \<or> base = 16 \<or> base = - 16"
  shows "\<exists>ds. fill_numbuf val base = Some ds \<and> ds \<noteq> [] \<and> length ds + 1 \<le> 24 \<and> 0 \<notin> set ds
    \<and> (\<forall>d \<in> set ds. d \<in> set (if base < 0 then lower_digits else upper_digits))"
proof -
  have "set (map ((!) (if base < 0 then lower_digits else upper_digits))
      (nat_digits (nat \<bar>base\<bar>) (unat val))) \<subseteq> set (if base < 0 then lower_digits else upper_digits)"
    using nat_digits_bound [of "nat \<bar>base\<bar>" _ "unat val"] assms by (fastforce intro!: nth_mem)
  moreover obtain ds where ds: "fill_numbuf val base = Some ds"
    "ds \<noteq> []" "length ds + 1 \<le> 24" "0 \<notin> set ds"
    using fill_numbuf_bounds [OF assms, of val] by blast
  moreover have "ds = map ((!) (if base < 0 then lower_digits else upper_digits))
      (nat_digits (nat \<bar>base\<bar>) (unat val))"
    using fill_numbuf_digits [OF assms, of val] ds(1) by simp
  ultimately show ?thesis by (metis subsetD)
qed

theorem fill_numbuf_fits_witness:
  "\<exists>ds. fill_numbuf 42 (- 16) = Some ds \<and> ds \<noteq> [] \<and> length ds + 1 \<le> 24"
  using fill_numbuf_fits [of "- 16" 42] by auto

text \<open>
  C14: \<open>vsnprintf(s, sz, format, ...)\<close> with \<open>sz > 0\<close> stores the formatted
  bytes truncated to \<open>sz - 1\<close>, terminates them with a zero byte, writes nothing
  outside the \<open>sz\<close> bytes of the buffer, and returns the untruncated length.
\<close>
theorem vsnprintf_correct:
  assumes "vprintf 0 fmt args = Inr out" and "unat s + unat sz < 2 ^ 64" and "sz \<noteq> 0"
  shows "\<exists>m'. vsnprintf m s sz fmt args = Inr (of_nat (length out), m')
    \<and> (\<forall>i < min (length out) (unat sz - 1). m' (s + of_nat i) = fst (out ! i))
    \<and> m' (s + of_nat (min (length out) (unat sz - 1))) = 0
    \<and> (\<forall>b. unat sz \<le> unat (b - s) \<longrightarrow> m' b = m b)"
  by (rule vsnprintf_spec [OF assms])

theorem vsnprintf_correct_witness:
  "\<exists>m'. vsnprintf (\<lambda>_. 9) 0x1000 2 (ascii ''abc'') [] = Inr (3, m') \<and> m' 0x1001 = 0 \<and> m' 0x1002 = 9"
  using vsnprintf_correct [of "ascii ''abc''" "[]" "[(97, 0), (98, 0), (99, 0)]" "0x1000" 2 "\<lambda>_. 9"]
  by (auto simp: vprintf.simps ascii_def)

end
