(* ===== verification/Console.thy ===== *)
theory Console
  imports Printf
begin

text \<open>
  The CGA text console of \<^verbatim>\<open>kernels1/lib.cc\<close>: the 25 by 80 array of 16-bit cells, the cursor
  and the \<^verbatim>\<open>console_printer\<close> object that \<^verbatim>\<open>console_puts\<close> and \<^verbatim>\<open>console_printf\<close> write through.
  A cell pointer is its signed distance from the start of the array; a store outside the array
  is the fault \<open>OutOfBounds\<close>. In the kernel build the cursor is also programmed into the CRT
  controller; those port writes are recorded in \<open>ports\<close>, in order.
\<close>

record screen =
  console :: "u16 list"
  cursorpos :: int
  ports :: "(int \<times> int) list"

definition CONSOLE_ROWS :: int where "CONSOLE_ROWS = 25"
definition CONSOLE_COLUMNS :: int where "CONSOLE_COLUMNS = 80"

definition CPOS :: "int \<Rightarrow> int \<Rightarrow> int" where "CPOS r c = r * 80 + c"

definition console_clear :: "('a screen_scheme) \<Rightarrow> 'a screen_scheme" where
  "console_clear scr =
     scr\<lparr>console := foldl (\<lambda>c i. c[i := 32 OR 0x0700]) (console scr) [0..<2000], cursorpos := 0\<rparr>"

definition outb :: "int \<Rightarrow> int \<Rightarrow> 'a screen_scheme \<Rightarrow> 'a screen_scheme" where
  "outb port v scr = scr\<lparr>ports := ports scr @ [(port, v)]\<rparr>"

definition console_show_cursor :: "int \<Rightarrow> 'a screen_scheme \<Rightarrow> 'a screen_scheme" where
  "console_show_cursor cpos0 scr =
     (let cpos = (if cpos0 < 0 \<or> cpos0 > CONSOLE_ROWS * CONSOLE_COLUMNS then 0 else cpos0)
      in outb 0x3D5 (cpos mod 256) (outb 0x3D4 15
        (outb 0x3D5 (cpos div 256) (outb 0x3D4 14 scr))))"

record 'a console_printer =
  cp_scr :: "'a screen_scheme"
  cp_cell :: int
  cp_scroll :: bool

definition console_printer_new ::
  "int \<Rightarrow> bool \<Rightarrow> 'a screen_scheme \<Rightarrow> 'a console_printer" where
  "console_printer_new cpos scr_flag scr =
     \<lparr>cp_scr = scr,
      cp_cell = (if cpos < 0 then cursorpos scr
                 else if cpos \<le> CONSOLE_ROWS * CONSOLE_COLUMNS then cpos else 0),
      cp_scroll = scr_flag\<rparr>"

definition cp_do_scroll :: "'a console_printer \<Rightarrow> 'a console_printer res" where
  "cp_do_scroll cp =
     check (cp_cell cp \<ge> CONSOLE_ROWS * CONSOLE_COLUMNS)
       (AssertFail ''cell_ >= console + CONSOLE_ROWS * CONSOLE_COLUMNS'')
     (if cp_scroll cp then
        Inr (cp\<lparr>cp_scr := (cp_scr cp)\<lparr>console :=
                 take (nat ((CONSOLE_ROWS - 1) * CONSOLE_COLUMNS))
                   (drop (nat CONSOLE_COLUMNS) (console (cp_scr cp)))
                 @ replicate (nat CONSOLE_COLUMNS) 0\<rparr>,
               cp_cell := cp_cell cp - CONSOLE_COLUMNS\<rparr>)
      else Inr (cp\<lparr>cp_cell := 0\<rparr>))"

definition cp_write :: "'a console_printer \<Rightarrow> u16 \<Rightarrow> 'a console_printer res" where
  "cp_write cp v =
     check (0 \<le> cp_cell cp \<and> cp_cell cp < int (length (console (cp_scr cp))))
       (OutOfBounds ''console'')
     (Inr (cp\<lparr>cp_scr := (cp_scr cp)\<lparr>console := (console (cp_scr cp))[nat (cp_cell cp) := v]\<rparr>,
              cp_cell := cp_cell cp + 1\<rparr>))"

lemma cp_do_scroll_decreases:
  "cp_do_scroll cp = Inr cp' \<Longrightarrow> nat (cp_cell cp') < nat (cp_cell cp)"
  by (auto simp: cp_do_scroll_def res_simps CONSOLE_ROWS_def CONSOLE_COLUMNS_def split: if_splits)

function cp_scroll_loop :: "'a console_printer \<Rightarrow> 'a console_printer res" where
  "cp_scroll_loop cp =
     (if cp_cell cp \<ge> CONSOLE_ROWS * CONSOLE_COLUMNS
      then bind_res (cp_do_scroll cp) cp_scroll_loop else Inr cp)"
  by pat_completeness auto
termination
  by (relation "measure (\<lambda>cp. nat (cp_cell cp))") (auto dest: cp_do_scroll_decreases)

declare cp_scroll_loop.simps [simp del]

fun cp_fill :: "nat \<Rightarrow> u32 \<Rightarrow> 'a console_printer \<Rightarrow> 'a console_printer res" where
  "cp_fill 0 color cp = Inr cp"
| "cp_fill (Suc k) color cp = bind_res (cp_write cp (ucast (32 OR color))) (cp_fill k color)"

definition console_putc :: "'a console_printer \<Rightarrow> u8 \<Rightarrow> u32 \<Rightarrow> 'a console_printer res" where
  "console_putc cp0 c color =
     bind_res (cp_scroll_loop cp0) (\<lambda>cp.
     if c = 10 then cp_fill (nat (80 - cp_cell cp mod 80)) color cp
     else cp_write cp (ucast (ucast c OR color)))"

definition move_cursor :: "bool \<Rightarrow> 'a console_printer \<Rightarrow> 'a screen_scheme" where
  "move_cursor kern cp =
     (let scr = (cp_scr cp)\<lparr>cursorpos := cp_cell cp\<rparr>
      in if kern then console_show_cursor (cursorpos scr) scr else scr)"

definition cp_finish :: "bool \<Rightarrow> int \<Rightarrow> 'a console_printer \<Rightarrow> int \<times> 'a screen_scheme" where
  "cp_finish kern cpos cp =
     (cp_cell cp, if cpos < 0 then move_cursor kern cp else cp_scr cp)"

definition console_puts ::
  "bool \<Rightarrow> int \<Rightarrow> u32 \<Rightarrow> u8 list \<Rightarrow> 'a screen_scheme \<Rightarrow> (int \<times> 'a screen_scheme) res" where
  "console_puts kern cpos color s scr =
     bind_res (printer_run console_putc (console_printer_new cpos (cpos < 0) scr)
                 (map (\<lambda>c. (c, color)) s)) (\<lambda>cp.
     Inr (cp_finish kern cpos cp))"

definition console_vprintf ::
  "bool \<Rightarrow> int \<Rightarrow> u32 \<Rightarrow> u8 list \<Rightarrow> va list \<Rightarrow> 'a screen_scheme
   \<Rightarrow> (int \<times> 'a screen_scheme) res" where
  "console_vprintf kern cpos color format val scr =
     bind_res (vprintf color format val) (\<lambda>out.
     bind_res (printer_run console_putc (console_printer_new cpos (cpos < 0) scr) out) (\<lambda>cp.
     Inr (cp_finish kern cpos cp)))"

subsection \<open>Specifications\<close>

definition blank_screen :: screen where
  "blank_screen = \<lparr>console = replicate 2000 0, cursorpos = 0, ports = []\<rparr>"

definition screen_ok :: "'a screen_scheme \<Rightarrow> bool" where
  "screen_ok scr \<longleftrightarrow> length (console scr) = 2000 \<and> 0 \<le> cursorpos scr \<and> cursorpos scr \<le> 2000"

definition cp_ok :: "'a console_printer \<Rightarrow> bool" where
  "cp_ok cp \<longleftrightarrow> length (console (cp_scr cp)) = 2000 \<and> 0 \<le> cp_cell cp \<and> cp_cell cp \<le> 2000
     \<and> 0 \<le> cursorpos (cp_scr cp) \<and> cursorpos (cp_scr cp) \<le> 2000"

text \<open>\<open>screen_only scr scr'\<close>: everything but the screen and the port writes is as it was.\<close>

definition screen_only :: "'a screen_scheme \<Rightarrow> 'a screen_scheme \<Rightarrow> bool" where
  "screen_only scr scr' \<longleftrightarrow> screen.more scr' = screen.more scr"

text \<open>\<open>attr color c\<close> is the cell that shows the byte \<open>c\<close> in a colour.\<close>

definition attr :: "u32 \<Rightarrow> u8 \<Rightarrow> u16" where
  "attr color c = ucast (ucast c OR color)"

lemmas screen_consts = CONSOLE_ROWS_def CONSOLE_COLUMNS_def

subsection \<open>Every store is inside the console\<close>

text \<open>
  \<open>cp_in cp\<close>: the cell pointer is not before the array, perhaps after it. Then every operation succeeds,
  keeps that, leaves the cursor variable alone and ends at most one cell after the array.
\<close>

definition cp_in :: "'a console_printer \<Rightarrow> bool" where
  "cp_in cp \<longleftrightarrow> length (console (cp_scr cp)) = 2000 \<and> 0 \<le> cp_cell cp"

definition cp_next :: "'a console_printer \<Rightarrow> 'a console_printer \<Rightarrow> bool" where
  "cp_next cp cp' \<longleftrightarrow> cp_in cp' \<and> cp_cell cp' \<le> 2000 \<and> cursorpos (cp_scr cp') = cursorpos (cp_scr cp)"

lemma cp_do_scroll_in:
  "cp_in cp \<Longrightarrow> 2000 \<le> cp_cell cp \<Longrightarrow>
   \<exists>cp'. cp_do_scroll cp = Inr cp' \<and> cp_in cp' \<and> cursorpos (cp_scr cp') = cursorpos (cp_scr cp)"
  by (simp add: cp_do_scroll_def cp_in_def screen_consts)

lemma cp_scroll_loop_in:
  "cp_in cp \<Longrightarrow> \<exists>cp'. cp_scroll_loop cp = Inr cp' \<and> cp_next cp cp' \<and> cp_cell cp' < 2000"
proof (induction cp rule: cp_scroll_loop.induct)
  case (1 cp)
  show ?case
  proof (cases "cp_cell cp < 2000")
    case True
    with 1 show ?thesis by (subst cp_scroll_loop.simps) (simp add: screen_consts cp_next_def)
  next
    case False
    then obtain cp1 where cp1: "cp_do_scroll cp = Inr cp1" "cp_in cp1" "cursorpos (cp_scr cp1) = cursorpos (cp_scr cp)"
      using cp_do_scroll_in [OF 1(2)] by auto
    then obtain cp' where "cp_scroll_loop cp1 = Inr cp'" "cp_next cp1 cp'" "cp_cell cp' < 2000"
      using 1(1) [of cp1] False by (auto simp: screen_consts)
    then show ?thesis using cp1 False by (subst cp_scroll_loop.simps) (simp add: screen_consts cp_next_def)
  qed
qed

lemma cp_write_in:
  "cp_in cp \<Longrightarrow> cp_cell cp < 2000 \<Longrightarrow>
   \<exists>cp'. cp_write cp v = Inr cp' \<and> cp_next cp cp' \<and> cp_cell cp' = cp_cell cp + 1"
  by (simp add: cp_write_def cp_in_def cp_next_def)

lemma cp_fill_in:
  "cp_in cp \<Longrightarrow> cp_cell cp + int k \<le> 2000 \<Longrightarrow>
   \<exists>cp'. cp_fill k color cp = Inr cp' \<and> cp_next cp cp' \<and> cp_cell cp' = cp_cell cp + int k"
proof (induction k arbitrary: cp)
  case (Suc k)
  then obtain cp1 where cp1: "cp_write cp (ucast (32 OR color)) = Inr cp1" "cp_next cp cp1"
      "cp_cell cp1 = cp_cell cp + 1"
    using cp_write_in [of cp] by force
  with Suc.IH [of cp1] Suc.prems show ?case by (auto simp: cp_next_def)
qed (simp add: cp_next_def)

lemma row_end_le: "0 \<le> (x::int) \<Longrightarrow> x < 2000 \<Longrightarrow> x + int (nat (80 - x mod 80)) \<le> 2000"
proof -
  assume x: "0 \<le> x" "x < 2000"
  then have "x div 80 \<le> 1999 div 80" by (intro zdiv_mono1) auto
  then have "x div 80 \<le> 24" by simp
  moreover have "x = 80 * (x div 80) + x mod 80" "0 \<le> x mod 80" "x mod 80 < 80" by simp_all
  ultimately show ?thesis using x by linarith
qed

lemma console_putc_in:
  assumes "cp_in cp"
  shows "\<exists>cp'. console_putc cp c color = Inr cp' \<and> cp_next cp cp'"
proof -
  obtain cp1 where cp1: "cp_scroll_loop cp = Inr cp1" "cp_next cp cp1" "cp_cell cp1 < 2000"
    using cp_scroll_loop_in [OF assms] by blast
  then have in1: "cp_in cp1" "0 \<le> cp_cell cp1" by (simp_all add: cp_next_def cp_in_def)
  then have "cp_cell cp1 + int (nat (80 - cp_cell cp1 mod 80)) \<le> 2000" using cp1(3) by (simp only: row_end_le)
  then obtain cp2 cp3 where "cp_fill (nat (80 - cp_cell cp1 mod 80)) color cp1 = Inr cp2" "cp_next cp1 cp2"
      "cp_write cp1 (ucast (ucast c OR color)) = Inr cp3" "cp_next cp1 cp3"
    using cp_fill_in [OF in1(1)] cp_write_in [OF in1(1) cp1(3)] by meson
  then show ?thesis using cp1 by (simp add: console_putc_def cp_next_def)
qed

lemma console_putc_ok: "cp_ok cp \<Longrightarrow> \<exists>cp'. console_putc cp c color = Inr cp' \<and> cp_ok cp'"
  using console_putc_in [of cp c color] by (auto simp: cp_ok_def cp_in_def cp_next_def)



interpretation con_printer: printer console_putc cp_ok
  by unfold_locales (rule console_putc_ok)

lemma console_printer_new_ok: "screen_ok scr \<Longrightarrow> cp_ok (console_printer_new cpos b scr)"
  by (auto simp: console_printer_new_def screen_ok_def cp_ok_def screen_consts)

lemma cp_finish_ok: "cp_ok cp \<Longrightarrow> cp_finish kern cpos cp = (pos, scr') \<Longrightarrow>
   screen_ok scr' \<and> 0 \<le> pos \<and> pos \<le> 2000"
  by (auto simp: cp_finish_def cp_ok_def screen_ok_def move_cursor_def console_show_cursor_def
      outb_def Let_def split: if_splits)


lemma console_vprintf_in_bounds:
  assumes "screen_ok scr" and "vprintf color fmt args = Inr out"
  shows "\<exists>pos scr'. console_vprintf kern cpos color fmt args scr = Inr (pos, scr')
    \<and> screen_ok scr' \<and> 0 \<le> pos \<and> pos \<le> 2000"
proof -
  obtain cp where "printer_run console_putc (console_printer_new cpos (cpos < 0) scr) out = Inr cp"
      "cp_ok cp"
    using con_printer.run_ok [OF console_printer_new_ok [OF assms(1)]] by blast
  then show ?thesis using cp_finish_ok [of cp kern cpos] assms(2)
    by (cases "cp_finish kern cpos cp") (simp add: console_vprintf_def)
qed

subsection \<open>Printing changes only the screen\<close>

lemma screen_onlyE:
  assumes "screen_only scr scr'"
  obtains c p q where "scr' = scr\<lparr>console := c, cursorpos := p, ports := q\<rparr>"
  using assms by (cases scr; cases scr') (auto simp: screen_only_def)

lemma screen_only_refl [simp]: "screen_only scr scr"
  by (simp add: screen_only_def)

lemma screen_only_trans: "screen_only a b \<Longrightarrow> screen_only b c \<Longrightarrow> screen_only a c"
  by (simp add: screen_only_def)

lemma screen_only_updates [simp]:
  "screen_only scr0 scr \<Longrightarrow> screen_only scr0 (scr\<lparr>console := c\<rparr>)"
  "screen_only scr0 scr \<Longrightarrow> screen_only scr0 (scr\<lparr>cursorpos := p\<rparr>)"
  "screen_only scr0 scr \<Longrightarrow> screen_only scr0 (outb port v scr)"
  by (simp_all add: screen_only_def outb_def)

lemma screen_only_show_cursor [simp]:
  "screen_only scr0 scr \<Longrightarrow> screen_only scr0 (console_show_cursor p scr)"
  by (simp add: console_show_cursor_def Let_def)

lemma screen_only_clear: "screen_only scr (console_clear scr)"
  by (simp add: console_clear_def)

lemma cp_write_only: "cp_write cp v = Inr cp' \<Longrightarrow> screen_only (cp_scr cp) (cp_scr cp')"
  by (auto simp: cp_write_def res_simps)

lemma cp_fill_only: "cp_fill k color cp = Inr cp' \<Longrightarrow> screen_only (cp_scr cp) (cp_scr cp')"
  by (induction k arbitrary: cp) (auto simp: res_simps dest: cp_write_only intro: screen_only_trans)

lemma cp_do_scroll_only: "cp_do_scroll cp = Inr cp' \<Longrightarrow> screen_only (cp_scr cp) (cp_scr cp')"
  by (auto simp: cp_do_scroll_def res_simps split: if_splits)

lemma cp_scroll_loop_only: "cp_scroll_loop cp = Inr cp' \<Longrightarrow> screen_only (cp_scr cp) (cp_scr cp')"
proof (induction cp rule: cp_scroll_loop.induct)
  case (1 cp)
  from 1(2) show ?case
    by (subst (asm) cp_scroll_loop.simps)
       (auto simp: res_simps split: if_splits dest: cp_do_scroll_only 1(1) intro: screen_only_trans)
qed

lemma console_putc_only: "console_putc cp c color = Inr cp' \<Longrightarrow> screen_only (cp_scr cp) (cp_scr cp')"
  by (auto simp: console_putc_def res_simps split: if_splits
      dest!: cp_scroll_loop_only cp_write_only cp_fill_only intro: screen_only_trans)

lemma cp_finish_only:
  "screen_only scr (cp_scr cp) \<Longrightarrow> screen_only scr (snd (cp_finish kern cpos cp))"
  by (simp add: cp_finish_def move_cursor_def Let_def)

lemma console_vprintf_only:
  assumes "console_vprintf kern cpos color fmt args scr = Inr (pos, scr')"
  shows "screen_only scr scr'"
proof -
  from assms obtain out cp where cp: "printer_run console_putc (console_printer_new cpos (cpos < 0) scr) out = Inr cp"
      "cp_finish kern cpos cp = (pos, scr')"
    by (auto simp: console_vprintf_def res_simps)
  have "screen_only (cp_scr (console_printer_new cpos (cpos < 0) scr)) (cp_scr cp)"
    by (rule printer_run_rel [where R = "\<lambda>a b. screen_only (cp_scr a) (cp_scr b)", OF _ _ _ cp(1)])
       (auto intro: console_putc_only screen_only_trans)
  then have "screen_only scr (cp_scr cp)" by (simp add: console_printer_new_def)
  then show ?thesis using cp_finish_only [of scr cp kern cpos] cp(2) by simp
qed

subsection \<open>What is shown\<close>

lemma take_drop_upd:
  "k < length xs \<Longrightarrow> take (Suc k) (xs[k := v]) = take k xs @ [v]"
  "drop (Suc (k + n)) (xs[k := v]) = drop (Suc (k + n)) xs"
  by (simp_all add: take_Suc_conv_app_nth)

lemma printer_run_text:
  "length (console (cp_scr cp)) = 2000 \<Longrightarrow> 0 \<le> cp_cell cp \<Longrightarrow> cp_cell cp + int (length s) \<le> 2000 \<Longrightarrow>
   10 \<notin> set s \<Longrightarrow>
   printer_run console_putc cp (map (\<lambda>c. (c, color)) s) =
     Inr (cp\<lparr>cp_scr := (cp_scr cp)\<lparr>console := take (nat (cp_cell cp)) (console (cp_scr cp))
       @ map (attr color) s @ drop (nat (cp_cell cp) + length s) (console (cp_scr cp))\<rparr>,
       cp_cell := cp_cell cp + int (length s)\<rparr>)"
proof (induction s arbitrary: cp)
  case (Cons c s)
  let ?con = "console (cp_scr cp)" and ?k = "nat (cp_cell cp)"
  let ?cp = "cp\<lparr>cp_scr := (cp_scr cp)\<lparr>console := ?con[?k := attr color c]\<rparr>, cp_cell := cp_cell cp + 1\<rparr>"
  have "cp_scroll_loop cp = Inr cp"
    using Cons.prems by (subst cp_scroll_loop.simps) (simp add: screen_consts)
  then have putc: "console_putc cp c color = Inr ?cp"
    using Cons.prems by (simp add: console_putc_def cp_write_def attr_def)
  have k: "nat (cp_cell cp + 1) = Suc ?k" "?k < length ?con" using Cons.prems by simp_all
  show ?case
    using putc Cons.IH [of ?cp] Cons.prems k by (simp add: take_drop_upd)
qed simp

theorem console_puts_text:
  assumes "screen_ok scr" "0 \<le> cpos" "cpos + int (length s) \<le> 2000" "10 \<notin> set s"
  shows "console_puts kern cpos color s scr =
    Inr (cpos + int (length s), scr\<lparr>console := take (nat cpos) (console scr)
      @ map (attr color) s @ drop (nat cpos + length s) (console scr)\<rparr>)"
  using assms
  by (simp add: console_puts_def printer_run_text console_printer_new_def cp_finish_def
      screen_ok_def screen_consts)

lemma cp_fill_row:
  "length (console (cp_scr cp)) = 2000 \<Longrightarrow> 0 \<le> cp_cell cp \<Longrightarrow> cp_cell cp + int k \<le> 2000 \<Longrightarrow>
   cp_fill k color cp =
     Inr (cp\<lparr>cp_scr := (cp_scr cp)\<lparr>console := take (nat (cp_cell cp)) (console (cp_scr cp))
       @ replicate k (attr color 32) @ drop (nat (cp_cell cp) + k) (console (cp_scr cp))\<rparr>,
       cp_cell := cp_cell cp + int k\<rparr>)"
proof (induction k arbitrary: cp)
  case (Suc k)
  let ?con = "console (cp_scr cp)" and ?k = "nat (cp_cell cp)"
  let ?cp = "cp\<lparr>cp_scr := (cp_scr cp)\<lparr>console := ?con[?k := attr color 32]\<rparr>, cp_cell := cp_cell cp + 1\<rparr>"
  have "cp_write cp (ucast (32 OR color)) = Inr ?cp"
    using Suc.prems by (simp add: cp_write_def attr_def)
  moreover have "nat (cp_cell cp + 1) = Suc ?k" "?k < length ?con" using Suc.prems by simp_all
  ultimately show ?case
    using Suc.IH [of ?cp] Suc.prems by (simp add: take_drop_upd)
qed simp

theorem console_newline_scrolls:
  assumes "length (console scr) = 2000" "cursorpos scr = 2000"
  shows "\<exists>scr'. console_puts kern (- 1) color [10] scr = Inr (2000, scr')
    \<and> console scr' = drop 80 (console scr) @ replicate 80 (attr color 32) \<and> cursorpos scr' = 2000"
proof -
  let ?cp = "console_printer_new (- 1) True scr"
  let ?cp1 = "?cp\<lparr>cp_scr := scr\<lparr>console := drop 80 (console scr) @ replicate 80 0\<rparr>, cp_cell := 1920\<rparr>"
  have "take 1920 (drop 80 (console scr)) = drop 80 (console scr)" using assms(1) by simp
  then have "cp_do_scroll ?cp = Inr ?cp1"
    using assms by (simp add: cp_do_scroll_def console_printer_new_def screen_consts)
  moreover have "cp_scroll_loop ?cp1 = Inr ?cp1"
    by (subst cp_scroll_loop.simps) (simp add: screen_consts)
  ultimately have "cp_scroll_loop ?cp = Inr ?cp1"
    using assms by (subst cp_scroll_loop.simps) (simp add: screen_consts console_printer_new_def)
  then show ?thesis
    using assms cp_fill_row [of ?cp1 80 color]
    by (simp add: console_puts_def console_putc_def cp_finish_def move_cursor_def Let_def
        console_show_cursor_def outb_def)
qed


theorem console_puts_text_witness:
  "console_puts True 80 0x0700 [72, 105] blank_screen =
    Inr (82, blank_screen\<lparr>console := take 80 (replicate 2000 0)
      @ map (attr 0x0700) [72, 105] @ drop 82 (replicate 2000 0)\<rparr>)"
  using console_puts_text [of blank_screen 80 "[72, 105]" True "0x0700"]
  by (simp add: blank_screen_def screen_ok_def)

theorem console_newline_scrolls_witness:
  "\<exists>scr'. console_puts True (- 1) 0x0700 [10] (blank_screen\<lparr>cursorpos := 2000\<rparr>) = Inr (2000, scr')
    \<and> console scr' = replicate 1920 0 @ replicate 80 (attr 0x0700 32)"
  using console_newline_scrolls [of "blank_screen\<lparr>cursorpos := 2000\<rparr>" True "0x0700"]
  by (auto simp: blank_screen_def drop_replicate)

end
