(* ===== verification/PhysMem.thy ===== *)
theory PhysMem
  imports Console
begin

text \<open>
  Physical memory and the kernel page allocator: the constants of \<^verbatim>\<open>kernels1/x86-64.h\<close> and
  \<^verbatim>\<open>kernels1/kernel.hh\<close>, the address classification of \<^verbatim>\<open>kernels1/k-hardware.cc\<close> and
  \<^verbatim>\<open>kalloc\<close> of \<^verbatim>\<open>kernels1/kernel.cc\<close>. The kernel is identity-mapped, so a kernel pointer is a
  physical address. The addresses the linker chooses (\<^verbatim>\<open>_kernel_end\<close>, \<^verbatim>\<open>kernel_pagetable\<close>,
  \<^verbatim>\<open>exception_entry\<close>, the data segment, the embedded program images) and the first process named by
  the generated header \<^verbatim>\<open>obj/k-firstprocess.h\<close> are the fields of a \<open>link\<close> record, a parameter of the
  operations.
  \<open>kmem\<close> extends the screen with the memory-related globals: the bytes of physical memory,
  \<^verbatim>\<open>physpages[].refcount\<close> and \<^verbatim>\<open>next_alloc_pa\<close>.
\<close>

subsection \<open>Constants\<close>

definition PAGEOFFBITS :: nat where "PAGEOFFBITS = 12"
definition PAGEINDEXBITS :: nat where "PAGEINDEXBITS = 9"
definition PAGESIZE :: u64 where "PAGESIZE = 0x1000"

definition PTE_P :: u64 where "PTE_P = 1"
definition PTE_W :: u64 where "PTE_W = 2"
definition PTE_U :: u64 where "PTE_U = 4"
definition PTE_PS :: u64 where "PTE_PS = 0x80"
definition PTE_PAMASK :: u64 where "PTE_PAMASK = 0x000FFFFFFFFFF000"

definition VA_LOWMAX :: u64 where "VA_LOWMAX = 0x00007FFFFFFFFFFF"
definition VA_LOWEND :: u64 where "VA_LOWEND = 0x0000800000000000"
definition VA_HIGHMIN :: u64 where "VA_HIGHMIN = 0xFFFF800000000000"
definition VA_NONCANONMAX :: u64 where "VA_NONCANONMAX = 0x0000FFFFFFFFFFFF"

definition KERNEL_START_ADDR :: u64 where "KERNEL_START_ADDR = 0x40000"
definition KERNEL_STACK_TOP :: u64 where "KERNEL_STACK_TOP = 0x80000"
definition PROC_START_ADDR :: u64 where "PROC_START_ADDR = 0x100000"
definition MEMSIZE_PHYSICAL :: u64 where "MEMSIZE_PHYSICAL = 0x200000"
definition NPAGES :: nat where "NPAGES = 512"
definition IOPHYSMEM :: u64 where "IOPHYSMEM = 0x000A0000"
definition EXTPHYSMEM :: u64 where "EXTPHYSMEM = 0x00100000"
definition CONSOLE_ADDR :: u64 where "CONSOLE_ADDR = 0xB8000"

lemmas pte_consts = PTE_P_def PTE_W_def PTE_U_def PTE_PS_def PTE_PAMASK_def
lemmas va_consts = VA_LOWMAX_def VA_LOWEND_def VA_HIGHMIN_def VA_NONCANONMAX_def
lemmas phys_consts = PAGESIZE_def KERNEL_START_ADDR_def KERNEL_STACK_TOP_def PROC_START_ADDR_def
  MEMSIZE_PHYSICAL_def NPAGES_def IOPHYSMEM_def EXTPHYSMEM_def CONSOLE_ADDR_def

subsection \<open>State and operations\<close>

record link =
  kernel_end :: addr
  kernel_pagetable :: addr
  exception_entry :: addr
  data_start :: addr
  edata :: addr
  ramimages :: "addr list"
  first_process :: "u8 list"
  literal_at :: "u8 list \<Rightarrow> u32"   \<comment> \<open>the kernel is linked in low memory, its literals too\<close>

record kmem = screen +
  mem :: memory
  physpages :: "u8 list"
  next_alloc_pa :: addr

definition reserved_physical_address :: "addr \<Rightarrow> bool" where
  "reserved_physical_address pa \<longleftrightarrow> pa < PAGESIZE \<or> (pa \<ge> IOPHYSMEM \<and> pa < EXTPHYSMEM)"

definition allocatable_physical_address :: "link \<Rightarrow> addr \<Rightarrow> bool" where
  "allocatable_physical_address L pa \<longleftrightarrow>
     \<not> reserved_physical_address pa
     \<and> (pa < KERNEL_START_ADDR \<or> pa \<ge> round_up (kernel_end L) 0x1000)
     \<and> (pa < KERNEL_STACK_TOP - PAGESIZE \<or> pa \<ge> KERNEL_STACK_TOP)
     \<and> pa < MEMSIZE_PHYSICAL"

definition page_no :: "addr \<Rightarrow> nat" where
  "page_no pa = unat (pa div PAGESIZE)"

function kalloc_loop ::
  "link \<Rightarrow> 'a kmem_scheme \<Rightarrow> addr option \<times> 'a kmem_scheme" where
  "kalloc_loop L s =
     (if next_alloc_pa s < MEMSIZE_PHYSICAL then
        (let pa = next_alloc_pa s; s1 = s\<lparr>next_alloc_pa := pa + PAGESIZE\<rparr>
         in if allocatable_physical_address L pa \<and> physpages s1 ! page_no pa = 0
            then (Some pa,
              s1\<lparr>physpages := (physpages s1)[page_no pa := physpages s1 ! page_no pa + 1],
                 mem := memset (mem s1) pa 0xCC PAGESIZE\<rparr>)
            else kalloc_loop L s1)
      else (None, s))"
  by pat_completeness auto
termination
proof (relation "measure (\<lambda>(L, s). 0x200000 - unat (next_alloc_pa s))")
  fix L :: link and s :: "'a kmem_scheme" and x xa
  assume a: "next_alloc_pa s < MEMSIZE_PHYSICAL" "x = next_alloc_pa s"
    "xa = s\<lparr>next_alloc_pa := x + PAGESIZE\<rparr>"
  then have "unat (next_alloc_pa s) < 0x200000"
    by (simp add: MEMSIZE_PHYSICAL_def word_less_nat_alt)
  moreover from this have "unat (next_alloc_pa s + 0x1000) = unat (next_alloc_pa s) + 0x1000"
    by (subst unat_add64) simp_all
  ultimately show "((L, xa), L, s) \<in> measure (\<lambda>(L, s). 0x200000 - unat (next_alloc_pa s))"
    using a by (simp add: PAGESIZE_def)
qed simp

declare kalloc_loop.simps [simp del]

definition kalloc :: "link \<Rightarrow> u64 \<Rightarrow> 'a kmem_scheme \<Rightarrow> addr option \<times> 'a kmem_scheme" where
  "kalloc L sz s = (if sz > PAGESIZE then (None, s) else kalloc_loop L s)"

definition kalloc_pagetable :: "link \<Rightarrow> 'a kmem_scheme \<Rightarrow> addr option \<times> 'a kmem_scheme" where
  "kalloc_pagetable L s =
     (case kalloc L PAGESIZE s of
        (None, s') \<Rightarrow> (None, s')
      | (Some pt, s') \<Rightarrow> (Some pt, s'\<lparr>mem := memset (mem s') pt 0 (8 * 512)\<rparr>))"

subsection \<open>Specifications\<close>

text \<open>
  \<open>free_page L s pa\<close>: the allocator may hand out the page at \<open>pa\<close>. \<open>kmem_ok\<close> is the
  invariant: one reference count per physical page and a page-aligned scan position.
\<close>

definition free_page :: "link \<Rightarrow> 'a kmem_scheme \<Rightarrow> addr \<Rightarrow> bool" where
  "free_page L s pa \<longleftrightarrow> allocatable_physical_address L pa \<and> physpages s ! page_no pa = 0"

definition kmem_ok :: "'a kmem_scheme \<Rightarrow> bool" where
  "kmem_ok s \<longleftrightarrow> length (physpages s) = NPAGES \<and> aligned 4096 (next_alloc_pa s)"

definition kmem_only :: "'a kmem_scheme \<Rightarrow> 'a kmem_scheme \<Rightarrow> bool" where
  "kmem_only s s' \<longleftrightarrow> kmem.more s' = kmem.more s \<and> console s' = console s
     \<and> cursorpos s' = cursorpos s \<and> ports s' = ports s"

definition fill_page :: "memory \<Rightarrow> addr \<Rightarrow> u8 \<Rightarrow> memory" where
  "fill_page m pa c = (\<lambda>b. if unat (b - pa) < 4096 then c else m b)"

definition claim_page :: "'a kmem_scheme \<Rightarrow> addr \<Rightarrow> 'a kmem_scheme" where
  "claim_page s pa = s\<lparr>next_alloc_pa := pa + PAGESIZE,
     physpages := (physpages s)[page_no pa := 1], mem := fill_page (mem s) pa 0xCC\<rparr>"

primrec alloc_seq :: "('r \<Rightarrow> 's \<Rightarrow> addr option \<times> 's) \<Rightarrow> 'r list \<Rightarrow> 's \<Rightarrow> addr list \<times> 's" where
  "alloc_seq alloc [] s = ([], s)"
| "alloc_seq alloc (r # rs) s =
     (case alloc r s of
        (None, s1) \<Rightarrow> alloc_seq alloc rs s1
      | (Some pa, s1) \<Rightarrow> (let (pas, s2) = alloc_seq alloc rs s1 in (pa # pas, s2)))"

text \<open>A small concrete machine, used to evaluate the operations.\<close>

definition demo_link :: link where
  "demo_link = \<lparr>kernel_end = 0x60000, kernel_pagetable = 0x50000, exception_entry = 0x40100,
     data_start = 0x48000, edata = 0x58000,
     ramimages = [0x48000, 0x49000, 0x4A000, 0x4B000, 0x4C000, 0x4D000, 0x4E000],
     first_process = ascii ''hello'', literal_at = (\<lambda>_. 0x45000)\<rparr>"

definition demo_kmem :: kmem where
  "demo_kmem = \<lparr>console = replicate 2000 0, cursorpos = 0, ports = [], mem = (\<lambda>_. 0),
     physpages = replicate 512 0, next_alloc_pa = 0\<rparr>"

subsection \<open>The allocator\<close>

lemma memset_page: "memset m pa c PAGESIZE = fill_page m pa (of_int c)"
  by (simp add: memset_def PAGESIZE_def memset_loop_closed fill_page_def)

lemma memset_table: "memset m pa c 4096 = fill_page m pa (of_int c)"
  by (simp add: memset_def memset_loop_closed fill_page_def)

lemma allocatable_bounds:
  assumes "allocatable_physical_address L pa"
  shows "unat pa < 0x200000" "0x1000 \<le> unat pa" "pa \<noteq> 0" "page_no pa < NPAGES"
proof -
  show u: "unat pa < 0x200000" and "0x1000 \<le> unat pa"
    using assms by (auto simp: allocatable_physical_address_def reserved_physical_address_def
        phys_consts word_less_nat_alt)
  then show "pa \<noteq> 0" by auto
  show "page_no pa < NPAGES"
    using u by (simp add: page_no_def phys_consts unat_div_distrib)
qed

lemma kalloc_next_unat:
  "next_alloc_pa s < MEMSIZE_PHYSICAL \<Longrightarrow>
     unat (next_alloc_pa s + PAGESIZE) = unat (next_alloc_pa s) + 0x1000"
  by (subst unat_add64) (auto simp: phys_consts word_less_nat_alt)

lemma kmem_ok_advance:
  "kmem_ok s \<Longrightarrow> next_alloc_pa s < MEMSIZE_PHYSICAL \<Longrightarrow>
     kmem_ok (s\<lparr>next_alloc_pa := next_alloc_pa s + PAGESIZE\<rparr>)"
  by (simp add: kmem_ok_def aligned_def kalloc_next_unat)

lemma free_page_next [simp]: "free_page L (s\<lparr>next_alloc_pa := n\<rparr>) pa = free_page L s pa"
  by (simp add: free_page_def)

lemma aligned_next:
  assumes "kmem_ok s" "aligned 4096 q" "next_alloc_pa s \<le> q" "q \<noteq> next_alloc_pa s"
    "next_alloc_pa s < MEMSIZE_PHYSICAL"
  shows "next_alloc_pa s + PAGESIZE \<le> q"
proof -
  obtain i j where i: "unat (next_alloc_pa s) = 4096 * i" and j: "unat q = 4096 * j"
    using assms(1,2) unfolding kmem_ok_def aligned_def by (auto elim!: dvdE)
  have "unat (next_alloc_pa s) < unat q"
    using assms(3,4) by (simp add: word_le_nat_alt word_less_nat_alt le_less word_unat_eq_iff)
  then have "unat (next_alloc_pa s) + 0x1000 \<le> unat q" using i j by simp
  then show ?thesis using kalloc_next_unat [OF assms(5)] by (simp add: word_le_nat_alt)
qed

lemma claim_page_next [simp]: "claim_page (s\<lparr>next_alloc_pa := n\<rparr>) pa = claim_page s pa"
  by (simp add: claim_page_def)

lemma kalloc_loop_Some:
  "kmem_ok s \<Longrightarrow> kalloc_loop L s = (Some pa, s') \<Longrightarrow>
     free_page L s pa \<and> aligned 4096 pa \<and> next_alloc_pa s \<le> pa \<and> s' = claim_page s pa
     \<and> (\<forall>q. aligned 4096 q \<and> next_alloc_pa s \<le> q \<and> q < pa \<longrightarrow> \<not> free_page L s q)"
proof (induction L s rule: kalloc_loop.induct)
  case (1 L s)
  let ?s = "s\<lparr>next_alloc_pa := next_alloc_pa s + PAGESIZE\<rparr>"
  have lt: "next_alloc_pa s < MEMSIZE_PHYSICAL"
    using "1.prems" by (subst (asm) kalloc_loop.simps) (auto split: if_splits)
  show ?case
  proof (cases "free_page L s (next_alloc_pa s)")
    case True
    then show ?thesis using "1.prems" lt
      by (subst (asm) kalloc_loop.simps)
        (auto simp: free_page_def kmem_ok_def Let_def claim_page_def memset_page)
  next
    case False
    then have r: "kalloc_loop L ?s = (Some pa, s')" using "1.prems" lt
      by (subst (asm) kalloc_loop.simps) (auto simp: free_page_def Let_def split: if_splits)
    have "next_alloc_pa s \<le> next_alloc_pa s + PAGESIZE"
      using kalloc_next_unat [OF lt] by (simp add: word_le_nat_alt)
    moreover have c: "\<not> (allocatable_physical_address L (next_alloc_pa s)
        \<and> physpages ?s ! page_no (next_alloc_pa s) = 0)"
      using False by (simp add: free_page_def)
    note IH = "1.IH" [OF lt refl refl c kmem_ok_advance [OF "1.prems"(1) lt] r]
    ultimately show ?thesis
      using IH False aligned_next [OF "1.prems"(1) _ _ _ lt]
      by (auto intro: order_trans)
  qed
qed

lemma kalloc_loop_None:
  "kmem_ok s \<Longrightarrow> kalloc_loop L s = (None, s') \<Longrightarrow>
     (\<exists>n. s' = s\<lparr>next_alloc_pa := n\<rparr>) \<and> kmem_ok s' \<and> MEMSIZE_PHYSICAL \<le> next_alloc_pa s'
     \<and> (\<forall>q. aligned 4096 q \<and> next_alloc_pa s \<le> q \<longrightarrow> \<not> free_page L s q)"
proof (induction L s rule: kalloc_loop.induct)
  case (1 L s)
  let ?s = "s\<lparr>next_alloc_pa := next_alloc_pa s + PAGESIZE\<rparr>"
  show ?case
  proof (cases "next_alloc_pa s < MEMSIZE_PHYSICAL")
    case lt: True
    have c: "\<not> (allocatable_physical_address L (next_alloc_pa s)
        \<and> physpages ?s ! page_no (next_alloc_pa s) = 0)"
      and r: "kalloc_loop L ?s = (None, s')" using "1.prems" lt
      unfolding kalloc_loop.simps [of L s] by (auto simp: Let_def split: if_splits)
    note IH = "1.IH" [OF lt refl refl c kmem_ok_advance [OF "1.prems"(1) lt] r]
    have nf: "\<not> free_page L s (next_alloc_pa s)" using c by (simp add: free_page_def)
    show ?thesis
      using IH nf aligned_next [OF "1.prems"(1) _ _ _ lt] by auto
  next
    case False
    then have "s' = s" using "1.prems" by (subst (asm) kalloc_loop.simps) auto
    then show ?thesis using False "1.prems"(1)
      by (auto simp: free_page_def allocatable_physical_address_def not_less
          dest: order_trans leD intro!: exI [of _ "next_alloc_pa s"])
  qed
qed
lemma kmem_ok_claim: "kmem_ok s \<Longrightarrow> aligned 4096 pa \<Longrightarrow> free_page L s pa \<Longrightarrow> kmem_ok (claim_page s pa)"
  using allocatable_bounds(1) [of L pa]
  by (auto simp: kmem_ok_def claim_page_def free_page_def aligned_def PAGESIZE_def unat_add64)

lemma page_no_inj:
  assumes "aligned 4096 p" "aligned 4096 q" "page_no p = page_no q"
  shows "p = q"
proof -
  have "unat p div 4096 = unat q div 4096"
    using assms(3) by (simp add: page_no_def PAGESIZE_def unat_div_distrib)
  then have "unat p = unat q"
    using assms(1,2) unfolding aligned_def by (auto elim!: dvdE)
  then show ?thesis by (simp add: word_unat_eq_iff)
qed

lemma refcount_claim:
  assumes "kmem_ok s" "free_page L s pa"
  shows "physpages (claim_page s pa) ! n = (if n = page_no pa then 1 else physpages s ! n)"
  using assms allocatable_bounds(4) [of L pa]
  by (auto simp: claim_page_def kmem_ok_def free_page_def nth_list_update)

lemma free_page_claim:
  assumes "kmem_ok s" "free_page L s pa"
  shows "free_page L (claim_page s pa) q \<longleftrightarrow> free_page L s q \<and> page_no q \<noteq> page_no pa"
  using refcount_claim [OF assms] by (auto simp: free_page_def)

subsection \<open>The allocator interface\<close>

text \<open>
  What the clients of a page allocator rely on: a page it returns was free, is no longer free,
  nothing becomes free by allocating, and memory outside the page is left alone.
  \<open>alloc_seq\<close> collects the results of a sequence of requests.
\<close>

locale page_allocator =
  fixes alloc :: "'r \<Rightarrow> 's \<Rightarrow> addr option \<times> 's"
    and inv :: "'s \<Rightarrow> bool"
    and free :: "'s \<Rightarrow> addr \<Rightarrow> bool"
    and bytes :: "'s \<Rightarrow> memory"
  assumes alloc_inv: "inv s \<Longrightarrow> inv (snd (alloc r s))"
    and alloc_free: "inv s \<Longrightarrow> alloc r s = (Some pa, s') \<Longrightarrow> free s pa \<and> \<not> free s' pa"
    and alloc_aligned: "inv s \<Longrightarrow> alloc r s = (Some pa, s') \<Longrightarrow> aligned 4096 pa"
    and alloc_keeps: "inv s \<Longrightarrow> free (snd (alloc r s)) q \<Longrightarrow> free s q"
    and alloc_frame: "inv s \<Longrightarrow> alloc r s = (Some pa, s') \<Longrightarrow> 4096 \<le> unat (b - pa) \<Longrightarrow>
      bytes s' b = bytes s b"
    and alloc_fail: "inv s \<Longrightarrow> alloc r s = (None, s') \<Longrightarrow> bytes s' = bytes s"
begin

lemma alloc_seq_free:
  "inv s \<Longrightarrow> alloc_seq alloc rs s = (pas, s') \<Longrightarrow>
     inv s' \<and> distinct pas \<and> (\<forall>p \<in> set pas. free s p \<and> \<not> free s' p \<and> aligned 4096 p)
     \<and> (\<forall>q. free s' q \<longrightarrow> free s q)"
proof (induction rs arbitrary: s pas)
  case (Cons r rs)
  obtain x s1 where a: "alloc r s = (x, s1)" by (cases "alloc r s")
  obtain ps where rest: "alloc_seq alloc rs s1 = (ps, s')"
    using Cons.prems(2) a by (auto split: option.splits prod.splits)
  have i1: "inv s1" using alloc_inv [OF Cons.prems(1), of r] a by simp
  have k: "\<And>q. free s1 q \<Longrightarrow> free s q" using alloc_keeps [OF Cons.prems(1), of r] a by simp
  note IH = Cons.IH [OF i1 rest]
  show ?case
  proof (cases x)
    case None
    then show ?thesis using Cons.prems(2) a rest IH k by auto
  next
    case (Some pa)
    have "free s pa" "\<not> free s1 pa" "aligned 4096 pa"
      using alloc_free [OF Cons.prems(1)] alloc_aligned [OF Cons.prems(1)] a Some by blast+
    then show ?thesis using Cons.prems(2) a rest IH k Some by auto
  qed
qed simp

lemma alloc_seq_frame:
  "inv s \<Longrightarrow> alloc_seq alloc rs s = (pas, s') \<Longrightarrow> (\<forall>p \<in> set pas. 4096 \<le> unat (b - p)) \<Longrightarrow>
     bytes s' b = bytes s b"
proof (induction rs arbitrary: s pas)
  case (Cons r rs)
  obtain x s1 where a: "alloc r s = (x, s1)" by (cases "alloc r s")
  obtain ps where rest: "alloc_seq alloc rs s1 = (ps, s')"
    using Cons.prems(2) a by (auto split: option.splits prod.splits)
  have i1: "inv s1" using alloc_inv [OF Cons.prems(1), of r] a by simp
  show ?case
    using Cons.IH [OF i1 rest] Cons.prems(2,3) a rest alloc_fail [OF Cons.prems(1)]
      alloc_frame [OF Cons.prems(1)] by (cases x) auto
qed simp

end

lemma kmem_onlyE:
  assumes "kmem_only s s'"
  obtains m pp n where "s' = s\<lparr>mem := m, physpages := pp, next_alloc_pa := n\<rparr>"
  using assms by (cases s; cases s') (auto simp: kmem_only_def)

lemma kalloc_loop_only: "kalloc_loop L s = (r, s') \<Longrightarrow> kmem_only s s'"
proof (induction L s rule: kalloc_loop.induct)
  case (1 L s)
  show ?case
  proof (cases "next_alloc_pa s < MEMSIZE_PHYSICAL
      \<and> \<not> (allocatable_physical_address L (next_alloc_pa s) \<and> physpages s ! page_no (next_alloc_pa s) = 0)")
    case True
    then have "kmem_only (s\<lparr>next_alloc_pa := next_alloc_pa s + PAGESIZE\<rparr>) s'"
      using 1 by (auto simp: kalloc_loop.simps [of L s] Let_def split: if_splits)
    then show ?thesis by (simp add: kmem_only_def)
  next
    case False
    then show ?thesis using 1(2)
      by (auto simp: kalloc_loop.simps [of L s] Let_def kmem_only_def split: if_splits)
  qed
qed

lemma kalloc_only: "kalloc L sz s = (r, s') \<Longrightarrow> kmem_only s s'"
  by (auto simp: kalloc_def kalloc_loop_only split: if_splits) (simp add: kmem_only_def)

lemma kalloc_Some:
  assumes "kmem_ok s" "kalloc L sz s = (Some pa, s')"
  shows "sz \<le> PAGESIZE" "free_page L s pa" "aligned 4096 pa" "next_alloc_pa s \<le> pa"
    "s' = claim_page s pa" "kmem_ok s'"
    "\<And>q. aligned 4096 q \<Longrightarrow> next_alloc_pa s \<le> q \<Longrightarrow> q < pa \<Longrightarrow> \<not> free_page L s q"
proof -
  have r: "kalloc_loop L s = (Some pa, s')" and "sz \<le> PAGESIZE"
    using assms(2) by (auto simp: kalloc_def split: if_splits)
  note loop = kalloc_loop_Some [OF assms(1) r]
  show "sz \<le> PAGESIZE" by fact
  show "free_page L s pa" "aligned 4096 pa" "next_alloc_pa s \<le> pa" "s' = claim_page s pa"
    "\<And>q. aligned 4096 q \<Longrightarrow> next_alloc_pa s \<le> q \<Longrightarrow> q < pa \<Longrightarrow> \<not> free_page L s q"
    using loop by blast+
  then show "kmem_ok s'" using kmem_ok_claim [OF assms(1)] by blast
qed

lemma kalloc_None:
  assumes "kmem_ok s" "kalloc L sz s = (None, s')"
  shows "\<exists>n. s' = s\<lparr>next_alloc_pa := n\<rparr>" "kmem_ok s'"
    "sz > PAGESIZE \<or> (\<forall>q. aligned 4096 q \<and> next_alloc_pa s \<le> q \<longrightarrow> \<not> free_page L s q)"
  using assms(2) kalloc_loop_None [OF assms(1), of L s'] assms(1)
  by (auto simp: kalloc_def split: if_splits intro!: exI [of _ "next_alloc_pa s"])

interpretation kpages: page_allocator "kalloc L" kmem_ok "free_page L" mem for L
proof
  fix s :: "'a kmem_scheme" and r q
  assume ok: "kmem_ok s"
  show "kmem_ok (snd (kalloc L r s))"
    using kalloc_Some(6) [OF ok] kalloc_None(2) [OF ok]
    by (cases "kalloc L r s"; cases "fst (kalloc L r s)") auto
  show "free_page L s q" if "free_page L (snd (kalloc L r s)) q"
    using that kalloc_Some(2,5) [OF ok, of L r] kalloc_None(1) [OF ok, of L r]
      free_page_claim [OF ok, of L]
    by (cases "kalloc L r s"; cases "fst (kalloc L r s)") fastforce+
next
  fix s s' :: "'a kmem_scheme" and r pa b
  assume ok: "kmem_ok s" and a: "kalloc L r s = (Some pa, s')"
  show "free_page L s pa \<and> \<not> free_page L s' pa"
    using kalloc_Some(2,5) [OF ok a] free_page_claim [OF ok] by simp
  show "aligned 4096 pa" by (rule kalloc_Some(3) [OF ok a])
  show "mem s' b = mem s b" if "4096 \<le> unat (b - pa)"
    using that kalloc_Some(5) [OF ok a] by (simp add: claim_page_def fill_page_def)
next
  fix s s' :: "'a kmem_scheme" and r
  assume ok: "kmem_ok s" and a: "kalloc L r s = (None, s')"
  show "mem s' = mem s" using kalloc_None(1) [OF ok a] by auto
qed

lemma kalloc_here:
  assumes "free_page L s (next_alloc_pa s)" "sz \<le> PAGESIZE"
  shows "kalloc L sz s = (Some (next_alloc_pa s), claim_page s (next_alloc_pa s))"
  using assms unfolding kalloc_def kalloc_loop.simps [of L s]
  by (auto simp: free_page_def allocatable_physical_address_def Let_def claim_page_def memset_page)

lemma kalloc_skip:
  assumes "\<not> free_page L s (next_alloc_pa s)" "next_alloc_pa s < MEMSIZE_PHYSICAL"
  shows "kalloc L sz s = (if sz \<le> PAGESIZE then kalloc L sz (s\<lparr>next_alloc_pa := next_alloc_pa s + PAGESIZE\<rparr>) else (None, s))"
  using assms unfolding kalloc_def kalloc_loop.simps [of L s]
  by (auto simp: free_page_def Let_def)

lemma kalloc_loop_mem:
  "fst (kalloc_loop L (s\<lparr>mem := m\<rparr>)) = fst (kalloc_loop L s)
   \<and> (\<exists>m'. snd (kalloc_loop L (s\<lparr>mem := m\<rparr>)) = (snd (kalloc_loop L s))\<lparr>mem := m'\<rparr>)"
proof (induction L s rule: kalloc_loop.induct)
  case (1 L s)
  let ?n = "next_alloc_pa s"
  have comm: "s\<lparr>mem := m, next_alloc_pa := n\<rparr> = s\<lparr>next_alloc_pa := n, mem := m\<rparr>" for n by simp
  show ?case
  proof (cases "?n < MEMSIZE_PHYSICAL \<and> \<not> (allocatable_physical_address L ?n \<and> physpages s ! page_no ?n = 0)")
    case True
    then show ?thesis
      using "1.IH" [OF _ refl refl] unfolding kalloc_loop.simps [of L s] kalloc_loop.simps [of L "s\<lparr>mem := m\<rparr>"]
      by (auto simp: Let_def comm)
  next
    case False
    then show ?thesis
      unfolding kalloc_loop.simps [of L s] kalloc_loop.simps [of L "s\<lparr>mem := m\<rparr>"]
      by (auto simp: Let_def comm)
  qed
qed

lemma kalloc_mem:
  "\<exists>m'. kalloc L sz (s\<lparr>mem := m\<rparr>) = (fst (kalloc L sz s), (snd (kalloc L sz s))\<lparr>mem := m'\<rparr>)"
  using kalloc_loop_mem [where L = L and s = s and m = m] unfolding kalloc_def by (auto simp: prod_eq_iff)

lemmas alloc_eval = free_page_def allocatable_physical_address_def reserved_physical_address_def
  phys_consts page_no_def round_up_def round_down_def

lemma demo_kalloc: "sz \<le> 0x1000 \<Longrightarrow> kalloc demo_link sz demo_kmem = (Some 0x1000, claim_page demo_kmem 0x1000)"
  by (subst kalloc_skip; (subst kalloc_here)?; simp add: demo_link_def demo_kmem_def alloc_eval claim_page_def)

lemma demo_phys: "physpages demo_kmem = replicate 512 0" by (simp add: demo_kmem_def)

lemma demo_ok: "kmem_ok demo_kmem" by (simp add: demo_kmem_def kmem_ok_def NPAGES_def aligned_def)

text \<open>
  C9: When \<open>kalloc(sz)\<close> returns a page it is page-aligned, not null, allocatable, had
  reference count 0 and now has 1, its 4096 bytes are 0xCC and every other byte of memory is
  unchanged; when it returns null, more than a page was asked for or no page at or after the scan
  position was free, and memory and reference counts are unchanged.
\<close>
theorem kalloc_correct:
  assumes "kmem_ok s"
  shows "case kalloc L sz s of
      (Some pa, s') \<Rightarrow> sz \<le> PAGESIZE \<and> aligned 4096 pa \<and> pa \<noteq> 0
        \<and> allocatable_physical_address L pa \<and> physpages s ! page_no pa = 0
        \<and> physpages s' = (physpages s)[page_no pa := 1]
        \<and> (\<forall>b. mem s' b = (if unat (b - pa) < 4096 then 0xCC else mem s b)) \<and> kmem_ok s'
    | (None, s') \<Rightarrow> (PAGESIZE < sz \<or> (\<forall>q. aligned 4096 q \<and> next_alloc_pa s \<le> q \<longrightarrow> \<not> free_page L s q))
        \<and> mem s' = mem s \<and> physpages s' = physpages s \<and> kmem_ok s'"
proof (cases "kalloc L sz s")
  case (Pair x s')
  show ?thesis
  proof (cases x)
    case None
    show ?thesis using kalloc_None [OF assms, of L sz s'] Pair None by (auto simp: not_less)
  next
    case (Some pa)
    show ?thesis using kalloc_Some [OF assms, of L sz pa s'] allocatable_bounds(3) [of L pa] Pair Some
      by (auto simp: free_page_def claim_page_def fill_page_def)
  qed
qed

theorem kalloc_complete:
  assumes "kmem_ok s" "sz \<le> PAGESIZE" "aligned 4096 q" "next_alloc_pa s \<le> q" "free_page L s q"
  shows "\<exists>pa. fst (kalloc L sz s) = Some pa \<and> pa \<le> q"
proof (cases "kalloc L sz s")
  case (Pair x s')
  show ?thesis
    using kalloc_None(3) [OF assms(1)] kalloc_Some(7) [OF assms(1)] assms Pair
    by (cases x) (auto simp: not_less [symmetric])
qed

text \<open>
  C39: Over any sequence of \<open>kalloc\<close> calls from a well-formed allocator state the pages
  returned are pairwise distinct and page-aligned, were free before and are not free after, and
  the allocator invariant holds at the end.
\<close>
theorem kalloc_distinct:
  assumes "kmem_ok s" "alloc_seq (kalloc L) szs s = (pas, s')"
  shows "distinct pas \<and> (\<forall>p \<in> set pas. free_page L s p \<and> \<not> free_page L s' p \<and> aligned 4096 p)
    \<and> kmem_ok s'"
  using kpages.alloc_seq_free [OF assms] by blast

lemma kalloc_pagetable_zero:
  assumes "kmem_ok s" "kalloc_pagetable L s = (Some pt, s')"
  shows "free_page L s pt" "aligned 4096 pt" "kmem_ok s'"
    "s' = (claim_page s pt)\<lparr>mem := fill_page (mem s) pt 0\<rparr>"
proof -
  obtain s1 where a: "kalloc L PAGESIZE s = (Some pt, s1)"
    and s': "s' = s1\<lparr>mem := fill_page (mem s1) pt 0\<rparr>"
    using assms(2) by (auto simp: kalloc_pagetable_def memset_table split: prod.splits option.splits)
  note k = kalloc_Some [OF assms(1) a]
  show "free_page L s pt" "aligned 4096 pt" by (fact k)+
  show "kmem_ok s'" using k(6) s' by (simp add: kmem_ok_def)
  show "s' = (claim_page s pt)\<lparr>mem := fill_page (mem s) pt 0\<rparr>"
    using k(5) s' by (auto simp: claim_page_def fill_page_def fun_eq_iff)
qed

theorem kalloc_correct_witness:
  "physpages (snd (kalloc demo_link 100 demo_kmem)) = (replicate 512 0)[1 := 1]
   \<and> kmem_ok (snd (kalloc demo_link 100 demo_kmem))"
  using kalloc_correct [OF demo_ok, of 100 demo_link] by (simp add: demo_kalloc demo_phys page_no_def phys_consts)

theorem kalloc_complete_witness: 
  "\<exists>pa. fst (kalloc demo_link 8 demo_kmem) = Some pa \<and> pa \<le> 0x9000"
  using kalloc_complete [OF demo_ok, of 8 "0x9000" demo_link] 
  by (simp add: demo_kmem_def demo_link_def alloc_eval aligned_def)

theorem kalloc_distinct_witness:
  "distinct (fst (alloc_seq (kalloc demo_link) [8, 0x2000, 0x1000] demo_kmem))"
  using kalloc_distinct [OF demo_ok surjective_pairing, of demo_link "[8, 0x2000, 0x1000]"] by simp

end
