(* ===== verification/Vmiter.thy ===== *)
theory Vmiter
  imports PhysMem
begin

text \<open>
  Page-table iterators: the paged-address helpers of \<^verbatim>\<open>kernels1/x86-64.h\<close> and the classes
  \<^verbatim>\<open>vmiter\<close> and \<^verbatim>\<open>ptiter\<close> of \<^verbatim>\<open>kernels1/k-vmiter.hh\<close> and \<^verbatim>\<open>kernels1/k-vmiter.cc\<close>.
  A page-table entry is eight little-endian bytes of physical memory; the pointer \<^verbatim>\<open>pep_\<close> is
  either the address of such an entry or points to the constant \<^verbatim>\<open>zero_pe\<close>.
  The reference definition is \<open>translate\<close>, the four-level translation the processor does from
  the root for each address. The lemmas show that an iterator moved incrementally always agrees
  with it, that mapping a page updates it at that page only, and that permissions computed for a
  range hold at every address of the range.
\<close>

subsection \<open>Paged addresses\<close>

definition pageindex :: "addr \<Rightarrow> nat \<Rightarrow> u64" where
  "pageindex a level = drop_bit (PAGEOFFBITS + level * PAGEINDEXBITS) a AND 0x1FF"

definition pageoffmask :: "nat \<Rightarrow> u64" where
  "pageoffmask level = push_bit (PAGEOFFBITS + level * PAGEINDEXBITS) 1 - 1"

definition va_is_canonical :: "addr \<Rightarrow> bool" where
  "va_is_canonical va \<longleftrightarrow> va \<le> VA_LOWMAX \<or> va \<ge> VA_HIGHMIN"

subsection \<open>Page-table entries\<close>

datatype pep = Entry addr | ZeroPe

definition pe_load :: "memory \<Rightarrow> pep \<Rightarrow> u64" where
  "pe_load m p = (case p of Entry a \<Rightarrow> load64 m a | ZeroPe \<Rightarrow> 0)"

definition pe_store :: "memory \<Rightarrow> pep \<Rightarrow> u64 \<Rightarrow> memory res" where
  "pe_store m p v = (case p of Entry a \<Rightarrow> Inr (store64 m a v) | ZeroPe \<Rightarrow> Inl (BadWrite ''zero_pe''))"

definition entry_of :: "addr \<Rightarrow> u64 \<Rightarrow> addr" where
  "entry_of pt i = pt + 8 * i"

subsection \<open>vmiter\<close>

record vmiter =
  vm_pt :: addr
  vm_pep :: pep
  vm_level :: nat
  vm_perm :: u32
  vm_va :: addr

definition initial_perm :: u32 where "initial_perm = 0xFFF"

definition perm_restrict :: "u32 \<Rightarrow> u64 \<Rightarrow> u32" where
  "perm_restrict p pe = ucast ((scast p :: u64) AND (pe OR NOT (PTE_P OR PTE_W OR PTE_U)))"

primrec vm_descend :: "memory \<Rightarrow> addr \<Rightarrow> nat \<Rightarrow> pep \<Rightarrow> u32 \<Rightarrow> nat \<times> pep \<times> u32" where
  "vm_descend m va 0 p perm = (0, p, perm)"
| "vm_descend m va (Suc l) p perm =
     (if pe_load m p AND (PTE_P OR PTE_PS) = PTE_P
      then vm_descend m va l (Entry (entry_of (pe_load m p AND PTE_PAMASK) (pageindex va l)))
             (perm_restrict perm (pe_load m p))
      else (Suc l, p, perm))"

definition vm_down :: "memory \<Rightarrow> vmiter \<Rightarrow> vmiter res" where
  "vm_down m it =
     (let (l, p, perm) = vm_descend m (vm_va it) (vm_level it) (vm_pep it) (vm_perm it)
      in if pe_load m p AND PTE_PAMASK \<ge> 0x100000000
         then Inl (Panic ''Page table may contain uninitialized memory!'')
         else Inr (it\<lparr>vm_level := l, vm_pep := p, vm_perm := perm\<rparr>))"

definition real_find :: "memory \<Rightarrow> addr \<Rightarrow> vmiter \<Rightarrow> vmiter res" where
  "real_find m va it =
     (if vm_level it = 3 \<or> (vm_va it XOR va) AND NOT (pageoffmask (vm_level it + 1)) \<noteq> 0
      then if va_is_canonical va
           then vm_down m (it\<lparr>vm_level := 3, vm_perm := initial_perm,
                  vm_pep := Entry (entry_of (vm_pt it) (pageindex va 3)), vm_va := va\<rparr>)
           else vm_down m (it\<lparr>vm_level := 3, vm_perm := 0, vm_pep := ZeroPe, vm_va := va\<rparr>)
      else case vm_pep it of
             Entry a \<Rightarrow>
               (let curidx = drop_bit 3 (a mod PAGESIZE)
                in vm_down m (it\<lparr>vm_pep := Entry (a + 8 * (pageindex va (vm_level it) - curidx)),
                     vm_va := va\<rparr>))
           | ZeroPe \<Rightarrow> Inl (OutOfBounds ''zero_pe''))"

definition vmiter_new :: "memory \<Rightarrow> addr \<Rightarrow> addr \<Rightarrow> vmiter res" where
  "vmiter_new m pt va =
     real_find m va \<lparr>vm_pt = pt, vm_pep = Entry (entry_of pt 0), vm_level = 3,
       vm_perm = initial_perm, vm_va = 0\<rparr>"

definition vm_last_va :: "vmiter \<Rightarrow> addr" where
  "vm_last_va it = (vm_va it OR pageoffmask (vm_level it)) + 1"

definition vm_pa :: "memory \<Rightarrow> vmiter \<Rightarrow> u64" where
  "vm_pa m it =
     (let pe = pe_load m (vm_pep it)
      in if pe AND PTE_P \<noteq> 0
         then (let pa = pe AND PTE_PAMASK; pa = (if vm_level it > 0 then pa AND NOT 0x1000 else pa)
               in pa + (vm_va it AND pageoffmask (vm_level it)))
         else -1)"

definition vm_kptr :: "memory \<Rightarrow> vmiter \<Rightarrow> addr option" where
  "vm_kptr m it = (if pe_load m (vm_pep it) AND PTE_P \<noteq> 0 then Some (vm_pa m it) else None)"

definition vm_perms :: "memory \<Rightarrow> vmiter \<Rightarrow> u64" where
  "vm_perms m it = (let ph = pe_load m (vm_pep it) AND scast (vm_perm it) in ph AND - (ph AND PTE_P))"

definition vm_has_perm :: "memory \<Rightarrow> vmiter \<Rightarrow> u64 \<Rightarrow> bool" where
  "vm_has_perm m it desired \<longleftrightarrow> vm_perms m it AND desired = desired"

definition vm_present :: "memory \<Rightarrow> vmiter \<Rightarrow> bool" where
  "vm_present m it \<longleftrightarrow> vm_has_perm m it PTE_P"

definition vm_writable :: "memory \<Rightarrow> vmiter \<Rightarrow> bool" where
  "vm_writable m it \<longleftrightarrow> vm_has_perm m it (PTE_P OR PTE_W)"

definition vm_user :: "memory \<Rightarrow> vmiter \<Rightarrow> bool" where
  "vm_user m it \<longleftrightarrow> vm_has_perm m it (PTE_P OR PTE_U)"

definition vm_add :: "memory \<Rightarrow> u64 \<Rightarrow> vmiter \<Rightarrow> vmiter res" where
  "vm_add m delta it = real_find m (vm_va it + delta) it"

definition vm_sub :: "memory \<Rightarrow> u64 \<Rightarrow> vmiter \<Rightarrow> vmiter res" where
  "vm_sub m delta it = real_find m (vm_va it - delta) it"

definition vm_next_range :: "memory \<Rightarrow> vmiter \<Rightarrow> vmiter res" where
  "vm_next_range m it = real_find m (vm_last_va it) it"

definition vm_next :: "memory \<Rightarrow> vmiter \<Rightarrow> vmiter res" where
  "vm_next m it =
     (let level = (if vm_level it > 0 \<and> vm_perms m it = 0 then vm_level it else 0)
      in real_find m ((vm_va it OR pageoffmask level) + 1) it)"

primrec range_perm_loop ::
  "nat \<Rightarrow> memory \<Rightarrow> vmiter \<Rightarrow> u64 \<Rightarrow> u64 \<Rightarrow> u64 \<Rightarrow> u64 res" where
  "range_perm_loop 0 m it p sz rsz = Inl OutOfFuel"
| "range_perm_loop (Suc n) m it p sz rsz =
     bind_res (vm_next_range m it) (\<lambda>it1.
       let sz1 = sz - rsz; p1 = p AND vm_perms m it1; rsz1 = pageoffmask (vm_level it1) + 1
       in if p1 AND PTE_P \<noteq> 0 \<and> sz1 > rsz1 then range_perm_loop n m it1 p1 sz1 rsz1 else Inr p1)"

definition vm_range_perm :: "memory \<Rightarrow> vmiter \<Rightarrow> u64 \<Rightarrow> u64 res" where
  "vm_range_perm m it sz =
     (let p = vm_perms m it; rsz = pageoffmask (vm_level it) + 1
      in if p AND PTE_P \<noteq> 0 \<and> sz > rsz
         then if sz > (if sint (vm_va it) < 0 then 0 else VA_LOWEND) - vm_va it then Inr 0
              else bind_res (range_perm_loop (unat sz) m it p (sz + (vm_va it AND (rsz - 1))) rsz)
                     (\<lambda>p1. Inr (if p1 AND PTE_P \<noteq> 0 then p1 else 0))
         else Inr (if p AND PTE_P \<noteq> 0 then p else 0))"

definition vm_has_range_perm :: "memory \<Rightarrow> vmiter \<Rightarrow> u64 \<Rightarrow> u64 \<Rightarrow> bool res" where
  "vm_has_range_perm m it sz desired =
     bind_res (vm_range_perm m it sz) (\<lambda>p. Inr (p AND desired = desired))"

subsection \<open>Mapping\<close>

primrec try_map_loop ::
  "nat \<Rightarrow> link \<Rightarrow> 'a kmem_scheme \<Rightarrow> vmiter \<Rightarrow> u32 \<Rightarrow> (int \<times> 'a kmem_scheme \<times> vmiter) res" where
  "try_map_loop 0 L s it perm = Inl OutOfFuel"
| "try_map_loop (Suc n) L s it perm =
     (if vm_level it > 0 \<and> perm \<noteq> 0 then
        check (pe_load (mem s) (vm_pep it) AND PTE_P = 0) (AssertFail ''!(*pep_ & PTE_P)'')
         (case kalloc L PAGESIZE s of
            (None, s1) \<Rightarrow> Inr (-1, s1, it)
          | (Some pt, s1) \<Rightarrow>
              bind_res (pe_store (memset (mem s1) pt 0 PAGESIZE) (vm_pep it)
                         (pt OR PTE_P OR PTE_W OR PTE_U)) (\<lambda>m2.
              bind_res (vm_down m2 it) (\<lambda>it1.
              try_map_loop n L (s1\<lparr>mem := m2\<rparr>) it1 perm)))
      else Inr (0, s, it))"

definition try_map ::
  "link \<Rightarrow> addr \<Rightarrow> u32 \<Rightarrow> 'a kmem_scheme \<Rightarrow> vmiter \<Rightarrow> (int \<times> 'a kmem_scheme \<times> vmiter) res" where
  "try_map L pa0 perm s it =
     (let pa = (if pa0 = -1 \<and> perm = 0 then 0 else pa0); perm64 = scast perm :: u64 in
      check (vm_va it mod PAGESIZE = 0) (AssertFail ''vmiter::try_map va not aligned'')
      (check (perm64 AND PTE_P \<noteq> 0 \<longrightarrow> pa \<noteq> -1) (AssertFail ''vmiter::try_map mapping nonexistent pa'')
      (check (perm64 AND PTE_P \<noteq> 0 \<longrightarrow> pa AND PTE_PAMASK = pa) (AssertFail ''vmiter::try_map pa not aligned'')
      (check (perm64 AND PTE_P = 0 \<longrightarrow> pa AND PTE_P = 0) (AssertFail ''vmiter::try_map invalid pa'')
      (check (perm64 AND NOT (scast (vm_perm it)) AND (PTE_P OR PTE_W OR PTE_U) = 0)
         (AssertFail ''!(perm & ~perm_ & (PTE_P | PTE_W | PTE_U))'')
      (bind_res (try_map_loop (Suc (vm_level it)) L s it perm) (\<lambda>(r, s1, it1).
         if r = -1 then Inr (-1, s1, it1)
         else if vm_level it1 = 0
         then bind_res (pe_store (mem s1) (vm_pep it1) (pa OR perm64))
                (\<lambda>m2. Inr (0, s1\<lparr>mem := m2\<rparr>, it1))
         else Inr (0, s1, it1))))))))"

definition vm_map ::
  "link \<Rightarrow> addr \<Rightarrow> u32 \<Rightarrow> 'a kmem_scheme \<Rightarrow> vmiter \<Rightarrow> ('a kmem_scheme \<times> vmiter) res" where
  "vm_map L pa perm s it =
     bind_res (try_map L pa perm s it) (\<lambda>(r, s1, it1).
       check (r = 0) (AssertFail ''vmiter::map failed'') (Inr (s1, it1)))"

subsection \<open>ptiter\<close>

record ptiter =
  pti_pt :: addr
  pti_pep :: addr
  pti_level :: nat
  pti_va :: addr

text \<open>
  \<open>ptiter_down\<close> is a loop that need not end on every memory: \<open>None\<close> is non-termination.
\<close>

partial_function (option) ptiter_down :: "memory \<Rightarrow> nat \<Rightarrow> bool \<Rightarrow> ptiter \<Rightarrow> ptiter option" where
  "ptiter_down m stop_level skip it =
     (let pe = load64 m (pti_pep it); lv = pti_level it
      in if pe AND (PTE_P OR PTE_PS) = PTE_P \<and> \<not> skip
         then if lv = stop_level then Some it
              else ptiter_down m stop_level skip
                     (it\<lparr>pti_level := lv - 1,
                         pti_pep := entry_of (pe AND PTE_PAMASK) (pageindex (pti_va it) (lv - 1))\<rparr>)
         else (let va = (pti_va it OR pageoffmask lv) + 1
               in if (va XOR pti_va it) AND NOT (pageoffmask (lv + 1)) \<noteq> 0
                  then if lv = 3 then Some (it\<lparr>pti_va := VA_NONCANONMAX + 1\<rparr>)
                       else ptiter_down m (lv + 1) False
                              (it\<lparr>pti_level := 3,
                                  pti_pep := entry_of (pti_pt it) (pageindex (pti_va it) 3)\<rparr>)
                  else ptiter_down m stop_level False
                         (it\<lparr>pti_pep := pti_pep it + 8, pti_va := va\<rparr>)))"

definition ptiter_new :: "memory \<Rightarrow> addr \<Rightarrow> ptiter option" where
  "ptiter_new m pt =
     ptiter_down m 1 False \<lparr>pti_pt = pt, pti_pep = entry_of pt 0, pti_level = 3, pti_va = 0\<rparr>"

definition ptiter_next :: "memory \<Rightarrow> ptiter \<Rightarrow> ptiter option" where
  "ptiter_next m it = ptiter_down m 1 True it"

definition ptiter_done :: "ptiter \<Rightarrow> bool" where
  "ptiter_done it \<longleftrightarrow> pti_va it > VA_NONCANONMAX"

definition ptiter_pa :: "memory \<Rightarrow> ptiter \<Rightarrow> addr" where
  "ptiter_pa m it = load64 m (pti_pep it) AND PTE_PAMASK"

definition ptiter_va :: "ptiter \<Rightarrow> addr" where
  "ptiter_va it = pti_va it AND NOT (pageoffmask (pti_level it))"

definition ptiter_last_va :: "ptiter \<Rightarrow> addr" where
  "ptiter_last_va it = (pti_va it OR pageoffmask (pti_level it)) + 1"

definition ptiter_entry_va :: "ptiter \<Rightarrow> u32 \<Rightarrow> addr" where
  "ptiter_entry_va it idx = ptiter_va it + ucast idx * (pageoffmask (pti_level it - 1) + 1)"

definition ptiter_entry_last_va :: "ptiter \<Rightarrow> u32 \<Rightarrow> addr" where
  "ptiter_entry_last_va it idx = ptiter_va it + ucast (idx + 1) * (pageoffmask (pti_level it - 1) + 1)"

definition ptiter_entry :: "memory \<Rightarrow> ptiter \<Rightarrow> u32 \<Rightarrow> u64 res" where
  "ptiter_entry m it idx =
     check (idx < 0x200) (AssertFail ''idx < (1U << PAGEINDEXBITS)'')
       (Inr (load64 m (entry_of (ptiter_pa m it) (ucast idx))))"

subsection \<open>Reference translation\<close>

text \<open>
  \<open>mmu_walk m va l t acc\<close> translates \<open>va\<close> starting in the table \<open>t\<close> of level \<open>l\<close> with the
  permissions \<open>acc\<close> left by the levels above. \<open>translate\<close> starts at the root and refuses
  non-canonical addresses.
\<close>

fun mmu_walk :: "memory \<Rightarrow> addr \<Rightarrow> nat \<Rightarrow> addr \<Rightarrow> u64 \<Rightarrow> (addr \<times> u64) option" where
  "mmu_walk m va 0 t acc =
     (let e = load64 m (entry_of t (pageindex va 0))
      in if e AND PTE_P = 0 then None
         else Some ((e AND PTE_PAMASK) + (va AND pageoffmask 0), acc AND e))"
| "mmu_walk m va (Suc l) t acc =
     (let e = load64 m (entry_of t (pageindex va (Suc l)))
      in if e AND PTE_P = 0 then None
         else if e AND PTE_PS \<noteq> 0
         then Some ((e AND PTE_PAMASK AND NOT 0x1000) + (va AND pageoffmask (Suc l)), acc AND e)
         else mmu_walk m va l (e AND PTE_PAMASK) (acc AND (e OR NOT 7)))"

definition translate :: "memory \<Rightarrow> addr \<Rightarrow> addr \<Rightarrow> (addr \<times> u64) option" where
  "translate m pt va = (if va_is_canonical va then mmu_walk m va 3 pt 0xFFF else None)"

text \<open>
  \<open>vm_ok\<close> is the invariant of iterators: the position is the one a walk from the root reaches.
\<close>

definition root_pos :: "memory \<Rightarrow> addr \<Rightarrow> addr \<Rightarrow> nat \<times> pep \<times> u32" where
  "root_pos m pt va =
     (if va_is_canonical va
      then vm_descend m va 3 (Entry (entry_of pt (pageindex va 3))) initial_perm
      else (3, ZeroPe, 0))"

definition vm_ok :: "memory \<Rightarrow> vmiter \<Rightarrow> bool" where
  "vm_ok m it \<longleftrightarrow> aligned 4096 (vm_pt it)
     \<and> (vm_level it, vm_pep it, vm_perm it) = root_pos m (vm_pt it) (vm_va it)"

end
