(* ===== verification/VmWalk.thy ===== *)
theory VmWalk
  imports Vmiter
begin

text \<open>
  Correctness of moving a \<^verbatim>\<open>vmiter\<close> (\<^verbatim>\<open>real_find\<close>, \<^verbatim>\<open>down\<close>, \<^verbatim>\<open>next\<close>, \<^verbatim>\<open>range_perm\<close> of
  \<^verbatim>\<open>kernels1/k-vmiter.cc\<close>) against the reference translation of \<open>Vmiter\<close>.
  \<open>same_above l a b\<close> says that two addresses select the same entries above level \<open>l\<close>,
  \<open>vm_place\<close> is the position a fresh walk reaches, \<open>leaf\<close> reads the entry a walk ends at,
  \<open>region_base\<close> is the start of the addresses that entry covers, and \<open>vm_reach\<close> is the set of
  iterators that a program can hold: built by the constructor, then moved by any sequence of
  operations. \<open>straddle_mem\<close> is a small page table with one mapped page.
\<close>

subsection \<open>Specifications\<close>

definition same_above :: "nat \<Rightarrow> addr \<Rightarrow> addr \<Rightarrow> bool" where
  "same_above l a b \<longleftrightarrow> (\<forall>n. 12 + 9 * l \<le> n \<longrightarrow> bit a n = bit b n)"

definition vm_place :: "memory \<Rightarrow> addr \<Rightarrow> addr \<Rightarrow> vmiter res" where
  "vm_place m pt va = (let (l, p, perm) = root_pos m pt va
     in if pe_load m p AND PTE_PAMASK \<ge> 0x100000000
        then Inl (Panic ''Page table may contain uninitialized memory!'')
        else Inr \<lparr>vm_pt = pt, vm_pep = p, vm_level = l, vm_perm = perm, vm_va = va\<rparr>)"

definition small_perm :: "u32 \<Rightarrow> bool" where "small_perm p \<longleftrightarrow> (\<forall>n. bit p n \<longrightarrow> n < 12)"

definition leaf :: "nat \<Rightarrow> addr \<Rightarrow> u64 \<Rightarrow> u64 \<Rightarrow> (addr \<times> u64) option" where
  "leaf l va acc e = (if e AND PTE_P = 0 then None
     else Some ((if l > 0 then e AND PTE_PAMASK AND NOT 0x1000 else e AND PTE_PAMASK)
                 + (va AND pageoffmask l), acc AND e))"

definition perms_at :: "memory \<Rightarrow> addr \<Rightarrow> addr \<Rightarrow> u64" where
  "perms_at m pt va = (case translate m pt va of None \<Rightarrow> 0 | Some (_, p) \<Rightarrow> p)"

text \<open>The region an iterator's entry covers.\<close>

definition region_base :: "nat \<Rightarrow> addr \<Rightarrow> addr" where
  "region_base l va = va AND NOT (pageoffmask l)"

inductive vm_reach :: "memory \<Rightarrow> addr \<Rightarrow> vmiter \<Rightarrow> bool" for m pt where
  reach_new: "vmiter_new m pt va = Inr it \<Longrightarrow> vm_reach m pt it"
| reach_find: "vm_reach m pt it \<Longrightarrow> real_find m va it = Inr it' \<Longrightarrow> vm_reach m pt it'"
| reach_add: "vm_reach m pt it \<Longrightarrow> vm_add m d it = Inr it' \<Longrightarrow> vm_reach m pt it'"
| reach_sub: "vm_reach m pt it \<Longrightarrow> vm_sub m d it = Inr it' \<Longrightarrow> vm_reach m pt it'"
| reach_next: "vm_reach m pt it \<Longrightarrow> vm_next m it = Inr it' \<Longrightarrow> vm_reach m pt it'"
| reach_next_range: "vm_reach m pt it \<Longrightarrow> vm_next_range m it = Inr it' \<Longrightarrow> vm_reach m pt it'"

text \<open>A range that straddles a page boundary.\<close>

definition straddle_mem :: memory where
  "straddle_mem = (\<lambda>_. 0)(0x1000 := 7, 0x1001 := 0x20, 0x2000 := 7, 0x2001 := 0x30,
     0x3000 := 7, 0x3001 := 0x40, 0x4000 := 7, 0x4001 := 0x50)"

definition straddle_it :: vmiter where
  "straddle_it = \<lparr>vm_pt = 0x1000, vm_pep = Entry 0x4000, vm_level = 0, vm_perm = 0xFFF, vm_va = 0xFFF\<rparr>"

subsection \<open>Paged addresses\<close>

lemma pageoffmask_mask: "pageoffmask l = mask (12 + 9 * l)"
  by (simp add: pageoffmask_def PAGEOFFBITS_def PAGEINDEXBITS_def mask_eq_exp_minus_1 push_bit_eq_mult mult.commute)

lemma bit_pageindex: "bit (pageindex a l) n \<longleftrightarrow> n < 9 \<and> bit a (12 + 9 * l + n)"
proof -
  have "(0x1FF :: u64) = mask 9" by (simp add: mask_eq_exp_minus_1)
  then show ?thesis
    by (simp only: pageindex_def PAGEOFFBITS_def PAGEINDEXBITS_def bit_and_iff bit_drop_bit_eq bit_mask_iff)
      (auto simp: ac_simps)
qed

lemma pageindex_less: "pageindex a l < 512" 
proof -
  have "pageindex a l = take_bit 9 (pageindex a l)"
    by (rule bit_eqI) (auto simp: bit_pageindex bit_take_bit_iff)
  then have "unat (pageindex a l) < 2 ^ 9" by (metis unsigned_take_bit_eq take_bit_nat_less_exp)
  then show ?thesis by (simp add: word_less_nat_alt)
qed

lemma xor_pageoffmask: "(a XOR b) AND NOT (pageoffmask l) = 0 \<longleftrightarrow> same_above l a b"
proof -
  have bits: "bit ((a XOR b) AND NOT (pageoffmask l)) n \<longleftrightarrow> 12 + 9 * l \<le> n \<and> bit a n \<noteq> bit b n" for n
    using bit_imp_le_length [of a n] bit_imp_le_length [of b n]
    by (simp only: pageoffmask_mask bit_and_iff bit_xor_iff bit_not_iff bit_mask_iff
        possible_bit_word) linarith
  show ?thesis
  proof
    assume "(a XOR b) AND NOT (pageoffmask l) = 0"
    then have "\<not> bit ((a XOR b) AND NOT (pageoffmask l)) n" for n by (simp only: bit_0_eq bot_apply) simp
    then show "same_above l a b" unfolding bits same_above_def by blast
  next
    assume "same_above l a b"
    then have "\<not> bit ((a XOR b) AND NOT (pageoffmask l)) n" for n unfolding bits same_above_def by blast
    then show "(a XOR b) AND NOT (pageoffmask l) = 0" by (intro bit_eqI) (simp only: bit_0_eq bot_apply bot_bool_def)
  qed
qed

lemma same_above_mono: "same_above l a b \<Longrightarrow> l \<le> k \<Longrightarrow> same_above k a b"
  by (simp add: same_above_def)

lemma same_above_pageindex: "same_above l a b \<Longrightarrow> l \<le> k \<Longrightarrow> pageindex a k = pageindex b k"
  by (rule bit_eqI) (auto simp: bit_pageindex same_above_def)

lemma same_above_step: "same_above l a b \<longleftrightarrow> same_above (Suc l) a b \<and> pageindex a l = pageindex b l"
proof
  assume r: "same_above (Suc l) a b \<and> pageindex a l = pageindex b l"
  show "same_above l a b" unfolding same_above_def
  proof (intro allI impI)
    fix n assume n: "12 + 9 * l \<le> n"
    show "bit a n = bit b n"
    proof (cases "n < 12 + 9 * Suc l")
      case True
      have "bit (pageindex a l) (n - (12 + 9 * l)) = bit (pageindex b l) (n - (12 + 9 * l))" 
        using r by simp
      then show ?thesis using n True by (auto simp: bit_pageindex)
    qed (use r in \<open>auto simp: same_above_def\<close>)
  qed
qed (auto intro: same_above_mono same_above_pageindex)

lemma canonical_drop: "va_is_canonical va \<longleftrightarrow> drop_bit 47 va = 0 \<or> drop_bit 47 va = 0x1FFFF"
proof -
  have "drop_bit 47 va = 0 \<longleftrightarrow> unat va div 2 ^ 47 = 0"
    "drop_bit 47 va = 0x1FFFF \<longleftrightarrow> unat va div 2 ^ 47 = 0x1FFFF"
    by (simp_all add: word_unat_eq_iff unsigned_drop_bit_eq drop_bit_eq_div unat_div_distrib)
  moreover have "unat va div 2 ^ 47 < 0x20000"
    using unat_less_2_64 [of va] by (simp add: div_less_iff_less_mult)
  moreover have "0x1FFFF \<le> unat va div 2 ^ 47 \<longleftrightarrow> 0x1FFFF * 2 ^ 47 \<le> unat va"
    by (simp add: less_eq_div_iff_mult_less_eq)
  ultimately show ?thesis
    by (simp add: va_is_canonical_def va_consts word_le_nat_alt div_eq_0_iff) linarith
qed

lemma same_above_canonical: "same_above l a b \<Longrightarrow> l \<le> 3 \<Longrightarrow> va_is_canonical a = va_is_canonical b"
proof -
  assume "same_above l a b" "l \<le> 3"
  then have "drop_bit 47 a = drop_bit 47 b"
    by (intro bit_eqI) (auto simp: bit_drop_bit_eq same_above_def)
  then show ?thesis by (simp add: canonical_drop)
qed

lemma aligned_pamask: "aligned 4096 (e AND PTE_PAMASK)"
proof -
  have "take_bit 12 (e AND PTE_PAMASK) = 0" by (simp add: PTE_PAMASK_def take_bit_and)
  then have "take_bit 12 (unat (e AND PTE_PAMASK)) = 0" by (metis unsigned_take_bit_eq unsigned_0)
  then show ?thesis by (simp add: aligned_def take_bit_eq_mod mod_eq_0_iff_dvd)
qed

lemma unat_entry_of:
  assumes "aligned 4096 t" "i < 512"
  shows "unat (entry_of t i) = unat t + 8 * unat i"
proof -
  obtain k where k: "unat t = 4096 * k" using assms(1) by (auto simp: aligned_def)
  have "4096 * k < 2 ^ 64" using k unat_less_2_64 [of t] by simp
  then have "unat t + 4096 \<le> 2 ^ 64" using k by simp
  moreover have i: "unat i < 512" using assms(2) by (simp add: word_less_nat_alt)
  moreover have "unat (8 * i) = 8 * unat i" using i by (subst unat_mult64) simp_all
  ultimately show ?thesis unfolding entry_of_def by (subst unat_add64) simp_all
qed

lemma aligned_entry_of: "aligned 4096 t \<Longrightarrow> i < 512 \<Longrightarrow> aligned 8 (entry_of t i)"
  by (auto simp: aligned_def unat_entry_of elim!: dvdE)

lemma entry_of_index:
  assumes "aligned 4096 t" "i < 512"
  shows "drop_bit 3 (entry_of t i mod PAGESIZE) = i"
proof -
  have i: "unat i < 512" using assms(2) by (simp add: word_less_nat_alt)
  have "unat (entry_of t i) mod 4096 = 8 * unat i"
    using assms(1) i by (auto simp: unat_entry_of [OF assms] aligned_def elim!: dvdE)
  then have "unat (drop_bit 3 (entry_of t i mod PAGESIZE)) = unat i"
    by (simp add: unsigned_drop_bit_eq drop_bit_eq_div unat_mod_distrib unat_div_distrib PAGESIZE_def)
  then show ?thesis by (simp add: word_unat_eq_iff)
qed

lemma entry_of_move:
  assumes "aligned 4096 t" "i < 512"
  shows "entry_of t i + 8 * (j - drop_bit 3 (entry_of t i mod PAGESIZE)) = entry_of t j"
  unfolding entry_of_index [OF assms] by (simp add: entry_of_def right_diff_distrib)

lemma descend_path:
  "vm_descend m va n (Entry (entry_of t (pageindex va n))) p0 = (l, p, perm) \<Longrightarrow> aligned 4096 t \<Longrightarrow>
    l \<le> n \<and> (\<exists>t'. aligned 4096 t' \<and> p = Entry (entry_of t' (pageindex va l)) \<and>
      (\<forall>va'. same_above (Suc l) va va' \<longrightarrow>
         vm_descend m va' n (Entry (entry_of t (pageindex va' n))) p0
           = vm_descend m va' l (Entry (entry_of t' (pageindex va' l))) perm))"
proof (induction n arbitrary: t p0)
  case (Suc n)
  let ?e = "load64 m (entry_of t (pageindex va (Suc n)))"
  show ?case
  proof (cases "?e AND (PTE_P OR PTE_PS) = PTE_P")
    case True
    have r: "vm_descend m va n (Entry (entry_of (?e AND PTE_PAMASK) (pageindex va n)))
        (perm_restrict p0 ?e) = (l, p, perm)"
      using Suc.prems(1) True by (simp add: pe_load_def)
    note IH = Suc.IH [OF r aligned_pamask]
    have "pageindex va' (Suc n) = pageindex va (Suc n)" if "same_above (Suc l) va va'" for va'
      using same_above_pageindex [OF that, of "Suc n"] IH by simp
    then show ?thesis using IH True by (auto simp: pe_load_def)
  qed (use Suc.prems in \<open>auto simp: pe_load_def\<close>)
qed auto

lemma vm_ok_level: "vm_ok m it \<Longrightarrow> vm_level it \<le> 3"
  using descend_path [of m "vm_va it" 3 "vm_pt it" initial_perm]
  by (cases "root_pos m (vm_pt it) (vm_va it)") (auto simp: vm_ok_def root_pos_def split: if_splits)

lemma descend_zero [simp]: "vm_descend m va 3 ZeroPe p = (3, ZeroPe, p)"
  by (simp add: pe_load_def PTE_P_def numeral_3_eq_3)

lemma real_find_reset:
  "vm_level it = 3 \<or> \<not> same_above (Suc (vm_level it)) (vm_va it) va \<Longrightarrow>
     real_find m va it = vm_place m (vm_pt it) va"
  using xor_pageoffmask [of "vm_va it" va "Suc (vm_level it)"]
  by (auto simp: real_find_def vm_down_def vm_place_def root_pos_def split: prod.splits)

lemma real_find_place:
  assumes ok: "vm_ok m it"
  shows "real_find m va it = vm_place m (vm_pt it) va"
proof (cases "vm_level it = 3 \<or> \<not> same_above (Suc (vm_level it)) (vm_va it) va")
  case False
  then have lv: "vm_level it \<noteq> 3" and same: "same_above (Suc (vm_level it)) (vm_va it) va" by auto
  have l3: "Suc (vm_level it) \<le> 3" using vm_ok_level [OF ok] lv by simp
  have can: "va_is_canonical (vm_va it)" and al: "aligned 4096 (vm_pt it)"
    using ok lv by (auto simp: vm_ok_def root_pos_def split: if_splits)
  then have d: "vm_descend m (vm_va it) 3 (Entry (entry_of (vm_pt it) (pageindex (vm_va it) 3))) initial_perm
      = (vm_level it, vm_pep it, vm_perm it)" using ok by (auto simp: vm_ok_def root_pos_def)
  obtain t where t: "aligned 4096 t" "vm_pep it = Entry (entry_of t (pageindex (vm_va it) (vm_level it)))"
    and w: "vm_descend m va 3 (Entry (entry_of (vm_pt it) (pageindex va 3))) initial_perm
           = vm_descend m va (vm_level it) (Entry (entry_of t (pageindex va (vm_level it)))) (vm_perm it)"
    using descend_path [OF d al] same by blast
  have "va_is_canonical va" using same_above_canonical [OF same l3] can by simp
  moreover have "(vm_va it XOR va) AND NOT (pageoffmask (Suc (vm_level it))) = 0"
    using same by (simp add: xor_pageoffmask)
  ultimately show ?thesis
    using lv t(2) entry_of_move [OF t(1) pageindex_less, of "vm_va it" "vm_level it" "pageindex va (vm_level it)"]
    by (simp add: real_find_def Let_def vm_down_def vm_place_def root_pos_def w
        del: right_diff_distrib_numeral split: prod.splits)
qed (rule real_find_reset)

lemma vmiter_new_place: "vmiter_new m pt va = vm_place m pt va"
  by (simp add: vmiter_new_def real_find_reset)

lemma vm_place_ok:
  assumes "vm_place m pt va = Inr it" "aligned 4096 pt"
  shows "vm_ok m it" "vm_pt it = pt" "vm_va it = va"
  using assms by (auto simp: vm_place_def vm_ok_def split: prod.splits if_splits)

lemma and_P_iff: "(e :: u64) AND PTE_P = 0 \<longleftrightarrow> \<not> bit e 0" "(e :: u64) AND PTE_W = 0 \<longleftrightarrow> \<not> bit e 1"
   "(e :: u64) AND PTE_U = 0 \<longleftrightarrow> \<not> bit e 2" "(e :: u64) AND PTE_PS = 0 \<longleftrightarrow> \<not> bit e 7"
  using and_exp_eq_0_iff_not_bit [of e 0] and_exp_eq_0_iff_not_bit [of e 1]
    and_exp_eq_0_iff_not_bit [of e 2] and_exp_eq_0_iff_not_bit [of e 7]
  by (simp_all add: pte_consts)

lemma bit_pwu: "bit (PTE_P OR PTE_W OR PTE_U) n \<longleftrightarrow> n < 3"
proof -
  have "PTE_P OR PTE_W OR PTE_U = mask 3" by (simp add: pte_consts mask_eq_exp_minus_1)
  then show ?thesis by (simp only: bit_mask_iff possible_bit_word) (auto simp: less_le_trans)
qed

lemma bit_7_u64: "bit (7 :: u64) n \<longleftrightarrow> n < 3"
proof -
  have "(7 :: u64) = mask 3" by (simp add: mask_eq_exp_minus_1)
  then show ?thesis by (simp only: bit_mask_iff possible_bit_word) (auto simp: less_le_trans)
qed

lemma P_PS_iff: "(e :: u64) AND (PTE_P OR PTE_PS) = PTE_P \<longleftrightarrow> bit e 0 \<and> \<not> bit e 7"
proof -
  have PS: "PTE_P = 2 ^ 0" "PTE_PS = 2 ^ 7" by (simp_all add: pte_consts)
  have b: "bit (e AND (PTE_P OR PTE_PS)) n \<longleftrightarrow> bit e n \<and> (n = 0 \<or> n = 7)" for n
    by (simp only: PS bit_and_iff bit_or_iff bit_exp_iff possible_bit_word) auto
  have p: "bit PTE_P n \<longleftrightarrow> n = 0" for n by (simp only: PS bit_exp_iff possible_bit_word) auto
  show ?thesis
  proof
    assume "e AND (PTE_P OR PTE_PS) = PTE_P"
    then have "bit (e AND (PTE_P OR PTE_PS)) n = bit PTE_P n" for n by simp
    from this [of 0] this [of 7] show "bit e 0 \<and> \<not> bit e 7" unfolding b p by simp
  next
    assume "bit e 0 \<and> \<not> bit e 7"
    then show "e AND (PTE_P OR PTE_PS) = PTE_P" by (intro bit_eqI) (simp only: b p, auto)
  qed
qed

lemma small_perm_iff: "small_perm p \<longleftrightarrow> p < 0x1000"
proof -
  have "small_perm p \<longleftrightarrow> take_bit 12 p = p"
    unfolding small_perm_def bit_eq_iff [of "take_bit 12 p"] bit_take_bit_iff
    using bit_imp_le_length [of p] by auto
  also have "\<dots> \<longleftrightarrow> take_bit 12 (unat p) = unat p" by (simp add: word_unat_eq_iff unsigned_take_bit_eq)
  also have "\<dots> \<longleftrightarrow> p < 2 ^ 12" by (simp add: take_bit_nat_eq_self_iff word_less_nat_alt)
  finally show ?thesis by simp
qed

lemma bit_sx: "small_perm p \<Longrightarrow> bit (scast p :: u64) n \<longleftrightarrow> bit p n"
  unfolding small_perm_def by (auto simp: bit_signed_iff min_def)

lemma bit_perm_restrict:
  "small_perm p \<Longrightarrow> bit (perm_restrict p e) n \<longleftrightarrow> bit p n \<and> (bit e n \<or> 3 \<le> n)"
  unfolding perm_restrict_def bit_unsigned_iff bit_and_iff bit_or_iff [of e] bit_not_iff bit_pwu
  using bit_sx [of p n] by (auto simp: small_perm_def not_less)

lemma small_perm_restrict [intro]: "small_perm p \<Longrightarrow> small_perm (perm_restrict p e)"
  unfolding small_perm_def using bit_perm_restrict [of p e] by (auto simp: small_perm_def)

lemma sx_perm_restrict: "small_perm p \<Longrightarrow> (scast (perm_restrict p e) :: u64) = scast p AND (e OR NOT 7)"
  by (rule bit_eqI) (simp only: bit_sx small_perm_restrict bit_perm_restrict bit_and_iff bit_or_iff
      bit_not_iff bit_7_u64 not_less simp_thms)

lemma small_initial: "small_perm initial_perm" by (simp add: small_perm_iff initial_perm_def)

lemma descend_mmu:
  "vm_descend m va n (Entry (entry_of t (pageindex va n))) p0 = (l, p, perm) \<Longrightarrow>
    small_perm p0 \<Longrightarrow> bit p0 0 \<Longrightarrow>
    small_perm perm \<and> bit perm 0 \<and> mmu_walk m va n t (scast p0) = leaf l va (scast perm) (pe_load m p)"
proof (induction n arbitrary: t p0)
  case 0
  then show ?case by (auto simp: leaf_def pe_load_def Let_def)
next
  case (Suc n)
  let ?e = "load64 m (entry_of t (pageindex va (Suc n)))"
  show ?case
  proof (cases "?e AND (PTE_P OR PTE_PS) = PTE_P")
    case True
    have r: "vm_descend m va n (Entry (entry_of (?e AND PTE_PAMASK) (pageindex va n)))
        (perm_restrict p0 ?e) = (l, p, perm)"
      using Suc.prems(1) True by (simp add: pe_load_def)
    have b: "bit ?e 0" "\<not> bit ?e 7" using True by (simp_all add: P_PS_iff)
    have "bit (perm_restrict p0 ?e) 0" using Suc.prems b by (simp add: bit_perm_restrict)
    from Suc.IH [OF r small_perm_restrict [OF Suc.prems(2)] this] show ?thesis
      using b by (simp add: and_P_iff sx_perm_restrict [OF Suc.prems(2)] Let_def)
  next
    case False
    then show ?thesis using Suc.prems
      by (auto simp: pe_load_def leaf_def Let_def P_PS_iff and_P_iff and.assoc)
  qed
qed

lemma initial_perm_sx: "(scast initial_perm :: u64) = 0xFFF" by (simp add: initial_perm_def)

lemma root_translate:
  assumes "root_pos m pt va = (l, p, perm)"
  shows "small_perm perm" "bit perm 0 \<or> p = ZeroPe" "translate m pt va = leaf l va (scast perm) (pe_load m p)"
  using assms descend_mmu [of m va 3 pt initial_perm l p perm] small_initial
  by (auto simp: root_pos_def translate_def initial_perm_sx leaf_def pe_load_def small_perm_def
     initial_perm_def split: if_splits)

lemma vm_ok_translate:
  assumes "vm_ok m it"
  shows "translate m (vm_pt it) (vm_va it) = (if vm_present m it then Some (vm_pa m it, vm_perms m it) else None)"
     (is ?A) and "\<not> vm_present m it \<Longrightarrow> vm_pa m it = -1 \<and> vm_perms m it = 0"
proof -
  note rt = root_translate [of m "vm_pt it" "vm_va it" "vm_level it" "vm_pep it" "vm_perm it"]
  have r: "small_perm (vm_perm it)" "bit (vm_perm it) 0 \<or> vm_pep it = ZeroPe"
     "translate m (vm_pt it) (vm_va it) = leaf (vm_level it) (vm_va it) (scast (vm_perm it)) (pe_load m (vm_pep it))"
    using rt assms by (simp_all add: vm_ok_def)
  let ?e = "pe_load m (vm_pep it)"
  let ?ph = "?e AND scast (vm_perm it)"
  have b0: "bit ?ph 0 \<longleftrightarrow> bit ?e 0" using r(2) by (auto simp: bit_and_iff bit_sx [OF r(1)] pe_load_def)
  have one: "?ph AND PTE_P = (if bit ?e 0 then 1 else 0)" using b0 
    by (auto simp: PTE_P_def one_and_eq and_one_eq odd_iff_mod_2_eq_one even_iff_mod_2_eq_zero bit_0 )
  have perms: "vm_perms m it = (if bit ?e 0 then ?ph else 0)"
    unfolding vm_perms_def Let_def one by simp
  have pres: "vm_present m it \<longleftrightarrow> bit ?e 0"
    unfolding vm_present_def vm_has_perm_def perms using one by (auto simp: PTE_P_def)
  show ?A using r(3) unfolding leaf_def and_P_iff pres
    by (auto simp: perms vm_pa_def Let_def and_P_iff and.assoc and.commute and.left_commute)
  show "\<not> vm_present m it \<Longrightarrow> vm_pa m it = -1 \<and> vm_perms m it = 0"
    by (simp add: pres perms vm_pa_def and_P_iff Let_def)
qed

lemma descend_stops:
  "vm_descend m va n q p0 = (l, p, perm) \<Longrightarrow> l = 0 \<or> \<not> pe_load m p AND (PTE_P OR PTE_PS) = PTE_P"
  by (induction n arbitrary: q p0) (auto split: if_splits)

lemma descend_stay:
  "l = 0 \<or> \<not> pe_load m p AND (PTE_P OR PTE_PS) = PTE_P \<Longrightarrow> vm_descend m va l p perm = (l, p, perm)"
  by (cases l) auto

lemma same_above_refl [simp]: "same_above l a a" by (simp add: same_above_def)

lemma root_pos_level: "root_pos m pt va = (l, p, perm) \<Longrightarrow> aligned 4096 pt \<Longrightarrow> l \<le> 3"
  using descend_path [of m va 3 pt initial_perm l p perm] by (auto simp: root_pos_def split: if_splits)

lemma root_pos_region:
  assumes r: "root_pos m pt va = (l, p, perm)" and al: "aligned 4096 pt" and same: "same_above l va va'"
  shows "root_pos m pt va' = (l, p, perm)"
proof (cases "va_is_canonical va")
  case True
  have d: "vm_descend m va 3 (Entry (entry_of pt (pageindex va 3))) initial_perm = (l, p, perm)"
    using r True by (simp add: root_pos_def)
  obtain t where t: "p = Entry (entry_of t (pageindex va l))"
    and w: "vm_descend m va' 3 (Entry (entry_of pt (pageindex va' 3))) initial_perm
           = vm_descend m va' l (Entry (entry_of t (pageindex va' l))) perm"
    using descend_path [OF d al] same_above_mono [OF same, of "Suc l"] by auto
  have "pageindex va' l = pageindex va l" using same_above_pageindex [OF same, of l] by simp
  moreover have "va_is_canonical va'" 
    using True same_above_canonical [OF same root_pos_level [OF r al]] by simp
  ultimately show ?thesis using w t descend_stay [OF descend_stops [OF d], of va' perm] by (simp add: root_pos_def)
next
  case False
  then have "\<not> va_is_canonical va'"
    using same_above_canonical [OF same root_pos_level [OF r al]] by simp
  then show ?thesis using r False by (simp add: root_pos_def)
qed

lemma vm_perms_at: "vm_ok m it \<Longrightarrow> vm_perms m it = perms_at m (vm_pt it) (vm_va it)"
  using vm_ok_translate [of m it] by (cases "vm_present m it") (auto simp: perms_at_def)

lemma perms_at_region:
  assumes "vm_ok m it" "same_above (vm_level it) (vm_va it) a"
  shows "perms_at m (vm_pt it) a = vm_perms m it"
proof -
  have r: "root_pos m (vm_pt it) (vm_va it) = (vm_level it, vm_pep it, vm_perm it)" 
    and al: "aligned 4096 (vm_pt it)" using assms(1) by (simp_all add: vm_ok_def)
  have "vm_ok m (it\<lparr>vm_va := a\<rparr>)" using root_pos_region [OF r al assms(2)] al by (simp add: vm_ok_def)
  from vm_perms_at [OF this] show ?thesis by (simp add: vm_perms_def)
qed

lemma same_above_div:
  "same_above l a b \<longleftrightarrow> unat a div 2 ^ (12 + 9 * l) = unat b div 2 ^ (12 + 9 * l)"
proof -
  have u: "unat (drop_bit (12 + 9 * l) w) = unat w div 2 ^ (12 + 9 * l)" for w :: addr
    using take_bit_nat_eq_self [of "unat w" 64]
    by (subst unsigned_drop_bit_eq) (simp add: drop_bit_eq_div)
  have "same_above l a b \<longleftrightarrow> drop_bit (12 + 9 * l) a = drop_bit (12 + 9 * l) b"
    unfolding same_above_def bit_eq_iff [of "drop_bit _ a"] bit_drop_bit_eq
    using bit_imp_le_length [of a] bit_imp_le_length [of b]
    by (auto simp: le_iff_add) (metis add.commute add_lessD1)+
  then show ?thesis by (simp only: word_unat_eq_iff u)
qed

lemma region_size: "l \<le> 3 \<Longrightarrow> unat (pageoffmask l + 1) = 2 ^ (12 + 9 * l)"
  by (auto simp: pageoffmask_mask mask_eq_exp_minus_1 le_Suc_eq numeral_3_eq_3)

lemma region_last: "(va OR pageoffmask l) + 1 = region_base l va + (pageoffmask l + 1)"
proof -
  have "va OR pageoffmask l = (va AND NOT (pageoffmask l)) OR pageoffmask l"
    by (rule bit_eqI) (auto simp: bit_or_iff bit_and_iff bit_not_iff)
  also have "\<dots> = (va AND NOT (pageoffmask l)) + pageoffmask l"
    by (rule disjunctive_add [symmetric]) (auto simp: bit_and_iff bit_not_iff)
  finally show ?thesis by (simp add: region_base_def)
qed

lemma region_offset: "region_base l va + (va AND pageoffmask l) = va"
proof -
  have "region_base l va + (va AND pageoffmask l) = (va AND NOT (pageoffmask l)) OR (va AND pageoffmask l)"
    unfolding region_base_def
    by (rule disjunctive_add) (auto simp: bit_and_iff bit_not_iff)
  also have "\<dots> = va" by (rule bit_eqI) (auto simp: bit_or_iff bit_and_iff bit_not_iff)
  finally show ?thesis .
qed

lemma region_base_same: "same_above l va (region_base l va)"
  unfolding same_above_def region_base_def pageoffmask_mask bit_and_iff bit_not_iff bit_mask_iff
  using bit_imp_le_length [of va] by auto

lemma region_base_aligned: "l \<le> 3 \<Longrightarrow> aligned (2 ^ (12 + 9 * l)) (region_base l va)"
proof -
  have "take_bit (12 + 9 * l) (region_base l va) = 0"
    unfolding region_base_def pageoffmask_mask
    by (rule bit_eqI) (auto simp: bit_take_bit_iff bit_and_iff bit_not_iff bit_mask_iff)
  then have "take_bit (12 + 9 * l) (unat (region_base l va)) = 0" by (metis unsigned_take_bit_eq unsigned_0)
  then show ?thesis by (simp add: aligned_def take_bit_eq_mod mod_eq_0_iff_dvd)
qed

lemma region_dvd: "l \<le> 3 \<Longrightarrow> (2::nat) ^ (12 + 9 * l) dvd 2 ^ 64"
  by (rule le_imp_power_dvd) simp

lemma in_region_same:
  assumes "l \<le> 3" "unat (a - region_base l va) < 2 ^ (12 + 9 * l)"
  shows "same_above l va a"
  using aligned_block_div [OF region_base_aligned [OF assms(1)] assms(2) region_dvd [OF assms(1)]]
    region_base_same [of l va]
  unfolding same_above_div by simp

lemma aligned_region_base: 
  assumes "aligned (2 ^ (12 + 9 * l)) va"
  shows "region_base l va = va"
proof -
  have "take_bit (12 + 9 * l) (unat va) = 0"
    using assms by (simp add: aligned_def take_bit_eq_mod)
  then have "unat (take_bit (12 + 9 * l) va) = 0" by (simp only: unsigned_take_bit_eq)
  then have "take_bit (12 + 9 * l) va = 0" by (simp add: unat_eq_zero)
  moreover have "va AND pageoffmask l = take_bit (12 + 9 * l) va"
    by (simp add: pageoffmask_mask take_bit_eq_mask)
  ultimately show ?thesis using region_offset [of l va] by simp
qed

text \<open>
  Crossing from one region to the next: the next region starts exactly at its first address,
  whatever its size.
\<close>

lemma aligned_dvd: "aligned k a \<longleftrightarrow> k dvd unat a"
  by (simp add: aligned_def mod_eq_0_iff_dvd)

lemma aligned_mono: "aligned (2 ^ i) a \<Longrightarrow> j \<le> i \<Longrightarrow> aligned (2 ^ j) a"
  unfolding aligned_dvd by (meson dvd_trans le_imp_power_dvd)

lemma unaligned_pred:
  assumes "\<not> aligned k a" "0 < k" 
  shows "unat (a - 1) div k = unat a div k"
proof -
  have nd: "\<not> k dvd unat a" using assms(1) by (simp add: aligned_dvd)
  then have a0: "0 < unat a" by (metis dvd_0_right gr0I)
  then have "unat (a - 1) = unat a - 1" by (simp add: unat_minus_one unat_gt_0)
  then show ?thesis using nd a0 assms(2) by (metis Suc_pred' div_Suc mod_eq_0_iff_dvd)
qed

lemma next_region_aligned:
  assumes r: "root_pos m pt va = (l, p, perm)" and al: "aligned 4096 pt"
    and n: "root_pos m pt (region_base l va + (pageoffmask l + 1)) = (l1, p1, perm1)"
  shows "region_base l1 (region_base l va + (pageoffmask l + 1)) = region_base l va + (pageoffmask l + 1)"
    (is "region_base l1 ?b = ?b")
proof -
  have l3: "l \<le> 3" "l1 \<le> 3" using root_pos_level [OF r al] root_pos_level [OF n al] by auto
  have abl: "aligned (2 ^ (12 + 9 * l)) ?b"
  proof -
    have "(2::nat) ^ (12 + 9 * l) dvd unat (region_base l va) + unat (pageoffmask l + 1)"
      using region_base_aligned [OF l3(1)] region_size [OF l3(1)] by (simp add: aligned_dvd)
    then have "(2::nat) ^ (12 + 9 * l) dvd (unat (region_base l va) + unat (pageoffmask l + 1)) mod 2 ^ 64"
      using region_dvd [OF l3(1)] by (simp only: dvd_mod_iff)
    then show ?thesis by (simp only: aligned_dvd unat_word_ariths) simp
  qed
  have "aligned (2 ^ (12 + 9 * l1)) ?b"
  proof (rule ccontr)
    assume na: "\<not> ?thesis"
    then have lt: "l < l1" using aligned_mono [OF abl, of "12 + 9 * l1"] by (cases "l < l1") auto
    have "same_above l1 ?b (?b - 1)" unfolding same_above_div using unaligned_pred [OF na] by simp
    then have "root_pos m pt (?b - 1) = (l1, p1, perm1)" by (rule root_pos_region [OF n al])
    moreover have "same_above l va (?b - 1)"
    proof (rule in_region_same [OF l3(1)])
      have "unat (pageoffmask l) < 2 ^ (12 + 9 * l)" unfolding pageoffmask_mask
        by (metis mask_eq_take_bit_minus_one take_bit_nat_less_exp unsigned_take_bit_eq)
      then show "unat (?b - 1 - region_base l va) < 2 ^ (12 + 9 * l)" by simp
    qed
    then have "root_pos m pt (?b - 1) = (l, p, perm)" by (rule root_pos_region [OF r al])
    ultimately show False using lt by simp
  qed
  then show ?thesis by (rule aligned_region_base)
qed

lemma and_mono_sub: "(x AND y) AND z = z \<Longrightarrow> x AND z = (z :: u64)"
  by (metis and.assoc and.left_commute and.commute and.idem)

lemma and_P_sub: "p AND q = (q :: u64) \<Longrightarrow> q AND PTE_P \<noteq> 0 \<Longrightarrow> p AND PTE_P \<noteq> 0"
  unfolding and_P_iff by (metis bit_and_iff)

lemma next_range_base:
  assumes ok: "vm_ok m it" and n: "vm_next_range m it = Inr it1"
  shows "vm_ok m it1" "vm_pt it1 = vm_pt it"
    "region_base (vm_level it1) (vm_va it1) = region_base (vm_level it) (vm_va it) + (pageoffmask (vm_level it) + 1)"
proof -
  have al: "aligned 4096 (vm_pt it)" 
    and r: "root_pos m (vm_pt it) (vm_va it) = (vm_level it, vm_pep it, vm_perm it)"
    using ok by (simp_all add: vm_ok_def)
  have pl: "vm_place m (vm_pt it) (region_base (vm_level it) (vm_va it) + (pageoffmask (vm_level it) + 1)) = Inr it1"
    using n by (simp add: vm_next_range_def vm_last_va_def region_last real_find_place [OF ok])
  note p = vm_place_ok [OF pl al]
  show "vm_ok m it1" "vm_pt it1 = vm_pt it" by (fact p)+
  then have r1: "root_pos m (vm_pt it) (vm_va it1) = (vm_level it1, vm_pep it1, vm_perm it1)" 
    by (simp add: vm_ok_def)
  show "region_base (vm_level it1) (vm_va it1) = region_base (vm_level it) (vm_va it) + (pageoffmask (vm_level it) + 1)"
    using next_region_aligned [OF r al] r1 p(3) by simp
qed

lemma range_perm_loop_sound:
  "range_perm_loop n m it p sz rsz = Inr p' \<Longrightarrow> vm_ok m it \<Longrightarrow>
     rsz = pageoffmask (vm_level it) + 1 \<Longrightarrow> rsz < sz \<Longrightarrow>
     p AND p' = p' \<and> (p' AND PTE_P \<noteq> 0 \<longrightarrow>
       (\<forall>a. unat rsz \<le> unat (a - region_base (vm_level it) (vm_va it))
          \<and> unat (a - region_base (vm_level it) (vm_va it)) < unat sz \<longrightarrow>
          perms_at m (vm_pt it) a AND p' = p'))"
proof (induction n arbitrary: it p sz rsz)
  case (Suc n)
  obtain it1 where n1: "vm_next_range m it = Inr it1"
    using Suc.prems(1) by (auto simp: bind_res_Inr_iff)
  note nb = next_range_base [OF Suc.prems(2) n1]
  let ?b = "region_base (vm_level it) (vm_va it)" and ?b1 = "region_base (vm_level it1) (vm_va it1)"
  let ?sz1 = "sz - rsz" and ?p1 = "p AND vm_perms m it1" and ?rsz1 = "pageoffmask (vm_level it1) + 1"
  have szs: "unat ?sz1 = unat sz - unat rsz" "unat rsz < unat sz"
    using Suc.prems(4) by (simp_all add: unat_sub64 word_less_nat_alt)
  have l1: "vm_level it1 \<le> 3" by (rule vm_ok_level [OF nb(1)])
  have dist: "unat (a - ?b1) = unat (a - ?b) - unat rsz" if "unat rsz \<le> unat (a - ?b)" for a
    using that unat_sub64 [OF that] nb(3) Suc.prems(3) by (simp only: diff_diff_eq)
  have near: "perms_at m (vm_pt it) a = vm_perms m it1" if "unat (a - ?b1) < unat ?rsz1" for a
    using perms_at_region [OF nb(1) in_region_same [OF l1]] that nb(2) by (simp add: region_size [OF l1])
  show ?case
  proof (cases "?p1 AND PTE_P \<noteq> 0 \<and> ?rsz1 < ?sz1")
    case True
    have r: "range_perm_loop n m it1 ?p1 ?sz1 ?rsz1 = Inr p'"
      using Suc.prems(1) n1 True by (simp add: Let_def)
    note IH = Suc.IH [OF r nb(1) refl conjunct2 [OF True]]
    have sub: "p AND p' = p'" "vm_perms m it1 AND p' = p'"
      using IH and_mono_sub by (blast, metis and_mono_sub and.commute)
    show ?thesis
    proof (intro conjI impI allI)
      fix a assume P: "p' AND PTE_P \<noteq> 0" and a: "unat rsz \<le> unat (a - ?b) \<and> unat (a - ?b) < unat sz"
      show "perms_at m (vm_pt it) a AND p' = p'"
      proof (cases "unat (a - ?b1) < unat ?rsz1")
        case False
        then show ?thesis using IH P a dist [of a] szs nb(2) by auto
      qed (use near sub in simp)
    qed (rule sub)
  next
    case False
    have p': "p' = ?p1" using Suc.prems(1) n1 False by (auto simp: Let_def split: if_splits)
    have sub: "p AND p' = p'" "vm_perms m it1 AND p' = p'"
      unfolding p' by (simp_all add: and.left_commute)
    show ?thesis
    proof (intro conjI impI allI)
      fix a assume P: "p' AND PTE_P \<noteq> 0" and a: "unat rsz \<le> unat (a - ?b) \<and> unat (a - ?b) < unat sz"
      have "\<not> ?rsz1 < ?sz1" using False P p' by simp
      then have "unat (a - ?b1) < unat ?rsz1"
        using a dist [of a] szs by (simp add: word_less_nat_alt) linarith
      then show "perms_at m (vm_pt it) a AND p' = p'" using near sub by simp
    qed (rule sub)
  qed
qed simp

lemma range_perm_loop_fuel:
  "vm_ok m it \<Longrightarrow> rsz = pageoffmask (vm_level it) + 1 \<Longrightarrow> rsz < sz \<Longrightarrow> unat sz - unat rsz < n \<Longrightarrow>
     range_perm_loop n m it p sz rsz \<noteq> Inl OutOfFuel"
proof (induction n arbitrary: it p sz rsz)
  case (Suc n)
  show ?case
  proof (cases "vm_next_range m it")
    case (Inl e)
    then have "e \<noteq> OutOfFuel" using Suc.prems(1)
      by (auto simp: vm_next_range_def real_find_place vm_place_def split: prod.splits if_splits)
    then show ?thesis using Inl by simp
  next
    case (Inr it1)
    note nb = next_range_base [OF Suc.prems(1) Inr]
    have l1: "vm_level it1 \<le> 3" by (rule vm_ok_level [OF nb(1)])
    let ?rsz1 = "pageoffmask (vm_level it1) + 1"
    have "0 < unat ?rsz1" unfolding region_size [OF l1] by simp
    moreover have "unat (sz - rsz) = unat sz - unat rsz"
      using Suc.prems(3) by (simp add: unat_sub64 word_less_nat_alt)
    moreover have "?rsz1 < sz - rsz \<Longrightarrow> unat ?rsz1 < unat (sz - rsz)" by (simp add: word_less_nat_alt)
    ultimately show ?thesis
      using Suc.IH [OF nb(1) refl] Inr Suc.prems(4) by (auto simp: Let_def)
  qed
qed simp

lemma range_perm_enter:
  assumes ok: "vm_ok m it" and P: "vm_perms m it AND PTE_P \<noteq> 0"
    and big: "sz > pageoffmask (vm_level it) + 1"
    and fits: "\<not> sz > (if sint (vm_va it) < 0 then 0 else VA_LOWEND) - vm_va it"
  shows "unat (sz + (vm_va it AND pageoffmask (vm_level it))) = unat sz + unat (vm_va it AND pageoffmask (vm_level it))"
    "unat (vm_va it AND pageoffmask (vm_level it)) < unat (pageoffmask (vm_level it) + 1)"
proof -
  have l: "vm_level it \<le> 3" by (rule vm_ok_level [OF ok])
  have m: "vm_va it AND pageoffmask (vm_level it) = take_bit (12 + 9 * vm_level it) (vm_va it)"
    by (simp add: pageoffmask_mask take_bit_eq_mask)
  show off: "unat (vm_va it AND pageoffmask (vm_level it)) < unat (pageoffmask (vm_level it) + 1)"
    unfolding m region_size [OF l] by (simp only: unsigned_take_bit_eq take_bit_nat_less_exp)
  have "unat (pageoffmask (vm_level it) + 1) \<le> 2 ^ 39" 
    using l unfolding region_size [OF l] by (intro power_increasing) auto
  moreover have can: "va_is_canonical (vm_va it)"
  proof (rule ccontr)
    assume "\<not> va_is_canonical (vm_va it)"
    then have "vm_perms m it = 0" using ok by (simp add: vm_perms_at perms_at_def translate_def)
    then show False using P by simp
  qed
  moreover have "unat sz \<le> 2 ^ 63"
  proof (cases "sint (vm_va it) < 0")
    case True
    then have "unat (0 - vm_va it) \<le> 2 ^ 63"
      by (subst unat_sub_if') (simp add: sint_neg_iff)
    then show ?thesis using fits True by (simp add: not_less word_le_nat_alt)
  next
    case False
    have "vm_va it \<le> VA_LOWMAX" using can False
      by (auto simp: va_is_canonical_def sint_neg_iff va_consts word_le_nat_alt)
    then have "unat (VA_LOWEND - vm_va it) \<le> 2 ^ 47"
      by (subst unat_sub64) (simp_all add: va_consts word_le_nat_alt)
    then show ?thesis using fits False by (simp add: not_less word_le_nat_alt)
  qed
  ultimately show "unat (sz + (vm_va it AND pageoffmask (vm_level it))) = unat sz + unat (vm_va it AND pageoffmask (vm_level it))"
    using off by (subst unat_add64) auto
qed

text \<open>
  C30: A permission set returned by \<open>range_perm(sz)\<close> holds at every address of the range,
  when the range is longer than the current region or does not cross its end.
\<close>
theorem range_perm_sound:
  assumes ok: "vm_ok m it" and r: "vm_range_perm m it sz = Inr p" and nz: "p \<noteq> 0"
    and fit: "pageoffmask (vm_level it) + 1 < sz
      \<or> unat (vm_va it AND pageoffmask (vm_level it)) + unat sz \<le> unat (pageoffmask (vm_level it) + 1)"
    and a: "unat (a - vm_va it) < unat sz"
  shows "perms_at m (vm_pt it) a AND p = p \<and> p AND PTE_P \<noteq> 0"
proof -
  let ?p = "vm_perms m it" and ?l = "vm_level it" and ?va = "vm_va it"
  let ?rsz = "pageoffmask ?l + 1" and ?off = "?va AND pageoffmask ?l"
  let ?b = "region_base ?l ?va"
  have l: "?l \<le> 3" by (rule vm_ok_level [OF ok])
  have P: "?p AND PTE_P \<noteq> 0" using r nz by (auto simp: vm_range_perm_def Let_def split: if_splits)
  have ab: "a - ?b = (a - ?va) + ?off" using region_offset [of ?l ?va] by (simp add: algebra_simps)
  have near: "perms_at m (vm_pt it) a = ?p" if "unat (a - ?b) < unat ?rsz"
    using perms_at_region [OF ok in_region_same [OF l]] that by (simp add: region_size [OF l])
  show ?thesis
  proof (cases "?rsz < sz")
    case big: True
    have fits: "\<not> sz > (if sint ?va < 0 then 0 else VA_LOWEND) - ?va"
      using r big P nz by (auto simp: vm_range_perm_def Let_def split: if_splits)
    note en = range_perm_enter [OF ok P big fits]
    obtain p1 where lp: "range_perm_loop (unat sz) m it ?p (sz + ?off) ?rsz = Inr p1"
      and p: "p = p1" "p AND PTE_P \<noteq> 0"
      using r big P fits nz by (auto simp: vm_range_perm_def Let_def bind_res_Inr_iff split: if_splits)
    have "?rsz < sz + ?off" using big en by (simp add: word_less_nat_alt)
    note sound = range_perm_loop_sound [OF lp ok refl this]
    have "unat (a - ?va) + unat ?off < unat (sz + ?off)" using a en by simp
    moreover from this have "unat (a - ?b) = unat (a - ?va) + unat ?off"
      unfolding ab using unat_less_2_64 [of "sz + ?off"] by (subst unat_add64) (simp_all del: unat_less_2_64)
    ultimately show ?thesis
      using sound near p by (cases "unat (a - ?b) < unat ?rsz") (auto simp: and.commute)
  next
    case False
    have "p = ?p" using r False P nz by (auto simp: vm_range_perm_def Let_def split: if_splits)
    moreover have "unat (a - ?va) + unat ?off < unat ?rsz" using a fit False by simp
    moreover from this have "unat (a - ?b) = unat (a - ?va) + unat ?off"
      unfolding ab using unat_less_2_64 [of ?rsz] by (subst unat_add64) (simp_all del: unat_less_2_64)
    ultimately show ?thesis using near P by simp
  qed
qed

lemma range_perm_ends:
  assumes ok: "vm_ok m it"
  shows "vm_range_perm m it sz \<noteq> Inl OutOfFuel"
proof (cases "vm_perms m it AND PTE_P \<noteq> 0 \<and> pageoffmask (vm_level it) + 1 < sz
    \<and> \<not> sz > (if sint (vm_va it) < 0 then 0 else VA_LOWEND) - vm_va it")
  case True
  then have c: "vm_perms m it AND PTE_P \<noteq> 0" "pageoffmask (vm_level it) + 1 < sz"
    "\<not> sz > (if sint (vm_va it) < 0 then 0 else VA_LOWEND) - vm_va it" by blast+
  note en = range_perm_enter [OF ok c]
  have "pageoffmask (vm_level it) + 1 < sz + (vm_va it AND pageoffmask (vm_level it))"
    using c(2) en by (simp add: word_less_nat_alt)
  moreover have "unat (sz + (vm_va it AND pageoffmask (vm_level it))) - unat (pageoffmask (vm_level it) + 1) < unat sz"
    using en c(2) by (simp add: word_less_nat_alt)
  ultimately show ?thesis
    using range_perm_loop_fuel [OF ok refl] c
    by (auto simp: vm_range_perm_def Let_def bind_res_Inl_iff)
next
  case False
  then show ?thesis by (auto simp: vm_range_perm_def Let_def)
qed

lemma find_ok:
  assumes "vm_ok m it" "vm_pt it = pt" "real_find m va it = Inr it'"
  shows "vm_ok m it' \<and> vm_pt it' = pt"
  using assms vm_place_ok [of m pt va it'] by (auto simp: real_find_place vm_ok_def)

lemma vm_reach_ok: "vm_reach m pt it \<Longrightarrow> aligned 4096 pt \<Longrightarrow> vm_ok m it \<and> vm_pt it = pt"
proof (induction rule: vm_reach.induct)
  case (reach_new va it)
  then show ?case using vm_place_ok by (simp add: vmiter_new_place)
qed (auto simp: vm_add_def vm_sub_def vm_next_def vm_next_range_def Let_def dest: find_ok)

text \<open>
  C5: An iterator reached from a fresh one by any sequence of moves behaves as a fresh one:
  \<open>real_find\<close> with its shortcut gives what a new walk from the root gives, and
  \<open>pa()\<close>, \<open>perm()\<close> and \<open>present()\<close> agree with the
  processor's four-level translation of \<open>va()\<close>.
\<close>
theorem vmiter_translates:
  assumes "vm_reach m pt it" "aligned 4096 pt"
  shows "real_find m va it = vmiter_new m pt va
    \<and> translate m pt (vm_va it) = (if vm_present m it then Some (vm_pa m it, vm_perms m it) else None)
    \<and> (\<not> vm_present m it \<longrightarrow> vm_pa m it = -1 \<and> vm_perms m it = 0)"
  using vm_reach_ok [OF assms] vm_ok_translate [of m it] real_find_place [of m it va]
  by (auto simp: vmiter_new_place)

lemma straddle_loads: "load64 straddle_mem 0x1000 = 0x2007" "load64 straddle_mem 0x2000 = 0x3007"
  "load64 straddle_mem 0x3000 = 0x4007" "load64 straddle_mem 0x4000 = 0x5007"  "load64 straddle_mem 0x4008 = 0"
  by (simp_all add: straddle_mem_def load64_bytes)

lemmas walk_eval = entry_of_def pageindex_def PAGEOFFBITS_def PAGEINDEXBITS_def pte_consts va_consts pageoffmask_def
   va_is_canonical_def pe_load_def numeral_3_eq_3 Let_def

lemma straddle_new: "vmiter_new straddle_mem 0x1000 0xFFF = Inr straddle_it"
  by (simp add: vmiter_new_def real_find_def vm_down_def straddle_loads walk_eval straddle_it_def
      initial_perm_def perm_restrict_def)

lemma straddle_ok: "vm_ok straddle_mem straddle_it"
  using vm_place_ok(1) [of straddle_mem "0x1000" "0xFFF"] straddle_new
  by (simp add: vmiter_new_place aligned_def)

text \<open>
  C31: \<open>range_perm(sz)\<close> with a size of at most one region looks at the region of the
  iterator only: when the range starts in a mapped region and crosses its end, the answer is the
  permissions of that region, present bit included, although addresses of the range are unmapped
  when the next region is.
\<close>
theorem range_perm_straddles:
  fixes m it sz
  defines "rsz \<equiv> pageoffmask (vm_level it) + 1"
  defines "next_va \<equiv> region_base (vm_level it) (vm_va it) + rsz"
  assumes ok: "vm_ok m it" and P: "perms_at m (vm_pt it) (vm_va it) AND PTE_P \<noteq> 0"
    and sz: "sz \<le> rsz" "unat rsz < unat (vm_va it AND pageoffmask (vm_level it)) + unat sz"
    and np: "translate m (vm_pt it) next_va = None"
  shows "vm_range_perm m it sz = Inr (perms_at m (vm_pt it) (vm_va it))
    \<and> unat (next_va - vm_va it) < unat sz \<and> perms_at m (vm_pt it) next_va = 0"
proof -
  let ?off = "vm_va it AND pageoffmask (vm_level it)"
  have l: "vm_level it \<le> 3" by (rule vm_ok_level [OF ok])
  have "vm_perms m it = perms_at m (vm_pt it) (vm_va it)" using ok by (rule vm_perms_at)
  then have "vm_range_perm m it sz = Inr (perms_at m (vm_pt it) (vm_va it))"
    using P sz(1) by (auto simp: vm_range_perm_def Let_def rsz_def)
  moreover have "next_va - vm_va it = rsz - ?off"
    using region_offset [of "vm_level it" "vm_va it"] by (simp add: next_va_def algebra_simps)
  moreover have "unat ?off < unat rsz"
    unfolding rsz_def region_size [OF l]
    by (simp only: pageoffmask_mask take_bit_eq_mask [symmetric] unsigned_take_bit_eq take_bit_nat_less_exp)
  ultimately show ?thesis using sz(2) np by (simp add: unat_sub64 perms_at_def)
qed

theorem range_perm_straddles_witness:
  "vm_range_perm straddle_mem straddle_it 2 = Inr 7 \<and> perms_at straddle_mem 0x1000 0x1000 = 0"
  using range_perm_straddles [OF straddle_ok, of 2]
  by (simp add: straddle_loads walk_eval straddle_it_def vm_range_perm_def vm_perms_def perms_at_def translate_def
      region_base_def)

theorem vmiter_translates_witness:
  "real_find straddle_mem 0x1234 straddle_it = vmiter_new straddle_mem 0x1000 0x1234
    \<and> translate straddle_mem 0x1000 0xFFF = Some (0x5FFF, 7)"
  using vmiter_translates [OF reach_new [OF straddle_new], of "0x1234"]
  by (simp add: aligned_def straddle_it_def vm_present_def vm_has_perm_def vm_perms_def vm_pa_def
      straddle_loads walk_eval)

theorem range_perm_sound_witness:
  "perms_at straddle_mem 0x1000 0xFFF AND 7 = 7"
  using range_perm_sound [OF straddle_ok, of 1 7 "0xFFF"]
  by (simp add: straddle_loads walk_eval straddle_it_def vm_range_perm_def vm_perms_def)

theorem range_perm_returns:
  assumes ok: "vm_ok m it"
  shows "vm_range_perm m it sz \<noteq> Inl OutOfFuel"
  using assms by (rule range_perm_ends)

theorem range_perm_returns_witness:
  "vm_range_perm straddle_mem straddle_it 0x3000 \<noteq> Inl OutOfFuel"
  using range_perm_returns [OF straddle_ok] .

end
