(* ===== verification/VmMap.thy ===== *)
theory VmMap
  imports VmWalk
begin

text \<open>
  Correctness of \<^verbatim>\<open>vmiter::try_map\<close> (\<^verbatim>\<open>kernels1/k-vmiter.cc\<close>). \<open>walk_entries\<close> lists the addresses
  of the page-table entries a walk reads. A page table is well formed (\<open>pt_wf\<close>) when it is a tree,
  so that an entry serves only the addresses that agree above its level, and when no entry lies in
  a page the allocator may still hand out. Hanging an empty table under an absent entry
  (\<open>hang\<close>) leaves the translation of every address as it was and keeps the tree well formed;
  storing the leaf then changes the translation of one page.
\<close>

subsection \<open>Specifications\<close>

primrec walk_entries :: "memory \<Rightarrow> addr \<Rightarrow> nat \<Rightarrow> addr \<Rightarrow> addr list" where
  "walk_entries m va 0 t = [entry_of t (pageindex va 0)]"
| "walk_entries m va (Suc n) t =
     (let a = entry_of t (pageindex va (Suc n)) in
      a # (if load64 m a AND (PTE_P OR PTE_PS) = PTE_P
           then walk_entries m va n (load64 m a AND PTE_PAMASK) else []))"

definition untouched :: "link \<Rightarrow> 'a kmem_scheme \<Rightarrow> addr \<Rightarrow> bool" where
  "untouched L s b \<longleftrightarrow> (\<forall>pg. aligned 4096 pg \<and> free_page L s pg \<longrightarrow> 4096 \<le> unat (b - pg))"

definition pt_tree :: "memory \<Rightarrow> addr \<Rightarrow> bool" where
  "pt_tree m pt \<longleftrightarrow>
     (\<forall>va va' i j. va_is_canonical va \<and> va_is_canonical va'
        \<and> i < length (walk_entries m va 3 pt) \<and> j < length (walk_entries m va' 3 pt)
        \<and> walk_entries m va 3 pt ! i = walk_entries m va' 3 pt ! j \<longrightarrow>
        i = j \<and> same_above (3 - i) va va')"

definition pt_wf :: "link \<Rightarrow> 'a kmem_scheme \<Rightarrow> addr \<Rightarrow> bool" where
  "pt_wf L s pt \<longleftrightarrow> aligned 4096 pt \<and> pt_tree (mem s) pt
     \<and> (\<forall>va. va_is_canonical va \<longrightarrow> (\<forall>a \<in> set (walk_entries (mem s) va 3 pt). untouched L s a))"

definition hang :: "memory \<Rightarrow> addr \<Rightarrow> addr \<Rightarrow> memory" where
  "hang m a pg = store64 (fill_page m pg 0) a (pg OR PTE_P OR PTE_W OR PTE_U)"

definition off_entry :: "addr \<Rightarrow> vmiter \<Rightarrow> bool" where
  "off_entry b it \<longleftrightarrow> (\<forall>a. vm_pep it = Entry a \<longrightarrow> 8 \<le> unat (b - a))"

definition tables_added :: "link \<Rightarrow> 'a kmem_scheme \<Rightarrow> vmiter \<Rightarrow> 'a kmem_scheme \<Rightarrow> vmiter \<Rightarrow> bool" where
  "tables_added L s it s' it' \<longleftrightarrow>
     kmem_ok s' \<and> pt_wf L s' (vm_pt it) \<and> vm_ok (mem s') it'
     \<and> vm_pt it' = vm_pt it \<and> vm_va it' = vm_va it \<and> vm_perm it' = vm_perm it
     \<and> (\<forall>v. translate (mem s') (vm_pt it) v = translate (mem s) (vm_pt it) v)
     \<and> (\<forall>b. untouched L s b \<longrightarrow> untouched L s' b)
     \<and> (\<forall>b. untouched L s b \<and> off_entry b it \<longrightarrow> mem s' b = mem s b \<and> off_entry b it')"


primrec can_alloc :: "link \<Rightarrow> nat \<Rightarrow> 'a kmem_scheme \<Rightarrow> bool" where
  "can_alloc L 0 s = True"
| "can_alloc L (Suc k) s =
     (case kalloc L PAGESIZE s of (Some pg, s1) \<Rightarrow> can_alloc L k s1 | (None, s1) \<Rightarrow> False)"

definition demo_vm :: kmem where
  "demo_vm = demo_kmem\<lparr>physpages := (replicate 512 0)[1 := 1], next_alloc_pa := 0x2000\<rparr>"

definition demo_it :: vmiter where
  "demo_it = \<lparr>vm_pt = 0x1000, vm_pep = Entry 0x1000, vm_level = 3, vm_perm = 0xFFF, vm_va = 0x3000\<rparr>"

subsection \<open>The entries a walk reads\<close>

lemma walk_nonempty [simp]: "walk_entries m va n t \<noteq> []"
  by (cases n) (simp_all add: Let_def)

lemma walk_hd [simp]: "walk_entries m va n t ! 0 = entry_of t (pageindex va n)"
  by (cases n) (simp_all add: Let_def)

lemma walk_length: "length (walk_entries m va n t) \<le> Suc n"
  by (induction n arbitrary: t) (simp_all add: Let_def)

lemma walk_descend:
  "vm_descend m va n (Entry (entry_of t (pageindex va n))) p0 = (l, p, perm) \<Longrightarrow>
     l + length (walk_entries m va n t) = Suc n \<and> p = Entry (last (walk_entries m va n t))"
proof (induction n arbitrary: t p0)
  case (Suc n)
  then show ?case
    by (auto simp: pe_load_def Let_def split: if_splits)
qed auto

lemma walk_cong:
  "(\<And>a. a \<in> set (walk_entries m va n t) \<Longrightarrow> load64 m' a = load64 m a) \<Longrightarrow>
     walk_entries m' va n t = walk_entries m va n t
     \<and> mmu_walk m' va n t acc = mmu_walk m va n t acc
     \<and> vm_descend m' va n (Entry (entry_of t (pageindex va n))) p
       = vm_descend m va n (Entry (entry_of t (pageindex va n))) p"
proof (induction n arbitrary: t acc p)
  case (Suc n)
  let ?a = "entry_of t (pageindex va (Suc n))"
  have e: "load64 m' ?a = load64 m ?a" using Suc.prems by (simp add: Let_def)
  show ?case
  proof (cases "load64 m ?a AND (PTE_P OR PTE_PS) = PTE_P")
    case True
    then have "\<And>a. a \<in> set (walk_entries m va n (load64 m ?a AND PTE_PAMASK)) \<Longrightarrow> load64 m' a = load64 m a"
      using Suc.prems by (simp add: Let_def)
    from Suc.IH [OF this] show ?thesis using e True by (simp add: Let_def pe_load_def)
  next
    case False
    then have "\<not> (load64 m ?a AND PTE_P \<noteq> 0 \<and> load64 m ?a AND PTE_PS = 0)"
      by (simp add: P_PS_iff and_P_iff)
    then show ?thesis using e False by (auto simp: Let_def pe_load_def)
  qed
qed (simp_all add: Let_def)

lemma walk_interior:
  "a \<in> set (butlast (walk_entries m va n t)) \<Longrightarrow> load64 m a AND (PTE_P OR PTE_PS) = PTE_P"
  by (induction n arbitrary: t) (auto simp: Let_def split: if_splits)

text \<open>Hanging a table under the last entry of a walk.\<close>

lemma walk_extend:
  "length (walk_entries m va n t) \<le> n \<Longrightarrow>
   (\<And>a. a \<in> set (butlast (walk_entries m va n t)) \<Longrightarrow> load64 m' a = load64 m a) \<Longrightarrow>
   load64 m' (last (walk_entries m va n t)) = e \<Longrightarrow> e AND (PTE_P OR PTE_PS) = PTE_P \<Longrightarrow>
   vm_descend m va n (Entry (entry_of t (pageindex va n))) p0 = (Suc l, p, perm) \<Longrightarrow>
   walk_entries m' va n t = walk_entries m va n t @ walk_entries m' va l (e AND PTE_PAMASK)
   \<and> vm_descend m' va n (Entry (entry_of t (pageindex va n))) p0
     = vm_descend m' va l (Entry (entry_of (e AND PTE_PAMASK) (pageindex va l))) (perm_restrict perm e)
   \<and> (\<exists>acc'. mmu_walk m' va n t acc = mmu_walk m' va l (e AND PTE_PAMASK) acc')"
proof (induction n arbitrary: t p0 acc)
  case (Suc n)
  let ?a = "entry_of t (pageindex va (Suc n))"
  show ?case
  proof (cases "load64 m ?a AND (PTE_P OR PTE_PS) = PTE_P")
    case True
    let ?t = "load64 m ?a AND PTE_PAMASK"
    have ea: "load64 m' ?a = load64 m ?a" using Suc.prems(2) True by (simp add: Let_def)
    have b: "bit (load64 m ?a) 0" "\<not> bit (load64 m ?a) 7" using True by (simp_all add: P_PS_iff)
    have "length (walk_entries m va n ?t) \<le> n"
      "\<And>a. a \<in> set (butlast (walk_entries m va n ?t)) \<Longrightarrow> load64 m' a = load64 m a"
      "load64 m' (last (walk_entries m va n ?t)) = e" 
      "vm_descend m va n (Entry (entry_of ?t (pageindex va n))) (perm_restrict p0 (load64 m ?a)) = (Suc l, p, perm)"
      using Suc.prems(1-3,5) True by (simp_all add: Let_def pe_load_def)
    from Suc.IH [OF this(1-3) Suc.prems(4) this(4)]
    show ?thesis using ea True b by (simp add: Let_def pe_load_def and_P_iff)
  next
    case False
    then have "l = n" "perm = p0" "load64 m' ?a = e"
      using Suc.prems(3,5) by (simp_all add: Let_def pe_load_def)
    moreover have "bit e 0" "\<not> bit e 7" using Suc.prems(4) by (simp_all add: P_PS_iff)
    ultimately show ?thesis using False Suc.prems(4)
      by (auto simp: Let_def pe_load_def and_P_iff)
  qed
qed simp

subsection \<open>Well-formed page tables\<close>

lemma walk_aligned: "a \<in> set (walk_entries m va n t) \<Longrightarrow> aligned 4096 t \<Longrightarrow> aligned 8 a"
proof (induction n arbitrary: t)
  case (Suc n)
  then show ?case using aligned_pamask
    by (auto simp: Let_def aligned_entry_of pageindex_less split: if_splits)
qed (simp add: aligned_entry_of pageindex_less)

lemma entry_bytes:
  assumes "aligned 8 a" "unat (b - a) < 8" "aligned 4096 pg" "unat (b - pg) < 4096"
  shows "unat (a - pg) < 4096"
proof -
  have "unat b div 8 = unat a div 8" using aligned_block_div [OF assms(1,2)] by simp
  then have "unat b div 8 div 512 = unat a div 8 div 512" by simp
  then have ab: "unat b div 4096 = unat a div 4096" by (simp add: div_mult2_eq [symmetric])
  have "unat b div 4096 = unat pg div 4096" using aligned_block_div [OF assms(3,4)] by simp
  then have "unat pg div 4096 = unat a div 4096" using ab by simp
  moreover have pg: "unat pg = 4096 * (unat pg div 4096)" using assms(3) by (auto simp: aligned_def)
  ultimately have "unat pg \<le> unat a" "unat a - unat pg < 4096"
    using div_mult_mod_eq [of "unat a" 4096] mod_less_divisor [of 4096 "unat a"] by linarith+
  then show ?thesis by (simp add: unat_sub64)
qed

lemma load64_fill_other:
  assumes "untouched L s a" "aligned 8 a" "aligned 4096 pg" "free_page L s pg"
  shows "load64 (fill_page m pg c) a = load64 m a"
proof (rule load64_cong)
  fix b assume b: "unat (b - a) < 8"
  have "\<not> unat (b - pg) < 4096"
    using entry_bytes [OF assms(2) b assms(3)] assms(1,3,4) by (auto simp: untouched_def)
  then show "fill_page m pg c b = m b" by (simp add: fill_page_def)
qed

lemma entry_bytes_in_page:
  assumes "i < 512" "unat (b - entry_of pg i) < 8"
  shows "unat (b - pg) < 4096"
proof -
  have i: "unat i < 512" using assms(1) by (simp add: word_less_nat_alt)
  have i8: "unat (8 * i) = 8 * unat i" using i by (subst unat_mult64) simp_all
  have "b - pg = (b - entry_of pg i) + 8 * i" by (simp add: entry_of_def)
  then have "unat (b - pg) = unat (b - entry_of pg i) + 8 * unat i"
    using assms(2) i i8 by (simp only:) (subst unat_add64, simp_all)
  then show ?thesis using assms(2) i by simp
qed

lemma load64_zero_page:
  assumes "i < 512"
  shows "load64 (fill_page m pg 0) (entry_of pg i) = 0"
proof -
  have "load64 (fill_page m pg 0) (entry_of pg i) = load64 (\<lambda>_. 0) (entry_of pg i)"
    by (rule load64_cong) (use entry_bytes_in_page [OF assms] in \<open>simp add: fill_page_def\<close>)
  also have "\<dots> = 0" by (simp add: load64_def eval_nat_numeral)
  finally show ?thesis .
qed

lemma bit_pamask: "bit PTE_PAMASK n \<longleftrightarrow> 12 \<le> n \<and> n < 52"
proof -
  have eq: "PTE_PAMASK = mask 52 AND NOT (mask 12)" by (simp add: PTE_PAMASK_def mask_eq_exp_minus_1)
  show ?thesis unfolding eq bit_and_iff bit_not_iff bit_mask_iff possible_bit_word by auto
qed

lemma bit_aligned:
  assumes "aligned 4096 a" "bit a n" shows "12 \<le> n"
proof (rule ccontr)
  assume "\<not> 12 \<le> n"
  then have "bit (take_bit 12 a) n" using assms(2) by (simp add: bit_take_bit_iff)
  moreover have "unat (take_bit 12 a) = 0"
    using assms(1) by (simp only: unsigned_take_bit_eq) (simp add: aligned_def take_bit_eq_mod)
  then have "take_bit 12 a = 0" by (simp add: unat_eq_zero)
  ultimately show False by simp
qed

lemma bit_bounded:
  assumes "unat (a :: addr) < 2 ^ k" "bit a n" shows "n < k"
proof (rule ccontr)
  assume n: "\<not> n < k"
  have "bit (unat a) n" using assms(2) by (simp add: bit_unsigned_iff)
  moreover have "take_bit k (unat a) = unat a" using assms(1) by (rule take_bit_nat_eq_self)
  then have "\<not> bit (unat a) n" using n by (metis bit_take_bit_iff)
  ultimately show False by simp
qed

lemma table_entry:
  assumes "aligned 4096 pg" "unat pg < 0x200000"
  defines "e \<equiv> pg OR PTE_P OR PTE_W OR PTE_U"
  shows "e AND (PTE_P OR PTE_PS) = PTE_P" "e AND PTE_PAMASK = pg"
    "small_perm p \<Longrightarrow> perm_restrict p e = p"
proof -
  have lo: "bit pg n \<Longrightarrow> 12 \<le> n" and hi: "bit pg n \<Longrightarrow> n < 21" for n
    using bit_aligned [OF assms(1)] bit_bounded [of pg 21] assms(2) by auto
  have b: "bit e n \<longleftrightarrow> bit pg n \<or> n < 3" for n
    unfolding e_def using bit_pwu [of n] by (simp only: bit_or_iff)
  show "e AND (PTE_P OR PTE_PS) = PTE_P" unfolding P_PS_iff b using lo [of 7] by auto
  have "bit (e AND PTE_PAMASK) n = bit pg n" for n
    unfolding bit_and_iff b bit_pamask using lo [of n] hi [of n] by auto
  then show "e AND PTE_PAMASK = pg" by (rule bit_eqI)
  show "perm_restrict p e = p" if "small_perm p"
    by (rule bit_eqI) (auto simp: bit_perm_restrict [OF that] b)
qed

lemma untouched_claim:
  assumes "kmem_ok s" "free_page L s pg" "untouched L s b"
  shows "untouched L ((claim_page s pg)\<lparr>mem := m\<rparr>) b"
  using assms free_page_claim [OF assms(1,2)] by (auto simp: untouched_def free_page_def)

lemma claimed_untouched:
  assumes "kmem_ok s" "free_page L s pg" "aligned 4096 pg" "unat (b - pg) < 4096"
  shows "untouched L ((claim_page s pg)\<lparr>mem := m\<rparr>) b"
  unfolding untouched_def
proof (intro allI impI)
  fix q assume q: "aligned 4096 q \<and> free_page L ((claim_page s pg)\<lparr>mem := m\<rparr>) q"
  then have "free_page L (claim_page s pg) q" by (simp add: free_page_def)
  then have "q \<noteq> pg" using free_page_claim [OF assms(1,2)] by auto
  then show "4096 \<le> unat (b - q)"
    using aligned_blocks_disjoint [of 4096 q pg b] q assms(3,4) by auto
qed

lemma entry_in_page: "aligned 4096 pg \<Longrightarrow> i < 512 \<Longrightarrow> unat (entry_of pg i - pg) < 4096"
  by (simp add: unat_sub64 unat_entry_of word_less_nat_alt)

lemma entry_of_inj: "aligned 4096 t \<Longrightarrow> i < 512 \<Longrightarrow> j < 512 \<Longrightarrow> entry_of t i = entry_of t j \<Longrightarrow> i = j"
  by (metis entry_of_index)

lemma fill_fill [simp]: "fill_page (fill_page m pg c) pg d = fill_page m pg d"
  by (auto simp: fill_page_def)

lemma zero_not_table [simp]: "(0 :: u64) AND (PTE_P OR PTE_PS) \<noteq> PTE_P"
  by (simp add: PTE_P_def)

lemma walk_zero:
  "load64 m (entry_of t (pageindex va l)) = 0 \<Longrightarrow>
     walk_entries m va l t = [entry_of t (pageindex va l)] \<and> mmu_walk m va l t acc = None
     \<and> vm_descend m va l (Entry (entry_of t (pageindex va l))) p = (l, Entry (entry_of t (pageindex va l)), p)"
  by (cases l) (simp_all add: Let_def pe_load_def PTE_P_def)

lemma walk_position:
  assumes "root_pos m pt va = (l, Entry a, perm)"
  shows "va_is_canonical va" "last (walk_entries m va 3 pt) = a" "a \<in> set (walk_entries m va 3 pt)"
    "length (walk_entries m va 3 pt) = 4 - l" "l \<le> 3"
    "vm_descend m va 3 (Entry (entry_of pt (pageindex va 3))) initial_perm = (l, Entry a, perm)"
proof -
  show can: "va_is_canonical va" and
    d: "vm_descend m va 3 (Entry (entry_of pt (pageindex va 3))) initial_perm = (l, Entry a, perm)"
    using assms by (auto simp: root_pos_def split: if_splits)
  note wd = walk_descend [OF d]
  then show "last (walk_entries m va 3 pt) = a" by simp
  then show "a \<in> set (walk_entries m va 3 pt)" using last_in_set [OF walk_nonempty] by metis
  have "l + length (walk_entries m va 3 pt) = 4" "length (walk_entries m va 3 pt) \<noteq> 0" using wd by auto
  then show "length (walk_entries m va 3 pt) = 4 - l" "l \<le> 3" by linarith+
qed

text \<open>
  In a tree an entry that ends the walk of one address ends the walk of every address it serves.
\<close>

lemma tree_last_entry:
  assumes tree: "pt_tree m pt" and pos: "root_pos m pt va = (l, Entry a, perm)"
    and np: "l = 0 \<or> load64 m a AND PTE_P = 0"
    and v: "va_is_canonical v" "a \<in> set (walk_entries m v 3 pt)"
  shows "last (walk_entries m v 3 pt) = a" "length (walk_entries m v 3 pt) = 4 - l" "same_above l va v"
    "\<exists>p. vm_descend m v 3 (Entry (entry_of pt (pageindex v 3))) initial_perm = (l, Entry a, p)"
proof -
  let ?W = "walk_entries m v 3 pt"
  note wp = walk_position [OF pos]
  obtain j where j: "j < length ?W" "?W ! j = a" using v(2) by (auto simp: in_set_conv_nth)
  have "walk_entries m va 3 pt ! (3 - l) = a" "3 - l < length (walk_entries m va 3 pt)"
    using wp(2,4,5) by (auto simp: last_conv_nth)
  then have jl: "j = 3 - l" and sa: "same_above (3 - (3 - l)) va v"
    using tree wp(1) v(1) j unfolding pt_tree_def by metis+
  show "same_above l va v" using sa wp(5) by simp
  have "\<not> j < length ?W - 1"
  proof
    assume lt: "j < length ?W - 1"
    then have "a \<in> set (butlast ?W)" using j by (metis in_set_conv_nth length_butlast nth_butlast)
    then have "l = 0" using walk_interior [of a m v 3 pt] np by (auto simp: P_PS_iff and_P_iff)
    then show False using jl lt walk_length [of m v 3 pt] by simp
  qed
  then have jj: "j = length ?W - 1" using j(1) by linarith
  then show la: "last ?W = a" using j(2) by (simp add: last_conv_nth)
  show len: "length ?W = 4 - l" using jj jl j(1) wp(5) by linarith
  show "\<exists>p. vm_descend m v 3 (Entry (entry_of pt (pageindex v 3))) initial_perm = (l, Entry a, p)"
    using walk_descend [of m v 3 pt initial_perm] la len wp(5)
    by (cases "vm_descend m v 3 (Entry (entry_of pt (pageindex v 3))) initial_perm") auto
qed

lemma pt_wf_entries:
  assumes "pt_wf L s pt" "va_is_canonical v" "b \<in> set (walk_entries (mem s) v 3 pt)"
  shows "untouched L s b" "aligned 8 b"
  using assms walk_aligned [OF assms(3)] by (auto simp: pt_wf_def)

lemma hang_loads:
  assumes "free_page L s pg" "aligned 4096 pg" "untouched L s a" "aligned 8 a"
  shows "load64 (hang m a pg) a = pg OR PTE_P OR PTE_W OR PTE_U"
    and "untouched L s b \<Longrightarrow> aligned 8 b \<Longrightarrow> b \<noteq> a \<Longrightarrow> load64 (hang m a pg) b = load64 m b"
    and "i < 512 \<Longrightarrow> load64 (hang m a pg) (entry_of pg i) = 0"
    and "i < 512 \<Longrightarrow> untouched L s b \<Longrightarrow> entry_of pg i \<noteq> b"
proof -
  show "load64 (hang m a pg) a = pg OR PTE_P OR PTE_W OR PTE_U" by (simp add: hang_def)
  show "load64 (hang m a pg) b = load64 m b" if "untouched L s b" "aligned 8 b" "b \<noteq> a"
    using load64_store64_other [OF assms(4) that(2)] that(3)
      load64_fill_other [OF that(1,2) assms(2,1)] unfolding hang_def by auto
  show ne: "entry_of pg i \<noteq> b" if "i < 512" "untouched L s b" for i b
    using entry_in_page [OF assms(2) that(1)] that(2) assms(1,2) by (auto simp: untouched_def)
  show "load64 (hang m a pg) (entry_of pg i) = 0" if "i < 512"
    using load64_store64_other [OF assms(4) aligned_entry_of [OF assms(2) that]]
      load64_zero_page [OF that] ne [OF that assms(3)] unfolding hang_def by metis
qed

lemma hang_table:
  assumes wf: "pt_wf L s pt" and free: "free_page L s pg" "aligned 4096 pg"
    and pos: "root_pos (mem s) pt va = (Suc l, Entry a, perm)"
    and np: "load64 (mem s) a AND PTE_P = 0"
  defines "m2 \<equiv> hang (mem s) a pg"
  defines "W \<equiv> \<lambda>v. walk_entries (mem s) v 3 pt"
  shows "root_pos m2 pt va = (l, Entry (entry_of pg (pageindex va l)), perm)" (is ?pos)
    and "va_is_canonical v \<Longrightarrow> walk_entries m2 v 3 pt
       = W v @ (if a \<in> set (W v) then [entry_of pg (pageindex v l)] else [])" (is "_ \<Longrightarrow> ?walk v")
    and "translate m2 pt v = translate (mem s) pt v" (is "?tr v")
proof -
  note wp = walk_position [OF pos] and ent = pt_wf_entries [OF wf]
  have tree: "pt_tree (mem s) pt" using wf by (simp add: pt_wf_def)
  note loads = hang_loads(1-3) [OF free ent(1,2) [OF wp(1,3)], where m = "mem s", folded m2_def]
  have pgb: "unat pg < 0x200000" using free(1) allocatable_bounds(1) by (auto simp: free_page_def)
  note te = table_entry [OF free(2) pgb]
  have step: "walk_entries m2 v 3 pt = W v @ [entry_of pg (pageindex v l)]
      \<and> vm_descend m2 v 3 (Entry (entry_of pt (pageindex v 3))) initial_perm
        = (l, Entry (entry_of pg (pageindex v l)), p)
      \<and> mmu_walk m2 v 3 pt 0xFFF = None \<and> mmu_walk (mem s) v 3 pt 0xFFF = None"
    if v: "va_is_canonical v" "a \<in> set (W v)"
      and dv: "vm_descend (mem s) v 3 (Entry (entry_of pt (pageindex v 3))) initial_perm
        = (Suc l, Entry a, p)" for v p
  proof -
    note tl = tree_last_entry [OF tree pos disjI2 [OF np] v(1) v(2) [unfolded W_def]]
    have sm: "small_perm p" "mmu_walk (mem s) v 3 pt 0xFFF = None"
      using descend_mmu [OF dv small_initial] np by (simp_all add: initial_perm_def pe_load_def leaf_def)
    have other: "load64 m2 b = load64 (mem s) b" if "b \<in> set (butlast (W v))" for b
    proof -
      have "b \<in> set (W v)" "b \<noteq> a" using that in_set_butlastD walk_interior [of b "mem s" v 3 pt] np
        by (fast, auto simp: W_def P_PS_iff and_P_iff)
      then show ?thesis using loads(2) ent [OF v(1)] by (auto simp: W_def)
    qed
    have "length (W v) \<le> 3" using tl(2) by (simp add: W_def)
    from walk_extend [OF this [unfolded W_def] other [unfolded W_def] _ te(1) dv, of "0xFFF"]
    show ?thesis
      using loads(1) tl(1) walk_zero [OF loads(3) [OF pageindex_less]] te(2) te(3) [OF sm(1)] sm(2)
      by (auto simp: W_def)
  qed
  have same: "walk_entries m2 v 3 pt = W v \<and> mmu_walk m2 v 3 pt 0xFFF = mmu_walk (mem s) v 3 pt 0xFFF"
    if "va_is_canonical v" "a \<notin> set (W v)" for v
    using walk_cong [of "mem s" v 3 pt m2] loads(2) [OF ent [OF that(1)]] that(2)
    unfolding W_def by metis
  have dv: "\<exists>p. vm_descend (mem s) v 3 (Entry (entry_of pt (pageindex v 3))) initial_perm = (Suc l, Entry a, p)"
    if "va_is_canonical v" "a \<in> set (W v)" for v
    using tree_last_entry(4) [OF tree pos disjI2 [OF np]] that unfolding W_def by blast
  show ?pos using step [OF wp(1) _ wp(6)] wp(1,3) by (simp add: root_pos_def W_def)
  show "?walk v" if "va_is_canonical v" using same [OF that] step [OF that] dv [OF that] by auto
  show "?tr v"
  proof (cases "va_is_canonical v \<and> a \<in> set (W v)")
    case True
    then obtain p where "vm_descend (mem s) v 3 (Entry (entry_of pt (pageindex v 3))) initial_perm
        = (Suc l, Entry a, p)" using dv by blast
    from step [OF _ _ this] True show ?thesis by (simp add: translate_def)
  qed (use same in \<open>auto simp: translate_def\<close>)
qed

lemma hang_wf:
  assumes ok: "kmem_ok s" and wf: "pt_wf L s pt" and free: "free_page L s pg" "aligned 4096 pg"
    and pos: "root_pos (mem s) pt va = (Suc l, Entry a, perm)"
    and np: "load64 (mem s) a AND PTE_P = 0"
  shows "pt_wf L ((claim_page s pg)\<lparr>mem := hang (mem s) a pg\<rparr>) pt"
proof -
  let ?W = "\<lambda>v. walk_entries (mem s) v 3 pt" and ?m2 = "hang (mem s) a pg"
  let ?N = "\<lambda>v. entry_of pg (pageindex v l)"
  have tree: "pt_tree (mem s) pt" and al: "aligned 4096 pt" using wf by (simp_all add: pt_wf_def)
  note walk = hang_table(2) [OF wf free pos np]
  note ent = pt_wf_entries [OF wf]
  note tl = tree_last_entry [OF tree pos disjI2 [OF np]]
  have l2: "l \<le> 2" using walk_position(5) [OF pos] by simp
  have new: "?N v \<noteq> b" if "va_is_canonical u" "b \<in> set (?W u)" for v u b
    using entry_in_page [OF free(2) pageindex_less [of v l]] ent(1) [OF that] free
    by (metis untouched_def not_le)
  have "pt_tree ?m2 pt" unfolding pt_tree_def
  proof (intro allI impI)
    fix v u i j
    assume h: "va_is_canonical v \<and> va_is_canonical u \<and> i < length (walk_entries ?m2 v 3 pt)
      \<and> j < length (walk_entries ?m2 u 3 pt) \<and> walk_entries ?m2 v 3 pt ! i = walk_entries ?m2 u 3 pt ! j"
    then have c: "va_is_canonical v" "va_is_canonical u" by blast+
    show "i = j \<and> same_above (3 - i) v u"
    proof (cases "i < length (?W v)"; cases "j < length (?W u)")
      assume ij: "i < length (?W v)" "j < length (?W u)"
      then have "?W v ! i = ?W u ! j" using h walk [OF c(1)] walk [OF c(2)] by (simp add: nth_append)
      then show ?thesis using tree [unfolded pt_tree_def, rule_format, of v u i j] c ij by blast
    next
      assume ij: "i < length (?W v)" "\<not> j < length (?W u)"
      then show ?thesis using h walk [OF c(1)] walk [OF c(2)] new [OF c(1) nth_mem [OF ij(1)], of u]
        by (auto simp: nth_append split: if_splits)
    next
      assume ij: "\<not> i < length (?W v)" "j < length (?W u)"
      then show ?thesis using h walk [OF c(1)] walk [OF c(2)] new [OF c(2) nth_mem [OF ij(2)], of v]
        by (auto simp: nth_append split: if_splits)
    next
      assume "\<not> i < length (?W v)" "\<not> j < length (?W u)"
      then have i: "i = length (?W v)" "j = length (?W u)" "a \<in> set (?W v)" "a \<in> set (?W u)" "?N v = ?N u"
        using h walk [OF c(1)] walk [OF c(2)] by (auto simp: nth_append less_Suc_eq split: if_splits)
      have "same_above (Suc l) va v" "same_above (Suc l) va u" and len: "length (?W v) = 3 - l" "length (?W u) = 3 - l"
        using tl(2,3) [OF c(1) i(3)] tl(2,3) [OF c(2) i(4)] by simp_all
      then have "same_above (Suc l) v u" by (simp add: same_above_def)
      moreover have "pageindex v l = pageindex u l"
        using entry_of_inj [OF free(2) pageindex_less pageindex_less i(5)] .
      ultimately have "same_above l v u" using same_above_step by blast
      then show ?thesis using i len l2 by simp
    qed
  qed
  moreover have "untouched L ((claim_page s pg)\<lparr>mem := ?m2\<rparr>) b"
    if "va_is_canonical v" "b \<in> set (walk_entries ?m2 v 3 pt)" for v b
    using that walk [OF that(1)] untouched_claim [OF ok free(1) ent(1) [OF that(1)]]
      claimed_untouched [OF ok free entry_in_page [OF free(2) pageindex_less]]
    by (auto split: if_splits)
  ultimately show ?thesis using al by (simp add: pt_wf_def)
qed

lemma tables_added_refl: 
  "kmem_ok s \<Longrightarrow> pt_wf L s (vm_pt it) \<Longrightarrow> vm_ok (mem s) it \<Longrightarrow> tables_added L s it s it"
  by (simp add: tables_added_def)

lemma tables_added_trans:
  "tables_added L s it s1 it1 \<Longrightarrow> tables_added L s1 it1 s2 it2 \<Longrightarrow> tables_added L s it s2 it2"
  unfolding tables_added_def by auto

lemma tables_added_fail:
  assumes "kmem_ok s" "pt_wf L s (vm_pt it)" "vm_ok (mem s) it" "kalloc L sz s = (None, s1)"
  shows "tables_added L s it s1 it"
proof -
  obtain n where "s1 = s\<lparr>next_alloc_pa := n\<rparr>" "kmem_ok s1" using kalloc_None [OF assms(1,4)] by blast
  then show ?thesis using assms(2,3) by (simp add: tables_added_def pt_wf_def untouched_def)
qed

lemma try_map_step:
  assumes ok: "kmem_ok s" and wf: "pt_wf L s (vm_pt it)" and it: "vm_ok (mem s) it" 
    and lv: "vm_level it = Suc l" and pep: "vm_pep it = Entry a"
    and np: "load64 (mem s) a AND PTE_P = 0" and al: "kalloc L PAGESIZE s = (Some pg, s1)"
  defines "m2 \<equiv> hang (mem s) a pg" 
  defines "it1 \<equiv> it\<lparr>vm_level := l, vm_pep := Entry (entry_of pg (pageindex (vm_va it) l))\<rparr>"
  shows "vm_down m2 it = Inr it1" "tables_added L s it (s1\<lparr>mem := m2\<rparr>) it1"
    "load64 m2 (entry_of pg (pageindex (vm_va it) l)) = 0"
proof -
  note ka = kalloc_Some [OF ok al]
  have pos: "root_pos (mem s) (vm_pt it) (vm_va it) = (Suc l, Entry a, vm_perm it)"
    using it lv pep by (simp add: vm_ok_def)
  note wp = walk_position [OF pos] and ht = hang_table [OF wf ka(2,3) pos np, folded m2_def]
  note unt = pt_wf_entries [OF wf wp(1,3)]
  note loads = hang_loads(1-3) [OF ka(2,3) unt, where m = "mem s", folded m2_def]
  have small: "small_perm (vm_perm it)" by (rule root_translate(1) [OF pos])
  have pgb: "unat pg < 0x200000" using ka(2) allocatable_bounds(1) by (auto simp: free_page_def)
  note te = table_entry [OF ka(3) pgb]
  show "vm_down m2 it = Inr it1"
    unfolding vm_down_def it1_def using lv pep te(1,2) te(3) [OF small] loads(1)
      walk_zero [OF loads(3) [OF pageindex_less [of "vm_va it" l]]] loads(3) [OF pageindex_less [of "vm_va it" l]]
    by (simp add: pe_load_def)
  show "load64 m2 (entry_of pg (pageindex (vm_va it) l)) = 0" by (rule loads(3) [OF pageindex_less])
  have s1: "s1\<lparr>mem := m2\<rparr> = (claim_page s pg)\<lparr>mem := m2\<rparr>" using ka(5) by simp
  have "mem (s1\<lparr>mem := m2\<rparr>) b = mem s b \<and> off_entry b it1" if "untouched L s b" "off_entry b it" for b
  proof -
    have out: "4096 \<le> unat (b - pg)" using that(1) ka(2,3) by (simp add: untouched_def)
    then have "m2 b = mem s b"
      using that(2) pep unfolding m2_def hang_def by (simp add: store64_outside off_entry_def fill_page_def)
    moreover have "8 \<le> unat (b - entry_of pg (pageindex (vm_va it) l))"
      using entry_bytes_in_page [OF pageindex_less [of "vm_va it" l], of b pg] out by linarith
    ultimately show ?thesis by (simp add: off_entry_def it1_def)
  qed
  moreover have "kmem_ok ((claim_page s pg)\<lparr>mem := m2\<rparr>)" using ka(5,6) by (simp add: kmem_ok_def)
  ultimately show "tables_added L s it (s1\<lparr>mem := m2\<rparr>) it1"
    unfolding tables_added_def
    using hang_wf [OF ok wf ka(2,3) pos np] ht(1,3) untouched_claim [OF ok ka(2)] wf s1
    by (auto simp: m2_def it1_def vm_ok_def pt_wf_def)
qed

lemma vm_ok_entry:
  assumes "vm_ok m it" "va_is_canonical (vm_va it)"
  shows "\<exists>a. vm_pep it = Entry a"
  using assms walk_descend [of m "vm_va it" 3 "vm_pt it" initial_perm "vm_level it" "vm_pep it" "vm_perm it"]
  by (auto simp: vm_ok_def root_pos_def)

lemma try_map_loop_step:
  assumes "kmem_ok s" "pt_wf L s (vm_pt it)" "vm_ok (mem s) it" "vm_level it = Suc l"
    "vm_pep it = Entry a" "load64 (mem s) a AND PTE_P = 0" "kalloc L PAGESIZE s = (Some pg, s1)"
    "perm \<noteq> 0"
  shows "try_map_loop (Suc n) L s it perm = try_map_loop n L (s1\<lparr>mem := hang (mem s) a pg\<rparr>)
    (it\<lparr>vm_level := l, vm_pep := Entry (entry_of pg (pageindex (vm_va it) l))\<rparr>) perm"
proof -
  have "store64 (memset (mem s1) pg 0 PAGESIZE) a (pg OR PTE_P OR PTE_W OR PTE_U) = hang (mem s) a pg"
    using kalloc_Some(5) [OF assms(1,7)] by (simp add: hang_def memset_page claim_page_def)
  then show ?thesis using try_map_step(1) [OF assms(1-7)] assms(4-8) by (simp add: pe_load_def pe_store_def)
qed

lemma try_map_loop_spec:
  "kmem_ok s \<Longrightarrow> pt_wf L s (vm_pt it) \<Longrightarrow> vm_ok (mem s) it \<Longrightarrow> va_is_canonical (vm_va it) \<Longrightarrow>
   perm \<noteq> 0 \<Longrightarrow> vm_level it < n \<Longrightarrow>
   (case try_map_loop n L s it perm of
      Inl e \<Rightarrow> e = AssertFail ''!(*pep_ & PTE_P)'' \<and> pe_load (mem s) (vm_pep it) AND PTE_P \<noteq> 0 \<and> vm_level it > 0
    | Inr (r, s', it') \<Rightarrow> tables_added L s it s' it' \<and> (r = 0 \<and> vm_level it' = 0 \<or> r = -1))"
proof (induction n arbitrary: s it)
  case (Suc n)
  show ?case
  proof (cases "vm_level it")
    case 0
    then show ?thesis using tables_added_refl Suc.prems by simp
  next
    case (Suc l)
    obtain a where pep: "vm_pep it = Entry a"
      using vm_ok_entry [OF Suc.prems(3,4)] by blast
    obtain x s1 where al: "kalloc L PAGESIZE s = (x, s1)" by (cases "kalloc L PAGESIZE s")
    show ?thesis
    proof (cases "load64 (mem s) a AND PTE_P = 0")
      case np: True
      show ?thesis
      proof (cases x)
        case None
        then show ?thesis using al np pep Suc Suc.prems tables_added_fail [of s L it PAGESIZE s1]
          by (simp add: pe_load_def)
      next
        case (Some pg)
        let ?m2 = "hang (mem s) a pg"
        let ?it1 = "it\<lparr>vm_level := l, vm_pep := Entry (entry_of pg (pageindex (vm_va it) l))\<rparr>"
        note st = try_map_step [OF Suc.prems(1-3) Suc pep np al [unfolded Some]]
        have pre: "kmem_ok (s1\<lparr>mem := ?m2\<rparr>)" "pt_wf L (s1\<lparr>mem := ?m2\<rparr>) (vm_pt ?it1)"
          "vm_ok (mem (s1\<lparr>mem := ?m2\<rparr>)) ?it1" using st(2) by (auto simp: tables_added_def)
        note unf = try_map_loop_step [OF Suc.prems(1-3) Suc pep np al [unfolded Some] Suc.prems(5)]
        show ?thesis unfolding unf
          using Suc.IH [OF pre] Suc.prems(4-6) Suc tables_added_trans [OF st(2)] st(3)
          by (auto simp: pe_load_def split: sum.splits)
      qed
    qed (use pep Suc Suc.prems in \<open>simp add: pe_load_def\<close>)
  qed
qed simp

lemma walk_cong_last:
  "(\<And>a. a \<in> set (butlast (walk_entries m va n t)) \<Longrightarrow> load64 m' a = load64 m a) \<Longrightarrow>
   length (walk_entries m va n t) = Suc n \<Longrightarrow>
     walk_entries m' va n t = walk_entries m va n t
     \<and> vm_descend m' va n (Entry (entry_of t (pageindex va n))) p
       = vm_descend m va n (Entry (entry_of t (pageindex va n))) p"
proof (induction n arbitrary: t p)
  case (Suc n)
  let ?a = "entry_of t (pageindex va (Suc n))"
  have tab: "load64 m ?a AND (PTE_P OR PTE_PS) = PTE_P" using Suc.prems(2) by (auto simp: Let_def split: if_splits)
  have e: "load64 m' ?a = load64 m ?a" using Suc.prems(1) tab by (simp add: Let_def)
  have "\<And>a. a \<in> set (butlast (walk_entries m va n (load64 m ?a AND PTE_PAMASK))) \<Longrightarrow> load64 m' a = load64 m a"
    "length (walk_entries m va n (load64 m ?a AND PTE_PAMASK)) = Suc n"
    using Suc.prems tab by (simp_all add: Let_def)
  from Suc.IH [OF this] show ?case using e tab by (simp add: Let_def pe_load_def)
qed simp

lemma tree_distinct:
  assumes "pt_tree m pt" "va_is_canonical v" shows "distinct (walk_entries m v 3 pt)"
  using assms unfolding pt_tree_def distinct_conv_nth by blast

lemma leaf_store:
  fixes e :: u64
  assumes wf: "pt_wf L s pt" and pos: "root_pos (mem s) pt va = (0, Entry a, perm)"
  defines "m2 \<equiv> store64 (mem s) a e"
  shows "va_is_canonical v \<Longrightarrow> walk_entries m2 v 3 pt = walk_entries (mem s) v 3 pt"
    and "root_pos m2 pt va = (0, Entry a, perm)"
    and "translate m2 pt v = (if same_above 0 va v then leaf 0 v (scast perm) e else translate (mem s) pt v)"
proof -
  let ?W = "\<lambda>v. walk_entries (mem s) v 3 pt"
  note wp = walk_position [OF pos] and ent = pt_wf_entries [OF wf]
  have tree: "pt_tree (mem s) pt" and al: "aligned 4096 pt" using wf by (simp_all add: pt_wf_def)
  have ld: "load64 m2 b = load64 (mem s) b" if "va_is_canonical v" "b \<in> set (?W v)" "b \<noteq> a" for v b
    unfolding m2_def using load64_store64_other ent(2) [OF wp(1,3)] ent(2) [OF that(1,2)] that(3) by blast
  have hit: "walk_entries m2 v 3 pt = ?W v \<and>
     vm_descend m2 v 3 (Entry (entry_of pt (pageindex v 3))) initial_perm
     = vm_descend (mem s) v 3 (Entry (entry_of pt (pageindex v 3))) initial_perm"
    if v: "va_is_canonical v" "a \<in> set (?W v)" for v
  proof (rule walk_cong_last)
    note tl = tree_last_entry [OF tree pos disjI1 [OF refl] v]
    show "length (?W v) = Suc 3" using tl(2) by simp
    show "load64 m2 b = load64 (mem s) b" if "b \<in> set (butlast (?W v))" for b
      using that tl(1) tree_distinct [OF tree v(1)] ld [OF v(1) in_set_butlastD [OF that]]
      by (metis append_butlast_last_id distinct_append disjoint_iff list.set_intros(1) walk_nonempty)
  qed
  have miss: "walk_entries m2 v 3 pt = ?W v \<and> mmu_walk m2 v 3 pt 0xFFF = mmu_walk (mem s) v 3 pt 0xFFF"
    if "va_is_canonical v" "a \<notin> set (?W v)" for v
    using walk_cong [of "mem s" v 3 pt m2] ld [OF that(1)] that(2) by metis
  show "walk_entries m2 v 3 pt = ?W v" if "va_is_canonical v" using hit [OF that] miss [OF that] by blast
  show pos2: "root_pos m2 pt va = (0, Entry a, perm)" using hit [OF wp(1,3)] wp(1,6) by (simp add: root_pos_def)
  show "translate m2 pt v = (if same_above 0 va v then leaf 0 v (scast perm) e else translate (mem s) pt v)"
  proof (cases "same_above 0 va v")
    case True
    have "translate m2 pt v = leaf 0 v (scast perm) (load64 m2 a)"
      using root_translate(3) [OF root_pos_region [OF pos2 al True]] by (simp add: pe_load_def)
    then show ?thesis using True by (simp add: m2_def)
  next
    case False
    then have "va_is_canonical v \<Longrightarrow> a \<notin> set (?W v)"
      using tree_last_entry(3) [OF tree pos disjI1 [OF refl]] by blast
    then show ?thesis using miss False by (auto simp: translate_def)
  qed
qed

lemma leaf_store_wf:
  assumes "pt_wf L s pt" "root_pos (mem s) pt va = (0, Entry a, perm)"
  shows "pt_wf L (s\<lparr>mem := store64 (mem s) a e\<rparr>) pt"
  using assms(1) leaf_store(1) [OF assms]
  by (auto simp: pt_wf_def pt_tree_def untouched_def free_page_def)

lemma leaf_page:
  assumes "pa AND PTE_PAMASK = pa" "small_perm acc" "small_perm p" "bit p 0"
  shows "leaf 0 v (scast acc) (pa OR scast p) = Some (pa + (v AND 0xFFF), scast acc AND scast p)"
proof -
  have pa: "bit pa n \<longleftrightarrow> bit pa n \<and> 12 \<le> n \<and> n < 52" for n
    using arg_cong [OF assms(1), of "\<lambda>w. bit w n"] by (simp only: bit_and_iff bit_pamask)
  have sp: "bit p n \<Longrightarrow> n < 12" "bit acc n \<Longrightarrow> n < 12" for n using assms(2,3) by (auto simp: small_perm_def)
  have "bit ((pa OR scast p) AND PTE_PAMASK) n = bit pa n" for n
    unfolding bit_and_iff bit_or_iff bit_sx [OF assms(3)] bit_pamask using pa [of n] sp(1) [of n] by auto
  then have 1: "(pa OR scast p) AND PTE_PAMASK = pa" by (rule bit_eqI)
  have "bit (scast acc AND (pa OR scast p)) n = bit (scast acc AND scast p :: u64) n" for n
    unfolding bit_and_iff bit_or_iff bit_sx [OF assms(3)] bit_sx [OF assms(2)]
    using pa [of n] sp(2) [of n] by auto
  then have 2: "scast acc AND (pa OR scast p) = (scast acc AND scast p :: u64)" by (rule bit_eqI)
  have "bit (pa OR scast p) 0" unfolding bit_or_iff bit_sx [OF assms(3)] using assms(4) by simp
  then show ?thesis using 1 2 by (simp add: leaf_def and_P_iff pageoffmask_def PAGEOFFBITS_def)
qed

lemma perm_present:
  assumes "perm < 0x1000" "perm AND 1 = (1 :: u32)"
  shows "small_perm perm" "bit perm 0" "perm \<noteq> 0" "bit (scast perm :: u64) 0"
proof -
  show sp: "small_perm perm" using assms(1) by (simp add: small_perm_iff)
  show b: "bit perm 0" using assms(2) by (metis and_one_eq bit_0 even_iff_mod_2_eq_zero zero_neq_one)
  then show "perm \<noteq> 0" by auto
  show "bit (scast perm :: u64) 0" using b bit_sx [OF sp] by simp
qed

lemma try_map_guards:
  assumes "try_map L pa perm s it = Inr r" "bit (scast perm :: u64) 0"
  shows "pa \<noteq> -1" "pa AND PTE_PAMASK = pa" "vm_va it mod PAGESIZE = 0"
    "(scast perm :: u64) AND NOT (scast (vm_perm it)) AND (PTE_P OR PTE_W OR PTE_U) = 0"
proof -
  have "perm \<noteq> 0" using assms(2) by auto
  then show "pa \<noteq> -1" "pa AND PTE_PAMASK = pa" "vm_va it mod PAGESIZE = 0"
    "(scast perm :: u64) AND NOT (scast (vm_perm it)) AND (PTE_P OR PTE_W OR PTE_U) = 0"
    using assms by (simp_all add: try_map_def Let_def check_Inr_iff and_P_iff)
qed

lemma try_map_canonical:
  assumes "vm_ok m it" "bit (scast perm :: u64) 0"
    "(scast perm :: u64) AND NOT (scast (vm_perm it)) AND (PTE_P OR PTE_W OR PTE_U) = 0"
  shows "va_is_canonical (vm_va it)"
proof (rule ccontr)
  assume "\<not> ?thesis"
  then have "vm_perm it = 0" using assms(1) by (simp add: vm_ok_def root_pos_def)
  then have "(scast perm :: u64) AND (PTE_P OR PTE_W OR PTE_U) = 0" using assms(3) by simp
  then have "\<not> bit ((scast perm :: u64) AND (PTE_P OR PTE_W OR PTE_U)) 0" by simp
  then show False unfolding bit_and_iff bit_pwu using assms(2) by simp
qed

text \<open>
  C2: After a successful \<open>vmiter::try_map(pa, perm)\<close> with a present mapping, on a
  well-formed page table, the processor translates every address of the current page to the
  corresponding byte of \<open>pa\<close> with the requested permissions restricted by those of
  the levels above, every other address translates as before, and the page table, the reference
  counts and the iterator stay well-formed.
\<close>
theorem try_map_correct:
  assumes ok: "kmem_ok s" and wf: "pt_wf L s (vm_pt it)" and it: "vm_ok (mem s) it"
    and perm: "perm < 0x1000" "perm AND 1 = 1"
    and run: "try_map L pa perm s it = Inr (0, s', it')"
  shows "translate (mem s') (vm_pt it) v =
      (if same_above 0 (vm_va it) v then Some (pa + (v AND 0xFFF), scast (vm_perm it) AND scast perm)
       else translate (mem s) (vm_pt it) v)
    \<and> kmem_ok s' \<and> pt_wf L s' (vm_pt it) \<and> vm_ok (mem s') it'"
proof -
  note pp = perm_present [OF perm] and g = try_map_guards [OF run perm_present(4) [OF perm]]
  have can: "va_is_canonical (vm_va it)" by (rule try_map_canonical [OF it pp(4) g(4)])
  obtain r s1 it1 where lp: "try_map_loop (Suc (vm_level it)) L s it perm = Inr (r, s1, it1)"
    and st: "r = -1 \<and> Inr (-1, s1, it1) = (Inr (0, s', it') :: (int \<times> 'a kmem_scheme \<times> vmiter) res)
      \<or> r \<noteq> -1 \<and> (if vm_level it1 = 0 then bind_res (pe_store (mem s1) (vm_pep it1) (pa OR scast perm))
                (\<lambda>m2. Inr (0, s1\<lparr>mem := m2\<rparr>, it1)) else Inr (0, s1, it1)) = Inr (0, s', it')"
    using run pp(3) by (auto simp: try_map_def Let_def check_Inr_iff bind_res_Inr_iff split: if_splits)
  note sp = try_map_loop_spec [OF ok wf it can pp(3) lessI, unfolded lp]
  have ta: "tables_added L s it s1 it1" and l0: "vm_level it1 = 0" using sp st by auto
  note tad = ta [unfolded tables_added_def]
  obtain a where pep: "vm_pep it1 = Entry a" using vm_ok_entry [of "mem s1" it1] tad can by auto
  have s': "s' = s1\<lparr>mem := store64 (mem s1) a (pa OR scast perm)\<rparr>" "it' = it1"
    using st l0 pep by (auto simp: pe_store_def)
  have pos: "root_pos (mem s1) (vm_pt it) (vm_va it) = (0, Entry a, vm_perm it)"
    using tad l0 pep by (auto simp: vm_ok_def)
  have wf1: "pt_wf L s1 (vm_pt it)" using tad by blast
  note ls = leaf_store [OF wf1 pos, where e = "pa OR scast perm"]
  have "leaf 0 v (scast (vm_perm it)) (pa OR scast perm)
      = Some (pa + (v AND 0xFFF), scast (vm_perm it) AND scast perm)"
    by (rule leaf_page [OF g(2) root_translate(1) [OF pos] pp(1,2)])
  then have "translate (mem s') (vm_pt it) v =
      (if same_above 0 (vm_va it) v then Some (pa + (v AND 0xFFF), scast (vm_perm it) AND scast perm)
       else translate (mem s) (vm_pt it) v)"
    using ls(3) [of v] s' tad by simp
  moreover have "pt_wf L s' (vm_pt it)" using leaf_store_wf [OF wf1 pos] s' by simp
  moreover have "vm_ok (mem s') it'" using ls(2) s' tad l0 pep wf1 by (simp add: vm_ok_def pt_wf_def)
  moreover have "kmem_ok s'" using tad s' by (simp add: kmem_ok_def)
  ultimately show ?thesis by blast
qed

theorem try_map_frame:
  assumes ok: "kmem_ok s" and wf: "pt_wf L s (vm_pt it)" and it: "vm_ok (mem s) it"
    and perm: "perm < 0x1000" "perm AND 1 = 1"
    and run: "try_map L pa perm s it = Inr (r, s', it')"
    and b: "untouched L s b" "off_entry b it"
  shows "mem s' b = mem s b"
proof -
  note pp = perm_present [OF perm] and g = try_map_guards [OF run perm_present(4) [OF perm]]
  have can: "va_is_canonical (vm_va it)" by (rule try_map_canonical [OF it pp(4) g(4)])
  obtain r1 s1 it1 where lp: "try_map_loop (Suc (vm_level it)) L s it perm = Inr (r1, s1, it1)"
    and st: "s' = s1 \<or> bind_res (pe_store (mem s1) (vm_pep it1) (pa OR scast perm))
                (\<lambda>m2. Inr (0, s1\<lparr>mem := m2\<rparr>, it1)) = Inr (r, s', it')"
    using run pp(3) by (auto simp: try_map_def Let_def check_Inr_iff bind_res_Inr_iff split: if_splits)
  have "tables_added L s it s1 it1" using try_map_loop_spec [OF ok wf it can pp(3) lessI] lp by auto
  then have s1: "mem s1 b = mem s b" "off_entry b it1" using b by (auto simp: tables_added_def)
  show ?thesis using st
  proof
    assume "bind_res (pe_store (mem s1) (vm_pep it1) (pa OR scast perm))
                (\<lambda>m2. Inr (0, s1\<lparr>mem := m2\<rparr>, it1)) = Inr (r, s', it')"
    then show ?thesis using s1
      by (cases "vm_pep it1") (auto simp: pe_store_def store64_outside off_entry_def)
  qed (use s1 in simp)
qed

theorem try_map_errors:
  assumes ok: "kmem_ok s" and wf: "pt_wf L s (vm_pt it)" and it: "vm_ok (mem s) it"
    and perm: "perm < 0x1000" "perm AND 1 = 1"
    and run: "try_map L pa perm s it = Inl e"
  shows "\<exists>msg. e = AssertFail msg"
proof (rule ccontr)
  assume na: "\<not> ?thesis"
  note pp = perm_present [OF perm]
  have skip: "r = Inl e" if "check b (AssertFail msg) r = Inl e" for b msg and r :: "'b res"
    using that na by (auto simp: check_def split: if_splits)
  have g: "(scast perm :: u64) AND NOT (scast (vm_perm it)) AND (PTE_P OR PTE_W OR PTE_U) = 0"
    using run na by (auto simp: try_map_def Let_def check_def split: if_splits)
  have can: "va_is_canonical (vm_va it)" by (rule try_map_canonical [OF it pp(4) g])
  note spec = try_map_loop_spec [OF ok wf it can pp(3) lessI]
  note lp = skip [OF skip [OF skip [OF skip [OF skip [OF run [unfolded try_map_def Let_def]]]]]]
  show False
  proof (cases "try_map_loop (Suc (vm_level it)) L s it perm")
    case (Inl e')
    then show False using lp na spec by auto
  next
    case (Inr x)
    obtain r s1 it1 where x: "x = (r, s1, it1)" by (cases x)
    have ta: "tables_added L s it s1 it1" using spec Inr x by simp
    then obtain a where "vm_pep it1 = Entry a"
      using vm_ok_entry [of "mem s1" it1] can by (auto simp: tables_added_def)
    then show False using lp Inr x by (auto simp: pe_store_def split: if_splits)
  qed
qed

subsection \<open>Empty page tables and progress\<close>

lemma untouchedI:
  assumes "aligned 4096 q" "unat (b - q) < 4096" "\<not> free_page L s q"
  shows "untouched L s b"
  unfolding untouched_def using aligned_blocks_disjoint [of 4096 _ q b] assms by auto

lemma canonical_top_index:
  assumes "va_is_canonical v" "va_is_canonical u" "pageindex v 3 = pageindex u 3"
  shows "same_above 3 v u"
proof -
  have top: "bit w n = bit w 47" if "va_is_canonical w" "47 \<le> n" "n < 64" for w :: addr and n
  proof -
    have b: "bit w k = bit (drop_bit 47 w) (k - 47)" if "47 \<le> k" for k using that by (simp add: bit_drop_bit_eq)
    have m: "(0x1FFFF :: u64) = mask 17" by (simp add: mask_eq_exp_minus_1)
    show ?thesis using that(1) b [OF that(2)] b [of 47] that(2,3) unfolding canonical_drop m
      by (auto simp only: bit_mask_iff possible_bit_word bit_0_eq bot_apply bot_bool_def) auto
  qed
  have mid: "bit v n = bit u n" if "39 \<le> n" "n < 48" for n
  proof -
    have "bit (pageindex v 3) (n - 39) = bit (pageindex u 3) (n - 39)" using assms(3) by simp
    moreover have "n - 39 < 9" using that by arith
    ultimately show ?thesis unfolding bit_pageindex using that by simp
  qed
  show ?thesis unfolding same_above_def
  proof (intro allI impI)
    fix n :: nat assume n: "12 + 9 * 3 \<le> n"
    show "bit v n = bit u n"
    proof (cases "n < 48")
      case False
      then show ?thesis using top [OF assms(1), of n] top [OF assms(2), of n] mid [of 47]
          bit_imp_le_length [of v n] bit_imp_le_length [of u n] by (cases "n < 64") auto
    qed (use mid n in auto)
  qed
qed

lemma pt_wf_empty:
  assumes al: "aligned 4096 pt" and zero: "\<And>b. unat (b - pt) < 4096 \<Longrightarrow> mem s b = 0" and used: "\<not> free_page L s pt"
  shows "pt_wf L s pt" "translate (mem s) pt va = None"
proof -
  have z: "load64 (mem s) (entry_of pt (pageindex v l)) = 0" for v l
  proof -
    have "load64 (mem s) (entry_of pt (pageindex v l)) = load64 (fill_page (mem s) pt 0) (entry_of pt (pageindex v l))"
      by (rule load64_cong) (use entry_bytes_in_page [OF pageindex_less] zero in \<open>auto simp: fill_page_def\<close>)
    then show ?thesis by (simp add: load64_zero_page pageindex_less)
  qed
  note w = walk_zero [OF z]
  show "translate (mem s) pt va = None" using w by (simp add: translate_def)
  have unt: "untouched L s (entry_of pt (pageindex v 3))" for v
    using untouchedI [OF al entry_in_page [OF al pageindex_less] used] .
  have "same_above 3 v u" if "va_is_canonical v" "va_is_canonical u" "entry_of pt (pageindex v 3) = entry_of pt (pageindex u 3)" for v u
    using canonical_top_index [OF that(1,2) entry_of_inj [OF al pageindex_less pageindex_less that(3)]] .
  then show "pt_wf L s pt" using al w unt by (auto simp: pt_wf_def pt_tree_def)
qed

theorem kalloc_pagetable_empty:
  assumes "kmem_ok s" "kalloc_pagetable L s = (Some pt, s')"
  shows "pt_wf L s' pt \<and> translate (mem s') pt va = None \<and> kmem_ok s'"
proof -
  note k = kalloc_pagetable_zero [OF assms]
  have "\<not> free_page L s' pt" using free_page_claim [OF assms(1) k(1)] k(4) by (auto simp: free_page_def)
  then show ?thesis using pt_wf_empty [of pt s' L] k by (simp add: fill_page_def)
qed

lemma demo_vm_wf: "pt_wf demo_link demo_vm 0x1000" "kmem_ok demo_vm" "vm_ok (mem demo_vm) demo_it"
proof -
  show "pt_wf demo_link demo_vm 0x1000"
    by (rule pt_wf_empty(1))
      (simp_all add: aligned_def demo_vm_def demo_kmem_def demo_link_def alloc_eval)
  show "kmem_ok demo_vm" by (simp add: demo_vm_def kmem_ok_def NPAGES_def aligned_def)
  have "load64 (\<lambda>_. 0) a = 0" for a by (simp add: load64_bytes)
  then show "vm_ok (mem demo_vm) demo_it"
    by (simp add: vm_ok_def demo_vm_def demo_kmem_def demo_it_def root_pos_def walk_eval aligned_def initial_perm_def)
qed

lemma can_alloc_mem [simp]: "can_alloc L k (s\<lparr>mem := m\<rparr>) = can_alloc L k s"
proof (induction k arbitrary: s m)
  case (Suc k)
  obtain m' where "kalloc L PAGESIZE (s\<lparr>mem := m\<rparr>) = (fst (kalloc L PAGESIZE s), (snd (kalloc L PAGESIZE s))\<lparr>mem := m'\<rparr>)"
    using kalloc_mem by blast
  then show ?case using Suc.IH by (cases "kalloc L PAGESIZE s") (auto split: option.splits)
qed simp

lemma try_map_loop_succeeds:
  "kmem_ok s \<Longrightarrow> pt_wf L s (vm_pt it) \<Longrightarrow> vm_ok (mem s) it \<Longrightarrow> va_is_canonical (vm_va it) \<Longrightarrow>
   perm \<noteq> 0 \<Longrightarrow> vm_level it < n \<Longrightarrow> vm_level it > 0 \<longrightarrow> pe_load (mem s) (vm_pep it) AND PTE_P = 0 \<Longrightarrow>
   can_alloc L (vm_level it) s \<Longrightarrow> \<exists>s' it'. try_map_loop n L s it perm = Inr (0, s', it')"
proof (induction n arbitrary: s it)
  case (Suc n)
  show ?case
  proof (cases "vm_level it")
    case (Suc l)
    obtain a where pep: "vm_pep it = Entry a" using vm_ok_entry [OF Suc.prems(3,4)] by blast
    have np: "load64 (mem s) a AND PTE_P = 0" using Suc.prems(7) Suc pep by (simp add: pe_load_def)
    obtain pg s1 where al: "kalloc L PAGESIZE s = (Some pg, s1)" "can_alloc L l s1"
      using Suc.prems(8) Suc by (auto split: prod.splits option.splits)
    note st = try_map_step [OF Suc.prems(1-3) Suc pep np al(1)]
    note unf = try_map_loop_step [OF Suc.prems(1-3) Suc pep np al(1) Suc.prems(5)]
    show ?thesis unfolding unf
      by (rule Suc.IH) (use st Suc.prems(4-6) Suc al(2) in \<open>auto simp: tables_added_def pe_load_def\<close>)
  qed simp
qed simp

lemma vm_ok_leaf:
  assumes "vm_ok m it" "vm_level it = 0"
  obtains a where "vm_pep it = Entry a"
proof -
  have "va_is_canonical (vm_va it)" using assms by (auto simp: vm_ok_def root_pos_def split: if_splits)
  then show thesis using vm_ok_entry [OF assms(1)] that by blast
qed

lemma try_map_loop_leaf:
  assumes "kmem_ok s" "pt_wf L s (vm_pt it)" "vm_ok (mem s) it" "perm = 0 \<longrightarrow> vm_level it = 0"
    and "perm \<noteq> 0 \<longrightarrow> va_is_canonical (vm_va it) \<and> can_alloc L (vm_level it) s
      \<and> (vm_level it > 0 \<longrightarrow> pe_load (mem s) (vm_pep it) AND PTE_P = 0)"
  obtains s1 it1 a where "try_map_loop (Suc (vm_level it)) L s it perm = Inr (0, s1, it1)"
    "vm_level it1 = 0" "vm_pep it1 = Entry a"
proof (cases "perm = 0")
  case True
  then obtain a where "vm_pep it = Entry a" using assms(4) vm_ok_leaf [OF assms(3)] by blast
  then show thesis using True assms(4) that [of s it a] by simp
next
  case False
  then obtain s1 it1 where lp: "try_map_loop (Suc (vm_level it)) L s it perm = Inr (0, s1, it1)"
    using try_map_loop_succeeds [OF assms(1-3) _ False lessI] assms(5) by blast
  then have "vm_ok (mem s1) it1" "vm_level it1 = 0"
    using try_map_loop_spec [OF assms(1-3) _ False lessI] assms(5) False by (auto simp: tables_added_def)
  then show thesis using lp that vm_ok_leaf by metis
qed

lemma try_map_progress:
  assumes "kmem_ok s" "pt_wf L s (vm_pt it)" "vm_ok (mem s) it" "vm_va it mod PAGESIZE = 0"
    and "(scast perm :: u64) AND PTE_P \<noteq> 0 \<longrightarrow> pa \<noteq> -1 \<and> pa AND PTE_PAMASK = pa"
    and "(scast perm :: u64) AND PTE_P = 0 \<longrightarrow> pa AND PTE_P = 0 \<or> pa = -1 \<and> perm = 0"
    and "(scast perm :: u64) AND NOT (scast (vm_perm it)) AND (PTE_P OR PTE_W OR PTE_U) = 0"
    and "perm \<noteq> 0 \<longrightarrow> va_is_canonical (vm_va it) \<and> can_alloc L (vm_level it) s
      \<and> (vm_level it > 0 \<longrightarrow> pe_load (mem s) (vm_pep it) AND PTE_P = 0)"
  shows "\<exists>s' it'. try_map L pa perm s it = Inr (0, s', it')
    \<and> (if perm = 0 \<and> vm_level it > 0 then s' = s \<and> it' = it
       else vm_level it' = 0 \<and> pe_load (mem s') (vm_pep it') = (if pa = -1 then 0 else pa) OR scast perm)"
proof (cases "perm = 0 \<and> vm_level it > 0")
  case True
  then show ?thesis using assms(4-7) by (auto simp: try_map_def Let_def)
next
  case False
  then have "perm = 0 \<longrightarrow> vm_level it = 0" by simp
  from try_map_loop_leaf [OF assms(1-3) this assms(8)] obtain s1 it1 a where
    lp: "try_map_loop (Suc (vm_level it)) L s it perm = Inr (0, s1, it1)" "vm_level it1 = 0" "vm_pep it1 = Entry a" .
  let ?pa = "if pa = -1 \<and> perm = 0 then 0 else pa"
  have g: "(scast perm :: u64) AND PTE_P \<noteq> 0 \<longrightarrow> ?pa \<noteq> -1 \<and> ?pa AND PTE_PAMASK = ?pa"
    "(scast perm :: u64) AND PTE_P = 0 \<longrightarrow> ?pa AND PTE_P = 0" using assms(5,6) by auto
  have pa: "?pa = (if pa = -1 then 0 else pa)" using assms(5,6) by (auto simp: and_P_iff)
  have "try_map L pa perm s it = Inr (0, s1\<lparr>mem := store64 (mem s1) a (?pa OR scast perm)\<rparr>, it1)"
    using lp assms(4,7) g by (simp add: try_map_def Let_def pe_store_def del: try_map_loop.simps)
  then show ?thesis using False lp(2,3) pa by (auto simp: pe_load_def)
qed

lemma demo_pt: "vm_pt demo_it = 0x1000" by (simp add: demo_it_def)

lemma demo_zero: "load64 (mem demo_vm) a = 0" by (simp add: demo_vm_def demo_kmem_def load64_bytes)

lemma demo_can_alloc: "can_alloc demo_link 3 demo_vm"
proof -
  have "kalloc demo_link PAGESIZE demo_vm = (Some 0x2000, claim_page demo_vm 0x2000)"
    by (subst kalloc_here) (simp_all add: demo_vm_def demo_link_def alloc_eval)
  moreover have "kalloc demo_link PAGESIZE (claim_page demo_vm 0x2000) 
      = (Some 0x3000, claim_page (claim_page demo_vm 0x2000) 0x3000)"
    by (subst kalloc_here) (simp_all add: demo_vm_def demo_link_def alloc_eval claim_page_def)
  moreover have "kalloc demo_link PAGESIZE (claim_page (claim_page demo_vm 0x2000) 0x3000)
      = (Some 0x4000, claim_page (claim_page (claim_page demo_vm 0x2000) 0x3000) 0x4000)"
    by (subst kalloc_here) (simp_all add: demo_vm_def demo_link_def alloc_eval claim_page_def)
  ultimately show ?thesis by (simp add: numeral_3_eq_3)
qed

lemmas demo_pre = demo_vm_wf(2) demo_vm_wf(1) [folded demo_pt] demo_vm_wf(3)

lemma demo_map: "\<exists>s' it'. try_map demo_link 0x9000 7 demo_vm demo_it = Inr (0, s', it')"
  using try_map_progress [OF demo_pre, of 7 "0x9000"] demo_can_alloc
  by (auto simp: demo_it_def phys_consts pte_consts pe_load_def demo_zero va_is_canonical_def va_consts)

theorem try_map_correct_witness:
  "\<exists>s' it'. try_map demo_link 0x9000 7 demo_vm demo_it = Inr (0, s', it')
    \<and> translate (mem s') 0x1000 0x3123 = Some (0x9123, 7) \<and> translate (mem s') 0x1000 0x4000 = None"
proof -
  obtain s' it' where run: "try_map demo_link 0x9000 7 demo_vm demo_it = Inr (0, s', it')"
    using demo_map by blast
  have "same_above 0 0x3000 0x3123" "\<not> same_above 0 0x3000 0x4000" by (simp_all add: same_above_div)
  moreover have "translate (mem demo_vm) 0x1000 0x4000 = None"
    by (simp add: translate_def walk_eval demo_zero)
  ultimately show ?thesis
    using run try_map_correct [OF demo_pre _ _ run, of "0x3123"] try_map_correct [OF demo_pre _ _ run, of "0x4000"]
    by (simp add: demo_it_def)
qed

theorem try_map_frame_witness:
  "\<exists>s' it'. try_map demo_link 0x9000 7 demo_vm demo_it = Inr (0, s', it') \<and> mem s' 0x50000 = 0"
proof -
  obtain s' it' where run: "try_map demo_link 0x9000 7 demo_vm demo_it = Inr (0, s', it')"
    using demo_map by blast
  have "untouched demo_link demo_vm 0x50000"
    by (rule untouchedI [of "0x50000"]) (simp_all add: aligned_def demo_link_def alloc_eval)
  moreover have "off_entry 0x50000 demo_it" by (simp add: off_entry_def demo_it_def)
  moreover have "mem demo_vm 0x50000 = 0" by (simp add: demo_vm_def demo_kmem_def)
  ultimately show ?thesis using run try_map_frame [OF demo_pre _ _ run, of "0x50000"] by simp
qed

theorem try_map_errors_witness:
  "\<exists>msg. try_map demo_link 0x9001 7 demo_vm demo_it = Inl (AssertFail msg)"
proof -
  have run: "try_map demo_link 0x9001 7 demo_vm demo_it = Inl (AssertFail ''vmiter::try_map pa not aligned'')"
    by (simp add: try_map_def demo_it_def phys_consts pte_consts)
  show ?thesis using try_map_errors [OF demo_pre _ _ run] run by simp
qed

text \<open>
  C28: On a well-formed page table and allocator state, with an iterator that stands for its address,
  \<open>try_map\<close> returns 0 whenever its arguments satisfy its assertions, present mapping
  or not, provided that, for a nonzero permission, the address is canonical, no large page is in
  the way and the allocator can supply one page for each level that is missing. Then the entry of
  the address holds the physical address and the permissions; with permission 0 and no last-level
  table nothing changes.
\<close>
theorem try_map_succeeds:
  assumes "kmem_ok s" "pt_wf L s (vm_pt it)" "vm_ok (mem s) it" "vm_va it mod PAGESIZE = 0"
    and "(scast perm :: u64) AND PTE_P \<noteq> 0 \<longrightarrow> pa \<noteq> -1 \<and> pa AND PTE_PAMASK = pa"
    and "(scast perm :: u64) AND PTE_P = 0 \<longrightarrow> pa AND PTE_P = 0 \<or> pa = -1 \<and> perm = 0"
    and "(scast perm :: u64) AND NOT (scast (vm_perm it)) AND (PTE_P OR PTE_W OR PTE_U) = 0"
    and "perm \<noteq> 0 \<longrightarrow> va_is_canonical (vm_va it) \<and> can_alloc L (vm_level it) s
      \<and> (vm_level it > 0 \<longrightarrow> pe_load (mem s) (vm_pep it) AND PTE_P = 0)"
  shows "\<exists>s' it'. try_map L pa perm s it = Inr (0, s', it')
    \<and> (if perm = 0 \<and> vm_level it > 0 then s' = s \<and> it' = it
       else vm_level it' = 0 \<and> pe_load (mem s') (vm_pep it') = (if pa = -1 then 0 else pa) OR scast perm)"
  by (rule try_map_progress [OF assms])

lemma demo_canonical: "va_is_canonical 0x3000"
  by (simp add: va_is_canonical_def va_consts)

theorem try_map_succeeds_witness:
  "(\<exists>s' it'. try_map demo_link 0x9000 7 demo_vm demo_it = Inr (0, s', it')
      \<and> pe_load (mem s') (vm_pep it') = 0x9007)
   \<and> (\<exists>s' it'. try_map demo_link 0x9000 0 demo_vm demo_it = Inr (0, s', it') \<and> s' = demo_vm)"
  using try_map_succeeds [OF demo_pre, of 7 "0x9000"] try_map_succeeds [OF demo_pre, of 0 "0x9000"]
    demo_can_alloc demo_canonical
  by (auto simp: demo_it_def phys_consts pte_consts pe_load_def demo_zero)

theorem kalloc_pagetable_empty_witness:
  "\<exists>s'. kalloc_pagetable demo_link demo_kmem = (Some 0x1000, s') \<and> translate (mem s') 0x1000 0x7000 = None"
proof -
  obtain s' where "kalloc_pagetable demo_link demo_kmem = (Some 0x1000, s')"
    by (simp add: kalloc_pagetable_def demo_kalloc PAGESIZE_def)
  then show ?thesis using kalloc_pagetable_empty [OF demo_ok] by blast
qed

end
