(* ===== verification/Keyboard.thy ===== *)
theory Keyboard
  imports Prelude
begin

text \<open>
  The keyboard decoder of \<^verbatim>\<open>kernels1/k-hardware.cc\<close>: the scan-code tables \<^verbatim>\<open>keymap\<close> and
  \<^verbatim>\<open>complex_keymap\<close> and the function \<^verbatim>\<open>keyboard_readc\<close> with its two static variables.
  What the controller answers is an argument: \<open>None\<close> when the status register says that no byte
  is ready, \<open>Some b\<close> when the data register holds \<open>b\<close>. Table lookups are checked:
  an index outside a table is the fault \<open>OutOfBounds\<close>, and the lemmas show that it never happens.
\<close>

subsection \<open>Tables\<close>

definition MOD_SHIFT :: u8 where "MOD_SHIFT = 1"
definition MOD_CONTROL :: u8 where "MOD_CONTROL = 2"
definition MOD_CAPSLOCK :: u8 where "MOD_CAPSLOCK = 8"
definition KEY_SHIFT :: u8 where "KEY_SHIFT = 0xFA"
definition KEY_CONTROL :: u8 where "KEY_CONTROL = 0xFB"
definition KEY_ALT :: u8 where "KEY_ALT = 0xFC"
definition KEY_CAPSLOCK :: u8 where "KEY_CAPSLOCK = 0xFD"
definition KEY_NUMLOCK :: u8 where "KEY_NUMLOCK = 0xFE"
definition KEY_SCROLLLOCK :: u8 where "KEY_SCROLLLOCK = 0xFF"

definition CKEY :: "u8 \<Rightarrow> u8" where "CKEY cn = 0x80 + cn"

definition KEY_UP :: u8 where "KEY_UP = 0xC0"
definition KEY_RIGHT :: u8 where "KEY_RIGHT = 0xC1"
definition KEY_DOWN :: u8 where "KEY_DOWN = 0xC2"
definition KEY_LEFT :: u8 where "KEY_LEFT = 0xC3"
definition KEY_HOME :: u8 where "KEY_HOME = 0xC4"
definition KEY_END :: u8 where "KEY_END = 0xC5"
definition KEY_PAGEUP :: u8 where "KEY_PAGEUP = 0xC6"
definition KEY_PAGEDOWN :: u8 where "KEY_PAGEDOWN = 0xC7"
definition KEY_INSERT :: u8 where "KEY_INSERT = 0xC8"
definition KEY_DELETE :: u8 where "KEY_DELETE = 0xC9"

lemmas key_consts = MOD_SHIFT_def MOD_CONTROL_def MOD_CAPSLOCK_def KEY_SHIFT_def KEY_CONTROL_def
  KEY_ALT_def KEY_CAPSLOCK_def KEY_NUMLOCK_def KEY_SCROLLLOCK_def CKEY_def KEY_UP_def KEY_RIGHT_def
  KEY_DOWN_def KEY_LEFT_def KEY_HOME_def KEY_END_def KEY_PAGEUP_def KEY_PAGEDOWN_def
  KEY_INSERT_def KEY_DELETE_def

definition keymap :: "u8 list" where
  "keymap =
     [0, 27, CKEY 0, CKEY 1, CKEY 2, CKEY 3, CKEY 4, CKEY 5,
      CKEY 6, CKEY 7, CKEY 8, CKEY 9, CKEY 10, CKEY 11, 8, 9,
      113, 119, 101, 114, 116, 121, 117, 105,
      111, 112, CKEY 12, CKEY 13, CKEY 14, KEY_CONTROL, 97, 115,
      100, 102, 103, 104, 106, 107, 108, CKEY 15,
      CKEY 16, CKEY 17, KEY_SHIFT, CKEY 18, 122, 120, 99, 118,
      98, 110, 109, CKEY 19, CKEY 20, CKEY 21, KEY_SHIFT, 42,
      KEY_ALT, 32, KEY_CAPSLOCK, 0, 0, 0, 0, 0,
      0, 0, 0, 0, 0, KEY_NUMLOCK, KEY_SCROLLLOCK, 55,
      56, 57, 45, 52, 53, 54, 43, 49,
      50, 51, 48, 46, 0, 0, 0, 0, 0, 0, 0, 0, 0, 0, 0, 0]
     @ replicate 16 0 @ replicate 16 0 @ replicate 16 0
     @ [0, 0, 0, 0, 0, 0, 0, 0, 0, 0, 0, 0, CKEY 14, KEY_CONTROL, 0, 0]
     @ replicate 16 0
     @ [0, 0, 0, 0, 0, 47, 0, 0, KEY_ALT, 0, 0, 0, 0, 0, 0, 0]
     @ [0, 0, 0, 0, 0, 0, 0, KEY_HOME,
        KEY_UP, KEY_PAGEUP, 0, KEY_LEFT, 0, KEY_RIGHT, 0, KEY_END]
     @ [KEY_DOWN, KEY_PAGEDOWN, KEY_INSERT, KEY_DELETE, 0, 0, 0, 0,
        0, 0, 0, 0, 0, 0, 0, 0]
     @ replicate 16 0 @ replicate 16 0"

definition complex_keymap :: "u8 list list" where
  "complex_keymap =
     [[49, 33, 0, 0], [50, 64, 0, 0], [51, 35, 0, 0], [52, 36, 0, 0],
      [53, 37, 0, 0], [54, 94, 0, 0x1E], [55, 38, 0, 0], [56, 42, 0, 0],
      [57, 40, 0, 0], [48, 41, 0, 0], [45, 95, 0, 0x1F], [61, 43, 0, 0],
      [91, 123, 0x1B, 0], [93, 125, 0x1D, 0], [10, 10, 13, 13], [59, 58, 0, 0],
      [39, 34, 0, 0], [96, 126, 0, 0], [92, 124, 0x1C, 0], [44, 60, 0, 0],
      [46, 62, 0, 0], [47, 63, 0, 0]]"

subsection \<open>keyboard_readc\<close>

record kbd =
  modifiers :: u8
  last_escape :: u8

definition keymap_at :: "u8 \<Rightarrow> u8 res" where
  "keymap_at i = check (unat i < length keymap) (OutOfBounds ''keymap'') (Inr (keymap ! unat i))"

definition complex_at :: "u8 \<Rightarrow> u8 \<Rightarrow> u8 res" where
  "complex_at i j =
     check (unat i < length complex_keymap) (OutOfBounds ''complex_keymap'')
    (check (unat j < length (complex_keymap ! unat i)) (OutOfBounds ''map'')
       (Inr (complex_keymap ! unat i ! unat j)))"

definition key_release :: "u8 \<Rightarrow> kbd \<Rightarrow> kbd" where
  "key_release ch k =
     (if ch \<ge> KEY_SHIFT \<and> ch < KEY_CAPSLOCK
      then k\<lparr>modifiers := modifiers k AND NOT (push_bit (unat (ch - KEY_SHIFT)) 1)\<rparr> else k)"

definition key_press :: "u8 \<Rightarrow> kbd \<Rightarrow> (u8 \<times> kbd) res" where
  "key_press ch k =
     (if ch \<ge> 97 \<and> ch \<le> 122 then
        Inr (if modifiers k AND MOD_CONTROL \<noteq> 0 then ch - 0x60
             else if (modifiers k AND MOD_SHIFT = 0) \<noteq> (modifiers k AND MOD_CAPSLOCK = 0) then ch - 0x20
             else ch, k)
      else if ch \<ge> KEY_CAPSLOCK then
        Inr (0, k\<lparr>modifiers := modifiers k XOR push_bit (unat (ch - KEY_SHIFT)) 1\<rparr>)
      else if ch \<ge> KEY_SHIFT then
        Inr (0, k\<lparr>modifiers := modifiers k OR push_bit (unat (ch - KEY_SHIFT)) 1\<rparr>)
      else if ch \<ge> CKEY 0 \<and> ch \<le> CKEY 21 then
        bind_res (complex_at (ch - CKEY 0) (modifiers k AND 3)) (\<lambda>c. Inr (c, k))
      else if ch < 0x80 \<and> modifiers k AND MOD_CONTROL \<noteq> 0 then Inr (0, k)
      else Inr (ch, k))"

definition keyboard_readc :: "u8 option \<Rightarrow> kbd \<Rightarrow> (int \<times> kbd) res" where
  "keyboard_readc input k =
     (case input of
        None \<Rightarrow> Inr (-1, k)
      | Some d \<Rightarrow>
          (let escape = last_escape k; k1 = k\<lparr>last_escape := 0\<rparr>
           in if d = 0xE0 then Inr (0, k1\<lparr>last_escape := 0x80\<rparr>)
              else if d AND 0x80 \<noteq> 0 then
                bind_res (keymap_at ((d AND 0x7F) OR escape)) (\<lambda>ch. Inr (0, key_release ch k1))
              else
                bind_res (keymap_at (d OR escape)) (\<lambda>ch.
                bind_res (key_press ch k1) (\<lambda>(c, k2). Inr (uint c, k2)))))"

primrec keyboard_run :: "u8 option list \<Rightarrow> kbd \<Rightarrow> (int list \<times> kbd) res" where
  "keyboard_run [] k = Inr ([], k)"
| "keyboard_run (d # ds) k =
     bind_res (keyboard_readc d k) (\<lambda>(c, k1).
     bind_res (keyboard_run ds k1) (\<lambda>(cs, k2). Inr (c # cs, k2)))"

subsection \<open>Properties\<close>

lemma keymap_length [simp]: "length keymap = 256"
  by (simp add: keymap_def)

lemma complex_keymap_shape: "length complex_keymap = 22" "\<forall>r \<in> set complex_keymap. length r = 4"
  by (simp_all add: complex_keymap_def)

lemma keymap_at_total [simp]: "keymap_at i = Inr (keymap ! unat i)"
proof -
  have "unat i < 256" using unsigned_less [of i, where ?'a = nat] by simp
  then show ?thesis by (simp add: keymap_at_def)
qed

lemma complex_at_total:
  assumes "unat i < 22" shows "complex_at i (j AND 3) = Inr (complex_keymap ! unat i ! unat (j AND 3))"
proof -
  have "j AND 3 = take_bit 2 j" by (simp add: take_bit_eq_mask mask_eq_exp_minus_1)
  then have "unat (j AND 3) < 2 ^ 2" by (simp only: unsigned_take_bit_eq take_bit_nat_less_exp)
  moreover have "length (complex_keymap ! unat i) = 4"
    using complex_keymap_shape assms by (simp add: nth_mem)
  ultimately show ?thesis using assms by (simp add: complex_at_def complex_keymap_shape)
qed

lemma key_press_total: "\<exists>c k'. key_press ch k = Inr (c, k')"
proof (cases "ch \<ge> CKEY 0 \<and> ch \<le> CKEY 21")
  case True
  then have "0x80 \<le> unat ch" "unat ch \<le> 0x95" by (simp_all add: CKEY_def word_le_nat_alt)
  moreover from this have "unat (ch - CKEY 0) = unat ch - 0x80"
    by (simp add: CKEY_def unat_sub_if')
  ultimately have "unat (ch - CKEY 0) < 22" by simp
  then show ?thesis by (auto simp: key_press_def complex_at_total)
qed (auto simp: key_press_def)

theorem keyboard_readc_total:
  "\<exists>c k'. keyboard_readc input k = Inr (c, k') \<and> - 1 \<le> c \<and> c \<le> 255"
proof (cases input)
  case (Some d)
  have b: "0 \<le> uint c \<and> uint c \<le> 255" for c :: u8
    using uint_lt2p [of c] by simp
  obtain c k' where "key_press (keymap ! unat (d OR last_escape k)) (k\<lparr>last_escape := 0\<rparr>) = Inr (c, k')"
    using key_press_total by blast
  then show ?thesis using Some b [of c] by (auto simp: keyboard_readc_def Let_def intro: order_trans [of _ 0])
qed (simp add: keyboard_readc_def)

lemma bit7_clear:
  assumes "(sc :: u8) < 0x80"
  shows "sc AND 0x80 = 0" "(sc OR 0x80) AND 0x7F = sc" "(sc OR 0x80) AND 0x80 \<noteq> 0"
proof -
  have nb: "\<not> bit sc n" if "7 \<le> n" for n
  proof 
    assume b: "bit sc n"
    have "take_bit 7 (unat sc) = unat sc" using assms by (intro take_bit_nat_eq_self) (simp add: word_less_nat_alt)
    moreover have "bit (unat sc) n" using b by (simp add: bit_unsigned_iff)
    ultimately show False using that by (metis bit_take_bit_iff not_less)
  qed
  have e: "(0x80 :: u8) = 2 ^ 7" "(0x7F :: u8) = mask 7" by (simp_all add: mask_eq_exp_minus_1)
  show "sc AND 0x80 = 0" unfolding e and_exp_eq_0_iff_not_bit by (rule nb) simp
  show "(sc OR 0x80) AND 0x80 \<noteq> 0" unfolding e and_exp_eq_0_iff_not_bit by (simp add: bit_or_iff bit_exp_iff)
  have "bit ((sc OR 2 ^ 7) AND mask 7) n = bit sc n" for n
    unfolding bit_and_iff bit_or_iff bit_exp_iff bit_mask_iff possible_bit_word using nb [of n]
      bit_imp_le_length [of sc n] by (cases "7 \<le> n") auto
  then show "(sc OR 0x80) AND 0x7F = sc" unfolding e by (rule bit_eqI)
qed

lemma scan_codes: "keymap ! 0x2A = KEY_SHIFT" "keymap ! 0x60 = 0" by (simp_all add: keymap_def nth_append)

lemma letter_not_escape: 
  assumes "(sc :: u8) < 0x80" "97 \<le> keymap ! unat sc" shows "sc OR 0x80 \<noteq> 0xE0"
proof
  assume "sc OR 0x80 = 0xE0"
  then have "(sc OR 0x80) AND 0x7F = 0xE0 AND 0x7F" by simp
  then have "sc = 0x60" unfolding bit7_clear(2) [OF assms(1)] by simp
  then show False using assms(2) scan_codes by simp
qed

theorem shifted_letter:
  assumes "sc < 0x80" "97 \<le> keymap ! unat sc" "keymap ! unat sc \<le> 122"
    and "last_escape k = 0" "modifiers k = 0"
  shows "keyboard_run [Some 0x2A, Some sc, Some (sc OR 0x80), Some 0xAA, Some sc] k =
    Inr ([0, uint (keymap ! unat sc) - 32, 0, 0, uint (keymap ! unat sc)], k)"
proof -
  have u: "uint (keymap ! unat sc - 32) = uint (keymap ! unat sc) - 32"
    using assms(2) by (simp add: uint_sub_if' word_le_def)
  have ns: "\<not> KEY_SHIFT \<le> keymap ! unat sc" using assms(3) by (simp add: KEY_SHIFT_def word_le_nat_alt)
  note b = bit7_clear [OF assms(1)] and ne = letter_not_escape [OF assms(1,2)]
  have sc: "sc \<noteq> 0xE0" using assms(1) by auto
  show ?thesis using assms b ne u ns sc
    by (simp add: keyboard_readc_def Let_def scan_codes key_press_def key_release_def key_consts)
qed

theorem shifted_letter_witness:
  "keyboard_run [Some 0x2A, Some 0x1E, Some 0x9E, Some 0xAA, Some 0x1E] \<lparr>modifiers = 0, last_escape = 0\<rparr>
   = Inr ([0, 65, 0, 0, 97], \<lparr>modifiers = 0, last_escape = 0\<rparr>)"
  using shifted_letter [of "0x1E" "\<lparr>modifiers = 0, last_escape = 0\<rparr>"] by (simp add: keymap_def)

end
