(* ===== verification/Elf.thy ===== *)
theory Elf
  imports PhysMem
begin

text \<open>
  Program images: the ELF structures of \<^verbatim>\<open>kernels1/elf.h\<close> and the classes \<^verbatim>\<open>program_image\<close> and
  \<^verbatim>\<open>program_image_segment\<close> of \<^verbatim>\<open>kernels1/k-hardware.cc\<close>. The images are linked into the kernel;
  where the linker puts them is the argument \<open>rams\<close>, one start address per entry of \<^verbatim>\<open>ramimages\<close>.
  Structure fields are little-endian loads at the offsets of \<^verbatim>\<open>elf.h\<close>.
  The reference definition is \<open>load_segments\<close>: the loadable entries of the program-header table,
  in order. The lemmas show that iterating from \<^verbatim>\<open>begin()\<close> to \<^verbatim>\<open>end()\<close> visits exactly those.
\<close>

subsection \<open>Structures\<close>

definition ELF_MAGIC :: u32 where "ELF_MAGIC = 0x464C457F"
definition ELF_PTYPE_LOAD :: u32 where "ELF_PTYPE_LOAD = 1"
definition ELF_PFLAG_WRITE :: u32 where "ELF_PFLAG_WRITE = 2"

definition e_magic :: "memory \<Rightarrow> addr \<Rightarrow> u32" where "e_magic m elf = load32 m elf"
definition e_entry :: "memory \<Rightarrow> addr \<Rightarrow> u64" where "e_entry m elf = load64 m (elf + 0x18)"
definition e_phoff :: "memory \<Rightarrow> addr \<Rightarrow> u64" where "e_phoff m elf = load64 m (elf + 0x20)"
definition e_phnum :: "memory \<Rightarrow> addr \<Rightarrow> u16" where "e_phnum m elf = load16 m (elf + 0x38)"

definition p_type :: "memory \<Rightarrow> addr \<Rightarrow> u32" where "p_type m ph = load32 m ph"
definition p_flags :: "memory \<Rightarrow> addr \<Rightarrow> u32" where "p_flags m ph = load32 m (ph + 0x04)"
definition p_offset :: "memory \<Rightarrow> addr \<Rightarrow> u64" where "p_offset m ph = load64 m (ph + 0x08)"
definition p_va :: "memory \<Rightarrow> addr \<Rightarrow> u64" where "p_va m ph = load64 m (ph + 0x10)"
definition p_filesz :: "memory \<Rightarrow> addr \<Rightarrow> u64" where "p_filesz m ph = load64 m (ph + 0x20)"
definition p_memsz :: "memory \<Rightarrow> addr \<Rightarrow> u64" where "p_memsz m ph = load64 m (ph + 0x28)"

definition sizeof_elf_program :: u64 where "sizeof_elf_program = 0x38"

subsection \<open>program\_image\<close>

definition ramimage_names :: "u8 list list" where
  "ramimage_names = map ascii [''hello'', ''bigdata'', ''alice'', ''eve'', ''pipereader'',
     ''pipewriter'', ''spawn'']"

fun name_index :: "u8 list \<Rightarrow> u8 list list \<Rightarrow> int \<Rightarrow> int" where
  "name_index nm [] i = -1"
| "name_index nm (x # xs) i = (if nm = x then i else name_index nm xs (i + 1))"

definition program_number :: "u8 list \<Rightarrow> int" where
  "program_number program_name = name_index program_name ramimage_names 0"

definition program_image_num :: "memory \<Rightarrow> addr list \<Rightarrow> int \<Rightarrow> addr option res" where
  "program_image_num m rams n =
     (if n \<ge> 0 \<and> n < int (length ramimage_names)
      then check (e_magic m (rams ! nat n) = ELF_MAGIC) (AssertFail ''elf_->e_magic == ELF_MAGIC'')
             (Inr (Some (rams ! nat n)))
      else Inr None)"

definition program_image_name :: "memory \<Rightarrow> addr list \<Rightarrow> u8 list \<Rightarrow> addr option res" where
  "program_image_name m rams program_name = program_image_num m rams (program_number program_name)"

definition image_entry :: "memory \<Rightarrow> addr option \<Rightarrow> u64" where
  "image_entry m elf = (case elf of Some e \<Rightarrow> e_entry m e | None \<Rightarrow> 0)"

definition image_empty :: "memory \<Rightarrow> addr option \<Rightarrow> bool" where
  "image_empty m elf \<longleftrightarrow> (case elf of Some e \<Rightarrow> e_phnum m e = 0 | None \<Rightarrow> True)"

definition elf_header_program :: "memory \<Rightarrow> addr option \<Rightarrow> bool \<Rightarrow> addr" where
  "elf_header_program m elf fin =
     (case elf of
        Some e \<Rightarrow> e + e_phoff m e + sizeof_elf_program * (if fin then ucast (e_phnum m e) else 0)
      | None \<Rightarrow> 0)"

subsection \<open>program\_image\_segment\<close>

record segment =
  seg_ph :: addr
  seg_elf :: "addr option"

primrec seg_fix_loop :: "nat \<Rightarrow> memory \<Rightarrow> addr \<Rightarrow> addr \<Rightarrow> addr res" where
  "seg_fix_loop 0 m eph ph = (if ph \<noteq> eph \<and> p_type m ph \<noteq> ELF_PTYPE_LOAD then Inl OutOfFuel else Inr ph)"
| "seg_fix_loop (Suc n) m eph ph =
     (if ph \<noteq> eph \<and> p_type m ph \<noteq> ELF_PTYPE_LOAD
      then seg_fix_loop n m eph (ph + sizeof_elf_program) else Inr ph)"

definition seg_fuel :: nat where "seg_fuel = 65536"

definition segment_new :: "memory \<Rightarrow> addr \<Rightarrow> addr option \<Rightarrow> segment res" where
  "segment_new m ph elf =
     bind_res (seg_fix_loop seg_fuel m (elf_header_program m elf True) ph)
       (\<lambda>ph1. Inr \<lparr>seg_ph = ph1, seg_elf = elf\<rparr>)"

definition image_begin :: "memory \<Rightarrow> addr option \<Rightarrow> segment res" where
  "image_begin m elf = segment_new m (elf_header_program m elf False) elf"

definition image_end :: "memory \<Rightarrow> addr option \<Rightarrow> segment res" where
  "image_end m elf = segment_new m (elf_header_program m elf True) elf"

definition seg_va :: "memory \<Rightarrow> segment \<Rightarrow> u64" where "seg_va m sg = p_va m (seg_ph sg)"
definition seg_size :: "memory \<Rightarrow> segment \<Rightarrow> u64" where "seg_size m sg = p_memsz m (seg_ph sg)"
definition seg_data :: "memory \<Rightarrow> segment \<Rightarrow> addr" where
  "seg_data m sg = (case seg_elf sg of Some e \<Rightarrow> e | None \<Rightarrow> 0) + p_offset m (seg_ph sg)"
definition seg_data_size :: "memory \<Rightarrow> segment \<Rightarrow> u64" where
  "seg_data_size m sg = p_filesz m (seg_ph sg)"
definition seg_writable :: "memory \<Rightarrow> segment \<Rightarrow> bool" where
  "seg_writable m sg \<longleftrightarrow> p_flags m (seg_ph sg) AND ELF_PFLAG_WRITE \<noteq> 0"

definition seg_eq :: "segment \<Rightarrow> segment \<Rightarrow> bool" where
  "seg_eq x y \<longleftrightarrow> seg_ph x = seg_ph y"

definition seg_next :: "memory \<Rightarrow> segment \<Rightarrow> segment res" where
  "seg_next m sg =
     check (seg_ph sg \<noteq> elf_header_program m (seg_elf sg) True)
       (AssertFail ''ph_ != elf_header_program(elf_, true)'')
     (segment_new m (seg_ph sg + sizeof_elf_program) (seg_elf sg))"

text \<open>
  The loop \<^verbatim>\<open>for (auto seg = pgm.begin(); seg != pgm.end(); ++seg)\<close> of \<^verbatim>\<open>process_setup\<close>, as the list
  of the segments its body runs on.
\<close>

primrec seg_loop :: "nat \<Rightarrow> memory \<Rightarrow> addr option \<Rightarrow> segment \<Rightarrow> segment list res" where
  "seg_loop 0 m elf sg = Inl OutOfFuel"
| "seg_loop (Suc n) m elf sg =
     bind_res (image_end m elf) (\<lambda>e.
       if seg_eq sg e then Inr []
       else bind_res (seg_next m sg) (\<lambda>sg1.
            bind_res (seg_loop n m elf sg1) (\<lambda>segs. Inr (sg # segs))))"

definition image_segments :: "memory \<Rightarrow> addr option \<Rightarrow> segment list res" where
  "image_segments m elf = bind_res (image_begin m elf) (seg_loop (Suc seg_fuel) m elf)"

subsection \<open>Specification\<close>

definition ph_entry :: "u64 \<Rightarrow> nat \<Rightarrow> u64" where
  "ph_entry b i = b + sizeof_elf_program * of_nat i"

definition header_table :: "memory \<Rightarrow> addr \<Rightarrow> addr list" where
  "header_table m e =
     map (ph_entry (e + e_phoff m e)) [0..<unat (e_phnum m e)]"

definition load_segments :: "memory \<Rightarrow> addr \<Rightarrow> segment list" where
  "load_segments m e =
     map (\<lambda>ph. \<lparr>seg_ph = ph, seg_elf = Some e\<rparr>)
       (filter (\<lambda>ph. p_type m ph = ELF_PTYPE_LOAD) (header_table m e))"

subsection \<open>Properties\<close>

lemma entry_ne_end:
  assumes "i < n" "n < 65536"
  shows "ph_entry b i \<noteq> ph_entry b n"
proof
  assume "ph_entry b i = ph_entry b n"
  then have "(of_nat (0x38 * i) :: u64) = of_nat (0x38 * n)"
    by (simp add: ph_entry_def sizeof_elf_program_def)
  then have "unat (of_nat (0x38 * i) :: u64) = unat (of_nat (0x38 * n) :: u64)" by simp
  moreover have "unat (of_nat (0x38 * i) :: u64) = 0x38 * i" "unat (of_nat (0x38 * n) :: u64) = 0x38 * n"
    using assms by (intro unat_of_nat64; simp)+
  ultimately show False using assms by simp
qed

lemma next_entry: "ph_entry b i + sizeof_elf_program = ph_entry b (Suc i)"
  by (simp add: ph_entry_def algebra_simps)

lemma seg_fix_loop_finds:
  fixes b :: u64
  defines "at \<equiv> ph_entry b"
  shows "i \<le> n \<Longrightarrow> n < 65536 \<Longrightarrow> n - i \<le> k \<Longrightarrow>
    \<exists>j. i \<le> j \<and> j \<le> n \<and> seg_fix_loop k m (at n) (at i) = Inr (at j)
      \<and> (\<forall>q. i \<le> q \<and> q < j \<longrightarrow> p_type m (at q) \<noteq> ELF_PTYPE_LOAD)
      \<and> (j < n \<longrightarrow> p_type m (at j) = ELF_PTYPE_LOAD)"
proof (induction k arbitrary: i)
  case 0
  then show ?case by (intro exI [of _ n]) auto
next
  case (Suc k)
  show ?case
  proof (cases "i < n \<and> p_type m (at i) \<noteq> ELF_PTYPE_LOAD")
    case True
    have "at i \<noteq> at n" unfolding at_def by (rule entry_ne_end) (use True Suc.prems in auto)
    moreover have "at i + sizeof_elf_program = at (Suc i)" unfolding at_def by (rule next_entry)
    ultimately have step: "seg_fix_loop (Suc k) m (at n) (at i) = seg_fix_loop k m (at n) (at (Suc i))"
      using True by simp
    obtain j where "Suc i \<le> j" "j \<le> n" "seg_fix_loop k m (at n) (at (Suc i)) = Inr (at j)"
      "\<forall>q. Suc i \<le> q \<and> q < j \<longrightarrow> p_type m (at q) \<noteq> ELF_PTYPE_LOAD"
      "j < n \<longrightarrow> p_type m (at j) = ELF_PTYPE_LOAD"
      using Suc.IH [of "Suc i"] Suc.prems True Suc_diff_Suc [of i n] by auto
    then show ?thesis using step True by (intro exI [of _ j]) (auto simp: le_Suc_eq not_less_eq_eq dest: le_neq_implies_less)
  next
    case False
    then show ?thesis using Suc.prems by (intro exI [of _ i]) auto
  qed
qed

lemma seg_fix_end: "seg_fix_loop k m eph eph = Inr eph"
  by (cases k) simp_all

lemma filter_none:
  assumes "\<forall>q. i \<le> q \<and> q < j \<longrightarrow> \<not> P (f q)" "i \<le> j" "j \<le> n"
  shows "filter P (map f [i..<n]) = filter P (map f [j..<n])"
proof -
  obtain k where "n = j + k" using assms(3) le_iff_add by blast
  moreover have "filter P (map f [i..<j]) = []" using assms(1) by (auto simp: filter_empty_conv)
  ultimately show ?thesis using upt_add_eq_append [OF assms(2), of k] by simp
qed

lemma seg_loop_visits:
  fixes m :: memory and e :: addr
  defines "at \<equiv> ph_entry (e + e_phoff m e)"
    and "n \<equiv> unat (e_phnum m e)"
  shows "i \<le> n \<Longrightarrow> i < n \<longrightarrow> p_type m (at i) = ELF_PTYPE_LOAD \<Longrightarrow> n - i < k \<Longrightarrow>
    seg_loop k m (Some e) \<lparr>seg_ph = at i, seg_elf = Some e\<rparr> =
      Inr (map (\<lambda>ph. \<lparr>seg_ph = ph, seg_elf = Some e\<rparr>)
        (filter (\<lambda>ph. p_type m ph = ELF_PTYPE_LOAD) (map at [i..<n])))"
proof (induction k arbitrary: i)
  case (Suc k)
  have n: "n < 65536" using unsigned_less [of "e_phnum m e", where ?'a = nat] by (simp add: n_def)
  have eph: "elf_header_program m (Some e) True = at n"
    by (simp add: elf_header_program_def at_def n_def ph_entry_def)
  have fend: "image_end m (Some e) = Inr \<lparr>seg_ph = at n, seg_elf = Some e\<rparr>"
    using eph by (simp add: image_end_def segment_new_def seg_fix_end)
  show ?case
  proof (cases "i = n")
    case True
    then show ?thesis by (simp add: fend seg_eq_def)
  next
    case False
    then have lt: "i < n" using Suc.prems by simp
    have ne: "at i \<noteq> at n" unfolding at_def by (rule entry_ne_end [OF lt n])
    have fuel: "Suc i \<le> n" "n - Suc i \<le> seg_fuel" using lt n by (simp_all add: seg_fuel_def)
    obtain j where j: "Suc i \<le> j" "j \<le> n" "seg_fix_loop seg_fuel m (at n) (at (Suc i)) = Inr (at j)"
      "\<forall>q. Suc i \<le> q \<and> q < j \<longrightarrow> p_type m (at q) \<noteq> ELF_PTYPE_LOAD"
      "j < n \<longrightarrow> p_type m (at j) = ELF_PTYPE_LOAD"
      using seg_fix_loop_finds [OF fuel(1) n fuel(2), where m = m and b = "e + e_phoff m e", folded at_def]
      by blast
    have "at i + sizeof_elf_program = at (Suc i)" unfolding at_def by (rule next_entry)
    then have nx: "seg_next m \<lparr>seg_ph = at i, seg_elf = Some e\<rparr> = Inr \<lparr>seg_ph = at j, seg_elf = Some e\<rparr>"
      using ne j(3) eph by (simp add: seg_next_def segment_new_def)
    have IH: "seg_loop k m (Some e) \<lparr>seg_ph = at j, seg_elf = Some e\<rparr> =
      Inr (map (\<lambda>ph. \<lparr>seg_ph = ph, seg_elf = Some e\<rparr>)
        (filter (\<lambda>ph. p_type m ph = ELF_PTYPE_LOAD) (map at [j..<n])))"
      using Suc.IH [of j] j Suc.prems lt by auto
    have "filter (\<lambda>ph. p_type m ph = ELF_PTYPE_LOAD) (map at [i..<n])
        = at i # filter (\<lambda>ph. p_type m ph = ELF_PTYPE_LOAD) (map at [j..<n])"
      using filter_none [of "Suc i" j "\<lambda>ph. p_type m ph = ELF_PTYPE_LOAD" at n] j(1,2,4) Suc.prems(2) lt
      by (simp add: upt_conv_Cons)
    then show ?thesis using fend ne nx IH by (simp add: seg_eq_def)
  qed
qed simp

text \<open>
  C20: Iterating a program image from \<open>begin()\<close> to \<open>end()\<close> with
  \<open>++\<close> visits exactly the loadable entries of its program-header table, in order, and
  ends without an assertion failure, for any contents of the image.
\<close>
theorem image_segments_loadable:
  "image_segments m (Some e) = Inr (load_segments m e)"
proof -
  let ?at = "ph_entry (e + e_phoff m e)"
  let ?n = "unat (e_phnum m e)"
  have n: "?n < 65536" using unsigned_less [of "e_phnum m e", where ?'a = nat] by simp
  obtain j where j: "j \<le> ?n" "seg_fix_loop seg_fuel m (?at ?n) (?at 0) = Inr (?at j)"
      "\<forall>q. 0 \<le> q \<and> q < j \<longrightarrow> p_type m (?at q) \<noteq> ELF_PTYPE_LOAD"
      "j < ?n \<longrightarrow> p_type m (?at j) = ELF_PTYPE_LOAD"
    using seg_fix_loop_finds [of 0 ?n seg_fuel m "e + e_phoff m e"] n unfolding seg_fuel_def by auto
  have bg: "image_begin m (Some e) = Inr \<lparr>seg_ph = ?at j, seg_elf = Some e\<rparr>"
    using j(2) by (simp add: image_begin_def segment_new_def elf_header_program_def ph_entry_def)
  have "seg_loop (Suc seg_fuel) m (Some e) \<lparr>seg_ph = ?at j, seg_elf = Some e\<rparr> = Inr (load_segments m e)"
    using seg_loop_visits [of j m e "Suc seg_fuel"] j n
      filter_none [of 0 j "\<lambda>ph. p_type m ph = ELF_PTYPE_LOAD" ?at ?n]
    by (simp add: load_segments_def header_table_def seg_fuel_def del: seg_loop.simps)
  then show ?thesis by (simp add: image_segments_def bg del: seg_loop.simps)
qed

lemma name_index_spec:
  "if nm \<in> set xs then \<exists>k < length xs. name_index nm xs i = i + int k \<and> xs ! k = nm
   else name_index nm xs i = -1"
proof (induction xs arbitrary: i)
  case (Cons x xs)
  show ?case
  proof (cases "nm = x")
    case ne: False
    show ?thesis
    proof (cases "nm \<in> set xs")
      case True
      then obtain k where "k < length xs" "name_index nm xs (i + 1) = i + 1 + int k" "xs ! k = nm"
        using Cons [of "i + 1"] by auto
      then show ?thesis using ne True by (auto intro!: exI [of _ "Suc k"])
    qed (use ne Cons [of "i + 1"] in auto)
  qed (auto intro!: exI [of _ 0])
qed simp

lemma ramimage_count: "length ramimage_names = 7"
  by (simp add: ramimage_names_def)

theorem program_number_finds:
  "if nm \<in> set ramimage_names
   then 0 \<le> program_number nm \<and> program_number nm < 7 \<and> ramimage_names ! nat (program_number nm) = nm
   else program_number nm = -1"
  using name_index_spec [of nm ramimage_names 0] ramimage_count
  by (auto simp: program_number_def split: if_splits)

end
