(* ===== verification/KernelState.thy ===== *)
theory KernelState
  imports VmMap Keyboard Elf
begin

text \<open>
  The state of the kernel and the routines that the process-management code is built from.
  \<open>kstate\<close> extends physical memory and the screen with the globals of \<^verbatim>\<open>kernels1/kernel.cc\<close>
  (process table, current process, pipe buffer, tick count, memory-viewer statics) and the
  hardware the kernel talks to: the keyboard decoder and the answers of its future polls, the
  page-table register, and the writes to the local interrupt controller, in order.
  Then come the routines of \<^verbatim>\<open>kernels1/k-hardware.cc\<close>: logging through the parallel port,
  error messages, page-table checks, process register setup, reading a user panic message, and
  the keyboard check that every kernel entry makes. A routine that does not return ends in an
  \<open>outcome\<close>.
\<close>

subsection \<open>Process descriptors\<close>

record regstate =
  reg_rax :: u64
  reg_rcx :: u64
  reg_rdx :: u64
  reg_rbx :: u64
  reg_rbp :: u64
  reg_rsi :: u64
  reg_rdi :: u64
  reg_r8 :: u64
  reg_r9 :: u64
  reg_r10 :: u64
  reg_r11 :: u64
  reg_r12 :: u64
  reg_r13 :: u64
  reg_r14 :: u64
  reg_r15 :: u64
  reg_fs :: u64
  reg_gs :: u64
  reg_intno :: u32
  reg_swapgs :: u32
  reg_errcode :: u64
  reg_rip :: u64
  reg_cs :: u64
  reg_rflags :: u64
  reg_rsp :: u64
  reg_ss :: u64

datatype pstate = P_FREE | P_RUNNABLE | P_BLOCKED | P_FAULTED

record proc =
  pagetable :: addr
  pid :: int
  pstate :: pstate
  regs :: regstate

definition NPROC :: nat where "NPROC = 16"

definition SEGSEL_APP_CODE :: u64 where "SEGSEL_APP_CODE = 0x18"
definition SEGSEL_APP_DATA :: u64 where "SEGSEL_APP_DATA = 0x20"
definition EFLAGS_IF :: u64 where "EFLAGS_IF = 0x200"
definition EFLAGS_IOPL_3 :: u64 where "EFLAGS_IOPL_3 = 0x3000"
definition PROCINIT_ALLOW_PROGRAMMED_IO :: u32 where "PROCINIT_ALLOW_PROGRAMMED_IO = 1"
definition PROCINIT_DISABLE_INTERRUPTS :: u32 where "PROCINIT_DISABLE_INTERRUPTS = 2"

lemmas proc_consts = SEGSEL_APP_CODE_def SEGSEL_APP_DATA_def EFLAGS_IF_def EFLAGS_IOPL_3_def
  PROCINIT_ALLOW_PROGRAMMED_IO_def PROCINIT_DISABLE_INTERRUPTS_def

definition zero_regs :: regstate where
  "zero_regs = \<lparr>reg_rax = 0, reg_rcx = 0, reg_rdx = 0, reg_rbx = 0, reg_rbp = 0, reg_rsi = 0,
     reg_rdi = 0, reg_r8 = 0, reg_r9 = 0, reg_r10 = 0, reg_r11 = 0, reg_r12 = 0, reg_r13 = 0,
     reg_r14 = 0, reg_r15 = 0, reg_fs = 0, reg_gs = 0, reg_intno = 0, reg_swapgs = 0,
     reg_errcode = 0, reg_rip = 0, reg_cs = 0, reg_rflags = 0, reg_rsp = 0, reg_ss = 0\<rparr>"

definition init_process :: "u32 \<Rightarrow> proc \<Rightarrow> proc" where
  "init_process fl p =
     (let r = zero_regs\<lparr>reg_cs := SEGSEL_APP_CODE OR 3, reg_fs := SEGSEL_APP_DATA OR 3,
                reg_gs := SEGSEL_APP_DATA OR 3, reg_ss := SEGSEL_APP_DATA OR 3,
                reg_rflags := EFLAGS_IF\<rparr>;
          r1 = (if fl AND PROCINIT_ALLOW_PROGRAMMED_IO \<noteq> 0
                then r\<lparr>reg_rflags := reg_rflags r OR EFLAGS_IOPL_3\<rparr> else r);
          r2 = (if fl AND PROCINIT_DISABLE_INTERRUPTS \<noteq> 0
                then r1\<lparr>reg_rflags := reg_rflags r1 AND NOT EFLAGS_IF\<rparr> else r1)
      in p\<lparr>regs := r2\<rparr>)"

subsection \<open>Kernel state\<close>

record kstate = kmem +
  ptable :: "proc list"
  current :: nat
  show_memory :: bool
  pipebuf :: u8
  pipebuf_len :: u64
  ticks :: u64
  last_ticks :: u64
  showing :: nat
  keys :: kbd
  key_polls :: "u8 option list"
  pp_initialized :: bool
  lapic_writes :: "(u32 \<times> u32) list"
  cr3 :: addr
  mu_v :: "addr option"

datatype outcome =
    Resume nat             \<comment> \<open>\<open>exception_return\<close> to the process in this slot of the table\<close>
  | Return u64             \<comment> \<open>the value of a system call, handed back to the current process\<close>
  | Spinning               \<comment> \<open>the scheduler found nothing to run within the rounds it was given\<close>
  | PowerOff
  | SoftReboot "u8 list"   \<comment> \<open>jump to \<open>kernel_entry\<close> with this command\<close>

subsection \<open>Interrupt controller and timer\<close>

definition lapic_write :: "u32 \<Rightarrow> u32 \<Rightarrow> 'a kstate_scheme \<Rightarrow> 'a kstate_scheme" where
  "lapic_write reg v s = s\<lparr>lapic_writes := lapic_writes s @ [(reg, v)]\<rparr>"

definition lapic_ack :: "'a kstate_scheme \<Rightarrow> 'a kstate_scheme" where
  "lapic_ack s = lapic_write 0x0B 0 s"

definition init_timer :: "int \<Rightarrow> 'a kstate_scheme \<Rightarrow> 'a kstate_scheme" where
  "init_timer rate s =
     (if rate > 0 then lapic_write 0x38 (of_int (1000000000 div rate)) s else lapic_write 0x38 0 s)"

subsection \<open>Logging and error messages\<close>

definition parallel_port_putc :: "'a kstate_scheme \<Rightarrow> u8 \<Rightarrow> u32 \<Rightarrow> 'a kstate_scheme res" where
  "parallel_port_putc s c color =
     (let s1 = (if pp_initialized s then s else (outb 0x37A 0 s)\<lparr>pp_initialized := True\<rparr>)
      in Inr (outb 0x37A 0x0C (outb 0x37A 0x0D (outb 0x378 (uint c) s1))))"

definition log_vprintf :: "u8 list \<Rightarrow> va list \<Rightarrow> 'a kstate_scheme \<Rightarrow> 'a kstate_scheme res" where
  "log_vprintf format val s =
     bind_res (vprintf 0 format val) (\<lambda>out. printer_run parallel_port_putc s out)"

definition error_vprintf ::
  "int \<Rightarrow> u32 \<Rightarrow> u8 list \<Rightarrow> va list \<Rightarrow> 'a kstate_scheme \<Rightarrow> (int \<times> 'a kstate_scheme) res" where
  "error_vprintf cpos color format val s =
     bind_res (log_vprintf format val s) (\<lambda>s1. console_vprintf True cpos color format val s1)"

subsection \<open>Page tables of processes\<close>

definition vm_pa_at :: "'a kstate_scheme \<Rightarrow> addr \<Rightarrow> addr \<Rightarrow> u64 res" where
  "vm_pa_at s pt va = bind_res (vmiter_new (mem s) pt va) (\<lambda>it. Inr (vm_pa (mem s) it))"

definition check_pagetable :: "link \<Rightarrow> addr \<Rightarrow> 'a kstate_scheme \<Rightarrow> unit res" where
  "check_pagetable L pt s =
     check (pt mod PAGESIZE = 0) (AssertFail ''pagetable % PAGESIZE == 0'')
    (bind_res (vm_pa_at s pt (exception_entry L)) (\<lambda>a.
     check (a = exception_entry L) (AssertFail ''exception_entry mapped'')
    (bind_res (vm_pa_at s (kernel_pagetable L) pt) (\<lambda>b.
     check (b = pt) (AssertFail ''pagetable mapped'')
    (bind_res (vm_pa_at s pt (kernel_pagetable L)) (\<lambda>c.
     check (c = kernel_pagetable L) (AssertFail ''kernel_pagetable mapped'') (Inr ())))))))"

definition set_pagetable :: "link \<Rightarrow> addr \<Rightarrow> 'a kstate_scheme \<Rightarrow> 'a kstate_scheme res" where
  "set_pagetable L pt s = bind_res (check_pagetable L pt s) (\<lambda>_. Inr (s\<lparr>cr3 := pt\<rparr>))"

subsection \<open>User panic messages\<close>

text \<open>
  \<^verbatim>\<open>user_panic\<close> copies at most 255 bytes of the message, stopping at the first byte that is not
  mapped for the user. \<open>panic_bytes\<close> is that loop, \<open>user_panic_message\<close> the buffer it leaves.
\<close>

primrec panic_bytes :: "nat \<Rightarrow> memory \<Rightarrow> vmiter \<Rightarrow> u8 list res" where
  "panic_bytes 0 m it = Inr []"
| "panic_bytes (Suc n) m it =
     (if vm_va it \<ge> PROC_START_ADDR \<and> vm_user m it
      then bind_res (vm_add m 1 it) (\<lambda>it1.
           bind_res (panic_bytes n m it1) (\<lambda>bs. Inr (m (vm_pa m it) # bs)))
      else Inr [])"

definition user_panic_message :: "proc \<Rightarrow> memory \<Rightarrow> u8 list res" where
  "user_panic_message p m =
     (if reg_rdi (regs p) = 0 then Inr (ascii ''(null)'')
      else bind_res (vmiter_new m (pagetable p) (reg_rdi (regs p))) (\<lambda>it. panic_bytes 255 m it))"

definition user_panic :: "proc \<Rightarrow> 'a kstate_scheme \<Rightarrow> (outcome \<times> 'a kstate_scheme) res" where
  "user_panic p s =
     bind_res (user_panic_message p (mem s)) (\<lambda>bs.
       Inl (Panic (map (\<lambda>b. char_of (unat b)) (cstr bs))))"

subsection \<open>Keyboard check\<close>

definition SYMTAB_ADDR :: addr where "SYMTAB_ADDR = 0x1000000"

definition stash_kernel_data :: "link \<Rightarrow> bool \<Rightarrow> memory \<Rightarrow> memory" where
  "stash_kernel_data L reboot m =
     (let data_size = edata L - data_start L; data_stash = SYMTAB_ADDR - data_size
      in if reboot
         then memset (memcpy m (data_start L) data_stash data_size)
                (edata L) 0 (kernel_end L - edata L)
         else memcpy m data_stash (data_start L) data_size)"

definition reboot_argument :: "int \<Rightarrow> u8 list" where
  "reboot_argument c =
     ascii (if c = 97 then ''allocators'' else if c = 102 then ''friends''
       else if c = 49 then ''allocator'' else if c = 50 then ''allocator2''
       else if c = 112 then ''pipe'' else if c = 115 then ''spawn'' else ''friends'')"

definition soft_reboot :: "link \<Rightarrow> 'a kstate_scheme \<Rightarrow> 'a kstate_scheme" where
  "soft_reboot L s =
     (let s1 = init_timer (-1) s;
          m1 = memset (mem s1) 0x1000 0 (PAGESIZE * 2);
          m2 = store64 m1 0x1000 (0x2000 OR PTE_P OR PTE_W);
          m3 = store64 m2 0x2000 (PTE_P OR PTE_W OR PTE_PS);
          m4 = stash_kernel_data L True m3;
          data_size = edata L - data_start L;
          m5 = memset (memcpy m4 (data_start L) (SYMTAB_ADDR - data_size) data_size)
                 (edata L) 0 (kernel_end L - edata L)
      in s1\<lparr>mem := m5, cr3 := 0x1000\<rparr>)"

definition poll_keyboard :: "'a kstate_scheme \<Rightarrow> (int \<times> 'a kstate_scheme) res" where
  "poll_keyboard s =
     (let (d, ds) = (case key_polls s of [] \<Rightarrow> (None, []) | x # xs \<Rightarrow> (x, xs))
      in bind_res (keyboard_readc d (keys s)) (\<lambda>(c, k). Inr (c, s\<lparr>keys := k, key_polls := ds\<rparr>)))"

definition check_keyboard ::
  "link \<Rightarrow> 'a kstate_scheme \<Rightarrow> ((int + outcome) \<times> 'a kstate_scheme) res" where
  "check_keyboard L s =
     bind_res (poll_keyboard s) (\<lambda>(c, s1).
       if c = 97 \<or> c = 102 \<or> c = 49 \<or> c = 50 \<or> c = 112 \<or> c = 115
       then (let argument_ptr = ucast (literal_at L (reboot_argument c)) :: u64
             in check (argument_ptr < 0x100000000) (AssertFail ''argument_ptr < 0x100000000L'')
               (Inr (Inr (SoftReboot (reboot_argument c)), soft_reboot L s1)))
       else if c = 3 \<or> c = 113 then Inr (Inr PowerOff, s1)
       else Inr (Inl c, s1))"

lemma literal_low [simp]: "(ucast (x :: u32) :: u64) < 0x100000000"
  using unsigned_less [where ?'a = nat, of x] by (simp add: word_less_nat_alt unsigned_ucast_eq take_bit_nat_eq_self)

subsection \<open>What the routines keep\<close>

text \<open>
  \<open>keeps_core s s'\<close>: the process table, the current process, the pipe, the memory-viewer switch and the
  clock are as they were. Everything the kernel does on the way to a handler keeps them.
\<close>

definition keeps_core :: "'a kstate_scheme \<Rightarrow> 'a kstate_scheme \<Rightarrow> bool" where
  "keeps_core s s' \<longleftrightarrow> ptable s' = ptable s \<and> current s' = current s \<and> pipebuf s' = pipebuf s
     \<and> pipebuf_len s' = pipebuf_len s \<and> show_memory s' = show_memory s \<and> ticks s' = ticks s"

lemma keeps_core_refl [simp]: "keeps_core s s"
  by (simp add: keeps_core_def)

lemma keeps_core_trans [trans]: "keeps_core a b \<Longrightarrow> keeps_core b c \<Longrightarrow> keeps_core a c"
  by (simp add: keeps_core_def)

lemma keeps_core_updates [simp]:
  "keeps_core s (s'\<lparr>console := c\<rparr>) = keeps_core s s'"
  "keeps_core s (s'\<lparr>cursorpos := p\<rparr>) = keeps_core s s'"
  "keeps_core s (s'\<lparr>ports := q\<rparr>) = keeps_core s s'"
  "keeps_core s (s'\<lparr>mem := m\<rparr>) = keeps_core s s'"
  "keeps_core s (s'\<lparr>physpages := pp\<rparr>) = keeps_core s s'"
  "keeps_core s (s'\<lparr>next_alloc_pa := n\<rparr>) = keeps_core s s'"
  "keeps_core s (s'\<lparr>mu_v := v\<rparr>) = keeps_core s s'"
  "keeps_core s (s'\<lparr>last_ticks := t\<rparr>) = keeps_core s s'"
  "keeps_core s (s'\<lparr>showing := sh\<rparr>) = keeps_core s s'"
  "keeps_core s (s'\<lparr>keys := k\<rparr>) = keeps_core s s'"
  "keeps_core s (s'\<lparr>key_polls := ks\<rparr>) = keeps_core s s'"
  "keeps_core s (s'\<lparr>pp_initialized := b\<rparr>) = keeps_core s s'"
  "keeps_core s (s'\<lparr>lapic_writes := w\<rparr>) = keeps_core s s'"
  by (simp_all add: keeps_core_def)

lemma keeps_core_screen: "screen_only s s' \<Longrightarrow> keeps_core s s'"
  by (erule screen_onlyE) simp

lemma keeps_core_kmem: "kmem_only s s' \<Longrightarrow> keeps_core s s'"
  by (erule kmem_onlyE) simp

lemma keeps_core_outb [simp]: "keeps_core s (outb port v s') = keeps_core s s'"
  by (simp add: outb_def)

lemma keeps_core_putc: "parallel_port_putc s c col = Inr s' \<Longrightarrow> keeps_core s s'"
  by (auto simp: parallel_port_putc_def Let_def)

interpretation log_printer: printer parallel_port_putc "\<lambda>_. True"
  by unfold_locales (simp add: parallel_port_putc_def Let_def)

lemma log_vprintf_total: "vprintf 0 fmt args = Inr out \<Longrightarrow> \<exists>s'. log_vprintf fmt args s = Inr s'"
  using log_printer.run_ok [of s out] by (auto simp: log_vprintf_def)

lemma log_vprintf_screen:
  "log_vprintf fmt args s = Inr s' \<Longrightarrow> console s' = console s \<and> cursorpos s' = cursorpos s \<and> mem s' = mem s"
  by (auto simp: log_vprintf_def res_simps parallel_port_putc_def outb_def Let_def split: if_splits
      dest!: printer_run_rel [where R = "\<lambda>a b. console b = console a \<and> cursorpos b = cursorpos a \<and> mem b = mem a",
        rotated 3])

lemma error_vprintf_total:
  assumes "screen_ok s" "vprintf 0 fmt args = Inr out0" "vprintf col fmt args = Inr out"
  shows "\<exists>pos s'. error_vprintf cpos col fmt args s = Inr (pos, s') \<and> screen_ok s' \<and> mem s' = mem s"
proof -
  obtain s1 where s1: "log_vprintf fmt args s = Inr s1" using log_vprintf_total assms(2) by blast
  then have ok: "screen_ok s1" "mem s1 = mem s" using log_vprintf_screen [OF s1] assms(1) by (auto simp: screen_ok_def)
  obtain pos s2 where s2: "console_vprintf True cpos col fmt args s1 = Inr (pos, s2)" "screen_ok s2"
    using console_vprintf_in_bounds [OF ok(1) assms(3)] by blast
  then have "mem s2 = mem s1" using console_vprintf_only [OF s2(1)] by (auto elim: screen_onlyE)
  then show ?thesis using s1 s2 ok by (simp add: error_vprintf_def)
qed

named_theorems core_frame \<open>operations that keep the process table, the pipe and the clock\<close>

lemma log_vprintf_core [core_frame]: "log_vprintf fmt args s = Inr s' \<Longrightarrow> keeps_core s s'"
  by (auto simp: log_vprintf_def res_simps
      intro: printer_run_rel [where R = keeps_core, OF keeps_core_putc keeps_core_refl keeps_core_trans])

lemma console_vprintf_core [core_frame]:
  "console_vprintf kern cpos col fmt args (s :: 'a kstate_scheme) = Inr (pos, s') \<Longrightarrow> keeps_core s s'"
  by (rule keeps_core_screen) (rule console_vprintf_only)

lemma error_vprintf_core [core_frame]:
  "error_vprintf cpos col fmt args s = Inr (pos, s') \<Longrightarrow> keeps_core s s'"
  by (auto simp: error_vprintf_def res_simps intro: keeps_core_trans log_vprintf_core console_vprintf_core)

lemma poll_keyboard_core [core_frame]: "poll_keyboard s = Inr (c, s') \<Longrightarrow> keeps_core s s'"
  by (auto simp: poll_keyboard_def res_simps Let_def split: list.splits prod.splits)

lemma check_keyboard_core [core_frame]: "check_keyboard L s = Inr (Inl c, s') \<Longrightarrow> keeps_core s s'"
  by (auto simp: check_keyboard_def res_simps split: if_splits intro: poll_keyboard_core)

end
