(* ===== verification/Hardware.thy ===== *)
theory Hardware
  imports KernelState
begin

text \<open>
  Processor tables set up by \<^verbatim>\<open>kernels1/k-hardware.cc\<close>: the encodings of segment descriptors and
  interrupt gates, the kernel page table built by \<^verbatim>\<open>init_kernel_memory\<close> and the programming of the
  local APIC as the kernel state records it. The last part defines how the processor decodes
  descriptors; \<open>Descriptors\<close> shows what it reads back, and \<open>KernelMap\<close> which translations the kernel
  page table holds.
\<close>

subsection \<open>Segment and gate descriptors\<close>

definition X86SEG_S :: u64 where "X86SEG_S = push_bit 44 1"
definition X86SEG_P :: u64 where "X86SEG_P = push_bit 47 1"
definition X86SEG_L :: u64 where "X86SEG_L = push_bit 53 1"
definition X86SEG_W :: u64 where "X86SEG_W = push_bit 40 2"
definition X86SEG_X :: u64 where "X86SEG_X = push_bit 40 8"
definition X86SEG_TSS :: u64 where "X86SEG_TSS = push_bit 40 9"
definition X86GATE_INTERRUPT :: u32 where "X86GATE_INTERRUPT = 0xE"
definition SEGSEL_KERN_CODE :: u64 where "SEGSEL_KERN_CODE = 8"
definition SEGSEL_KERN_DATA :: u64 where "SEGSEL_KERN_DATA = 0x10"
definition SEGSEL_TASKSTATE :: u64 where "SEGSEL_TASKSTATE = 0x28"
definition INT_BP :: nat where "INT_BP = 3"

definition set_app_segment :: "u64 \<Rightarrow> u32 \<Rightarrow> u64" where
  "set_app_segment typ dpl = typ OR X86SEG_S OR push_bit 45 (scast dpl) OR X86SEG_P"

definition set_sys_segment :: "addr \<Rightarrow> u64 \<Rightarrow> u64 \<Rightarrow> u32 \<Rightarrow> u64 \<times> u64" where
  "set_sys_segment a sz typ dpl =
     (push_bit 16 (a AND 0xFFFFFF) OR push_bit 32 (a AND 0xFF000000)
        OR ((sz - 1) AND 0x0FFFF) OR push_bit 48 ((sz - 1) AND 0xF0000)
        OR typ OR push_bit 45 (scast dpl) OR X86SEG_P,
      drop_bit 32 a)"

definition set_gate :: "addr \<Rightarrow> u32 \<Rightarrow> u32 \<Rightarrow> u32 \<Rightarrow> (u64 \<times> u64) res" where
  "set_gate a typ dpl ist =
     check (typ < 16 \<and> dpl < 4 \<and> ist < 8)
       (AssertFail ''unsigned(type) < 16 && unsigned(dpl) < 4 && unsigned(ist) < 8'')
     (Inr ((a AND 0xFFFF) OR push_bit 16 SEGSEL_KERN_CODE OR push_bit 32 (scast ist)
             OR push_bit 40 (scast typ) OR push_bit 45 (scast dpl) OR X86SEG_P
             OR push_bit 32 (a AND 0xFFFF0000),
           drop_bit 32 a))"

definition init_gates :: "(nat \<Rightarrow> addr) \<Rightarrow> (u64 \<times> u64) res list" where
  "init_gates handlers =
     map (\<lambda>i. set_gate (handlers i) X86GATE_INTERRUPT (if i = INT_BP then 3 else 0) 0) [0..<256]"

definition init_gdt :: "addr \<Rightarrow> u64 \<Rightarrow> u64 list" where
  "init_gdt taskstate taskstate_size =
     [0, set_app_segment (X86SEG_X OR X86SEG_L) 0, set_app_segment X86SEG_W 0,
      set_app_segment (X86SEG_X OR X86SEG_L) 3, set_app_segment X86SEG_W 3,
      fst (set_sys_segment taskstate taskstate_size X86SEG_TSS 0),
      snd (set_sys_segment taskstate taskstate_size X86SEG_TSS 0)]"

subsection \<open>The kernel page table\<close>

definition kpt :: "link \<Rightarrow> nat \<Rightarrow> addr" where
  "kpt L i = kernel_pagetable L + of_nat i * PAGESIZE"

definition kernel_tables :: "link \<Rightarrow> memory \<Rightarrow> memory" where
  "kernel_tables L m =
     (let m0 = memset m (kernel_pagetable L) 0 (5 * PAGESIZE);
          m1 = store64 m0 (entry_of (kpt L 0) 0) (kpt L 1 OR PTE_P OR PTE_W OR PTE_U);
          m2 = store64 m1 (entry_of (kpt L 1) 0) (kpt L 2 OR PTE_P OR PTE_W OR PTE_U);
          m3 = store64 m2 (entry_of (kpt L 2) 0) (kpt L 3 OR PTE_P OR PTE_W OR PTE_U);
          m4 = store64 m3 (entry_of (kpt L 2) 1) (kpt L 4 OR PTE_P OR PTE_W OR PTE_U);
          m5 = store64 m4 (entry_of (kpt L 1) 1) (push_bit 30 1 OR PTE_P OR PTE_W OR PTE_PS);
          m6 = store64 m5 (entry_of (kpt L 1) 2) (push_bit 30 2 OR PTE_P OR PTE_W OR PTE_PS)
      in store64 m6 (entry_of (kpt L 1) 3) (push_bit 30 3 OR PTE_P OR PTE_W OR PTE_PS))"

text \<open>
  The two loops of the form \<^verbatim>\<open>for (vmiter it(kernel_pagetable, 0); it.va() < MEMSIZE_PHYSICAL; it += PAGESIZE)\<close>.
  \<open>f va\<close> is the permission the body maps \<open>va\<close> with, \<open>None\<close> when it maps nothing.
\<close>

primrec identity_map_loop ::
  "nat \<Rightarrow> link \<Rightarrow> (addr \<Rightarrow> u32 option) \<Rightarrow> 'a kstate_scheme \<Rightarrow> vmiter \<Rightarrow> 'a kstate_scheme res" where
  "identity_map_loop 0 L f s it = (if vm_va it < MEMSIZE_PHYSICAL then Inl OutOfFuel else Inr s)"
| "identity_map_loop (Suc n) L f s it =
     (if vm_va it < MEMSIZE_PHYSICAL
      then bind_res (case f (vm_va it) of
                       None \<Rightarrow> Inr (s, it)
                     | Some perm \<Rightarrow> vm_map L (vm_va it) perm s it) (\<lambda>(s1, it1).
           bind_res (vm_add (mem s1) PAGESIZE it1) (\<lambda>it2. identity_map_loop n L f s1 it2))
      else Inr s)"

definition identity_map :: "link \<Rightarrow> (addr \<Rightarrow> u32 option) \<Rightarrow> 'a kstate_scheme \<Rightarrow> 'a kstate_scheme res" where
  "identity_map L f s =
     bind_res (vmiter_new (mem s) (kernel_pagetable L) 0) (identity_map_loop NPAGES L f s)"

definition boot_perm :: "addr \<Rightarrow> u32 option" where
  "boot_perm va = (if va \<noteq> 0 then Some 7 else None)"

definition init_kernel_memory :: "link \<Rightarrow> 'a kstate_scheme \<Rightarrow> 'a kstate_scheme res" where
  "init_kernel_memory L s =
     (let m0 = stash_kernel_data L False (mem s)
      in bind_res (identity_map L boot_perm (s\<lparr>mem := kernel_tables L m0\<rparr>)) (\<lambda>s1.
         Inr (s1\<lparr>cr3 := kernel_pagetable L\<rparr>)))"

text \<open>What the kernel reads from the processor and the interrupt controllers while it boots.\<close>

record machine =
  cpuid1_edx :: u32
  msr_apic_base :: u64
  ioapic_ver :: u32
  lapic_svr :: u32

definition init_interrupts :: "machine \<Rightarrow> 'a kstate_scheme \<Rightarrow> 'a kstate_scheme res" where
  "init_interrupts hw s =
     check (cpuid1_edx hw AND 0x200 \<noteq> 0) (AssertFail ''cpuid(1).edx & (1 << 9)'')
    (check (msr_apic_base hw AND 0x800 \<noteq> 0) (AssertFail ''apic_base & IA32_APIC_BASE_ENABLED'')
    (check (msr_apic_base hw AND 0xFFFFFFFFF000 = 0xFEE00000)
       (AssertFail ''(apic_base & 0xFFFFFFFFF000) == lapicstate::lapic_pa'')
    (check (ioapic_ver hw AND 0xFF = 0x11 \<or> ioapic_ver hw AND 0xFF = 0x20)
       (AssertFail ''(ioapic_ver & 0xFF) == 0x11 || (ioapic_ver & 0xFF) == 0x20'')
    (check (drop_bit 16 (ioapic_ver hw) \<ge> 0x17) (AssertFail ''(ioapic_ver >> 16) >= 0x17'')
    (Inr (outb 0xA1 0xFF (outb 0x21 0xFF s)))))))"

definition init_cpu_hardware :: "machine \<Rightarrow> 'a kstate_scheme \<Rightarrow> 'a kstate_scheme" where
  "init_cpu_hardware hw s =
     lapic_ack (lapic_write 0x28 0 (lapic_write 0x37 51 (lapic_write 0x36 0x10000
       (lapic_write 0x35 0x10000 (lapic_write 0x38 0 (lapic_write 0x32 (0x20000 OR 32)
       (lapic_write 0x3E 0x0B
       (lapic_write 0x0F ((lapic_svr hw AND NOT 0xFF) OR 0x100 OR 63) s))))))))"

text \<open>
  \<^verbatim>\<open>init_constructors\<close> runs the constructors between \<^verbatim>\<open>__init_array_start\<close> and \<^verbatim>\<open>__init_array_end\<close>. No global
  of this kernel has a constructor with code: \<^verbatim>\<open>pcistate::state\<close> has the defaulted one, \<^verbatim>\<open>memusage\<close> is a
  local static, and the other globals are plain data. So the list is empty.
  The loading of segment registers, descriptor tables and model-specific registers that
  \<^verbatim>\<open>init_kernel_memory\<close>, \<^verbatim>\<open>init_interrupts\<close> and \<^verbatim>\<open>init_cpu_hardware\<close> also do changes the processor and
  nothing of the kernel state here: it is modelled in \<open>Cpu\<close>, on a state of the processor.
\<close>

definition init_constructors :: "('s \<Rightarrow> 's) list \<Rightarrow> 's \<Rightarrow> 's" where
  "init_constructors constructors s = fold (\<lambda>fp. fp) constructors s"

lemma init_constructors_Nil [simp]: "init_constructors [] s = s"
  by (simp add: init_constructors_def)

definition init_hardware :: "link \<Rightarrow> machine \<Rightarrow> 'a kstate_scheme \<Rightarrow> 'a kstate_scheme res" where
  "init_hardware L hw s =
     bind_res (init_kernel_memory L s) (\<lambda>s1.
     bind_res (init_interrupts hw (s1\<lparr>cursorpos := 3 * CONSOLE_COLUMNS\<rparr>)) (\<lambda>s2.
     Inr (init_cpu_hardware hw (init_constructors [] s2))))"

subsection \<open>Decoding\<close>

definition gate_offset :: "u64 \<times> u64 \<Rightarrow> addr" where
  "gate_offset g =
     (fst g AND 0xFFFF) OR (drop_bit 32 (fst g) AND 0xFFFF0000) OR push_bit 32 (snd g)"

definition gate_selector :: "u64 \<times> u64 \<Rightarrow> u64" where
  "gate_selector g = drop_bit 16 (fst g) AND 0xFFFF"

definition gate_type :: "u64 \<times> u64 \<Rightarrow> u64" where
  "gate_type g = drop_bit 40 (fst g) AND 0xF"

definition gate_dpl :: "u64 \<times> u64 \<Rightarrow> u64" where
  "gate_dpl g = drop_bit 45 (fst g) AND 3"

definition seg_base :: "u64 \<times> u64 \<Rightarrow> addr" where
  "seg_base sd = (drop_bit 16 (fst sd) AND 0xFFFFFF) OR (drop_bit 32 (fst sd) AND 0xFF000000)
     OR push_bit 32 (snd sd)"

definition seg_limit :: "u64 \<times> u64 \<Rightarrow> u64" where
  "seg_limit sd = (fst sd AND 0xFFFF) OR (drop_bit 32 (fst sd) AND 0xF0000)"

end
