(* ===== verification/Memviewer.thy ===== *)
theory Memviewer
  imports KernelState
begin

text \<open>
  The memory viewer of \<^verbatim>\<open>kernels1/k-memviewer.cc\<close>: the class \<^verbatim>\<open>memusage\<close>, which marks every
  physical page with the processes that can reach it, and \<^verbatim>\<open>console_memviewer\<close>, which draws the
  physical map and one virtual address space. The marks are 32-bit words in a page obtained from
  \<^verbatim>\<open>kalloc\<close>. The loops over a whole address space run with \<open>mv_fuel\<close> iterations, one per address
  of the lower half, which is more than they can take: each iteration moves to a larger address.
\<close>

subsection \<open>Marks\<close>

definition mu_maxpa :: addr where "mu_maxpa = 1024 * PAGESIZE"
definition max_view_pa :: addr where "max_view_pa = 512 * PAGESIZE"
definition max_view_va :: addr where "max_view_va = 768 * PAGESIZE"

definition f_kernel :: u32 where "f_kernel = 1"
definition f_user :: u32 where "f_user = 2"

definition f_process :: "int \<Rightarrow> u32" where
  "f_process p = (if p \<ge> 30 then push_bit 31 2 else if p \<ge> 1 then push_bit (nat p) 2 else 0)"

definition mark :: "addr \<Rightarrow> addr \<Rightarrow> u32 \<Rightarrow> memory \<Rightarrow> memory" where
  "mark v pa fl m =
     (if pa < mu_maxpa
      then (let a = v + 4 * (pa div PAGESIZE) in store32 m a (load32 m a OR fl)) else m)"

fun lsb32_from :: "nat \<Rightarrow> nat \<Rightarrow> u32 \<Rightarrow> nat" where
  "lsb32_from 0 i x = 0"
| "lsb32_from (Suc n) i x = (if bit x i then Suc i else lsb32_from n (Suc i) x)"

definition marked_pid :: "u32 \<Rightarrow> nat" where
  "marked_pid v = lsb32_from 32 0 (drop_bit 2 v)"

definition mv_fuel :: nat where "mv_fuel = 2 ^ 47"

subsection \<open>memusage::refresh\<close>

primrec mark_tables ::
  "nat \<Rightarrow> addr \<Rightarrow> u32 \<Rightarrow> (ptiter \<Rightarrow> bool) \<Rightarrow> ptiter \<Rightarrow> memory \<Rightarrow> memory res" where
  "mark_tables 0 v fl cont it m = Inl OutOfFuel"
| "mark_tables (Suc n) v fl cont it m =
     (if cont it
      then (let m1 = mark v (ptiter_pa m it) fl m
            in case ptiter_next m1 it of
                 None \<Rightarrow> Inl OutOfFuel
               | Some it1 \<Rightarrow> mark_tables n v fl cont it1 m1)
      else Inr m)"

definition mark_all_tables :: "addr \<Rightarrow> u32 \<Rightarrow> (ptiter \<Rightarrow> bool) \<Rightarrow> addr \<Rightarrow> memory \<Rightarrow> memory res" where
  "mark_all_tables v fl cont pt m =
     (case ptiter_new m pt of
        None \<Rightarrow> Inl OutOfFuel
      | Some it \<Rightarrow> bind_res (mark_tables mv_fuel v fl cont it m) (\<lambda>m1. Inr (mark v pt fl m1)))"

primrec mark_user_pages :: "nat \<Rightarrow> addr \<Rightarrow> u32 \<Rightarrow> vmiter \<Rightarrow> memory \<Rightarrow> memory res" where
  "mark_user_pages 0 v fl it m = Inl OutOfFuel"
| "mark_user_pages (Suc n) v fl it m =
     (if vm_va it < VA_LOWEND
      then if vm_user m it
           then (let m1 = mark v (vm_pa m it) fl m
                 in bind_res (vm_next m1 it) (\<lambda>it1. mark_user_pages n v fl it1 m1))
           else bind_res (vm_next_range m it) (\<lambda>it1. mark_user_pages n v fl it1 m)
      else Inr m)"

definition phys_owner :: "u64 \<Rightarrow> u32" where
  "phys_owner pa = ucast ((pa - PROC_START_ADDR) div 0x40000)"

definition page_used :: "u8 list \<Rightarrow> u64 \<Rightarrow> bool res" where
  "page_used pps pa =
     check (page_no pa < length pps) (OutOfBounds ''physpages'') (Inr (pps ! page_no pa \<noteq> 0))"

primrec mark_owned_pages :: "nat \<Rightarrow> addr \<Rightarrow> u8 list \<Rightarrow> vmiter \<Rightarrow> memory \<Rightarrow> memory res" where
  "mark_owned_pages 0 v pps it m = Inl OutOfFuel"
| "mark_owned_pages (Suc n) v pps it m =
     (if vm_va it < VA_LOWEND
      then bind_res (if vm_user m it \<and> vm_pa m it < MEMSIZE_PHYSICAL
                     then page_used pps (vm_pa m it) else Inr False) (\<lambda>hit.
           if hit
           then (let m1 = mark v (vm_pa m it)
                       (f_user OR f_process (sint (phys_owner (vm_pa m it) + 1))) m
                 in bind_res (vm_next m1 it) (\<lambda>it1. mark_owned_pages n v pps it1 m1))
           else bind_res (vm_next_range m it) (\<lambda>it1. mark_owned_pages n v pps it1 m))
      else Inr m)"

definition separate :: "link \<Rightarrow> proc \<Rightarrow> bool" where
  "separate L p \<longleftrightarrow> pstate p \<noteq> P_FREE \<and> pagetable p \<noteq> 0 \<and> pagetable p \<noteq> kernel_pagetable L"

definition mark_process :: "link \<Rightarrow> addr \<Rightarrow> nat \<Rightarrow> proc \<Rightarrow> bool \<times> memory \<Rightarrow> (bool \<times> memory) res" where
  "mark_process L v i p am =
     (let (any, m) = am in
      if separate L p
      then bind_res (mark_all_tables v (f_kernel OR f_process (int i))
                       (\<lambda>it. ptiter_va it < VA_LOWEND) (pagetable p) m) (\<lambda>m1.
           bind_res (vmiter_new m1 (pagetable p) 0) (\<lambda>it.
           bind_res (mark_user_pages mv_fuel v (f_user OR f_process (int i)) it m1) (\<lambda>m2.
           Inr (True, m2))))
      else Inr (any, m))"

fun mark_processes ::
  "link \<Rightarrow> addr \<Rightarrow> nat \<Rightarrow> proc list \<Rightarrow> bool \<times> memory \<Rightarrow> (bool \<times> memory) res" where
  "mark_processes L v i [] am = Inr am"
| "mark_processes L v i (p # ps) am =
     bind_res (mark_process L v i p am) (\<lambda>am1. mark_processes L v (Suc i) ps am1)"

definition refresh_marks :: "link \<Rightarrow> addr \<Rightarrow> 'a kstate_scheme \<Rightarrow> memory res" where
  "refresh_marks L v s =
     bind_res (mark_all_tables v f_kernel (\<lambda>it. \<not> ptiter_done it) (kernel_pagetable L)
                 (memset (mem s) v 0 0x1000)) (\<lambda>m1.
     bind_res (mark_processes L v 1 (tl (ptable s)) (False, m1)) (\<lambda>(any, m2).
     bind_res (if any then Inr m2
               else bind_res (vmiter_new m2 (kernel_pagetable L) 0) (\<lambda>it.
                    mark_owned_pages mv_fuel v (physpages s) it m2)) (\<lambda>m3.
     Inr (if any then mark v v f_kernel m3 else m3))))"

definition memusage_refresh :: "link \<Rightarrow> 'a kstate_scheme \<Rightarrow> (addr \<times> 'a kstate_scheme) res" where
  "memusage_refresh L s =
     bind_res (case mu_v s of
                 Some v \<Rightarrow> Inr (v, s)
               | None \<Rightarrow> (case kalloc L PAGESIZE s of
                            (None, s1) \<Rightarrow> Inl (AssertFail ''v_ != nullptr'')
                          | (Some v, s1) \<Rightarrow> Inr (v, s1\<lparr>mu_v := Some v\<rparr>))) (\<lambda>(v, s1).
     bind_res (refresh_marks L v s1) (\<lambda>m. Inr (v, s1\<lparr>mem := m\<rparr>)))"

subsection \<open>memusage::symbol\_at\<close>

definition page_error :: "u64 \<Rightarrow> string \<Rightarrow> int \<Rightarrow> 'a kstate_scheme \<Rightarrow> 'a kstate_scheme res" where
  "page_error pa desc p s =
     (let fmt = ascii (if p \<ge> 0 then ''PAGE TABLE ERROR: %lx: %s (pid %d)\<newline>''
                       else ''PAGE TABLE ERROR: %lx: %s\<newline>'');
          args = [VNum pa, VStr (ascii desc), VNum (of_int p)]
      in bind_res (error_vprintf (CPOS 22 0) 0xC000 fmt args s) (\<lambda>(_, s1). log_vprintf fmt args s1))"

definition mu_names :: "u8 list" where
  "mu_names = ascii ''K123456789ABCDEFGHIJKLMNOPQRST??''"

definition mu_colors :: "u16 list" where
  "mu_colors = [0xF, 0xC, 0xA, 0x9, 0xE]"

definition process_symbol :: "u32 \<Rightarrow> u16 res" where
  "process_symbol v =
     (let p = marked_pid v;
          ch0 = push_bit 8 (mu_colors ! (p mod 5));
          ch = (if v AND f_kernel \<noteq> 0 then 0x4000 OR (if ch0 = 0x0C00 then 0x0F00 else ch0) else ch0)
      in if v > (f_process (int p) OR f_kernel OR f_user) then Inr (0x0F00 OR 83)
         else check (p < length mu_names) (OutOfBounds ''names'')
                (Inr (ch OR ucast (mu_names ! p))))"

definition symbol_at ::
  "link \<Rightarrow> addr \<Rightarrow> u64 \<Rightarrow> 'a kstate_scheme \<Rightarrow> (u16 \<times> 'a kstate_scheme) res" where
  "symbol_at L va pa s =
     (let is_reserved = reserved_physical_address pa;
          is_kernel = (\<not> is_reserved \<and> \<not> allocatable_physical_address L pa)
      in if pa \<ge> mu_maxpa
         then Inr (if is_kernel then 75 OR 0x4000 else if is_reserved then 63 OR 0x4000
                   else 63 OR 0xF000, s)
         else let v = load32 (mem s) (va + 4 * (pa div PAGESIZE)); p = int (marked_pid v)
         in if pa \<ge> CONSOLE_ADDR \<and> pa < CONSOLE_ADDR + PAGESIZE then Inr (67 OR 0x0700, s)
         else if is_reserved \<and> v > (f_kernel OR f_user)
         then bind_res (page_error pa ''reserved page mapped for user'' p s) (\<lambda>s1. Inr (82 OR 0x0C00, s1))
         else if is_reserved then Inr (82 OR 0x0700, s)
         else if is_kernel \<and> v > (f_kernel OR f_user)
         then bind_res (page_error pa ''kernel data page mapped for user'' p s) (\<lambda>s1. Inr (75 OR 0xCD00, s1))
         else if is_kernel then Inr (75 OR 0x0D00, s)
         else if pa \<ge> MEMSIZE_PHYSICAL then Inr (32 OR 0x0700, s)
         else if v = 0 then Inr (46 OR 0x0700, s)
         else if v = f_kernel then Inr (75 OR 0x0D00, s)
         else if v = f_user then Inr (46 OR 0x0700, s)
         else if v AND f_kernel \<noteq> 0 \<and> v AND f_user \<noteq> 0
         then bind_res (page_error pa ''kernel allocated page mapped for user'' p s) (\<lambda>s1. Inr (42 OR 0xF400, s1))
         else bind_res (process_symbol v) (\<lambda>ch. Inr (ch, s)))"

subsection \<open>Drawing\<close>

definition console_set :: "int \<Rightarrow> u16 \<Rightarrow> 'a kstate_scheme \<Rightarrow> 'a kstate_scheme res" where
  "console_set pos ch s =
     check (0 \<le> pos \<and> pos < int (length (console s))) (OutOfBounds ''console'')
       (Inr (s\<lparr>console := (console s)[nat pos := ch]\<rparr>))"

definition flip_colors :: "u16 \<Rightarrow> u16" where
  "flip_colors ch =
     (if ch = 0x0F00 OR 83 then ch XOR 0xFE00
      else let z = (ch AND 0x0F00) XOR drop_bit 4 (ch AND 0xF000) in ch XOR (z OR push_bit 4 z))"

definition row_label :: "int \<Rightarrow> u64 \<Rightarrow> nat \<Rightarrow> 'a kstate_scheme \<Rightarrow> 'a kstate_scheme res" where
  "row_label row0 a pn s =
     (if pn mod 64 = 0
      then bind_res (console_vprintf True (CPOS (row0 + int (pn div 64)) 3) 0x0F00 (ascii ''0x%06X '') [VNum a] s)
             (\<lambda>(_, s1). Inr s1)
      else Inr s)"

primrec view_virtual ::
  "nat \<Rightarrow> link \<Rightarrow> addr \<Rightarrow> vmiter \<Rightarrow> 'a kstate_scheme \<Rightarrow> 'a kstate_scheme res" where
  "view_virtual 0 L v it s = (if vm_va it < max_view_va then Inl OutOfFuel else Inr s)"
| "view_virtual (Suc n) L v it s =
     (if vm_va it < max_view_va
      then (let pn = unat (vm_va it div PAGESIZE) in
            bind_res (row_label 11 (vm_va it) pn s) (\<lambda>s1.
            bind_res (if \<not> vm_present (mem s1) it then Inr (32, s1)
                      else bind_res (symbol_at L v (vm_pa (mem s1) it) s1) (\<lambda>(ch, s2).
                           Inr (if vm_user (mem s2) it then flip_colors ch else ch, s2))) (\<lambda>(ch, s2).
            bind_res (console_set (CPOS (11 + int (pn div 64)) (12 + int (pn mod 64))) ch s2) (\<lambda>s3.
            bind_res (vm_add (mem s3) PAGESIZE it) (\<lambda>it1. view_virtual n L v it1 s3)))))
      else Inr s)"

definition console_memviewer_virtual ::
  "link \<Rightarrow> addr \<Rightarrow> proc \<Rightarrow> 'a kstate_scheme \<Rightarrow> 'a kstate_scheme res" where
  "console_memviewer_virtual L v vmp s =
     check (pagetable vmp \<noteq> 0) (AssertFail ''vmp->pagetable != nullptr'')
    (bind_res (console_vprintf True (CPOS 10 26) 0x0F00
        (ascii ''VIRTUAL ADDRESS SPACE FOR %d%C%s\<newline>'')
        [VNum (of_int (pid vmp)), VNum 0x0700,
         VStr (ascii (if pstate vmp = P_FAULTED then '' (faulted)'' else ''''))] s) (\<lambda>(_, s1).
     bind_res (vmiter_new (mem s1) (pagetable vmp) 0) (\<lambda>it. view_virtual 768 L v it s1)))"

primrec view_physical :: "nat \<Rightarrow> nat \<Rightarrow> link \<Rightarrow> addr \<Rightarrow> 'a kstate_scheme \<Rightarrow> 'a kstate_scheme res" where
  "view_physical 0 pn L v s = Inr s"
| "view_physical (Suc n) pn L v s =
     bind_res (row_label 1 (of_nat (pn * 4096)) pn s) (\<lambda>s1.
     bind_res (symbol_at L v (of_nat pn * PAGESIZE) s1) (\<lambda>(ch, s2).
     bind_res (console_set (CPOS (1 + int (pn div 64)) (12 + int (pn mod 64))) ch s2) (\<lambda>s3.
     view_physical n (Suc pn) L v s3)))"

definition console_memviewer ::
  "link \<Rightarrow> nat option \<Rightarrow> 'a kstate_scheme \<Rightarrow> 'a kstate_scheme res" where
  "console_memviewer L vmp s =
     check (pstate (ptable s ! 0) = P_FREE) (AssertFail ''ptable[0].state == P_FREE'')
    (bind_res (memusage_refresh L s) (\<lambda>(v, s1).
     bind_res (console_vprintf True (CPOS 0 32) 0x0F00 (ascii ''PHYSICAL MEMORY\<newline>'') [] s1) (\<lambda>(_, s2).
     bind_res (view_physical 512 0 L v s2) (\<lambda>s3.
     case vmp of None \<Rightarrow> Inr s3
     | Some i \<Rightarrow> console_memviewer_virtual L v (ptable s3 ! i) s3))))"

subsection \<open>The viewer keeps the state of the processes\<close>

lemma page_error_core [core_frame]: "page_error pa desc p s = Inr s' \<Longrightarrow> keeps_core s s'"
  by (auto simp: page_error_def res_simps Let_def intro: keeps_core_trans error_vprintf_core log_vprintf_core)

lemma symbol_at_core [core_frame]: "symbol_at L v pa s = Inr (ch, s') \<Longrightarrow> keeps_core s s'"
  by (auto simp: symbol_at_def res_simps Let_def split: if_splits intro: page_error_core)

lemma row_label_core [core_frame]: "row_label r a pn s = Inr s' \<Longrightarrow> keeps_core s s'"
  by (auto simp: row_label_def res_simps split: if_splits intro: console_vprintf_core)

lemma console_set_core [core_frame]: "console_set pos ch s = Inr s' \<Longrightarrow> keeps_core s s'"
  by (auto simp: console_set_def res_simps)

lemma view_physical_core [core_frame]: "view_physical n pn L v s = Inr s' \<Longrightarrow> keeps_core s s'"
proof (induction n arbitrary: pn s)
  case (Suc n)
  then obtain s1 ch s2 s3 where "row_label 1 (of_nat (pn * 4096)) pn s = Inr s1"
      "symbol_at L v (of_nat pn * PAGESIZE) s1 = Inr (ch, s2)"
      "console_set (CPOS (1 + int (pn div 64)) (12 + int (pn mod 64))) ch s2 = Inr s3"
      "view_physical n (Suc pn) L v s3 = Inr s'"
    by (auto simp: res_simps)
  then show ?case using Suc.IH by (meson core_frame keeps_core_trans)
qed simp

lemma view_virtual_core [core_frame]: "view_virtual n L v it s = Inr s' \<Longrightarrow> keeps_core s s'"
proof (induction n arbitrary: it s)
  case (Suc n)
  show ?case
  proof (cases "vm_va it < max_view_va")
    case True
    with Suc.prems obtain s1 ch s2 s3 it1 where
      s1: "row_label 11 (vm_va it) (unat (vm_va it div PAGESIZE)) s = Inr s1" and
      s2: "(if \<not> vm_present (mem s1) it then Inr (32, s1)
            else bind_res (symbol_at L v (vm_pa (mem s1) it) s1) (\<lambda>(ch, s2).
                 Inr (if vm_user (mem s2) it then flip_colors ch else ch, s2))) = Inr (ch, s2)" and
      s3: "console_set (CPOS (11 + int (unat (vm_va it div PAGESIZE) div 64))
             (12 + int (unat (vm_va it div PAGESIZE) mod 64))) ch s2 = Inr s3"
          "view_virtual n L v it1 s3 = Inr s'"
      by (auto simp: res_simps Let_def)
    have "keeps_core s1 s2" using s2 by (auto simp: res_simps split: if_splits intro: symbol_at_core)
    with s1 s3 show ?thesis using Suc.IH by (meson core_frame keeps_core_trans)
  qed (use Suc.prems in simp)
qed (simp split: if_splits)

lemma memusage_refresh_core [core_frame]: "memusage_refresh L s = Inr (v, s') \<Longrightarrow> keeps_core s s'"
  by (auto simp: memusage_refresh_def res_simps split: option.splits prod.splits
      dest!: kalloc_only keeps_core_kmem)

lemma console_memviewer_core [core_frame]: "console_memviewer L vmp s = Inr s' \<Longrightarrow> keeps_core s s'"
  by (auto simp: console_memviewer_def console_memviewer_virtual_def res_simps split: option.splits)
     (meson core_frame keeps_core_trans)+
end
