(* ===== verification/Kernel.thy ===== *)
theory Kernel
  imports Hardware Memviewer
begin

text \<open>
  The kernel proper, \<^verbatim>\<open>kernels1/kernel.cc\<close>: start-up, loading of programs, the exception and
  system-call handlers, the one-byte pipe and the scheduler. Each handler is a function from the
  kernel state to an outcome and a state; a failed assertion or a panic is the \<open>Inl\<close> side.
  \<open>schedule\<close> is given a number of rounds: with no runnable process the code spins, which is the
  outcome \<open>Spinning\<close> after the last round. \<open>kernel_setup\<close> is the part of \<^verbatim>\<open>kernel_start\<close> before the
  processes are loaded, \<open>start_processes\<close> the part that loads them.
\<close>

definition PROC_SIZE :: u64 where "PROC_SIZE = 0x40000"
definition HZ :: int where "HZ = 100"
definition INT_IRQ :: u32 where "INT_IRQ = 32"
definition IRQ_TIMER :: u32 where "IRQ_TIMER = 0"
definition INT_PF :: u32 where "INT_PF = 14"

definition SYSCALL_GETPID :: u64 where "SYSCALL_GETPID = 1"
definition SYSCALL_YIELD :: u64 where "SYSCALL_YIELD = 2"
definition SYSCALL_PANIC :: u64 where "SYSCALL_PANIC = 3"
definition SYSCALL_PAGE_ALLOC :: u64 where "SYSCALL_PAGE_ALLOC = 4"
definition SYSCALL_GETSYSNAME :: u64 where "SYSCALL_GETSYSNAME = 5"
definition SYSCALL_SPAWN :: u64 where "SYSCALL_SPAWN = 6"
definition SYSCALL_PIPEWRITE :: u64 where "SYSCALL_PIPEWRITE = 7"
definition SYSCALL_PIPEREAD :: u64 where "SYSCALL_PIPEREAD = 8"

lemmas syscall_consts = SYSCALL_GETPID_def SYSCALL_YIELD_def SYSCALL_PANIC_def
  SYSCALL_PAGE_ALLOC_def SYSCALL_GETSYSNAME_def SYSCALL_SPAWN_def SYSCALL_PIPEWRITE_def
  SYSCALL_PIPEREAD_def

definition set_proc :: "nat \<Rightarrow> (proc \<Rightarrow> proc) \<Rightarrow> 'a kstate_scheme \<Rightarrow> 'a kstate_scheme" where
  "set_proc i f s = s\<lparr>ptable := (ptable s)[i := f (ptable s ! i)]\<rparr>"

definition kfree :: "addr option \<Rightarrow> 'a kstate_scheme \<Rightarrow> 'a kstate_scheme res" where
  "kfree kptr s = Inl (AssertFail ''false'')"

subsection \<open>Loading a program\<close>

definition claim_at :: "addr \<Rightarrow> 'a kstate_scheme \<Rightarrow> 'a kstate_scheme res" where
  "claim_at a s =
     check (page_no a < length (physpages s)) (OutOfBounds ''physpages'')
    (check (physpages s ! page_no a = 0) (AssertFail ''physpages[a / PAGESIZE].refcount == 0'')
    (Inr (s\<lparr>physpages := (physpages s)[page_no a := physpages s ! page_no a + 1]\<rparr>)))"

definition map_at :: "link \<Rightarrow> addr \<Rightarrow> addr \<Rightarrow> 'a kstate_scheme \<Rightarrow> 'a kstate_scheme res" where
  "map_at L pt a s =
     bind_res (vmiter_new (mem s) pt a) (\<lambda>it.
     bind_res (vm_map L a 7 s it) (\<lambda>(s1, it1). Inr s1))"

primrec map_segment ::
  "nat \<Rightarrow> link \<Rightarrow> nat \<Rightarrow> addr \<Rightarrow> addr \<Rightarrow> segment \<Rightarrow> addr \<Rightarrow> 'a kstate_scheme \<Rightarrow> 'a kstate_scheme res" where
  "map_segment 0 L i lo hi sg a s =
     (if a < seg_va (mem s) sg + seg_size (mem s) sg then Inl OutOfFuel else Inr s)"
| "map_segment (Suc n) L i lo hi sg a s =
     (if a < seg_va (mem s) sg + seg_size (mem s) sg
      then check (a \<ge> lo \<and> a < hi) (AssertFail ''a >= first_addr && a < last_addr'')
          (bind_res (claim_at a s) (\<lambda>s1.
           bind_res (map_at L (pagetable (ptable s1 ! i)) a s1) (\<lambda>s2.
           map_segment n L i lo hi sg (a + PAGESIZE) s2)))
      else Inr s)"

primrec map_segments ::
  "nat \<Rightarrow> link \<Rightarrow> nat \<Rightarrow> addr \<Rightarrow> addr \<Rightarrow> addr option \<Rightarrow> segment \<Rightarrow> 'a kstate_scheme
   \<Rightarrow> 'a kstate_scheme res" where
  "map_segments 0 L i lo hi elf sg s = Inl OutOfFuel"
| "map_segments (Suc n) L i lo hi elf sg s =
     bind_res (image_end (mem s) elf) (\<lambda>e.
       if seg_eq sg e then Inr s
       else bind_res (map_segment 65 L i lo hi sg (round_down (seg_va (mem s) sg) 0x1000) s) (\<lambda>s1.
            bind_res (seg_next (mem s1) sg) (\<lambda>sg1. map_segments n L i lo hi elf sg1 s1)))"

definition copy_segment :: "segment \<Rightarrow> memory \<Rightarrow> memory" where
  "copy_segment sg m =
     (let m1 = memset m (seg_va m sg) 0 (seg_size m sg)
      in memcpy m1 (seg_va m1 sg) (seg_data m1 sg) (seg_data_size m1 sg))"

primrec copy_segments :: "nat \<Rightarrow> addr option \<Rightarrow> segment \<Rightarrow> memory \<Rightarrow> memory res" where
  "copy_segments 0 elf sg m = Inl OutOfFuel"
| "copy_segments (Suc n) elf sg m =
     bind_res (image_end m elf) (\<lambda>e.
       if seg_eq sg e then Inr m
       else (let m1 = copy_segment sg m in
             bind_res (seg_next m1 sg) (\<lambda>sg1. copy_segments n elf sg1 m1)))"

definition process_setup ::
  "link \<Rightarrow> nat \<Rightarrow> u8 list \<Rightarrow> 'a kstate_scheme \<Rightarrow> 'a kstate_scheme res" where
  "process_setup L i program_name s =
     (let s1 = set_proc i (init_process 0) s;
          first_addr = PROC_START_ADDR + (of_nat i - 1) * PROC_SIZE;
          last_addr = PROC_START_ADDR + of_nat i * PROC_SIZE;
          s2 = set_proc i (\<lambda>p. p\<lparr>pagetable := kernel_pagetable L\<rparr>) s1
      in bind_res (program_image_name (mem s2) (ramimages L) program_name) (\<lambda>elf.
         bind_res (image_begin (mem s2) elf) (\<lambda>sg.
         bind_res (map_segments (Suc seg_fuel) L i first_addr last_addr elf sg s2) (\<lambda>s3.
         bind_res (image_begin (mem s3) elf) (\<lambda>sg3.
         bind_res (copy_segments (Suc seg_fuel) elf sg3 (mem s3)) (\<lambda>m4.
         let s4 = s3\<lparr>mem := m4\<rparr>;
             s5 = set_proc i (\<lambda>p. p\<lparr>regs := (regs p)\<lparr>reg_rip := image_entry (mem s4) elf\<rparr>\<rparr>) s4;
             stack_addr = last_addr - PAGESIZE
         in bind_res (claim_at stack_addr s5) (\<lambda>s6.
            bind_res (map_at L (pagetable (ptable s6 ! i)) stack_addr s6) (\<lambda>s7.
            Inr (set_proc i (\<lambda>p. p\<lparr>regs := (regs p)\<lparr>reg_rsp := stack_addr + PAGESIZE\<rparr>,
                                    pstate := P_RUNNABLE\<rparr>) s7)))))))))"

subsection \<open>Memory viewer and scheduling\<close>

fun find_shown :: "nat \<Rightarrow> proc list \<Rightarrow> nat \<Rightarrow> nat option \<times> nat" where
  "find_shown 0 pt sh = (None, sh)"
| "find_shown (Suc n) pt sh =
     (if pstate (pt ! sh) \<noteq> P_FREE \<and> pagetable (pt ! sh) \<noteq> 0 then (Some sh, sh)
      else find_shown n pt ((sh + 1) mod NPROC))"

definition memshow :: "link \<Rightarrow> 'a kstate_scheme \<Rightarrow> 'a kstate_scheme res" where
  "memshow L s =
     (if show_memory s
      then (let s1 = (if last_ticks s = 0 \<or> ticks s - last_ticks s \<ge> of_int (HZ div 2)
                      then s\<lparr>last_ticks := ticks s, showing := (showing s + 1) mod NPROC\<rparr> else s);
                (p, sh) = find_shown NPROC (ptable s1) (showing s1)
            in console_memviewer L p (s1\<lparr>showing := sh\<rparr>))
      else Inr s)"

definition run :: "link \<Rightarrow> nat \<Rightarrow> 'a kstate_scheme \<Rightarrow> (outcome \<times> 'a kstate_scheme) res" where
  "run L i s =
     check (pstate (ptable s ! i) = P_RUNNABLE) (AssertFail ''p->state == P_RUNNABLE'')
    (let s1 = s\<lparr>current := i\<rparr>
     in bind_res (check_pagetable L (pagetable (ptable s1 ! i)) s1) (\<lambda>_. Inr (Resume i, s1)))"

primrec schedule_loop ::
  "nat \<Rightarrow> nat \<Rightarrow> u32 \<Rightarrow> link \<Rightarrow> 'a kstate_scheme \<Rightarrow> (outcome \<times> 'a kstate_scheme) res" where
  "schedule_loop 0 i spins L s = Inr (Spinning, s)"
| "schedule_loop (Suc n) i spins L s =
     (let j = (i + 1) mod NPROC in
      if pstate (ptable s ! j) = P_RUNNABLE then run L j s
      else bind_res (check_keyboard L s) (\<lambda>(k, s1).
           case k of
             Inr out \<Rightarrow> Inr (out, s1)
           | Inl c \<Rightarrow>
               bind_res (if spins mod 0x1000 = 0 then memshow L s1 else Inr s1) (\<lambda>s2.
               schedule_loop n j (spins + 1) L s2)))"

definition schedule :: "nat \<Rightarrow> link \<Rightarrow> 'a kstate_scheme \<Rightarrow> (outcome \<times> 'a kstate_scheme) res" where
  "schedule rounds L s = schedule_loop rounds (nat (pid (ptable s ! current s))) 1 L s"

subsection \<open>Exceptions\<close>

definition page_fault ::
  "addr \<Rightarrow> 'a kstate_scheme \<Rightarrow> 'a kstate_scheme res" where
  "page_fault fault_addr s =
     (let p = ptable s ! current s; r = regs p;
          operation = (if reg_errcode r AND PTE_W \<noteq> 0 then ''write'' else ''read'');
          problem = (if reg_errcode r AND PTE_P \<noteq> 0 then ''protection problem'' else ''missing page'')
      in check (reg_errcode r AND PTE_U \<noteq> 0) (Panic ''Kernel page fault'')
        (bind_res (error_vprintf (CPOS 24 0) 0x0C00
            (ascii ''Process %d page fault on %p (%s %s, rip=%p)!\<newline>'')
            [VNum (of_int (pid p)), VNum fault_addr, VStr (ascii operation), VStr (ascii problem),
             VNum (reg_rip r)] s) (\<lambda>(_, s1).
         Inr (set_proc (current s1) (\<lambda>p. p\<lparr>pstate := P_FAULTED\<rparr>) s1))))"

definition exception_dispatch ::
  "nat \<Rightarrow> link \<Rightarrow> addr \<Rightarrow> regstate \<Rightarrow> 'a kstate_scheme \<Rightarrow> (outcome \<times> 'a kstate_scheme) res" where
  "exception_dispatch rounds L rcr2 r s =
     (if reg_intno r = INT_IRQ + IRQ_TIMER
      then schedule rounds L (lapic_ack (s\<lparr>ticks := ticks s + 1\<rparr>))
      else if reg_intno r = INT_PF
      then bind_res (page_fault rcr2 s) (\<lambda>s1.
           if pstate (ptable s1 ! current s1) = P_RUNNABLE then run L (current s1) s1
           else schedule rounds L s1)
      else Inl (Panic ''Unexpected exception''))"

definition exception ::
  "nat \<Rightarrow> link \<Rightarrow> addr \<Rightarrow> regstate \<Rightarrow> 'a kstate_scheme \<Rightarrow> (outcome \<times> 'a kstate_scheme) res" where
  "exception rounds L rcr2 r s =
     (let s1 = set_proc (current s) (\<lambda>p. p\<lparr>regs := r\<rparr>) s;
          s2 = console_show_cursor (cursorpos s1) s1
      in bind_res (if reg_intno r \<noteq> INT_PF \<or> reg_errcode r AND PTE_U \<noteq> 0
                   then memshow L s2 else Inr s2) (\<lambda>s3.
         bind_res (check_keyboard L s3) (\<lambda>(k, s4).
         case k of Inr out \<Rightarrow> Inr (out, s4) | Inl c \<Rightarrow> exception_dispatch rounds L rcr2 r s4)))"

subsection \<open>System calls\<close>

text \<open>
  The handlers use the pointers of their callers unchecked. They run on the kernel's page table, which
  maps the first two megabytes but page 0, and the gigabytes one to four, to themselves, and nothing
  else; the set-up of processes only adds user permissions. So an access through a pointer has one of three ends:
  \<^item> The pointer is not mapped. The access faults in the kernel, which panics.
  \<^item> It reaches the kernel itself: its image (from \<^verbatim>\<open>KERNEL_START_ADDR\<close> to \<^verbatim>\<open>_kernel_end\<close>, with \<^verbatim>\<open>ptable\<close>,
    \<^verbatim>\<open>current\<close>, \<^verbatim>\<open>pipebuf\<close> and the rest of its variables), the page of its stack, the console page (with
    \<^verbatim>\<open>cursorpos\<close> and \<^verbatim>\<open>ticks\<close>) or the addresses of devices. These are fields of the state here, not bytes
    of \<open>mem\<close>; the call ends in \<open>KernelData\<close> at the access, and what the program does from there on is
    outside the model.
  \<^item> It reaches other memory, which is \<open>mem\<close>.
\<close>

definition kernel_mapped :: "addr \<Rightarrow> bool" where
  "kernel_mapped a \<longleftrightarrow> 0x1000 \<le> a \<and> a < 0x200000 \<or> 0x40000000 \<le> a \<and> a < 0x100000000"

definition kernel_data :: "link \<Rightarrow> addr \<Rightarrow> bool" where
  "kernel_data L a \<longleftrightarrow> KERNEL_START_ADDR \<le> a \<and> a < round_up (kernel_end L) 0x1000
     \<or> KERNEL_STACK_TOP - PAGESIZE \<le> a \<and> a < KERNEL_STACK_TOP
     \<or> CONSOLE_ADDR \<le> a \<and> a < CONSOLE_ADDR + PAGESIZE \<or> 0x40000000 \<le> a"

definition reaches :: "(addr \<Rightarrow> bool) \<Rightarrow> addr \<Rightarrow> nat \<Rightarrow> bool" where
  "reaches P a n = list_ex (\<lambda>i. P (a + of_nat i)) [0..<n]"

definition user_access :: "link \<Rightarrow> addr \<Rightarrow> nat \<Rightarrow> 'b res \<Rightarrow> 'b res" where
  "user_access L a n r =
     check (\<not> reaches (\<lambda>x. \<not> kernel_mapped x) a n) (Panic ''Kernel page fault'')
    (check (\<not> reaches (kernel_data L) a n) KernelData r)"

lemma user_access_Inr_iff [res_simps]:
  "user_access L a n r = Inr x \<longleftrightarrow>
     \<not> reaches (\<lambda>x. \<not> kernel_mapped x) a n \<and> \<not> reaches (kernel_data L) a n \<and> r = Inr x"
  by (simp add: user_access_def check_def)

definition syscall_page_alloc :: "link \<Rightarrow> addr \<Rightarrow> 'a kstate_scheme \<Rightarrow> (u64 \<times> 'a kstate_scheme) res" where
  "syscall_page_alloc L a s =
     bind_res (claim_at a s) (\<lambda>s1.
     user_access L a 4096
    (Inr (0, s1\<lparr>mem := memset (mem s1) a 0 PAGESIZE\<rparr>)))"

definition syscall_spawn :: "addr \<Rightarrow> 'a kstate_scheme \<Rightarrow> u64 \<times> 'a kstate_scheme" where
  "syscall_spawn command s = (-1, s)"

definition syscall_pipewrite :: "link \<Rightarrow> addr \<Rightarrow> u64 \<Rightarrow> 'a kstate_scheme \<Rightarrow> (u64 \<times> 'a kstate_scheme) res" where
  "syscall_pipewrite L buf sz s =
     (if sz = 0 then Inr (0, s)
      else if pipebuf_len s = 1 then Inr (-1, s)
      else user_access L buf 1
          (Inr (1, s\<lparr>pipebuf := mem s buf, pipebuf_len := 1\<rparr>)))"

definition syscall_piperead :: "link \<Rightarrow> addr \<Rightarrow> u64 \<Rightarrow> 'a kstate_scheme \<Rightarrow> (u64 \<times> 'a kstate_scheme) res" where
  "syscall_piperead L buf sz s =
     (if sz = 0 then Inr (0, s)
      else if pipebuf_len s = 0 then Inr (-1, s)
      else user_access L buf 1
          (Inr (1, s\<lparr>mem := (mem s)(buf := pipebuf s), pipebuf_len := 0\<rparr>)))"

definition sysname :: "u8 list" where "sysname = ascii ''DemoOS 61.61''"

text \<open>\<open>strcpy\<close> from the kernel's constant string: its bytes and the terminating zero.\<close>

fun put_bytes :: "memory \<Rightarrow> addr \<Rightarrow> u8 list \<Rightarrow> memory" where
  "put_bytes m a [] = m"
| "put_bytes m a (b # bs) = put_bytes (m(a := b)) (a + 1) bs"

definition syscall_getsysname :: "link \<Rightarrow> addr \<Rightarrow> 'a kstate_scheme \<Rightarrow> (outcome \<times> 'a kstate_scheme) res" where
  "syscall_getsysname L buf s =
     user_access L buf 13
    (Inr (Return 0, s\<lparr>mem := put_bytes (mem s) buf (sysname @ [0])\<rparr>))"

definition syscall_dispatch ::
  "nat \<Rightarrow> link \<Rightarrow> regstate \<Rightarrow> 'a kstate_scheme \<Rightarrow> (outcome \<times> 'a kstate_scheme) res" where
  "syscall_dispatch rounds L r s =
     (if reg_rax r = SYSCALL_PANIC then user_panic (ptable s ! current s) s
      else if reg_rax r = SYSCALL_GETPID
      then Inr (Return (of_int (pid (ptable s ! current s))), s)
      else if reg_rax r = SYSCALL_YIELD
      then schedule rounds L (set_proc (current s) (\<lambda>p. p\<lparr>regs := (regs p)\<lparr>reg_rax := 0\<rparr>\<rparr>) s)
      else if reg_rax r = SYSCALL_PAGE_ALLOC
      then bind_res (syscall_page_alloc L (reg_rdi r) s) (\<lambda>(v, s1). Inr (Return v, s1))
      else if reg_rax r = SYSCALL_GETSYSNAME
      then syscall_getsysname L (reg_rdi r) s
      else if reg_rax r = SYSCALL_SPAWN
      then (let (v, s1) = syscall_spawn (reg_rdi r) s in Inr (Return v, s1))
      else if reg_rax r = SYSCALL_PIPEWRITE
      then bind_res (syscall_pipewrite L (reg_rdi r) (reg_rsi r) s) (\<lambda>(v, s1). Inr (Return v, s1))
      else if reg_rax r = SYSCALL_PIPEREAD
      then bind_res (syscall_piperead L (reg_rdi r) (reg_rsi r) s) (\<lambda>(v, s1). Inr (Return v, s1))
      else Inl (Panic ''Unexpected system call''))"

definition syscall ::
  "nat \<Rightarrow> link \<Rightarrow> regstate \<Rightarrow> 'a kstate_scheme \<Rightarrow> (outcome \<times> 'a kstate_scheme) res" where
  "syscall rounds L r s =
     (let s1 = set_proc (current s) (\<lambda>p. p\<lparr>regs := r\<rparr>) s;
          s2 = console_show_cursor (cursorpos s1) s1
      in bind_res (memshow L s2) (\<lambda>s3.
         bind_res (check_keyboard L s3) (\<lambda>(k, s4).
         case k of Inr out \<Rightarrow> Inr (out, s4) | Inl c \<Rightarrow> syscall_dispatch rounds L r s4)))"

subsection \<open>Start-up\<close>

definition kernel_perm :: "addr \<Rightarrow> u32 option" where
  "kernel_perm va = Some (if va = CONSOLE_ADDR then 7 else if va \<noteq> 0 then 3 else 0)"

definition init_ptable :: "proc list \<Rightarrow> proc list" where
  "init_ptable ps = map (\<lambda>(i, p). p\<lparr>pid := int i, pstate := P_FREE\<rparr>) (enumerate 0 ps)"

definition start_processes ::
  "link \<Rightarrow> u8 list \<Rightarrow> 'a kstate_scheme \<Rightarrow> 'a kstate_scheme res" where
  "start_processes L command s =
     bind_res (program_image_name (mem s) (ramimages L) command) (\<lambda>elf.
       if \<not> image_empty (mem s) elf then process_setup L 1 command s
       else if command = ascii ''pipe''
       then bind_res (process_setup L 1 (ascii ''pipewriter'') s)
              (process_setup L 2 (ascii ''pipereader''))
       else bind_res (process_setup L 1 (ascii ''alice'') s) (process_setup L 2 (ascii ''eve'')))"

definition kernel_setup :: "link \<Rightarrow> machine \<Rightarrow> 'a kstate_scheme \<Rightarrow> 'a kstate_scheme res" where
  "kernel_setup L hw s =
     bind_res (init_hardware L hw s) (\<lambda>s1.
     bind_res (log_vprintf (ascii ''Starting WeensyOS\<newline>'') [] s1) (\<lambda>s2.
     bind_res (identity_map L kernel_perm (console_clear (init_timer HZ (s2\<lparr>ticks := 1\<rparr>)))) (\<lambda>s3.
     Inr (s3\<lparr>ptable := init_ptable (ptable s3)\<rparr>))))"

definition kernel_start ::
  "link \<Rightarrow> machine \<Rightarrow> u8 list option \<Rightarrow> 'a kstate_scheme \<Rightarrow> (outcome \<times> 'a kstate_scheme) res" where
  "kernel_start L hw command s =
     bind_res (kernel_setup L hw s) (\<lambda>s1.
     bind_res (start_processes L (case command of None \<Rightarrow> first_process L | Some c \<Rightarrow> c) s1) (\<lambda>s2.
     run L 1 s2))"

end
