(* ===== verification/KernelInv.thy ===== *)
theory KernelInv
  imports Kernel
begin

text \<open>
  What the handlers of \<^verbatim>\<open>kernels1/kernel.cc\<close> guarantee. \<open>kernel_ok\<close> is the invariant of the process
  table, the current process and the pipe; every system call and exception keeps it. The scheduler
  picks the next runnable process in cyclic order. \<open>kernel_step\<close> is the machine as a step relation:
  user code changes memory, the console page (the cells, the cursor and the tick count are in it and
  it is mapped for the user) and the keyboard answers; system calls and exceptions run the handlers.
  A system call whose pointer reaches the kernel's own data ends in \<open>KernelData\<close> and is no step. Each
  step is labelled with the bytes that a successful \<^verbatim>\<open>pipewrite\<close> takes from its caller and those that a
  successful \<^verbatim>\<open>piperead\<close> gives to its caller. The locale \<open>fifo_channel\<close> states what a channel promises of
  such a labelled relation; it is interpreted on \<open>kernel_step\<close>.
\<close>

subsection \<open>Specifications\<close>

definition kernel_ok :: "'a kstate_scheme \<Rightarrow> bool" where
  "kernel_ok s \<longleftrightarrow> length (ptable s) = NPROC \<and> 0 < current s \<and> current s < NPROC
     \<and> (\<forall>i < NPROC. pid (ptable s ! i) = int i) \<and> pstate (ptable s ! 0) = P_FREE \<and> pipebuf_len s \<le> 1"

definition resets :: "outcome \<Rightarrow> bool" where
  "resets out = (case out of PowerOff \<Rightarrow> True | SoftReboot c \<Rightarrow> True | _ \<Rightarrow> False)"

definition runs_current :: "'a kstate_scheme \<Rightarrow> outcome \<Rightarrow> 'a kstate_scheme \<Rightarrow> bool" where
  "runs_current s out s' \<longleftrightarrow> (case out of
       Resume i \<Rightarrow> current s' = i \<and> pstate (ptable s' ! i) = P_RUNNABLE
     | Return v \<Rightarrow> current s' = current s
     | _ \<Rightarrow> True)"

text \<open>\<open>next_runnable pt i j\<close>: starting after slot \<open>i\<close> and going round, \<open>j\<close> is the first runnable slot.\<close>

definition next_runnable :: "proc list \<Rightarrow> nat \<Rightarrow> nat \<Rightarrow> bool" where
  "next_runnable pt i j \<longleftrightarrow> (\<exists>d. 0 < d \<and> j = (i + d) mod NPROC \<and> pstate (pt ! j) = P_RUNNABLE
     \<and> (\<forall>e. 0 < e \<and> e < d \<longrightarrow> pstate (pt ! ((i + e) mod NPROC)) \<noteq> P_RUNNABLE))"

text \<open>The number of slots to advance from \<open>i\<close>, going round, to reach \<open>q\<close>.\<close>

definition turns :: "nat \<Rightarrow> nat \<Rightarrow> nat" where
  "turns i q = (if q > i then q - i else q + NPROC - i)"

definition pipe_content :: "'a kstate_scheme \<Rightarrow> u8 list" where
  "pipe_content s = (if pipebuf_len s = 1 then [pipebuf s] else [])"

definition sent :: "regstate \<Rightarrow> outcome \<Rightarrow> 'a kstate_scheme \<Rightarrow> u8 list" where
  "sent r out s' = (if reg_rax r = SYSCALL_PIPEWRITE \<and> out = Return 1 then [mem s' (reg_rdi r)] else [])"

definition received :: "regstate \<Rightarrow> outcome \<Rightarrow> 'a kstate_scheme \<Rightarrow> u8 list" where
  "received r out s' = (if reg_rax r = SYSCALL_PIPEREAD \<and> out = Return 1 then [mem s' (reg_rdi r)] else [])"

inductive kernel_step ::
  "nat \<Rightarrow> link \<Rightarrow> 'a kstate_scheme \<Rightarrow> u8 list \<Rightarrow> u8 list \<Rightarrow> 'a kstate_scheme \<Rightarrow> bool"
  for n :: nat and L :: link where
  user: "kernel_step n L s [] [] (s\<lparr>mem := m, console := c, cursorpos := p, ticks := t, key_polls := ks\<rparr>)"
| call: "syscall n L r s = Inr (out, s') \<Longrightarrow> \<not> resets out \<Longrightarrow>
    kernel_step n L s (sent r out s') (received r out s') s'"
| trap: "exception n L a r s = Inr (out, s') \<Longrightarrow> \<not> resets out \<Longrightarrow> kernel_step n L s [] [] s'"

inductive channel_run ::
  "('s \<Rightarrow> 'b list \<Rightarrow> 'b list \<Rightarrow> 's \<Rightarrow> bool) \<Rightarrow> 's \<Rightarrow> 'b list \<Rightarrow> 'b list \<Rightarrow> 's \<Rightarrow> bool"
  for step :: "'s \<Rightarrow> 'b list \<Rightarrow> 'b list \<Rightarrow> 's \<Rightarrow> bool" and s0 :: 's where
  start: "channel_run step s0 [] [] s0"
| more: "channel_run step s0 w r s \<Longrightarrow> step s i out s' \<Longrightarrow> channel_run step s0 (w @ i) (r @ out) s'"

subsection \<open>Scheduling\<close>

lemma set_proc_mem [simp]: "mem (set_proc i f s) = mem s"
  by (simp add: set_proc_def)

lemma memshow_core: "memshow L s = Inr s' \<Longrightarrow> keeps_core s s'"
  by (auto simp: memshow_def Let_def res_simps split: if_splits prod.splits
      dest!: console_memviewer_core) (simp add: keeps_core_def)+

lemma run_spec:
  assumes "run L i s = Inr (out, s')"
  shows "out = Resume i \<and> s' = s\<lparr>current := i\<rparr> \<and> pstate (ptable s ! i) = P_RUNNABLE"
  using assms by (auto simp: run_def res_simps Let_def)

lemma next_runnable_step:
  assumes "pstate (pt ! ((i + 1) mod NPROC)) \<noteq> P_RUNNABLE" "next_runnable pt ((i + 1) mod NPROC) j"
  shows "next_runnable pt i j"
proof -
  obtain d where d: "0 < d" "j = ((i + 1) mod NPROC + d) mod NPROC" "pstate (pt ! j) = P_RUNNABLE"
      "\<forall>e. 0 < e \<and> e < d \<longrightarrow> pstate (pt ! (((i + 1) mod NPROC + e) mod NPROC)) \<noteq> P_RUNNABLE"
    using assms(2) by (auto simp: next_runnable_def)
  have *: "((i + 1) mod NPROC + e) mod NPROC = (i + Suc e) mod NPROC" for e
    by (simp add: mod_add_left_eq)
  have "pstate (pt ! ((i + e) mod NPROC)) \<noteq> P_RUNNABLE" if "0 < e" "e < Suc d" for e
    using that assms(1) d(4) * by (cases e; cases "e - 1") (force simp: less_Suc_eq_0_disj)+
  then show ?thesis unfolding next_runnable_def using d * by (intro exI [of _ "Suc d"]) auto
qed

lemma schedule_loop_step:
  assumes "pstate (ptable s ! ((i + 1) mod NPROC)) \<noteq> P_RUNNABLE"
    and "schedule_loop (Suc n) i spins L s = Inr (out, s')"
  obtains "out = PowerOff" | c where "out = SoftReboot c"
    | s2 where "keeps_core s s2" "schedule_loop n ((i + 1) mod NPROC) (spins + 1) L s2 = Inr (out, s')"
proof -
  from assms obtain k s1 where k: "check_keyboard L s = Inr (k, s1)"
      "(case k of Inr out \<Rightarrow> Inr (out, s1)
        | Inl c \<Rightarrow> bind_res (if spins mod 0x1000 = 0 then memshow L s1 else Inr s1) (\<lambda>s2.
             schedule_loop n ((i + 1) mod NPROC) (spins + 1) L s2)) = Inr (out, s')"
    by (auto simp: Let_def res_simps simp del: One_nat_def)
  show thesis
  proof (cases k)
    case (Inr o')
    then show thesis using k that(1,2)
      by (auto simp: check_keyboard_def res_simps split: if_splits)
  next
    case (Inl c)
    with k obtain s2 where s2: "(if spins mod 0x1000 = 0 then memshow L s1 else Inr s1) = Inr s2"
        "schedule_loop n ((i + 1) mod NPROC) (spins + 1) L s2 = Inr (out, s')" by (auto simp: res_simps)
    have "keeps_core s s1" using k(1) Inl check_keyboard_core by blast
    moreover have "keeps_core s1 s2" using s2(1) memshow_core by (auto split: if_splits)
    ultimately show thesis using that(3) s2(2) keeps_core_trans by blast
  qed
qed

lemma schedule_loop_spec:
  "schedule_loop n i spins L s = Inr (out, s') \<Longrightarrow>
   (\<exists>j s1. out = Resume j \<and> keeps_core s s1 \<and> s' = s1\<lparr>current := j\<rparr> \<and> next_runnable (ptable s) i j)
   \<or> out = Spinning \<and> keeps_core s s' \<or> out = PowerOff \<or> (\<exists>c. out = SoftReboot c)"
proof (induction n arbitrary: i spins s)
  case (Suc n)
  show ?case
  proof (cases "pstate (ptable s ! ((i + 1) mod NPROC)) = P_RUNNABLE")
    case True
    then have "next_runnable (ptable s) i ((i + 1) mod NPROC)"
      by (auto simp: next_runnable_def intro: exI [of _ 1])
    moreover have "out = Resume ((i + 1) mod NPROC)" "s' = s\<lparr>current := (i + 1) mod NPROC\<rparr>"
      using Suc.prems True run_spec by (fastforce simp: Let_def)+
    ultimately show ?thesis using keeps_core_refl by blast
  next
    case False
    from False Suc.prems show ?thesis
    proof (cases rule: schedule_loop_step)
      case (3 s2)
      then have "ptable s2 = ptable s" by (simp add: keeps_core_def)
      with Suc.IH [OF 3(2)] 3(1) False next_runnable_step show ?thesis
        by (metis keeps_core_trans)
    qed auto
  qed
qed simp

lemma schedule_loop_runs:
  "0 < d \<Longrightarrow> d \<le> n \<Longrightarrow> pstate (ptable s ! ((i + d) mod NPROC)) = P_RUNNABLE \<Longrightarrow>
   schedule_loop n i spins L s \<noteq> Inr (Spinning, s')"
proof (induction n arbitrary: i d spins s)
  case (Suc n)
  show ?case
  proof (cases "pstate (ptable s ! ((i + 1) mod NPROC)) = P_RUNNABLE")
    case True
    then show ?thesis using run_spec by (fastforce simp: Let_def)
  next
    case False
    then obtain d' where d: "d = Suc d'" "0 < d'" using Suc.prems by (cases d; cases "d = 1") auto
    have "((i + 1) mod NPROC + d') mod NPROC = (i + d) mod NPROC"
      using d by (simp add: mod_add_left_eq)
    then have IH: "schedule_loop n ((i + 1) mod NPROC) (spins + 1) L s2 \<noteq> Inr (Spinning, s')"
      if "keeps_core s s2" for s2
      using Suc.IH [of d' s2 "(i + 1) mod NPROC"] Suc.prems d that by (simp add: keeps_core_def)
    show ?thesis
    proof
      assume "schedule_loop (Suc n) i spins L s = Inr (Spinning, s')"
      with False show False by (cases rule: schedule_loop_step) (use IH in auto)
    qed
  qed
qed simp

lemma poll_keyboard_returns: "\<exists>c k ds. poll_keyboard s = Inr (c, s\<lparr>keys := k, key_polls := ds\<rparr>)"
proof -
  obtain d ds where p: "(case key_polls s of [] \<Rightarrow> (None, []) | d # ds \<Rightarrow> (d, ds)) = (d, ds)" by (rule prod.exhaust)
  obtain c k where "keyboard_readc d (keys s) = Inr (c, k)" using keyboard_readc_total by blast
  then show ?thesis using p by (auto simp: poll_keyboard_def res_simps)
qed

lemma check_keyboard_returns:
  "(\<exists>out s1. check_keyboard L s = Inr (Inr out, s1)) \<or> (\<exists>c k ds. check_keyboard L s = Inr (Inl c, s\<lparr>keys := k, key_polls := ds\<rparr>))"
proof -
  obtain c k ds where p: "poll_keyboard s = Inr (c, s\<lparr>keys := k, key_polls := ds\<rparr>)"
    using poll_keyboard_returns by blast
  show ?thesis unfolding check_keyboard_def p
    by (cases "c = 97 \<or> c = 102 \<or> c = 49 \<or> c = 50 \<or> c = 112 \<or> c = 115"; cases "c = 3 \<or> c = 113") (simp_all, blast+)
qed

lemma check_pagetable_mem: "mem s1 = mem s \<Longrightarrow> check_pagetable L pt s1 = check_pagetable L pt s"
  by (simp add: check_pagetable_def vm_pa_at_def)

text \<open>The memory viewer is not reached when the runnable process is less than 4096 rounds away.\<close>

lemma schedule_loop_returns:
  "0 < d \<Longrightarrow> d \<le> n \<Longrightarrow> unat spins + d \<le> 0x1000 \<Longrightarrow> 0 < unat spins \<Longrightarrow>
   pstate (ptable s ! ((i + d) mod NPROC)) = P_RUNNABLE \<Longrightarrow>
   (\<And>j. j < NPROC \<Longrightarrow> pstate (ptable s ! j) = P_RUNNABLE \<Longrightarrow> check_pagetable L (pagetable (ptable s ! j)) s = Inr ()) \<Longrightarrow>
   \<exists>out s'. schedule_loop n i spins L s = Inr (out, s')"
proof (induction n arbitrary: i d spins s)
  case (Suc n)
  let ?j = "(i + 1) mod NPROC"
  show ?case
  proof (cases "pstate (ptable s ! ?j) = P_RUNNABLE")
    case True
    have "?j < NPROC" by (simp add: NPROC_def)
    with Suc.prems(6) True have "check_pagetable L (pagetable (ptable s ! ?j)) s = Inr ()" by blast
    then have "check_pagetable L (pagetable (ptable s ! ?j)) (s\<lparr>current := ?j\<rparr>) = Inr ()"
      using check_pagetable_mem [of "s\<lparr>current := ?j\<rparr>" s] by simp
    then show ?thesis using True by (simp add: run_def Let_def)
  next
    case False
    then obtain d' where d: "d = Suc d'" "0 < d'" using Suc.prems by (cases d; cases "d = 1") auto
    have j: "(?j + d') mod NPROC = (i + d) mod NPROC" using d by (simp add: mod_add_left_eq)
    have sp: "unat (spins + 1) = unat spins + 1" using Suc.prems(3) by (subst unat_plus_simple [THEN iffD1]) (auto simp: word_le_nat_alt unat_word_ariths)
    have "unat (spins mod 0x1000) = unat spins" using Suc.prems(3) d by (simp add: unat_mod)
    then have "spins mod 0x1000 \<noteq> 0" using Suc.prems(4) by (metis less_irrefl unsigned_0)
    then have step: "schedule_loop (Suc n) i spins L s =
        bind_res (check_keyboard L s) (\<lambda>(k, s1). case k of Inr out \<Rightarrow> Inr (out, s1) | Inl c \<Rightarrow> schedule_loop n ?j (spins + 1) L s1)"
      using False by (simp add: Let_def bind_res_def split: sum.splits)
    have IH: "\<exists>out s'. schedule_loop n ?j (spins + 1) L (s\<lparr>keys := k, key_polls := ds\<rparr>) = Inr (out, s')" for k ds
      using Suc.IH [of d' "spins + 1" "s\<lparr>keys := k, key_polls := ds\<rparr>" ?j] Suc.prems d j sp
        check_pagetable_mem [of "s\<lparr>keys := k, key_polls := ds\<rparr>" s L] by simp
    show ?thesis using check_keyboard_returns [of L s] IH unfolding step by (auto simp: res_simps)
  qed
qed simp


lemma next_runnable_turns:
  assumes "next_runnable pt i j" "i < NPROC" "q < NPROC" "pstate (pt ! q) = P_RUNNABLE"
  shows "j = q \<or> turns j q < turns i q"
proof -
  obtain d where d: "0 < d" "j = (i + d) mod NPROC"
      "\<And>e. 0 < e \<Longrightarrow> e < d \<Longrightarrow> pstate (pt ! ((i + e) mod NPROC)) \<noteq> P_RUNNABLE"
    using assms(1) by (auto simp: next_runnable_def)
  have t: "0 < turns i q" "turns i q \<le> NPROC" using assms(2,3) by (auto simp: turns_def)
  have "(i + turns i q) mod NPROC = q" using assms(2,3) by (auto simp: turns_def)
  then have "\<not> turns i q < d" using d(3) [of "turns i q"] t assms(4) by auto
  then have dt: "d \<le> turns i q" by simp
  have "j = (if i + d < NPROC then i + d else i + d - NPROC)"
    using d(2) dt t(2) assms(2) by (auto simp: le_mod_geq)
  then show ?thesis using d(1) dt assms(2,3) unfolding turns_def by (simp split: if_splits) arith+
qed

subsection \<open>The invariant\<close>

lemma kernel_ok_core: "keeps_core s s' \<Longrightarrow> kernel_ok s' = kernel_ok s"
  by (simp add: kernel_ok_def keeps_core_def)

lemma kernel_ok_set_proc:
  assumes "kernel_ok s" "i < NPROC" "0 < i" "\<And>p. pid (f p) = pid p"
  shows "kernel_ok (set_proc i f s)"
  using assms by (auto simp: kernel_ok_def set_proc_def nth_list_update)

lemma kernel_ok_pid: "kernel_ok s \<Longrightarrow> i < NPROC \<Longrightarrow> pid (ptable s ! i) = int i"
  by (simp add: kernel_ok_def)

lemma kernel_ok_current: "kernel_ok s \<Longrightarrow> 0 < current s \<and> current s < NPROC"
  by (simp add: kernel_ok_def)

lemma runs_current_cong: "current s1 = current s \<Longrightarrow> runs_current s1 out s' = runs_current s out s'"
  by (simp add: runs_current_def split: outcome.split)

lemma schedule_ok:
  assumes "kernel_ok s" "schedule n L s = Inr (out, s')"
  shows "resets out \<or> kernel_ok s' \<and> runs_current s0 out s' \<and> ptable s' = ptable s
    \<and> pipebuf s' = pipebuf s \<and> pipebuf_len s' = pipebuf_len s \<and> (\<forall>v. out \<noteq> Return v)"
proof -
  have "schedule_loop n (current s) 1 L s = Inr (out, s')"
    using assms kernel_ok_pid [of s "current s"] by (simp add: schedule_def kernel_ok_def)
  from schedule_loop_spec [OF this] show ?thesis
  proof (elim disjE exE conjE)
    fix j s1 assume j: "out = Resume j" "keeps_core s s1" "s' = s1\<lparr>current := j\<rparr>"
      "next_runnable (ptable s) (current s) j"
    then have "pstate (ptable s ! j) = P_RUNNABLE" "j < NPROC" by (auto simp: next_runnable_def NPROC_def)
    moreover from this have "j \<noteq> 0" using assms(1) by (cases j) (auto simp: kernel_ok_def)
    ultimately show ?thesis using j assms(1) by (auto simp: kernel_ok_def runs_current_def keeps_core_def)
  qed (use assms(1) kernel_ok_core in \<open>auto simp: runs_current_def resets_def keeps_core_def\<close>)
qed

lemma syscall_dispatch_ok:
  assumes ok: "kernel_ok s" and run: "syscall_dispatch n L r s = Inr (out, s')"
  shows "resets out \<or> kernel_ok s' \<and> runs_current s out s'"
proof (cases "reg_rax r = SYSCALL_YIELD")
  case True
  let ?s = "set_proc (current s) (\<lambda>p. p\<lparr>regs := (regs p)\<lparr>reg_rax := 0\<rparr>\<rparr>) s"
  have "kernel_ok ?s" using ok by (intro kernel_ok_set_proc) (auto simp: kernel_ok_def)
  then show ?thesis using schedule_ok [of ?s n L out s' s] run True
    by (auto simp: syscall_dispatch_def syscall_consts)
next
  case False
  then show ?thesis using run ok
    by (auto simp: syscall_dispatch_def syscall_page_alloc_def claim_at_def syscall_spawn_def
        syscall_pipewrite_def syscall_piperead_def syscall_getsysname_def user_panic_def runs_current_def kernel_ok_def
        res_simps split: if_splits)
qed

text \<open>Entering the kernel saves the registers and keeps the rest, unless a key stops the machine.\<close>

lemma syscall_enter:
  assumes "syscall n L r s = Inr (out, s')" "\<not> resets out"
  obtains s1 where "keeps_core (set_proc (current s) (\<lambda>p. p\<lparr>regs := r\<rparr>) s) s1"
    "syscall_dispatch n L r s1 = Inr (out, s')"
proof -
  let ?s = "set_proc (current s) (\<lambda>p. p\<lparr>regs := r\<rparr>) s"
  from assms(1) obtain s3 k s4 where k: "memshow L (console_show_cursor (cursorpos ?s) ?s) = Inr s3"
      "check_keyboard L s3 = Inr (k, s4)"
      "(case k of Inr out \<Rightarrow> Inr (out, s4) | Inl c \<Rightarrow> syscall_dispatch n L r s4) = Inr (out, s')"
    by (auto simp: syscall_def Let_def res_simps)
  from k(2,3) assms(2) obtain c where c: "k = Inl c" "syscall_dispatch n L r s4 = Inr (out, s')"
    by (cases k) (auto simp: check_keyboard_def res_simps resets_def split: if_splits)
  have "keeps_core ?s (console_show_cursor (cursorpos ?s) ?s)" by (rule keeps_core_screen) simp
  with k(1,2) c show thesis using that by (meson memshow_core check_keyboard_core keeps_core_trans)
qed

lemma exception_enter:
  assumes "exception n L a r s = Inr (out, s')" "\<not> resets out"
  obtains s1 where "keeps_core (set_proc (current s) (\<lambda>p. p\<lparr>regs := r\<rparr>) s) s1"
    "exception_dispatch n L a r s1 = Inr (out, s')"
proof -
  let ?s = "set_proc (current s) (\<lambda>p. p\<lparr>regs := r\<rparr>) s"
  let ?c = "console_show_cursor (cursorpos ?s) ?s"
  from assms(1) obtain s3 k s4 where k: "(if reg_intno r \<noteq> INT_PF \<or> reg_errcode r AND PTE_U \<noteq> 0
        then memshow L ?c else Inr ?c) = Inr s3" "check_keyboard L s3 = Inr (k, s4)"
      "(case k of Inr out \<Rightarrow> Inr (out, s4) | Inl c \<Rightarrow> exception_dispatch n L a r s4) = Inr (out, s')"
    by (auto simp: exception_def Let_def res_simps)
  from k(2,3) assms(2) obtain c where c: "k = Inl c" "exception_dispatch n L a r s4 = Inr (out, s')"
    by (cases k) (auto simp: check_keyboard_def res_simps resets_def split: if_splits)
  have "keeps_core ?s ?c" by (rule keeps_core_screen) simp
  moreover have "keeps_core ?c s3" using k(1) memshow_core by (auto split: if_splits)
  ultimately show thesis using that k(2) c by (meson check_keyboard_core keeps_core_trans)
qed

lemma entry_ok:
  "kernel_ok s \<Longrightarrow> keeps_core (set_proc (current s) (\<lambda>p. p\<lparr>regs := r\<rparr>) s) s1 \<Longrightarrow>
   kernel_ok s1 \<and> current s1 = current s \<and> pipebuf s1 = pipebuf s \<and> pipebuf_len s1 = pipebuf_len s"
  using kernel_ok_core kernel_ok_set_proc [of s "current s" "\<lambda>p. p\<lparr>regs := r\<rparr>"]
  by (auto simp: kernel_ok_def keeps_core_def set_proc_def)

lemma page_fault_spec:
  assumes "page_fault a s = Inr s'"
  obtains s1 where "keeps_core s s1" "s' = set_proc (current s) (\<lambda>p. p\<lparr>pstate := P_FAULTED\<rparr>) s1"
    "reg_errcode (regs (ptable s ! current s)) AND PTE_U \<noteq> 0"
  using assms by (auto simp: page_fault_def Let_def res_simps keeps_core_def dest!: error_vprintf_core)

lemma exception_dispatch_ok:
  assumes ok: "kernel_ok s" and run: "exception_dispatch n L a r s = Inr (out, s')"
  shows "resets out \<or> kernel_ok s' \<and> runs_current s out s' \<and> (\<forall>v. out \<noteq> Return v)
    \<and> pipebuf s' = pipebuf s \<and> pipebuf_len s' = pipebuf_len s"
proof (cases "reg_intno r = INT_IRQ + IRQ_TIMER")
  case True
  let ?s = "lapic_ack (s\<lparr>ticks := ticks s + 1\<rparr>)"
  have "kernel_ok ?s" using ok by (simp add: kernel_ok_def lapic_ack_def lapic_write_def)
  then show ?thesis using schedule_ok [of ?s n L out s' s] run True
    by (auto simp: exception_dispatch_def lapic_ack_def lapic_write_def)
next
  case False
  with run obtain s5 where s5: "page_fault a s = Inr s5"
      "(if pstate (ptable s5 ! current s5) = P_RUNNABLE then run L (current s5) s5
        else schedule n L s5) = Inr (out, s')"
    by (auto simp: exception_dispatch_def res_simps split: if_splits)
  then obtain s1 where s1: "keeps_core s s1" "s5 = set_proc (current s) (\<lambda>p. p\<lparr>pstate := P_FAULTED\<rparr>) s1"
    using page_fault_spec by metis
  then have ok5: "kernel_ok s5" using ok kernel_ok_core [OF s1(1)] kernel_ok_current [OF ok]
    by (simp add: kernel_ok_set_proc)
  have "pstate (ptable s5 ! current s5) = P_FAULTED" using s1 ok5
    by (simp add: set_proc_def keeps_core_def kernel_ok_def)
  then show ?thesis using schedule_ok [OF ok5, of n L out s' s] s5(2) s1
    by (auto simp: set_proc_def keeps_core_def)
qed

text \<open>
  C7: Every exception and every system call that returns keeps the kernel invariant (16 process slots
  with their own numbers, slot 0 free, a current process, a pipe of at most one byte), and when it
  resumes a process that process is runnable and current. System calls use the pointers of their
  callers unchecked: one whose pointer is not mapped panics, and one whose pointer reaches the
  kernel's own data or the console page, where the program could break this invariant, ends the
  model and is not among the calls that return.
\<close>
theorem kernel_keeps_invariant:
  assumes "kernel_ok s"
    and "syscall n L r s = Inr (out, s') \<or> exception n L a r s = Inr (out, s')" and "\<not> resets out"
  shows "kernel_ok s' \<and> runs_current s out s'"
  using assms(2)
proof
  assume "syscall n L r s = Inr (out, s')"
  then obtain s1 where "keeps_core (set_proc (current s) (\<lambda>p. p\<lparr>regs := r\<rparr>) s) s1"
      "syscall_dispatch n L r s1 = Inr (out, s')" using assms(3) by (rule syscall_enter)
  then show ?thesis using entry_ok [OF assms(1)] syscall_dispatch_ok [of s1] runs_current_cong assms(3)
    by blast
next
  assume "exception n L a r s = Inr (out, s')"
  then obtain s1 where "keeps_core (set_proc (current s) (\<lambda>p. p\<lparr>regs := r\<rparr>) s) s1"
      "exception_dispatch n L a r s1 = Inr (out, s')" using assms(3) by (rule exception_enter)
  then show ?thesis using entry_ok [OF assms(1)] exception_dispatch_ok [of s1] runs_current_cong assms(3)
    by blast
qed

subsection \<open>The pipe\<close>

locale fifo_channel =
  fixes inv :: "'s \<Rightarrow> bool" and content :: "'s \<Rightarrow> 'b list"
    and step :: "'s \<Rightarrow> 'b list \<Rightarrow> 'b list \<Rightarrow> 's \<Rightarrow> bool"
  assumes step_inv: "inv s \<Longrightarrow> step s i out s' \<Longrightarrow> inv s'"
    and step_content: "inv s \<Longrightarrow> step s i out s' \<Longrightarrow> content s @ i = out @ content s'"
begin

lemma run_inv: "channel_run step s0 w r s \<Longrightarrow> inv s0 \<Longrightarrow> inv s"
  by (induction rule: channel_run.induct) (auto intro: step_inv)

lemma run_fifo: "channel_run step s0 w r s \<Longrightarrow> inv s0 \<Longrightarrow> content s0 @ w = r @ content s"
proof (induction rule: channel_run.induct)
  case (more w r s i out s')
  then have "inv s" using run_inv by blast
  with more step_content show ?case by (metis append.assoc)
qed simp

end

lemma word_le_1_cases: "(x :: u64) \<le> 1 \<Longrightarrow> x = 0 \<or> x = 1"
proof -
  assume "x \<le> 1"
  then have "unat x = 0 \<or> unat x = unat (1 :: u64)" by (simp add: word_le_nat_alt) arith
  then show ?thesis by (simp only: word_unat_eq_iff [symmetric] unat_eq_zero)
qed

lemma syscall_dispatch_pipe:
  assumes ok: "kernel_ok s" and run: "syscall_dispatch n L r s = Inr (out, s')" and nr: "\<not> resets out"
  shows "pipe_content s @ sent r out s' = received r out s' @ pipe_content s'"
proof (cases "reg_rax r = SYSCALL_YIELD")
  case True
  let ?s = "set_proc (current s) (\<lambda>p. p\<lparr>regs := (regs p)\<lparr>reg_rax := 0\<rparr>\<rparr>) s"
  have "kernel_ok ?s" using ok kernel_ok_current [OF ok] by (simp add: kernel_ok_set_proc)
  then show ?thesis using schedule_ok [of ?s n L out s' s] run True nr
    by (auto simp: syscall_dispatch_def syscall_consts pipe_content_def sent_def received_def set_proc_def)
next
  case False
  have "pipebuf_len s = 0 \<or> pipebuf_len s = 1" using ok
    using word_le_1_cases [of "pipebuf_len s"] by (simp add: kernel_ok_def)
  then show ?thesis using False run
    by (auto simp: syscall_dispatch_def syscall_page_alloc_def claim_at_def syscall_spawn_def
        syscall_pipewrite_def syscall_piperead_def syscall_getsysname_def user_panic_def pipe_content_def sent_def received_def
        syscall_consts res_simps split: if_splits)
qed

lemma kernel_step_pipe:
  assumes ok: "kernel_ok s" and st: "kernel_step n L s i out s'"
  shows "kernel_ok s' \<and> pipe_content s @ i = out @ pipe_content s'"
  using st
proof cases
  case (user m c p t ks)
  then show ?thesis using ok by (simp add: kernel_ok_def pipe_content_def)
next
  case (call r o')
  then obtain s1 where s1: "keeps_core (set_proc (current s) (\<lambda>p. p\<lparr>regs := r\<rparr>) s) s1"
      "syscall_dispatch n L r s1 = Inr (o', s')" by (metis syscall_enter)
  then have "pipe_content s1 = pipe_content s" "kernel_ok s1"
    using entry_ok [OF ok s1(1)] by (simp_all add: pipe_content_def)
  then show ?thesis using syscall_dispatch_pipe [OF _ s1(2)] syscall_dispatch_ok [OF _ s1(2)] call by auto
next
  case (trap a r o')
  then obtain s1 where s1: "keeps_core (set_proc (current s) (\<lambda>p. p\<lparr>regs := r\<rparr>) s) s1"
      "exception_dispatch n L a r s1 = Inr (o', s')" by (metis exception_enter)
  then show ?thesis using entry_ok [OF ok s1(1)] exception_dispatch_ok [OF _ s1(2)] trap
    by (simp add: pipe_content_def)
qed

interpretation pipe: fifo_channel kernel_ok pipe_content "kernel_step n L"
  by unfold_locales (auto dest: kernel_step_pipe)

text \<open>
  C8: Over any interleaving of user steps, system calls and exceptions that return, from a state with
  an empty pipe, the bytes successfully written are the bytes successfully read followed by the at
  most one byte still in the pipe. User steps may change all memory outside the kernel and the
  whole console page; a system call whose pointer reaches the kernel's own data (and so might
  overwrite the pipe buffer) is not among those that return.
\<close>
theorem pipe_fifo:
  assumes "kernel_ok s0" "pipebuf_len s0 = 0" "channel_run (kernel_step n L) s0 w r s"
  shows "w = r @ pipe_content s \<and> length w \<le> length r + 1 \<and> kernel_ok s"
  using pipe.run_fifo [OF assms(3,1)] pipe.run_inv [OF assms(3,1)] assms(2)
  by (auto simp: pipe_content_def split: if_splits)

text \<open>
  C13: When some process is runnable and the page tables of the runnable processes pass the check that
  precedes a resume, the scheduler returns: unless a key resets the machine it resumes the first
  runnable process after the current one in cyclic order, and every runnable process gets strictly
  closer to its turn.
\<close>
theorem schedule_round_robin:
  assumes ok: "kernel_ok s" and n: "NPROC \<le> n" and q: "q < NPROC" "pstate (ptable s ! q) = P_RUNNABLE"
    and tables: "\<And>i. i < NPROC \<Longrightarrow> pstate (ptable s ! i) = P_RUNNABLE \<Longrightarrow> check_pagetable L (pagetable (ptable s ! i)) s = Inr ()"
  shows "\<exists>out s'. schedule n L s = Inr (out, s')
    \<and> (resets out \<or> (\<exists>j. out = Resume j \<and> next_runnable (ptable s) (current s) j \<and> current s' = j
         \<and> ptable s' = ptable s \<and> (j = q \<or> turns j q < turns (current s) q)))"
proof -
  have cur: "current s < NPROC" using kernel_ok_current [OF ok] by simp
  let ?d = "turns (current s) q"
  have d: "(current s + ?d) mod NPROC = q" "0 < ?d" "?d \<le> n" "?d \<le> NPROC"
    using cur q(1) n by (auto simp: turns_def)
  have sched: "schedule n L s = schedule_loop n (current s) 1 L s"
    using kernel_ok_pid [OF ok cur] by (simp add: schedule_def)
  obtain out s' where loop: "schedule_loop n (current s) 1 L s = Inr (out, s')"
    using schedule_loop_returns [of ?d n 1 s "current s" L] d q(2) tables by (auto simp: NPROC_def)
  have "out \<noteq> Spinning" using schedule_loop_runs [of ?d n s "current s" 1 L s'] d q(2) loop by auto
  then have "resets out \<or> (\<exists>j s1. out = Resume j \<and> keeps_core s s1 \<and> s' = s1\<lparr>current := j\<rparr>
      \<and> next_runnable (ptable s) (current s) j)"
    using schedule_loop_spec [OF loop] by (auto simp: resets_def)
  then show ?thesis
  proof
    assume "\<exists>j s1. out = Resume j \<and> keeps_core s s1 \<and> s' = s1\<lparr>current := j\<rparr> \<and> next_runnable (ptable s) (current s) j"
    then obtain j s1 where "out = Resume j" "keeps_core s s1" "s' = s1\<lparr>current := j\<rparr>"
      "next_runnable (ptable s) (current s) j" by blast
    then show ?thesis using next_runnable_turns [OF _ cur q, of j] loop sched by (simp add: keeps_core_def)
  qed (use loop sched in simp)
qed

text \<open>
  C12: A page fault that does not stop the kernel came from user mode, marks exactly the faulting
  process as faulted, leaves every other process as it was and does not resume the faulting
  process.
\<close>
theorem page_fault_isolated:
  assumes ok: "kernel_ok s" and pf: "reg_intno r = INT_PF"
    and run: "exception n L a r s = Inr (out, s')" and nr: "\<not> resets out"
  shows "reg_errcode r AND PTE_U \<noteq> 0 \<and> out \<noteq> Resume (current s)
    \<and> ptable s' = (ptable s)[current s := (ptable s ! current s)\<lparr>regs := r, pstate := P_FAULTED\<rparr>]"
proof -
  have cur: "current s < length (ptable s)" using ok by (simp add: kernel_ok_def)
  obtain s1 where s1: "keeps_core (set_proc (current s) (\<lambda>p. p\<lparr>regs := r\<rparr>) s) s1"
      "exception_dispatch n L a r s1 = Inr (out, s')" using run nr by (rule exception_enter)
  then have p1: "current s1 = current s"
      "ptable s1 = (ptable s)[current s := (ptable s ! current s)\<lparr>regs := r\<rparr>]" "kernel_ok s1"
    using entry_ok [OF ok s1(1)] by (simp_all add: keeps_core_def set_proc_def)
  from s1(2) pf obtain s5 where s5: "page_fault a s1 = Inr s5"
      "(if pstate (ptable s5 ! current s5) = P_RUNNABLE then run L (current s5) s5
        else schedule n L s5) = Inr (out, s')"
    by (auto simp: exception_dispatch_def res_simps INT_PF_def INT_IRQ_def IRQ_TIMER_def)
  then obtain s2 where s2: "keeps_core s1 s2"
      "s5 = set_proc (current s1) (\<lambda>p. p\<lparr>pstate := P_FAULTED\<rparr>) s2"
      "reg_errcode (regs (ptable s1 ! current s1)) AND PTE_U \<noteq> 0" using page_fault_spec by metis
  then have t5: "ptable s5 = (ptable s)[current s := (ptable s ! current s)\<lparr>regs := r, pstate := P_FAULTED\<rparr>]"
      "current s5 = current s"
    using p1 cur by (simp_all add: set_proc_def keeps_core_def)
  have ok5: "kernel_ok s5" using s2(2) p1 kernel_ok_core [OF s2(1)] kernel_ok_current [OF p1(3)]
    by (simp add: kernel_ok_set_proc)
  have "schedule n L s5 = Inr (out, s')" using s5(2) t5 cur by simp
  from schedule_ok [OF ok5 this, of s] have "ptable s' = ptable s5" "runs_current s out s'" using nr by auto
  then show ?thesis using t5 s2(3) p1 cur by (auto simp: runs_current_def)
qed

subsection \<open>A concrete machine\<close>

text \<open>The page table is the one of the boot loader: the first gigabyte mapped to itself.\<close>

definition demo_map_mem :: memory where
  "demo_map_mem = (\<lambda>_. 0)(0x1000 := 3, 0x1001 := 0x20, 0x2000 := 0x83, 0x140000 := 65)"

definition demo_klink :: link where
  "demo_klink = demo_link\<lparr>kernel_pagetable := 0x1000\<rparr>"

definition demo_kernel :: kstate where
  "demo_kernel =
     \<lparr>console = replicate 2000 0, cursorpos = 0, ports = [], mem = demo_map_mem,
      physpages = replicate 512 0, next_alloc_pa = 0,
      ptable = map (\<lambda>i. \<lparr>pagetable = 0x1000, pid = int i,
                 pstate = (if i = 1 \<or> i = 2 then P_RUNNABLE else P_FREE), regs = zero_regs\<rparr>) [0..<16],
      current = 1, show_memory = False, pipebuf = 0, pipebuf_len = 0, ticks = 1, last_ticks = 0,
      showing = 0, keys = \<lparr>modifiers = 0, last_escape = 0\<rparr>, key_polls = [], pp_initialized = True,
      lapic_writes = [], cr3 = 0x1000, mu_v = None\<rparr>"

definition demo_call :: "u64 \<Rightarrow> regstate" where
  "demo_call nr = zero_regs\<lparr>reg_rax := nr, reg_rdi := 0x140000, reg_rsi := 1\<rparr>"

lemma demo_kernel_ok: "kernel_ok demo_kernel"
  by (simp add: kernel_ok_def demo_kernel_def NPROC_def)

lemma demo_kernel_data: "kernel_data demo_klink a \<longleftrightarrow> 0x40000 \<le> a \<and> a < 0x60000
    \<or> 0x7F000 \<le> a \<and> a < 0x80000 \<or> 0xB8000 \<le> a \<and> a < 0xB9000 \<or> 0x40000000 \<le> a"
  by (simp add: kernel_data_def phys_consts demo_klink_def demo_link_def round_up_def round_down_def)

lemma demo_pointer: "user_access demo_klink 0x140000 1 r = r" "user_access demo_klink 0x150000 13 r = r"
  by (simp_all add: user_access_def reaches_def kernel_mapped_def demo_kernel_data upt_rec)

lemma demo_write: "\<exists>s'. syscall 16 demo_klink (demo_call SYSCALL_PIPEWRITE) demo_kernel = Inr (Return 1, s')
   \<and> mem s' 0x140000 = 65"
  by (simp add: syscall_def syscall_dispatch_def demo_call_def syscall_consts demo_kernel_def memshow_def
      check_keyboard_def poll_keyboard_def keyboard_readc_def syscall_pipewrite_def set_proc_def
      console_show_cursor_def outb_def Let_def zero_regs_def demo_map_mem_def demo_pointer [simplified])

lemma demo_map_loads: "load64 demo_map_mem 0x1000 = 0x2003" "load64 demo_map_mem 0x2000 = 0x83"
  by (simp_all add: demo_map_mem_def load64_bytes)

lemma demo_check: "mem s = demo_map_mem \<Longrightarrow> check_pagetable demo_klink 0x1000 s = Inr ()"
  by (simp add: check_pagetable_def vm_pa_at_def vmiter_new_def real_find_def vm_down_def demo_map_loads
      walk_eval initial_perm_def perm_restrict_def vm_pa_def demo_klink_def demo_link_def PAGESIZE_def)

lemma demo_ptable: "length (ptable demo_kernel) = 16"
  "i < 16 \<Longrightarrow> ptable demo_kernel ! i = \<lparr>pagetable = 0x1000, pid = int i,
     pstate = (if i = 1 \<or> i = 2 then P_RUNNABLE else P_FREE), regs = zero_regs\<rparr>"
  by (simp_all add: demo_kernel_def)

lemma demo_run2:
  "mem s = demo_map_mem \<Longrightarrow> pstate (ptable s ! 2) = P_RUNNABLE \<Longrightarrow> pagetable (ptable s ! 2) = 0x1000 \<Longrightarrow>
   pid (ptable s ! current s) = 1 \<Longrightarrow> schedule (Suc n) demo_klink s = Inr (Resume 2, s\<lparr>current := 2\<rparr>)"
  by (simp add: schedule_def Let_def run_def demo_check NPROC_def numeral_2_eq_2)

theorem schedule_round_robin_witness:
  "\<exists>j s'. schedule 16 demo_klink demo_kernel = Inr (Resume j, s') \<and> (j = 1 \<or> turns j 1 < turns 1 1)"
proof -
  have run: "schedule 16 demo_klink demo_kernel = Inr (Resume 2, demo_kernel\<lparr>current := 2\<rparr>)"
    using demo_run2 [of demo_kernel 15] demo_ptable(2) [of 1] demo_ptable(2) [of 2]
    by (simp add: demo_kernel_def)
  have nr: "\<not> resets (Resume 2)" by (simp add: resets_def)
  have "check_pagetable demo_klink (pagetable (ptable demo_kernel ! i)) demo_kernel = Inr ()" if "i < NPROC" for i
    using demo_check [of demo_kernel] demo_ptable(2) [of i] that by (simp add: NPROC_def demo_kernel_def)
  then obtain out s' where "schedule 16 demo_klink demo_kernel = Inr (out, s')"
     "resets out \<or> (\<exists>j. out = Resume j \<and> (j = 1 \<or> turns j 1 < turns (current demo_kernel) 1))"
    using schedule_round_robin [OF demo_kernel_ok, of 16 1 demo_klink] by (auto simp: demo_ptable NPROC_def)
  then show ?thesis using run nr by (auto simp: demo_kernel_def)
qed

theorem kernel_keeps_invariant_witness:
  "\<exists>s'. syscall 16 demo_klink (demo_call SYSCALL_PIPEWRITE) demo_kernel = Inr (Return 1, s') \<and> kernel_ok s'"
proof -
  obtain s' where s': "syscall 16 demo_klink (demo_call SYSCALL_PIPEWRITE) demo_kernel = Inr (Return 1, s')"
    using demo_write by blast
  have "\<not> resets (Return 1)" by (simp add: resets_def)
  with kernel_keeps_invariant [OF demo_kernel_ok disjI1 [OF s']] s' show ?thesis by blast
qed

theorem pipe_fifo_witness:
  "\<exists>s. channel_run (kernel_step 16 demo_klink) demo_kernel [65] [] s \<and> pipe_content s = [65]"
proof -
  obtain s' where s': "syscall 16 demo_klink (demo_call SYSCALL_PIPEWRITE) demo_kernel = Inr (Return 1, s')"
      "mem s' 0x140000 = 65" using demo_write by blast
  have "kernel_step 16 demo_klink demo_kernel [65] [] s'"
    using call [OF s'(1)] s'(2)
    by (simp add: resets_def sent_def received_def demo_call_def syscall_consts)
  then have run: "channel_run (kernel_step 16 demo_klink) demo_kernel [65] [] s'"
    using more [OF start, of "kernel_step 16 demo_klink" demo_kernel "[65]" "[]" s'] by simp
  have "pipebuf_len demo_kernel = 0" by (simp add: demo_kernel_def)
  from pipe_fifo [OF demo_kernel_ok this run] run show ?thesis by auto
qed

lemma page_fault_message: "\<exists>out. vprintf col (ascii ''Process %d page fault on %p (%s %s, rip=%p)!\<newline>'')
     [VNum p, VNum a, VStr s1, VStr s2, VNum i] = Inr out"
  by (simp add: vprintf_match)

lemma page_fault_total:
  assumes "screen_ok s" "reg_errcode (regs (ptable s ! current s)) AND PTE_U \<noteq> 0"
  shows "\<exists>s'. page_fault a s = Inr s' \<and> mem s' = mem s"
proof -
  let ?fmt = "ascii ''Process %d page fault on %p (%s %s, rip=%p)!\<newline>''"
  let ?p = "ptable s ! current s"
  let ?r = "regs ?p"
  let ?args = "[VNum (of_int (pid ?p)), VNum a,
     VStr (ascii (if reg_errcode ?r AND PTE_W \<noteq> 0 then ''write'' else ''read'')),
     VStr (ascii (if reg_errcode ?r AND PTE_P \<noteq> 0 then ''protection problem'' else ''missing page'')),
     VNum (reg_rip ?r)]"
  obtain pos s1 where s1: "error_vprintf (CPOS 24 0) 0x0C00 ?fmt ?args s = Inr (pos, s1)" "mem s1 = mem s"
    using page_fault_message error_vprintf_total [OF assms(1)] by meson
  have "page_fault a s = Inr (set_proc (current s1) (\<lambda>p. p\<lparr>pstate := P_FAULTED\<rparr>) s1)"
    unfolding page_fault_def Let_def s1(1) using assms(2) by (simp only: check_True bind_res_Inr prod.case not_False_eq_True)
  then show ?thesis using s1(2) by simp
qed

definition demo_fault :: regstate where
  "demo_fault = zero_regs\<lparr>reg_intno := 14, reg_errcode := 4\<rparr>"

theorem page_fault_isolated_witness:
  "\<exists>s'. exception 16 demo_klink 0x300000 demo_fault demo_kernel = Inr (Resume 2, s')
    \<and> pstate (ptable s' ! 1) = P_FAULTED \<and> pstate (ptable s' ! 2) = P_RUNNABLE"
proof -
  let ?s = "console_show_cursor 0 (set_proc 1 (\<lambda>p. p\<lparr>regs := demo_fault\<rparr>) demo_kernel)"
  have cur: "current ?s = 1" "mem ?s = demo_map_mem" "screen_ok ?s" "show_memory ?s = False"
      "key_polls ?s = []" "current demo_kernel = 1" "cursorpos (set_proc 1 f demo_kernel) = 0"
      "?s\<lparr>key_polls := []\<rparr> = ?s" for f
    by (simp_all add: demo_kernel_def set_proc_def console_show_cursor_def outb_def Let_def screen_ok_def)
  have pt: "ptable ?s = (ptable demo_kernel)[1 := (ptable demo_kernel ! 1)\<lparr>regs := demo_fault\<rparr>]"
    by (simp add: set_proc_def console_show_cursor_def outb_def Let_def)
  have "reg_errcode (regs (ptable ?s ! current ?s)) AND PTE_U \<noteq> 0"
    using pt cur(1) demo_ptable(1) by (simp add: demo_fault_def PTE_U_def)
  then obtain s1 where s1: "page_fault 0x300000 ?s = Inr s1" "mem s1 = demo_map_mem"
    using page_fault_total [OF cur(3)] cur(2) by metis
  have s1': "page_fault 0x300000 (?s\<lparr>key_polls := []\<rparr>) = Inr s1" using s1(1) by (simp only: cur(8))
  obtain s2 where s2: "keeps_core ?s s2" "s1 = set_proc 1 (\<lambda>p. p\<lparr>pstate := P_FAULTED\<rparr>) s2"
    using page_fault_spec [OF s1(1)] cur(1) by metis
  have t1: "ptable s1 = (ptable demo_kernel)[1 := (ptable demo_kernel ! 1)\<lparr>regs := demo_fault, pstate := P_FAULTED\<rparr>]"
      "current s1 = 1"
    using s2 pt cur(1) demo_ptable(1) by (simp_all add: keeps_core_def set_proc_def)
  have "schedule 16 demo_klink s1 = Inr (Resume 2, s1\<lparr>current := 2\<rparr>)"
    using demo_run2 [of s1 15] s1(2) t1 demo_ptable(2) [of 1] demo_ptable(2) [of 2] demo_ptable(1) by simp
  then have run: "exception 16 demo_klink 0x300000 demo_fault demo_kernel = Inr (Resume 2, s1\<lparr>current := 2\<rparr>)"
    using cur(1-7) s1' t1 demo_ptable(1)
    by (simp add: exception_def exception_dispatch_def memshow_def check_keyboard_def poll_keyboard_def
        keyboard_readc_def INT_PF_def INT_IRQ_def IRQ_TIMER_def demo_fault_def PTE_U_def Let_def)
  moreover have "\<not> resets (Resume 2)" "reg_intno demo_fault = INT_PF"
    by (simp_all add: resets_def demo_fault_def INT_PF_def)
  ultimately show ?thesis
    using page_fault_isolated [OF demo_kernel_ok _ run] cur(6) demo_ptable(1) demo_ptable(2) [of 2] by simp
qed
end
