(* ===== verification/KernelMap.thy ===== *)
theory KernelMap
  imports KernelInv
begin

text \<open>
  The address space the kernel builds for itself. \<open>ktable L m f\<close> describes the five pages at
  \<^verbatim>\<open>kernel_pagetable\<close>: the fixed entries that \<open>kernel_tables\<close> stores, and \<open>f\<close> for the 512 entries of the
  page that maps the first two megabytes. The identity-mapping loops of \<^verbatim>\<open>init_kernel_memory\<close> and
  \<^verbatim>\<open>kernel_start\<close> keep that description and set \<open>f\<close> to the permissions their bodies choose, so the
  translation of every one of the 2^64 addresses after the set-up part of \<^verbatim>\<open>kernel_start\<close>, before the first
  process is loaded, can be read off. \<^verbatim>\<open>process_setup\<close> adds user mappings to the same table later.
\<close>

subsection \<open>Specifications\<close>

text \<open>Where the linker script puts the kernel page table: page-aligned, between the kernel's load address and its stack.\<close>

definition link_ok :: "link \<Rightarrow> bool" where
  "link_ok L \<longleftrightarrow> aligned 4096 (kernel_pagetable L) \<and> 0x40000 \<le> unat (kernel_pagetable L)
     \<and> unat (kernel_pagetable L) + 0x5000 \<le> 0x80000"

text \<open>The entry \<open>j\<close> of page \<open>i\<close> of the kernel page table, with \<open>f\<close> for the entries of the lowest-level page.\<close>

definition kentry :: "link \<Rightarrow> (nat \<Rightarrow> u64) \<Rightarrow> nat \<Rightarrow> nat \<Rightarrow> u64" where
  "kentry L f i j =
     (if i = 3 then f j
      else if i = 0 \<and> j = 0 then kpt L 1 OR PTE_P OR PTE_W OR PTE_U
      else if i = 1 \<and> j = 0 then kpt L 2 OR PTE_P OR PTE_W OR PTE_U
      else if i = 2 \<and> j = 0 then kpt L 3 OR PTE_P OR PTE_W OR PTE_U
      else if i = 2 \<and> j = 1 then kpt L 4 OR PTE_P OR PTE_W OR PTE_U
      else if i = 1 \<and> 0 < j \<and> j < 4 then push_bit 30 (of_nat j) OR PTE_P OR PTE_W OR PTE_PS
      else 0)"

definition ktable :: "link \<Rightarrow> memory \<Rightarrow> (nat \<Rightarrow> u64) \<Rightarrow> bool" where
  "ktable L m f \<longleftrightarrow> (\<forall>i < 5. \<forall>j < 512. load64 m (entry_of (kpt L i) (of_nat j)) = kentry L f i j)"

text \<open>Entries of the lowest-level page only carry the address of their page and the low three permission bits.\<close>

definition low_entries :: "(nat \<Rightarrow> u64) \<Rightarrow> bool" where
  "low_entries f \<longleftrightarrow> (\<forall>i < 512. f i AND PTE_PAMASK < 0x100000000)"

definition page_va :: "nat \<Rightarrow> addr" where
  "page_va i = of_nat (4096 * i)"

text \<open>The entries after the loop body has run on the pages from \<open>i\<close> on.\<close>

definition apply_perms :: "(addr \<Rightarrow> u32 option) \<Rightarrow> nat \<Rightarrow> (nat \<Rightarrow> u64) \<Rightarrow> nat \<Rightarrow> u64" where
  "apply_perms g i f j = (if j < i then f j else case g (page_va j) of None \<Rightarrow> f j
     | Some p \<Rightarrow> page_va j OR scast p)"

definition low_perms :: "(addr \<Rightarrow> u32 option) \<Rightarrow> bool" where
  "low_perms g \<longleftrightarrow> (\<forall>va p. g va = Some p \<longrightarrow> p < 8)"

text \<open>Memory outside the lowest-level page is the same.\<close>

definition off_table :: "link \<Rightarrow> memory \<Rightarrow> memory \<Rightarrow> bool" where
  "off_table L m m' \<longleftrightarrow> (\<forall>b. 4096 \<le> unat (b - kpt L 3) \<longrightarrow> m' b = m b)"

text \<open>What the kernel asserts of the processor and of the interrupt controllers.\<close>

definition machine_ok :: "machine \<Rightarrow> bool" where
  "machine_ok hw \<longleftrightarrow> cpuid1_edx hw AND 0x200 \<noteq> 0 \<and> msr_apic_base hw AND 0x800 \<noteq> 0
     \<and> msr_apic_base hw AND 0xFFFFFFFFF000 = 0xFEE00000
     \<and> (ioapic_ver hw AND 0xFF = 0x11 \<or> ioapic_ver hw AND 0xFF = 0x20)
     \<and> drop_bit 16 (ioapic_ver hw) \<ge> 0x17"

text \<open>The entries after the loop of \<^verbatim>\<open>kernel_start\<close> that maps memory for the kernel.\<close>

definition setup_entry :: "nat \<Rightarrow> u64" where
  "setup_entry j = page_va j OR scast (if page_va j = CONSOLE_ADDR then 7 else if page_va j \<noteq> 0 then 3 else (0 :: u32))"

definition demo_machine :: machine where
  "demo_machine = \<lparr>cpuid1_edx = 0x200, msr_apic_base = 0xFEE00800, ioapic_ver = 0x170011, lapic_svr = 0\<rparr>"

subsection \<open>The pages of the table\<close>

lemma kpt_unat: "link_ok L \<Longrightarrow> i < 5 \<Longrightarrow> unat (kpt L i) = unat (kernel_pagetable L) + 4096 * i"
proof -
  assume L: "link_ok L" and i: "i < 5"
  have "unat (of_nat i * PAGESIZE) = 4096 * i"
    using i by (subst unat_mult64) (simp_all add: PAGESIZE_def unat_of_nat64)
  then show ?thesis using L i by (simp add: kpt_def link_ok_def unat_add64)
qed

lemma kpt_aligned: "link_ok L \<Longrightarrow> i < 5 \<Longrightarrow> aligned 4096 (kpt L i)"
  using kpt_unat [of L i] by (simp add: link_ok_def aligned_def)

lemma kpt_entry_unat:
  assumes "link_ok L" "i < 5" "j < 512"
  shows "unat (entry_of (kpt L i) (of_nat j)) = unat (kernel_pagetable L) + 4096 * i + 8 * j"
proof -
  have "of_nat j < (512 :: u64)" using assms(3) by (simp add: word_less_nat_alt unat_of_nat64)
  then show ?thesis
    using unat_entry_of [OF kpt_aligned [OF assms(1,2)]] kpt_unat [OF assms(1,2)] assms(3)
    by (simp add: unat_of_nat64)
qed

lemma kpt_entry_eq_iff:
  assumes "link_ok L" "i < 5" "j < 512" "i' < 5" "j' < 512"
  shows "entry_of (kpt L i) (of_nat j) = entry_of (kpt L i') (of_nat j') \<longleftrightarrow> i = i' \<and> j = j'"
proof -
  have "entry_of (kpt L i) (of_nat j) = entry_of (kpt L i') (of_nat j') \<longleftrightarrow> 4096 * i + 8 * j = 4096 * i' + 8 * j'"
    using assms by (simp add: word_unat_eq_iff kpt_entry_unat)
  moreover have "(4096 * i + 8 * j) div 4096 = i" "(4096 * i' + 8 * j') div 4096 = i'" using assms(3,5) by simp_all
  ultimately show ?thesis by (metis add_left_cancel mult_cancel1 zero_neq_numeral)
qed

lemma kpt_entry_aligned:
  assumes "link_ok L" "i < 5" "j < 512"
  shows "aligned 8 (entry_of (kpt L i) (of_nat j))"
proof -
  obtain k where "unat (kernel_pagetable L) = 4096 * k" using assms(1) by (auto simp: link_ok_def aligned_def)
  then have "unat (entry_of (kpt L i) (of_nat j)) = 8 * (512 * k + 512 * i + j)"
    using kpt_entry_unat [OF assms] by simp
  then show ?thesis by (simp add: aligned_def)
qed

lemma kpt_load_store:
  assumes "link_ok L" "i < 5" "j < 512" "i' < 5" "j' < 512"
  shows "load64 (store64 m (entry_of (kpt L i) (of_nat j)) v) (entry_of (kpt L i') (of_nat j')) =
    (if i = i' \<and> j = j' then v else load64 m (entry_of (kpt L i') (of_nat j')))"
  using load64_store64_other [OF kpt_entry_aligned [OF assms(1,2,3)] kpt_entry_aligned [OF assms(1,4,5)]]
    kpt_entry_eq_iff [OF assms] by auto

lemma kpt_zeroed:
  assumes "link_ok L" "i < 5" "j < 512"
  shows "load64 (memset m (kernel_pagetable L) 0 (5 * PAGESIZE)) (entry_of (kpt L i) (of_nat j)) = 0"
proof -
  let ?a = "entry_of (kpt L i) (of_nat j)"
  have "memset m (kernel_pagetable L) 0 (5 * PAGESIZE) b = 0" if "unat (b - ?a) < 8" for b
  proof -
    have u: "unat ?a = unat (kernel_pagetable L) + 4096 * i + 8 * j" by (rule kpt_entry_unat [OF assms])
    then have o: "unat (?a - kernel_pagetable L) = 4096 * i + 8 * j" by (simp add: unat_sub64)
    have "b - kernel_pagetable L = (?a - kernel_pagetable L) + (b - ?a)" by simp
    then have "unat (b - kernel_pagetable L) = 4096 * i + 8 * j + unat (b - ?a)"
      using o that assms by (simp only: unat_add64) (subst unat_add64, simp_all)
    then have "unat (b - kernel_pagetable L) < 5 * 4096" using that assms(2,3) by simp
    then show ?thesis by (simp add: memset_def memset_loop_closed PAGESIZE_def)
  qed
  then have "load64 (memset m (kernel_pagetable L) 0 (5 * PAGESIZE)) ?a = load64 (\<lambda>_. 0) ?a"
    by (intro load64_cong) simp
  then show ?thesis by (simp add: load64_bytes)
qed

lemma kpt_load_store_word:
  assumes "link_ok L" "i < 5" "j < 512" "i' < 5" "j' < 512"
  shows "load64 (store64 m (entry_of (kpt L i) j) v) (entry_of (kpt L i') j') =
    (if i = i' \<and> j = j' then v else load64 m (entry_of (kpt L i') j'))"
  using kpt_load_store [OF assms(1,2) _ assms(4), of "unat j" "unat j'"] assms(3,5)
  by (simp add: word_less_nat_alt word_unat_eq_iff)

lemma kernel_tables_shape:
  assumes L: "link_ok L" shows "ktable L (kernel_tables L m) (\<lambda>_. 0)"
proof -
  have z: "load64 (memset m (kernel_pagetable L) 0 (5 * PAGESIZE)) (entry_of (kpt L i) j) = 0"
    if "i < 5" "j < 512" for i j
    using kpt_zeroed [OF L that(1), of "unat j"] that(2) by (simp add: word_less_nat_alt)
  have "of_nat i < (512 :: u64)" if "i < 512" for i :: nat
    using that by (simp add: word_less_nat_alt unat_of_nat64)
  moreover have "(of_nat j = (0 :: u64)) = (j = 0)" "(of_nat j = (1 :: u64)) = (j = 1)"
      "(of_nat j = (2 :: u64)) = (j = 2)" "(of_nat j = (3 :: u64)) = (j = 3)" if "j < 512" for j :: nat
    using that by (simp_all add: word_unat_eq_iff unat_of_nat64)
  ultimately show ?thesis
    by (auto simp: ktable_def kentry_def kernel_tables_def Let_def kpt_load_store_word [OF L] z)
qed

lemma ktable_loads:
  assumes "ktable L m f"
  shows "load64 m (entry_of (kpt L 0) 0) = kpt L 1 OR PTE_P OR PTE_W OR PTE_U"
    "load64 m (entry_of (kpt L 1) 0) = kpt L 2 OR PTE_P OR PTE_W OR PTE_U"
    "load64 m (entry_of (kpt L 2) 0) = kpt L 3 OR PTE_P OR PTE_W OR PTE_U"
    "load64 m (entry_of (kpt L 2) 1) = kpt L 4 OR PTE_P OR PTE_W OR PTE_U"
    "load64 m (entry_of (kpt L 4) 0) = 0"
    "i < 512 \<Longrightarrow> load64 m (entry_of (kpt L 3) (of_nat i)) = f i"
proof -
  have k: "i < 5 \<Longrightarrow> j < 512 \<Longrightarrow> load64 m (entry_of (kpt L i) (of_nat j)) = kentry L f i j" for i j
    using assms by (simp add: ktable_def)
  show "load64 m (entry_of (kpt L 0) 0) = kpt L 1 OR PTE_P OR PTE_W OR PTE_U"
    "load64 m (entry_of (kpt L 1) 0) = kpt L 2 OR PTE_P OR PTE_W OR PTE_U"
    "load64 m (entry_of (kpt L 2) 0) = kpt L 3 OR PTE_P OR PTE_W OR PTE_U"
    "load64 m (entry_of (kpt L 2) 1) = kpt L 4 OR PTE_P OR PTE_W OR PTE_U"
    "load64 m (entry_of (kpt L 4) 0) = 0"
    "i < 512 \<Longrightarrow> load64 m (entry_of (kpt L 3) (of_nat i)) = f i"
    using k [of 0 0] k [of 1 0] k [of 2 0] k [of 2 1] k [of 4 0] k [of 3 i] by (simp_all add: kentry_def)
qed

lemma kpt_table_entry:
  assumes "link_ok L" "i < 5"
  shows "(kpt L i OR PTE_P OR PTE_W OR PTE_U) AND (PTE_P OR PTE_PS) = PTE_P"
    "(kpt L i OR PTE_P OR PTE_W OR PTE_U) AND PTE_PAMASK = kpt L i"
    "perm_restrict initial_perm (kpt L i OR PTE_P OR PTE_W OR PTE_U) = initial_perm"
  using table_entry [OF kpt_aligned [OF assms]] kpt_unat [OF assms] assms small_initial
  by (simp_all add: link_ok_def)

lemma pageindex_div: "unat va < 2 ^ (21 + 9 * l) \<Longrightarrow> pageindex va l = of_nat (unat va div 2 ^ (12 + 9 * l))"
proof -
  assume u: "unat va < 2 ^ (21 + 9 * l)"
  let ?k = "unat va div 2 ^ (12 + 9 * l)"
  have "unat (drop_bit (12 + 9 * l) va) = ?k" by (subst unat_drop_bit_eq) (rule drop_bit_eq_div)
  then have d: "drop_bit (12 + 9 * l) va = of_nat ?k" by (metis of_nat_unat ucast_id)
  have "?k < 2 ^ 9"
    using u by (subst div_less_iff_less_mult) (simp_all add: power_add mult.commute)
  then have "take_bit 9 (of_nat ?k :: u64) = of_nat ?k"
    by (simp add: take_bit_of_nat take_bit_nat_eq_self)
  moreover have "(0x1FF :: u64) = mask 9" by (simp add: mask_eq_exp_minus_1)
  ultimately show ?thesis
    using d by (simp add: pageindex_def PAGEOFFBITS_def PAGEINDEXBITS_def mult.commute take_bit_eq_mask)
qed

lemma ktable_root:
  assumes L: "link_ok L" and k: "ktable L m f" and va: "unat va < 0x200000"
  shows "root_pos m (kernel_pagetable L) va = (0, Entry (entry_of (kpt L 3) (of_nat (unat va div 4096))), initial_perm)"
    "load64 m (entry_of (kpt L 3) (of_nat (unat va div 4096))) = f (unat va div 4096)"
proof -
  have can: "va_is_canonical va" using va by (simp add: va_is_canonical_def VA_LOWMAX_def word_le_nat_alt)
  have pi: "pageindex va 3 = 0" "pageindex va 2 = 0" "pageindex va 1 = 0"
      "pageindex va 0 = of_nat (unat va div 4096)"
    using pageindex_div [of va 3] pageindex_div [of va 2] pageindex_div [of va 1] pageindex_div [of va 0] va
    by (simp_all)
  have k0: "kernel_pagetable L = kpt L 0" by (simp add: kpt_def)
  note t = kpt_table_entry [OF L]
  show "root_pos m (kernel_pagetable L) va = (0, Entry (entry_of (kpt L 3) (of_nat (unat va div 4096))), initial_perm)"
    using ktable_loads [OF k] pi can unfolding k0
    by (simp add: root_pos_def numeral_3_eq_3 numeral_2_eq_2 pe_load_def t)
  show "load64 m (entry_of (kpt L 3) (of_nat (unat va div 4096))) = f (unat va div 4096)"
    using ktable_loads(6) [OF k] va by simp
qed

subsection \<open>Mapping one page\<close>

lemma unat_page_va: "i \<le> 512 \<Longrightarrow> unat (page_va i) = 4096 * i"
  by (simp add: page_va_def unat_of_nat64 del: of_nat_mult)

lemma ktable_place:
  assumes L: "link_ok L" and k: "ktable L m f" and lo: "low_entries f" and va: "unat va < 0x200000"
  shows "vm_place m (kernel_pagetable L) va = Inr \<lparr>vm_pt = kernel_pagetable L,
    vm_pep = Entry (entry_of (kpt L 3) (of_nat (unat va div 4096))), vm_level = 0, vm_perm = initial_perm, vm_va = va\<rparr>"
proof -
  have "unat va div 4096 < 512" using va by simp
  then show ?thesis
    using ktable_root [OF L k va] lo by (auto simp: vm_place_def pe_load_def low_entries_def not_le)
qed

lemma ktable_place_end:
  assumes L: "link_ok L" and k: "ktable L m f"
  shows "\<exists>it. vm_place m (kernel_pagetable L) 0x200000 = Inr it"
proof -
  have pi: "pageindex 0x200000 3 = 0" "pageindex 0x200000 2 = 0" "pageindex 0x200000 1 = 1" "pageindex 0x200000 0 = 0"
    by (simp_all add: pageindex_def PAGEOFFBITS_def PAGEINDEXBITS_def)
  have can: "va_is_canonical 0x200000" by (simp add: va_is_canonical_def VA_LOWMAX_def)
  have k0: "kernel_pagetable L = kpt L 0" by (simp add: kpt_def)
  have "root_pos m (kernel_pagetable L) 0x200000 = (0, Entry (entry_of (kpt L 4) 0), initial_perm)"
    using ktable_loads(1-5) [OF k] pi can unfolding k0
    by (simp add: root_pos_def numeral_3_eq_3 numeral_2_eq_2 pe_load_def kpt_table_entry [OF L])
  moreover have "load64 m (entry_of (kpt L 4) 0) = 0" by (rule ktable_loads(5) [OF k])
  ultimately show ?thesis by (simp add: vm_place_def pe_load_def)
qed

lemma ktable_store:
  assumes L: "link_ok L" and k: "ktable L m f" and i: "i < 512"
  shows "ktable L (store64 m (entry_of (kpt L 3) (of_nat i)) e) (f(i := e))"
    "off_table L m (store64 m (entry_of (kpt L 3) (of_nat i)) e)"
proof -
  have w: "of_nat j < (512 :: u64)" if "j < 512" for j :: nat
    using that by (simp add: word_less_nat_alt unat_of_nat64)
  have inj: "of_nat i = (of_nat j :: u64) \<longleftrightarrow> i = j" if "j < 512" for j
    using i that by (simp add: word_unat_eq_iff unat_of_nat64)
  show "ktable L (store64 m (entry_of (kpt L 3) (of_nat i)) e) (f(i := e))"
    using k w [OF i] w inj by (auto simp: ktable_def kentry_def kpt_load_store_word [OF L])
  show "off_table L m (store64 m (entry_of (kpt L 3) (of_nat i)) e)"
    unfolding off_table_def
  proof (intro allI impI)
    fix b assume b: "4096 \<le> unat (b - kpt L 3)"
    let ?a = "entry_of (kpt L 3) (of_nat i)"
    have "8 \<le> unat (b - ?a)"
    proof (rule ccontr)
      assume "\<not> 8 \<le> unat (b - ?a)"
      then have d: "unat (b - ?a) < 8" by simp
      have o: "unat (?a - kpt L 3) = 8 * i"
        using kpt_entry_unat [OF L, of 3 i] kpt_unat [OF L, of 3] i by (simp add: unat_sub64)
      have "b - kpt L 3 = (?a - kpt L 3) + (b - ?a)" by simp
      then have "unat (b - kpt L 3) = 8 * i + unat (b - ?a)"
        using o d i by (simp only: unat_add64) (subst unat_add64, simp_all)
      then show False using b d i by simp
    qed
    then show "store64 m ?a e b = m b" by (rule store64_outside)
  qed
qed

lemma page_entry:
  assumes i: "i < 512" and p: "p < (8 :: u32)"
  shows "(page_va i OR scast p) AND PTE_PAMASK = page_va i" "(page_va i OR scast p) AND 0xFFF = scast p"
proof -
  have u: "unat (page_va i) = 4096 * i" using i by (simp add: unat_page_va)
  then have al: "aligned 4096 (page_va i)" by (simp add: aligned_def)
  have lo: "bit (page_va i) n \<Longrightarrow> 12 \<le> n \<and> n < 21" for n
    using bit_aligned [OF al] bit_bounded [of "page_va i" 21] u i by auto
  have sp: "small_perm p" using p by (simp add: small_perm_iff order_less_trans [of p 8])
  then have hi: "bit (scast p :: u64) n \<Longrightarrow> n < 12" for n by (simp add: bit_sx small_perm_def)
  show "(page_va i OR scast p) AND PTE_PAMASK = page_va i"
    using lo hi by (intro bit_eqI) (force simp: bit_and_iff bit_or_iff bit_pamask)
  have m: "(0xFFF :: u64) = mask 12" by (simp add: mask_eq_exp_minus_1)
  show "(page_va i OR scast p) AND 0xFFF = scast p" unfolding m
    using lo hi by (intro bit_eqI) (force simp: bit_and_iff bit_or_iff bit_mask_iff)
qed

lemma kernel_map_step:
  assumes L: "link_ok L" and k: "ktable L (mem s) f" and i: "i < 512" and p: "p < 8"
    and it: "vm_ok (mem s) it" "vm_pt it = kernel_pagetable L" "vm_va it = page_va i"
  shows "vm_map L (page_va i) p s it =
    Inr (s\<lparr>mem := store64 (mem s) (entry_of (kpt L 3) (of_nat i)) (page_va i OR scast p)\<rparr>, it)"
proof -
  have u: "unat (page_va i) = 4096 * i" using i by (simp add: unat_page_va)
  then have r: "root_pos (mem s) (kernel_pagetable L) (page_va i) = (0, Entry (entry_of (kpt L 3) (of_nat i)), initial_perm)"
    using ktable_root(1) [OF L k, of "page_va i"] i by simp
  have pos: "vm_level it = 0" "vm_pep it = Entry (entry_of (kpt L 3) (of_nat i))" "vm_perm it = initial_perm"
    using it r by (auto simp: vm_ok_def)
  have al: "aligned 4096 (page_va i)" using u by (simp add: aligned_def)
  have "page_va i AND PTE_PAMASK = page_va i" "page_va i AND PTE_P = 0"
    using bit_aligned [OF al] bit_bounded [of "page_va i" 21] u i
    by (auto intro!: bit_eqI simp: bit_and_iff bit_pamask bit_1_iff and_P_iff) (fastforce)+
  moreover have "page_va i mod PAGESIZE = 0"
    using u by (simp add: PAGESIZE_def word_unat_eq_iff unat_mod_distrib)
  moreover have "page_va i \<noteq> -1" using u i by (auto simp: word_unat_eq_iff unat_minus_one_word_eq)
  moreover have "(scast p :: u64) AND NOT (scast initial_perm) AND (PTE_P OR PTE_W OR PTE_U) = 0"
    by (rule bit_eqI) (auto simp: initial_perm_sx bit_simps pte_consts)
  ultimately show ?thesis
    using pos it(3) by (simp add: vm_map_def try_map_def Let_def pe_store_def)
qed

subsection \<open>The identity-mapping loops\<close>

lemma identity_map_loop_ok:
  assumes L: "link_ok L" and g: "low_perms g"
  shows "ktable L (mem s) f \<Longrightarrow> low_entries f \<Longrightarrow> i \<le> 512 \<Longrightarrow> 512 - i \<le> n \<Longrightarrow> vm_ok (mem s) it \<Longrightarrow>
    vm_pt it = kernel_pagetable L \<Longrightarrow> vm_va it = page_va i \<Longrightarrow>
    \<exists>m'. identity_map_loop n L g s it = Inr (s\<lparr>mem := m'\<rparr>) \<and> ktable L m' (apply_perms g i f)
      \<and> low_entries (apply_perms g i f) \<and> off_table L (mem s) m'"
proof (induction n arbitrary: i s f it)
  case 0
  then have "i = 512" by simp
  moreover have "vm_va it = 0x200000" using 0 calculation by (simp add: page_va_def)
  moreover have "apply_perms g 512 f j = f j" if "j < 512" for j using that by (simp add: apply_perms_def)
  ultimately show ?case using 0 
    by (intro exI [of _ "mem s"]) (auto simp: MEMSIZE_PHYSICAL_def off_table_def ktable_def kentry_def low_entries_def)
next
  case (Suc n)
  show ?case
  proof (cases "i = 512")
    case True
    moreover have "vm_va it = 0x200000" using Suc.prems True by (simp add: page_va_def)
    moreover have "apply_perms g 512 f j = f j" if "j < 512" for j using that by (simp add: apply_perms_def)
    ultimately show ?thesis using Suc.prems
      by (intro exI [of _ "mem s"]) (auto simp: MEMSIZE_PHYSICAL_def off_table_def ktable_def kentry_def low_entries_def)
  next
    case False
    then have i: "i < 512" using Suc.prems by simp
    define e where "e = (case g (page_va i) of None \<Rightarrow> f i | Some p \<Rightarrow> page_va i OR scast p)"
    define f1 where "f1 = f(i := e)"
    define m1 where "m1 = (case g (page_va i) of None \<Rightarrow> mem s
       | Some p \<Rightarrow> store64 (mem s) (entry_of (kpt L 3) (of_nat i)) (page_va i OR scast p))"
    have step: "(case g (page_va i) of None \<Rightarrow> Inr (s, it) | Some perm \<Rightarrow> vm_map L (page_va i) perm s it)
        = Inr (s\<lparr>mem := m1\<rparr>, it)"
      using kernel_map_step [OF L Suc.prems(1) i] g Suc.prems by (auto simp: m1_def low_perms_def split: option.splits)
    have k1: "ktable L m1 f1" "off_table L (mem s) m1"
      using ktable_store [OF L Suc.prems(1) i] Suc.prems(1)
      by (auto simp: m1_def f1_def e_def off_table_def split: option.splits)
    have u: "unat (page_va i) = 4096 * i" using i by (simp add: unat_page_va)
    have lt: "vm_va it < MEMSIZE_PHYSICAL" using u i Suc.prems by (simp add: MEMSIZE_PHYSICAL_def word_less_nat_alt)
    have lo: "low_entries f1" using Suc.prems(2) page_entry(1) [OF i] g i
      by (auto simp: low_perms_def low_entries_def f1_def e_def word_less_nat_alt unat_page_va split: option.splits)
    have ok1: "vm_ok m1 it"
      using Suc.prems ktable_root(1) [OF L Suc.prems(1), of "page_va i"] ktable_root(1) [OF L k1(1), of "page_va i"] u i
      by (auto simp: vm_ok_def)
    have nx: "vm_va it + PAGESIZE = page_va (Suc i)" using Suc.prems by (simp add: page_va_def PAGESIZE_def)
    have "\<exists>it2. vm_place m1 (kernel_pagetable L) (page_va (Suc i)) = Inr it2"
    proof (cases "Suc i = 512")
      case True
      then show ?thesis using ktable_place_end [OF L k1(1)] by (simp add: page_va_def)
    next
      case False
      then show ?thesis using ktable_place [OF L k1(1) lo, of "page_va (Suc i)"] i by (auto simp: unat_page_va)
    qed
    then obtain it2 where pl: "vm_place m1 (kernel_pagetable L) (page_va (Suc i)) = Inr it2" by blast
    have al: "aligned 4096 (kernel_pagetable L)" using L by (simp add: link_ok_def)
    note it2 = vm_place_ok [OF pl al]
    have add: "vm_add m1 PAGESIZE it = Inr it2"
      using real_find_place [OF ok1] pl Suc.prems(6) nx by (simp add: vm_add_def)
    obtain m' where m': "identity_map_loop n L g (s\<lparr>mem := m1\<rparr>) it2 = Inr (s\<lparr>mem := m'\<rparr>)"
        "ktable L m' (apply_perms g (Suc i) f1)" "low_entries (apply_perms g (Suc i) f1)" "off_table L m1 m'"
      using Suc.IH [of "s\<lparr>mem := m1\<rparr>" f1 "Suc i" it2] k1 lo it2 i diff_le_mono [OF Suc.prems(4), of 1] by auto
    have "apply_perms g (Suc i) f1 = apply_perms g i f"
      by (auto simp: apply_perms_def f1_def e_def less_Suc_eq split: option.splits)
    moreover have "off_table L (mem s) m'" using k1(2) m'(4) by (simp add: off_table_def)
    moreover have "identity_map_loop (Suc n) L g s it = identity_map_loop n L g (s\<lparr>mem := m1\<rparr>) it2"
      using lt step add unfolding identity_map_loop.simps Suc.prems(7) by simp
    ultimately show ?thesis using m' by auto
  qed
qed

lemma identity_map_ok:
  assumes L: "link_ok L" and g: "low_perms g" and k: "ktable L (mem s) f" and lo: "low_entries f"
  shows "\<exists>m'. identity_map L g s = Inr (s\<lparr>mem := m'\<rparr>) \<and> ktable L m' (apply_perms g 0 f)
      \<and> low_entries (apply_perms g 0 f) \<and> off_table L (mem s) m'"
proof -
  obtain it where pl: "vm_place (mem s) (kernel_pagetable L) 0 = Inr it"
    using ktable_place [OF L k lo, of 0] by auto
  have al: "aligned 4096 (kernel_pagetable L)" using L by (simp add: link_ok_def)
  from identity_map_loop_ok [OF L g k lo, where i = 0 and n = NPAGES and it = it] vm_place_ok [OF pl al] show ?thesis
    by (simp add: identity_map_def vmiter_new_place pl NPAGES_def page_va_def)
qed

subsection \<open>What the table translates\<close>

lemma top_index_zero:
  assumes "va_is_canonical va" "pageindex va 3 = 0" shows "unat va < 2 ^ 39"
proof -
  have "\<not> bit (pageindex va 3) n" for n using assms(2) by simp
  then have b: "\<not> bit va (39 + n)" if "n < 9" for n using that by (auto simp: bit_pageindex)
  have "drop_bit 47 va \<noteq> 0x1FFFF"
  proof
    assume "drop_bit 47 va = 0x1FFFF"
    then have "bit (drop_bit 47 va) 0" by simp
    then show False using b [of 8] by (simp add: bit_drop_bit_eq)
  qed
  then have "drop_bit 47 va = 0" using assms(1) canonical_drop by blast
  then have "\<not> bit (drop_bit 47 va) n" for n by simp
  then have h: "\<not> bit va (47 + n)" for n by (simp add: bit_drop_bit_eq add.commute)
  have nb: "\<not> bit va n" if "39 \<le> n" for n
    using b [of "n - 39"] h [of "n - 47"] that by (cases "n < 48") auto
  have "bit va n = bit (take_bit 39 va) n" for n using nb [of n] by (cases "39 \<le> n") (auto simp: bit_take_bit_iff)
  then have "va = take_bit 39 va" by (intro bit_eqI)
  then have "unat va = take_bit 39 (unat va)" by (metis unsigned_take_bit_eq)
  also have "\<dots> < 2 ^ 39" by (rule take_bit_nat_less_exp)
  finally show ?thesis .
qed

lemma kentry_mmu:
  assumes L: "link_ok L" and k: "ktable L m f" and i: "i < 5" and ix: "pageindex va l = of_nat j" "j < 512"
  shows "load64 m (entry_of (kpt L i) (pageindex va l)) = kentry L f i j"
  using k i ix by (simp add: ktable_def)

lemma and_low_mask: "va AND mask k = of_nat (unat (va :: u64) mod 2 ^ k)"
proof -
  have "unat (take_bit k va) = unat va mod 2 ^ k" by (subst unsigned_take_bit_eq) (rule take_bit_eq_mod)
  then show ?thesis by (metis of_nat_unat ucast_id take_bit_eq_mask)
qed

lemma giant_entry:
  assumes j: "0 < j" "j < 4" and va: "unat va div 2 ^ 30 = j"
  defines "e \<equiv> push_bit 30 (of_nat j :: u64) OR PTE_P OR PTE_W OR PTE_PS"
  shows "e AND PTE_P \<noteq> 0" "e AND PTE_PS \<noteq> 0" "0xFFF AND e = 0x83"
    "(e AND PTE_PAMASK AND NOT 0x1000) + (va AND pageoffmask 2) = va"
proof -
  have j3: "j = 1 \<or> j = 2 \<or> j = 3" using j by auto
  then show "e AND PTE_P \<noteq> 0" "e AND PTE_PS \<noteq> 0" "0xFFF AND e = 0x83" by (auto simp: e_def pte_consts)
  have m: "va AND pageoffmask 2 = of_nat (unat va mod 2 ^ 30)"
    using and_low_mask [of va 30] by (simp add: pageoffmask_mask)
  have p: "e AND PTE_PAMASK AND NOT 0x1000 = of_nat (2 ^ 30 * j)"
    using j3 by (auto simp: e_def pte_consts)
  have "of_nat (2 ^ 30 * j) + of_nat (unat va mod 2 ^ 30) = (of_nat (unat va) :: u64)"
    using va by (metis mult_div_mod_eq of_nat_add)
  then show "(e AND PTE_PAMASK AND NOT 0x1000) + (va AND pageoffmask 2) = va" using m p by simp
qed

lemma kwalk_table:
  assumes L: "link_ok L" and i: "i' < 5" and e: "load64 m (entry_of t (pageindex va (Suc l))) = kpt L i' OR PTE_P OR PTE_W OR PTE_U"
  shows "mmu_walk m va (Suc l) t acc = mmu_walk m va l (kpt L i') acc"
proof -
  let ?e = "kpt L i' OR PTE_P OR PTE_W OR PTE_U"
  have "?e OR NOT 7 = - 1"
    by (rule bit_eqI) (auto simp: bit_simps pte_consts bit_7_u64)
  moreover have "?e AND PTE_P \<noteq> 0" "?e AND PTE_PS = 0"
    using kpt_table_entry(1) [OF L i] unfolding P_PS_iff by (simp_all add: and_P_iff)
  ultimately show ?thesis using e kpt_table_entry(2) [OF L i] by simp
qed

lemma kwalk_none: "load64 m (entry_of t (pageindex va l)) = 0 \<Longrightarrow> mmu_walk m va l t acc = None"
  by (cases l) simp_all

lemma ktable_translation:
  assumes L: "link_ok L" and k: "ktable L m f"
  shows "translate m (kernel_pagetable L) va =
    (if unat va < 0x200000 then leaf 0 va 0xFFF (f (unat va div 4096))
     else if 2 ^ 30 \<le> unat va \<and> unat va < 2 ^ 32 then Some (va, 0x83) else None)"
proof -
  have k0: "kernel_pagetable L = kpt L 0" by (simp add: kpt_def)
  note km = kentry_mmu [OF L k] and kt = kwalk_table [OF L]
  have can: "va_is_canonical va" if "unat va < 2 ^ 39"
    using that by (simp add: va_is_canonical_def VA_LOWMAX_def word_le_nat_alt)
  have top: "translate m (kernel_pagetable L) va = mmu_walk m va 2 (kpt L 1) 0xFFF" if u: "unat va < 2 ^ 39"
  proof -
    have "pageindex va (Suc 2) = of_nat 0" using pageindex_div [of va 3] u by (simp add: numeral_3_eq_3)
    then have "load64 m (entry_of (kpt L 0) (pageindex va (Suc 2))) = kpt L 1 OR PTE_P OR PTE_W OR PTE_U"
      using km [of 0 va "Suc 2" 0] by (simp add: kentry_def)
    then show ?thesis using kt [of 1 m "kpt L 0" va 2 "0xFFF"] can [OF u] k0 by (simp add: translate_def)
  qed
  consider "unat va < 0x200000" | "0x200000 \<le> unat va" "unat va < 2 ^ 30" | "2 ^ 30 \<le> unat va" "unat va < 2 ^ 39"
    | "2 ^ 39 \<le> unat va" by linarith
  then show ?thesis
  proof cases
    case 1
    then show ?thesis
      using root_translate(3) [OF ktable_root(1) [OF L k]] ktable_root(2) [OF L k] by (simp add: pe_load_def initial_perm_sx)
  next
    case 2
    define j where "j = unat va div 2 ^ 21"
    have j: "1 \<le> j" "j < 512" using 2 by (simp_all add: j_def)
    have "pageindex va 2 = 0" "pageindex va 1 = of_nat j"
      using pageindex_div [of va 2] pageindex_div [of va 1] 2 by (simp_all add: j_def)
    then have "pageindex va (Suc 1) = of_nat 0" "pageindex va 1 = of_nat j" by (simp_all add: numeral_2_eq_2)
    then have e: "load64 m (entry_of (kpt L 1) (pageindex va (Suc 1))) = kpt L 2 OR PTE_P OR PTE_W OR PTE_U"
        "load64 m (entry_of (kpt L 2) (pageindex va 1)) = kentry L f 2 j"
      using km [of 1 va "Suc 1" 0] km [of 2 va 1 j] j by (simp_all add: kentry_def)
    have t: "translate m (kernel_pagetable L) va = mmu_walk m va 1 (kpt L 2) 0xFFF"
      using top [OF order_less_trans [OF 2(2)]] kt [of 2 m "kpt L 1" va 1, unfolded Suc_1, OF _ e(1) [unfolded Suc_1]]
      by simp
    show ?thesis
    proof (cases "j = 1")
      case True
      then have "mmu_walk m va (Suc 0) (kpt L 2) 0xFFF = mmu_walk m va 0 (kpt L 4) 0xFFF"
        using kt [of 4 m "kpt L 2" va 0] e(2) by (simp add: kentry_def)
      moreover have "load64 m (entry_of (kpt L 4) (pageindex va 0)) = 0"
        using km [of 4 va 0 "unat (pageindex va 0)"] pageindex_less [of va 0]
        by (simp add: kentry_def word_less_nat_alt)
      ultimately show ?thesis using t kwalk_none [of m "kpt L 4" va 0] 2 by simp
    next
      case False
      then show ?thesis using t kwalk_none [of m "kpt L 2" va 1] e(2) j 2 by (simp add: kentry_def)
    qed
  next
    case 3
    define j where "j = unat va div 2 ^ 30"
    have j: "1 \<le> j" "j < 512" using 3 by (simp_all add: j_def)
    have "pageindex va 2 = of_nat j" using pageindex_div [of va 2] 3 by (simp add: j_def)
    then have e: "load64 m (entry_of (kpt L 1) (pageindex va 2)) = kentry L f 1 j" using km [of 1 va 2 j] j by simp
    show ?thesis
    proof (cases "j < 4")
      case True
      note g = giant_entry [of j va, folded j_def]
      have "unat va < 2 ^ 32" using True by (simp add: j_def div_less_iff_less_mult)
      moreover have "mmu_walk m va 2 (kpt L 1) 0xFFF = Some (va, 0x83)"
        using e g True j by (simp add: kentry_def numeral_2_eq_2)
      ultimately show ?thesis using top 3 by simp
    next
      case False
      then have "\<not> unat va < 2 ^ 32" by (simp add: j_def div_less_iff_less_mult)
      then show ?thesis using top kwalk_none [of m "kpt L 1" va 2] e False j 3 by (simp add: kentry_def)
    qed
  next
    case 4
    show ?thesis
    proof (cases "va_is_canonical va")
      case True
      then have "pageindex va 3 \<noteq> 0" using top_index_zero 4 by force
      then have "load64 m (entry_of (kpt L 0) (pageindex va 3)) = 0"
        using km [of 0 va 3 "unat (pageindex va 3)"] pageindex_less [of va 3]
        by (simp add: kentry_def word_less_nat_alt unat_eq_zero)
      then show ?thesis using kwalk_none [of m "kpt L 0" va 3] k0 4 by (simp add: translate_def)
    qed (use 4 in \<open>simp add: translate_def\<close>)
  qed
qed

lemma page_entry_leaf:
  assumes va: "unat va < 0x200000" and p: "p < (8 :: u32)"
  shows "leaf 0 va 0xFFF (page_va (unat va div 4096) OR scast p) = (if bit p 0 then Some (va, scast p) else None)"
proof -
  let ?e = "page_va (unat va div 4096) OR scast p"
  have i: "unat va div 4096 < 512" using va by simp
  note e = page_entry [OF i p]
  have sp: "small_perm p" using p by (simp add: small_perm_iff order_less_trans [of p 8])
  have "bit (?e AND 0xFFF) 0 = bit ?e 0" by (simp add: bit_simps)
  then have "?e AND PTE_P = 0 \<longleftrightarrow> \<not> bit p 0" using e(2) bit_sx [OF sp] by (simp add: and_P_iff)
  moreover have "page_va (unat va div 4096) + (va AND pageoffmask 0) = va"
  proof -
    have m: "va AND pageoffmask 0 = of_nat (unat va mod 4096)" using and_low_mask [of va 12] by (simp add: pageoffmask_mask)
    show ?thesis by (simp only: page_va_def m of_nat_add [symmetric] mult_div_mod_eq) simp
  qed
  ultimately show ?thesis using e by (simp add: leaf_def and.commute)
qed

subsection \<open>Start-up\<close>

lemma boot_perm_low: "low_perms boot_perm"
  by (auto simp: low_perms_def boot_perm_def split: if_splits)

lemma kernel_perm_low: "low_perms kernel_perm"
  by (auto simp: low_perms_def kernel_perm_def split: if_splits)

lemma init_kernel_memory_ok:
  assumes L: "link_ok L"
  shows "\<exists>m. init_kernel_memory L s = Inr (s\<lparr>mem := m, cr3 := kernel_pagetable L\<rparr>)
    \<and> ktable L m (apply_perms boot_perm 0 (\<lambda>_. 0)) \<and> low_entries (apply_perms boot_perm 0 (\<lambda>_. 0))"
proof -
  let ?m = "kernel_tables L (stash_kernel_data L False (mem s))"
  have "low_entries (\<lambda>_. 0)" by (simp add: low_entries_def)
  from identity_map_ok [OF L boot_perm_low, where s = "s\<lparr>mem := ?m\<rparr>" and f = "\<lambda>_. 0"] kernel_tables_shape [OF L] this
  show ?thesis by (auto simp: init_kernel_memory_def)
qed

lemma init_hardware_ok:
  assumes L: "link_ok L" and hw: "machine_ok hw"
  shows "\<exists>s'. init_hardware L hw s = Inr s' \<and> ktable L (mem s') (apply_perms boot_perm 0 (\<lambda>_. 0))
    \<and> low_entries (apply_perms boot_perm 0 (\<lambda>_. 0)) \<and> ptable s' = ptable s"
proof -
  obtain m where m: "init_kernel_memory L s = Inr (s\<lparr>mem := m, cr3 := kernel_pagetable L\<rparr>)"
      "ktable L m (apply_perms boot_perm 0 (\<lambda>_. 0))" "low_entries (apply_perms boot_perm 0 (\<lambda>_. 0))" using init_kernel_memory_ok [OF L] by blast
  then show ?thesis using hw
    by (simp add: init_hardware_def init_interrupts_def machine_ok_def init_cpu_hardware_def
        lapic_ack_def lapic_write_def outb_def)
qed

lemma kernel_setup_ok:
  assumes L: "link_ok L" and hw: "machine_ok hw"
  shows "\<exists>s'. kernel_setup L hw s = Inr s' \<and> ktable L (mem s') setup_entry \<and> low_entries setup_entry
    \<and> ptable s' = init_ptable (ptable s)"
proof -
  obtain s1 where s1: "init_hardware L hw s = Inr s1" "ktable L (mem s1) (apply_perms boot_perm 0 (\<lambda>_. 0))"
      "low_entries (apply_perms boot_perm 0 (\<lambda>_. 0))" "ptable s1 = ptable s"
    using init_hardware_ok [OF L hw] by blast
  have "\<exists>out. vprintf 0 (ascii ''Starting WeensyOS\<newline>'') [] = Inr out" by (simp add: vprintf_match)
  then obtain s2 where s2: "log_vprintf (ascii ''Starting WeensyOS\<newline>'') [] s1 = Inr s2"
    using log_vprintf_total by blast
  let ?s = "console_clear (init_timer HZ (s2\<lparr>ticks := 1\<rparr>))"
  have m: "mem ?s = mem s1" "ptable ?s = ptable s"
    using log_vprintf_screen [OF s2] log_vprintf_core [OF s2] s1(4)
    by (simp_all add: console_clear_def init_timer_def lapic_write_def keeps_core_def)
  obtain m' where m': "identity_map L kernel_perm ?s = Inr (?s\<lparr>mem := m'\<rparr>)"
      "ktable L m' (apply_perms kernel_perm 0 (apply_perms boot_perm 0 (\<lambda>_. 0)))"
      "low_entries (apply_perms kernel_perm 0 (apply_perms boot_perm 0 (\<lambda>_. 0)))"
    using identity_map_ok [OF L kernel_perm_low, where s = ?s] s1(2,3) m(1) by auto
  have "apply_perms kernel_perm 0 f = setup_entry" for f
    by (rule ext) (simp add: apply_perms_def kernel_perm_def setup_entry_def)
  then show ?thesis using m' s1(1) s2 m(2) by (simp add: kernel_setup_def)
qed

lemma page_va_div: "unat va < 0x200000 \<Longrightarrow> unat (page_va (unat va div 4096)) = 4096 * (unat va div 4096)"
  by (simp add: unat_page_va)

text \<open>
  C1: The set-up part of \<open>kernel_start\<close> (initialisation of the hardware, the loop that
  maps memory, the process descriptors; before any process is loaded) succeeds on a machine that
  meets its assertions when the linker has put the kernel page table where its script says, and at
  that point the table translates every one of the 2^64 addresses as intended: nothing below
  0x1000, the first two megabytes to themselves with user access only to the console page, the
  gigabytes one to four to themselves for the kernel, nothing else. Loading a process afterwards
  gives it user access to its own pages; that part is not covered.
\<close>
theorem kernel_setup_page_table:
  assumes L: "link_ok L" and hw: "machine_ok hw"
  shows "\<exists>s'. kernel_setup L hw s = Inr s' \<and> ptable s' = init_ptable (ptable s)
    \<and> translate (mem s') (kernel_pagetable L) va =
      (if unat va < 0x1000 then None
       else if unat va < 0x200000 then Some (va, if unat va div 4096 = 0xB8 then 7 else 3)
       else if 2 ^ 30 \<le> unat va \<and> unat va < 2 ^ 32 then Some (va, 0x83) else None)"
proof -
  obtain s' where s': "kernel_setup L hw s = Inr s'" "ktable L (mem s') setup_entry"
      "ptable s' = init_ptable (ptable s)" using kernel_setup_ok [OF L hw] by blast
  let ?j = "unat va div 4096"
  have "leaf 0 va 0xFFF (setup_entry ?j) =
      (if unat va < 0x1000 then None else Some (va, if ?j = 0xB8 then 7 else 3))" if va: "unat va < 0x200000"
  proof -
    have "page_va ?j = CONSOLE_ADDR \<longleftrightarrow> ?j = 0xB8" "page_va ?j = 0 \<longleftrightarrow> unat va < 0x1000"
      using page_va_div [OF va] by (auto simp: word_unat_eq_iff CONSOLE_ADDR_def)
    then show ?thesis
      using page_entry_leaf [OF va, of 7] page_entry_leaf [OF va, of 3] page_entry_leaf [OF va, of 0]
      by (auto simp: setup_entry_def bit_simps)
  qed
  then show ?thesis using s' ktable_translation [OF L s'(2), of va] by auto
qed

theorem kernel_setup_page_table_witness:
  "\<exists>s'. kernel_setup demo_link demo_machine demo_kernel = Inr s' \<and> ptable s' = init_ptable (ptable demo_kernel)
    \<and> translate (mem s') 0x50000 0xB8010 = Some (0xB8010, 7)"
  using kernel_setup_page_table [where L = demo_link and hw = demo_machine and s = demo_kernel and va = "0xB8010"]
  by (simp add: link_ok_def demo_link_def aligned_def machine_ok_def demo_machine_def)

end
