(* ===== verification/Ports.thy ===== *)
theory Ports
  imports Prelude
begin

text \<open>
  Programmed I/O: the wrappers of \<^verbatim>\<open>kernels1/x86-64.h\<close> around the port instructions. What is behind
  the ports is not part of the program; it is a record \<open>port_io\<close> of what each instruction does to a
  device state of any type, a parameter of the operations. The instructions use the low 16 bits
  of the port (\<^verbatim>\<open>%w1\<close>); the string forms move \<open>cnt\<close> items between consecutive addresses and the port.
\<close>

record 'd port_io =
  in8 :: "u16 \<Rightarrow> 'd \<Rightarrow> u8 \<times> 'd"
  in16 :: "u16 \<Rightarrow> 'd \<Rightarrow> u16 \<times> 'd"
  in32 :: "u16 \<Rightarrow> 'd \<Rightarrow> u32 \<times> 'd"
  out8 :: "u16 \<Rightarrow> u8 \<Rightarrow> 'd \<Rightarrow> 'd"
  out16 :: "u16 \<Rightarrow> u16 \<Rightarrow> 'd \<Rightarrow> 'd"
  out32 :: "u16 \<Rightarrow> u32 \<Rightarrow> 'd \<Rightarrow> 'd"

definition inb :: "'d port_io \<Rightarrow> int \<Rightarrow> 'd \<Rightarrow> u8 \<times> 'd" where
  "inb IO port d = in8 IO (of_int port) d"

definition inw :: "'d port_io \<Rightarrow> int \<Rightarrow> 'd \<Rightarrow> u16 \<times> 'd" where
  "inw IO port d = in16 IO (of_int port) d"

definition inl :: "'d port_io \<Rightarrow> int \<Rightarrow> 'd \<Rightarrow> u32 \<times> 'd" where
  "inl IO port d = in32 IO (of_int port) d"

definition port_outb :: "'d port_io \<Rightarrow> int \<Rightarrow> u8 \<Rightarrow> 'd \<Rightarrow> 'd" where
  "port_outb IO port v d = out8 IO (of_int port) v d"

definition outw :: "'d port_io \<Rightarrow> int \<Rightarrow> u16 \<Rightarrow> 'd \<Rightarrow> 'd" where
  "outw IO port v d = out16 IO (of_int port) v d"

definition outl :: "'d port_io \<Rightarrow> int \<Rightarrow> u32 \<Rightarrow> 'd \<Rightarrow> 'd" where
  "outl IO port v d = out32 IO (of_int port) v d"

primrec insb :: "nat \<Rightarrow> 'd port_io \<Rightarrow> int \<Rightarrow> addr \<Rightarrow> memory \<times> 'd \<Rightarrow> memory \<times> 'd" where
  "insb 0 IO port a md = md"
| "insb (Suc n) IO port a md =
     (let (v, d1) = inb IO port (snd md) in insb n IO port (a + 1) ((fst md)(a := v), d1))"

primrec insw :: "nat \<Rightarrow> 'd port_io \<Rightarrow> int \<Rightarrow> addr \<Rightarrow> memory \<times> 'd \<Rightarrow> memory \<times> 'd" where
  "insw 0 IO port a md = md"
| "insw (Suc n) IO port a md =
     (let (v, d1) = inw IO port (snd md) in insw n IO port (a + 2) (storen 2 (fst md) a (unat v), d1))"

primrec insl :: "nat \<Rightarrow> 'd port_io \<Rightarrow> int \<Rightarrow> addr \<Rightarrow> memory \<times> 'd \<Rightarrow> memory \<times> 'd" where
  "insl 0 IO port a md = md"
| "insl (Suc n) IO port a md =
     (let (v, d1) = inl IO port (snd md) in insl n IO port (a + 4) (store32 (fst md) a v, d1))"

primrec outsb :: "nat \<Rightarrow> 'd port_io \<Rightarrow> int \<Rightarrow> addr \<Rightarrow> memory \<Rightarrow> 'd \<Rightarrow> 'd" where
  "outsb 0 IO port a m d = d"
| "outsb (Suc n) IO port a m d = outsb n IO port (a + 1) m (port_outb IO port (m a) d)"

primrec outsw :: "nat \<Rightarrow> 'd port_io \<Rightarrow> int \<Rightarrow> addr \<Rightarrow> memory \<Rightarrow> 'd \<Rightarrow> 'd" where
  "outsw 0 IO port a m d = d"
| "outsw (Suc n) IO port a m d = outsw n IO port (a + 2) m (outw IO port (load16 m a) d)"

primrec outsl :: "nat \<Rightarrow> 'd port_io \<Rightarrow> int \<Rightarrow> addr \<Rightarrow> memory \<Rightarrow> 'd \<Rightarrow> 'd" where
  "outsl 0 IO port a m d = d"
| "outsl (Suc n) IO port a m d = outsl n IO port (a + 4) m (outl IO port (load32 m a) d)"

lemmas port_defs = inb_def inw_def inl_def port_outb_def outw_def outl_def

end
