(* ===== verification/Boot.thy ===== *)
theory Boot
  imports Elf Ports
begin

text \<open>
  The boot loader, \<^verbatim>\<open>kernels1/boot.cc\<close>. The IDE controller is not part of the sources: it is a
  parameter \<open>D\<close>, what the port instructions do to a controller state of any type. \<open>ata_spec\<close> states what the ATA documentation says of a programmed-I/O sector read, and is
  the only thing the lemmas use. \<open>polls\<close> bounds the iterations of the wait loop.
  The disk is a function from byte offsets to bytes; \<open>kernel_file\<close> is the part of it from the
  second sector on, where the kernel's ELF image is. \<open>seg_lo\<close> and \<open>seg_hi\<close> bound what loading a
  segment may write: the code reads whole sectors.
\<close>

subsection \<open>The controller\<close>

primrec boot_waitdisk :: "nat \<Rightarrow> 'd port_io \<Rightarrow> 'd \<Rightarrow> 'd res" where
  "boot_waitdisk 0 D d = Inl OutOfFuel"
| "boot_waitdisk (Suc n) D d =
     (let (v, d1) = inb D 0x1F7 d
      in if v AND 0xC0 \<noteq> 0x40 then boot_waitdisk n D d1 else Inr d1)"

subsection \<open>The boot loader\<close>

definition SECTORSIZE :: u64 where "SECTORSIZE = 512"
definition ELFHDR :: addr where "ELFHDR = 0x3000"
definition KERNEL_START_SECTOR :: u32 where "KERNEL_START_SECTOR = 1"

definition boot_command :: "'d port_io \<Rightarrow> u32 \<Rightarrow> 'd \<Rightarrow> 'd" where
  "boot_command D src_sect d =
     (let d1 = port_outb D 0x1F2 1 d;
          d2 = port_outb D 0x1F3 (ucast src_sect) d1;
          d3 = port_outb D 0x1F4 (ucast (drop_bit 8 src_sect)) d2;
          d4 = port_outb D 0x1F5 (ucast (drop_bit 16 src_sect)) d3;
          d5 = port_outb D 0x1F6 (ucast (drop_bit 24 src_sect OR 0xE0)) d4
      in port_outb D 0x1F7 0x20 d5)"

definition boot_readsect :: "nat \<Rightarrow> 'd port_io \<Rightarrow> addr \<Rightarrow> u32 \<Rightarrow> memory \<times> 'd \<Rightarrow> (memory \<times> 'd) res" where
  "boot_readsect polls D dst src_sect md =
     bind_res (boot_waitdisk polls D (snd md)) (\<lambda>d1.
     bind_res (boot_waitdisk polls D (boot_command D src_sect d1)) (\<lambda>d2.
     Inr (insl 128 D 0x1F0 dst (fst md, d2))))"

primrec readseg_loop ::
  "nat \<Rightarrow> nat \<Rightarrow> 'd port_io \<Rightarrow> addr \<Rightarrow> addr \<Rightarrow> u32 \<Rightarrow> memory \<times> 'd \<Rightarrow> (memory \<times> 'd) res" where
  "readseg_loop 0 polls D end_ptr ptr src_sect md = (if ptr < end_ptr then Inl OutOfFuel else Inr md)"
| "readseg_loop (Suc n) polls D end_ptr ptr src_sect md =
     (if ptr < end_ptr
      then bind_res (boot_readsect polls D ptr src_sect md) (\<lambda>md1.
           readseg_loop n polls D end_ptr (ptr + SECTORSIZE) (src_sect + 1) md1)
      else Inr md)"

function clear_loop :: "addr \<Rightarrow> addr \<Rightarrow> memory \<Rightarrow> memory" where
  "clear_loop end_ptr lim m =
     (if end_ptr < lim then clear_loop (end_ptr + 1) lim (m(end_ptr := 0)) else m)"
  by pat_completeness auto
termination
proof (relation "measure (\<lambda>(e, l, m). unat l - unat e)")
  fix e l :: addr and m :: memory
  assume "e < l"
  then have l: "unat e < unat l" by (simp add: word_less_nat_alt)
  then have "unat e + 1 < 18446744073709551616" using unat_less_2_64 [of l] by linarith
  then have "unat (e + 1) = unat e + 1" by (subst unat_add64) simp_all
  with l show "((e + 1, l, m(e := 0)), e, l, m) \<in> measure (\<lambda>(e, l, m). unat l - unat e)" by simp
qed simp

declare clear_loop.simps [simp del]

definition boot_readseg ::
  "nat \<Rightarrow> 'd port_io \<Rightarrow> addr \<Rightarrow> u32 \<Rightarrow> u64 \<Rightarrow> u64 \<Rightarrow> memory \<times> 'd \<Rightarrow> (memory \<times> 'd) res" where
  "boot_readseg polls D ptr src_sect filesz memsz md =
     (let end_ptr = ptr + filesz;
          lim = memsz + ptr
      in bind_res (readseg_loop (unat filesz div 512 + 2) polls D end_ptr (ptr AND NOT (SECTORSIZE - 1)) src_sect md)
           (\<lambda>(m1, d1). Inr (clear_loop end_ptr lim m1, d1)))"

primrec boot_segments ::
  "nat \<Rightarrow> nat \<Rightarrow> 'd port_io \<Rightarrow> addr \<Rightarrow> addr \<Rightarrow> memory \<times> 'd \<Rightarrow> (memory \<times> 'd) res" where
  "boot_segments 0 polls D eph ph md = (if ph < eph then Inl OutOfFuel else Inr md)"
| "boot_segments (Suc n) polls D eph ph md =
     (if ph < eph
      then bind_res (boot_readseg polls D (p_va (fst md) ph)
                       (ucast (ucast KERNEL_START_SECTOR + p_offset (fst md) ph div SECTORSIZE))
                       (p_filesz (fst md) ph) (p_memsz (fst md) ph) md) (\<lambda>md1.
           boot_segments n polls D eph (ph + sizeof_elf_program) md1)
      else Inr md)"

text \<open>
  \<open>boot\<close> returns the address it jumps to. With a wrong magic number the code spins for ever, which is
  the fault \<open>OutOfFuel\<close>.
\<close>

definition boot :: "nat \<Rightarrow> 'd port_io \<Rightarrow> memory \<times> 'd \<Rightarrow> (addr \<times> memory \<times> 'd) res" where
  "boot polls D md =
     bind_res (boot_readseg polls D ELFHDR KERNEL_START_SECTOR PAGESIZE PAGESIZE md) (\<lambda>(m1, d1).
     check (e_magic m1 ELFHDR = ELF_MAGIC) OutOfFuel
     (let ph = ELFHDR + e_phoff m1 ELFHDR;
          eph = ph + sizeof_elf_program * ucast (e_phnum m1 ELFHDR)
      in bind_res (boot_segments 65536 polls D eph ph (m1, d1)) (\<lambda>(m2, d2).
         Inr (e_entry m2 ELFHDR, m2, d2))))"

subsection \<open>Specification\<close>

text \<open>
  A controller, seen through its registers, the number of status reads until it is ready, and the
  words waiting at its data port. It becomes ready after fewer than \<open>polls\<close> reads, remembers
  the registers, and a read command of one sector in LBA mode makes the words of that sector
  available.
\<close>

definition lba :: "(u16 \<Rightarrow> u8) \<Rightarrow> nat" where
  "lba r = unat (r 0x1F3) + 2 ^ 8 * unat (r 0x1F4) + 2 ^ 16 * unat (r 0x1F5) + 2 ^ 24 * unat (r 0x1F6 AND 0x0F)"

definition sector_words :: "memory \<Rightarrow> nat \<Rightarrow> u32 list" where
  "sector_words disk s = map (\<lambda>k. load32 disk (of_nat (512 * s) + 4 * of_nat k)) [0..<128]"

definition ata_spec ::
  "nat \<Rightarrow> 'd port_io \<Rightarrow> ('d \<Rightarrow> u16 \<Rightarrow> u8) \<Rightarrow> ('d \<Rightarrow> nat) \<Rightarrow> ('d \<Rightarrow> u32 list) \<Rightarrow> memory \<Rightarrow> bool" where
  "ata_spec polls D regs busy words disk \<longleftrightarrow>
     (\<forall>d. busy d < polls) \<and>
     (\<forall>d. regs (snd (in8 D 0x1F7 d)) = regs d \<and> words (snd (in8 D 0x1F7 d)) = words d
        \<and> busy (snd (in8 D 0x1F7 d)) = busy d - 1
        \<and> (fst (in8 D 0x1F7 d) AND 0xC0 = 0x40 \<longleftrightarrow> busy d = 0)) \<and>
     (\<forall>d r v. 0x1F2 \<le> r \<and> r \<le> 0x1F6 \<and> busy d = 0 \<longrightarrow>
        regs (out8 D r v d) = (regs d)(r := v) \<and> busy (out8 D r v d) = 0) \<and>
     (\<forall>d. busy d = 0 \<and> regs d 0x1F2 = 1 \<and> regs d 0x1F6 AND 0xF0 = 0xE0 \<longrightarrow>
        words (out8 D 0x1F7 0x20 d) = sector_words disk (lba (regs d))) \<and>
     (\<forall>d w ws. busy d = 0 \<and> words d = w # ws \<longrightarrow>
        fst (in32 D 0x1F0 d) = w \<and> words (snd (in32 D 0x1F0 d)) = ws \<and> busy (snd (in32 D 0x1F0 d)) = 0)"

definition kernel_file :: "memory \<Rightarrow> memory" where
  "kernel_file disk a = disk (a + 512)"

definition seg_lo :: "u64 \<Rightarrow> nat" where "seg_lo va = unat va - unat va mod 512"

definition seg_hi :: "u64 \<Rightarrow> u64 \<Rightarrow> u64 \<Rightarrow> nat" where
  "seg_hi va filesz memsz =
     max (seg_lo va + 512 * ((unat va mod 512 + unat filesz + 511) div 512))
       (unat va + unat memsz)"

text \<open>
  The program headers of the kernel file, and what the loader relies on in them: the table lies in
  the first page, each segment's file offset and address agree modulo the sector size, nothing
  wraps around, and the sectors of a segment overlap neither those of another segment nor the page
  that holds the headers.
\<close>

definition kph :: "memory \<Rightarrow> nat \<Rightarrow> u64" where
  "kph F i = ph_entry (e_phoff F 0) i"

definition outside_seg :: "memory \<Rightarrow> nat \<Rightarrow> addr \<Rightarrow> bool" where
  "outside_seg F i x \<longleftrightarrow> unat x < seg_lo (p_va F (kph F i))
     \<or> seg_hi (p_va F (kph F i)) (p_filesz F (kph F i)) (p_memsz F (kph F i)) \<le> unat x"

definition segment_loaded :: "memory \<Rightarrow> memory \<Rightarrow> nat \<Rightarrow> bool" where
  "segment_loaded F m i \<longleftrightarrow>
     (let va = p_va F (kph F i); filesz = unat (p_filesz F (kph F i)) in
      \<forall>x. (unat (x - va) < filesz \<longrightarrow> m x = F (p_offset F (kph F i) + (x - va)))
        \<and> (filesz \<le> unat (x - va) \<and> unat (x - va) < unat (p_memsz F (kph F i)) \<longrightarrow> m x = 0))"

definition segment_ok :: "memory \<Rightarrow> nat \<Rightarrow> bool" where
  "segment_ok F i \<longleftrightarrow>
     (let va = p_va F (kph F i); filesz = p_filesz F (kph F i); memsz = p_memsz F (kph F i);
          offset = p_offset F (kph F i) in
      unat offset mod 512 = unat va mod 512 \<and> unat va + unat filesz + 512 \<le> 2 ^ 64
      \<and> unat va + unat memsz < 2 ^ 64 \<and> unat offset + unat filesz + 1024 \<le> 2 ^ 37
      \<and> (seg_hi va filesz memsz \<le> 0x3000 \<or> 0x4000 \<le> seg_lo va))"

definition segments_apart :: "memory \<Rightarrow> nat \<Rightarrow> nat \<Rightarrow> bool" where
  "segments_apart F i j \<longleftrightarrow>
     seg_hi (p_va F (kph F i)) (p_filesz F (kph F i)) (p_memsz F (kph F i)) \<le> seg_lo (p_va F (kph F j))
     \<or> seg_hi (p_va F (kph F j)) (p_filesz F (kph F j)) (p_memsz F (kph F j)) \<le> seg_lo (p_va F (kph F i))"

definition bootable :: "memory \<Rightarrow> bool" where
  "bootable F \<longleftrightarrow> e_magic F 0 = ELF_MAGIC \<and> unat (e_phoff F 0) + 56 * unat (e_phnum F 0) \<le> 4096
     \<and> (\<forall>i < unat (e_phnum F 0). segment_ok F i \<and> (\<forall>j < i. segments_apart F i j))"

definition headers_in :: "memory \<Rightarrow> memory \<Rightarrow> bool" where
  "headers_in F m \<longleftrightarrow> (\<forall>x. unat (x - ELFHDR) < 4096 \<longrightarrow> m x = F (x - ELFHDR))"

text \<open>
  A controller that is ready again on the second status read, and a disk with a kernel of one
  segment: 3 bytes of data and 5 of zeroes at address 0x40000, from file offset 0x1000.
\<close>

record demo_ata =
  dreg :: "u16 \<Rightarrow> u8"
  dbusy :: bool
  dwords :: "u32 list"

definition demo_controller :: "memory \<Rightarrow> demo_ata port_io" where
  "demo_controller disk =
     \<lparr>in8 = (\<lambda>p d. (if dbusy d then 0x80 else 0x50, d\<lparr>dbusy := False\<rparr>)), in16 = (\<lambda>p d. (0, d)),
      in32 = (\<lambda>p d. (case dwords d of [] \<Rightarrow> (0, d) | w # ws \<Rightarrow> (w, d\<lparr>dwords := ws\<rparr>))),
      out8 = (\<lambda>r v d. if r = 0x1F7 then d\<lparr>dbusy := True, dwords := sector_words disk (lba (dreg d))\<rparr>
                       else d\<lparr>dreg := (dreg d)(r := v)\<rparr>),
      out16 = (\<lambda>p v d. d), out32 = (\<lambda>p v d. d)\<rparr>"

definition demo_disk :: memory where
  "demo_disk = (\<lambda>_. 0)(0x200 := 0x7F, 0x201 := 0x45, 0x202 := 0x4C, 0x203 := 0x46, 0x218 := 2, 0x21A := 4,
     0x220 := 0x40, 0x238 := 1, 0x249 := 0x10, 0x252 := 4, 0x260 := 3, 0x268 := 8,
     0x1200 := 0xF4, 0x1201 := 0xEB, 0x1202 := 0xFD)"

subsection \<open>Reading sectors\<close>

lemma storen_loadn:
  "k \<le> 2 ^ 64 \<Longrightarrow> storen k m a (loadn k f b) x = (if unat (x - a) < k then f (b + (x - a)) else m x)"
proof (induction k arbitrary: a b)
  case (Suc k)
  have d: "(unat (f b) + 256 * loadn k f (b + 1)) div 256 = loadn k f (b + 1)"
    using unsigned_less [of "f b", where ?'a = nat] by simp
  have "of_nat (unat (f b) + 256 * loadn k f (b + 1)) = f b"
  proof -
    have "(of_nat 256 :: u8) = 0" by simp
    then show ?thesis by (simp only: of_nat_add of_nat_mult mult_zero_left add_0_right) simp
  qed
  moreover have "b + 1 + (x - (a + 1)) = b + (x - a)" by simp
  ultimately show ?case
    using Suc d by (cases "x = a") (auto simp: unat_diff_Suc dest: unat_diff_pos)
qed simp

lemma store32_load32:
  "store32 m a (load32 f b) x = (if unat (x - a) < 4 then f (b + (x - a)) else m x)"
proof -
  have "unat (load32 f b) = loadn 4 f b"
    using loadn_bound [of 4 f b] by (simp add: load32_def unat_of_nat take_bit_nat_eq_self)
  then show ?thesis by (simp add: store32_def storen_loadn)
qed

lemma insl_copies:
  assumes A: "ata_spec polls D regs busy words disk"
  shows "words d = map (\<lambda>k. load32 disk (b + 4 * of_nat k)) [0..<n] \<Longrightarrow> busy d = 0 \<Longrightarrow> n < 2 ^ 32 \<Longrightarrow>
    \<exists>d'. insl n D 0x1F0 a (m, d) = ((\<lambda>x. if unat (x - a) < 4 * n then disk (b + (x - a)) else m x), d')"
proof (induction n arbitrary: a b m d)
  case (Suc n)
  have w: "words d = load32 disk b # map (\<lambda>k. load32 disk (b + 4 + 4 * of_nat k)) [0..<n]"
    using Suc.prems(1) by (simp add: map_shift_upt algebra_simps del: upt_Suc)
  have di: "fst (in32 D 0x1F0 d) = load32 disk b"
      "words (snd (in32 D 0x1F0 d)) = map (\<lambda>k. load32 disk (b + 4 + 4 * of_nat k)) [0..<n]"
      "busy (snd (in32 D 0x1F0 d)) = 0"
    using A w Suc.prems(2) by (simp_all add: ata_spec_def)
  let ?m = "store32 m a (load32 disk b)"
  obtain d' where d': "insl n D 0x1F0 (a + 4) (?m, snd (in32 D 0x1F0 d)) =
      ((\<lambda>x. if unat (x - (a + 4)) < 4 * n then disk (b + 4 + (x - (a + 4))) else ?m x), d')"
    using Suc.IH [OF di(2,3), of "a + 4" ?m] Suc.prems(3) by auto
  have "(if unat (x - (a + 4)) < 4 * n then disk (b + 4 + (x - (a + 4))) else ?m x) =
      (if unat (x - a) < 4 * Suc n then disk (b + (x - a)) else m x)" for x
  proof (cases "unat (x - a) < 4")
    case True
    have e: "x - (a + 4) = (x - a) - 4" by simp
    have "2 ^ 64 - 4 \<le> unat (x - (a + 4))"
      using True by (simp only: e) (simp add: unat_sub_if')
    then have "\<not> unat (x - (a + 4)) < 4 * n" using Suc.prems(3) by simp
    then show ?thesis using True by (simp add: store32_load32)
  next
    case False
    then have "unat (x - (a + 4)) = unat (x - a) - 4"
      using unat_sub64 [of 4 "x - a"] by (simp add: diff_diff_add)
    then show ?thesis using False by (auto simp: store32_load32)
  qed
  then show ?case using d' di(1) by (simp add: case_prod_beta port_defs)
qed simp

lemma boot_waitdisk_ready:
  assumes A: "ata_spec polls D regs busy words disk"
  shows "busy d < n \<Longrightarrow> \<exists>d'. boot_waitdisk n D d = Inr d' \<and> busy d' = 0 \<and> regs d' = regs d \<and> words d' = words d"
proof (induction n arbitrary: d)
  case (Suc n)
  have s: "regs (snd (in8 D 0x1F7 d)) = regs d" "words (snd (in8 D 0x1F7 d)) = words d"
      "busy (snd (in8 D 0x1F7 d)) = busy d - 1" "fst (in8 D 0x1F7 d) AND 0xC0 = 0x40 \<longleftrightarrow> busy d = 0"
    using A by (simp_all add: ata_spec_def)
  show ?case
  proof (cases "busy d = 0")
    case True then show ?thesis using s by (simp add: case_prod_beta port_defs)
  next
    case False
    then have "busy (snd (in8 D 0x1F7 d)) < n" using s(3) Suc.prems by simp
    from Suc.IH [OF this] False s show ?thesis by (simp add: case_prod_beta port_defs)
  qed
qed simp

lemma drive_register:
  assumes "k < 16"
  shows "(of_nat k OR 0xE0 :: u8) AND 0xF0 = 0xE0" "unat ((of_nat k OR 0xE0 :: u8) AND 0x0F) = k"
proof -
  have "k = 0 \<or> k = 1 \<or> k = 2 \<or> k = 3 \<or> k = 4 \<or> k = 5 \<or> k = 6 \<or> k = 7 \<or> k = 8 \<or> k = 9
      \<or> k = 10 \<or> k = 11 \<or> k = 12 \<or> k = 13 \<or> k = 14 \<or> k = 15" using assms by presburger
  then show "(of_nat k OR 0xE0 :: u8) AND 0xF0 = 0xE0" "unat ((of_nat k OR 0xE0 :: u8) AND 0x0F) = k"
    by (elim disjE; simp)+
qed

lemma unat_byte_of: "unat (ucast (drop_bit k (s :: u32)) :: u8) = unat s div 2 ^ k mod 256"
  by (simp add: unsigned_ucast_eq unat_drop_bit_eq take_bit_eq_mod) (simp add: drop_bit_eq_div)

lemma byte_sum: "s mod 256 + 256 * (s div 256 mod 256) + 65536 * (s div 65536 mod 256) + 16777216 * (s div 16777216) = (s :: nat)"
proof -
  let ?q = "s div 256" and ?p = "s div 256 div 256"
  have "s div 65536 = ?p" "s div 16777216 = ?p div 256" by (simp_all add: div_mult2_eq [symmetric])
  moreover have "s mod 256 + 256 * (?q mod 256 + 256 * (?p mod 256 + 256 * (?p div 256))) = s"
    by (simp only: mod_mult_div_eq)
  then have "s mod 256 + 256 * (?q mod 256) + 65536 * (?p mod 256) + 16777216 * (?p div 256) = s"
    by (simp only: distrib_left mult.assoc [symmetric])
  ultimately show ?thesis by (simp only:)
qed

lemma boot_command_words:
  assumes A: "ata_spec polls D regs busy words disk" and d: "busy d = 0" and s: "unat s < 2 ^ 28"
  shows "words (boot_command D s d) = sector_words disk (unat s)"
proof -
  let ?d1 = "out8 D 0x1F2 1 d"
  let ?d2 = "out8 D 0x1F3 (ucast s) ?d1"
  let ?d3 = "out8 D 0x1F4 (ucast (drop_bit 8 s)) ?d2"
  let ?d4 = "out8 D 0x1F5 (ucast (drop_bit 16 s)) ?d3"
  let ?v = "ucast (drop_bit 24 s OR 0xE0) :: u8"
  let ?d5 = "out8 D 0x1F6 ?v ?d4"
  have out: "regs (out8 D r v d) = (regs d)(r := v)" "busy (out8 D r v d) = 0"
    if "0x1F2 \<le> r" "r \<le> 0x1F6" "busy d = 0" for r v d using A that by (simp_all add: ata_spec_def)
  have b5: "busy ?d5 = 0" and r5: "regs ?d5 = (regs d)(0x1F2 := 1, 0x1F3 := ucast s, 0x1F4 := ucast (drop_bit 8 s),
      0x1F5 := ucast (drop_bit 16 s), 0x1F6 := ?v)" using d by (simp_all add: out)
  have "ucast (drop_bit 24 s) = (of_nat (unat s div 2 ^ 24) :: u8)"
    using unat_byte_of [of 24 s] s
    by (intro word_unat_eq_iff [THEN iffD2]) (simp add: unat_of_nat take_bit_eq_mod)
  then have v: "?v = of_nat (unat s div 2 ^ 24) OR 0xE0" by (simp add: unsigned_or_eq)
  have "unat s div 2 ^ 24 < 16" using s by (simp add: div_less_iff_less_mult)
  note dr = drive_register [OF this]
  have "lba (regs ?d5) = unat s"
    using dr(2) unat_byte_of [of 0 s] unat_byte_of [of 8 s] unat_byte_of [of 16 s] byte_sum [of "unat s"] s
    by (simp only: r5 lba_def) (simp add: v)
  moreover have "regs ?d5 0x1F2 = 1" "regs ?d5 0x1F6 AND 0xF0 = 0xE0"
    using dr(1) by (simp_all only: r5) (simp_all add: v)
  ultimately have "words (out8 D 0x1F7 0x20 ?d5) = sector_words disk (unat s)"
    using A b5 by (simp add: ata_spec_def)
  then show ?thesis by (simp add: boot_command_def port_defs Let_def)
qed

lemma boot_readsect_reads:
  assumes A: "ata_spec polls D regs busy words disk" and s: "unat s < 2 ^ 28"
  shows "\<exists>d'. boot_readsect polls D dst s (m, d) =
    Inr ((\<lambda>x. if unat (x - dst) < 512 then disk (of_nat (512 * unat s) + (x - dst)) else m x), d')"
proof -
  have b: "busy d < polls" for d using A by (simp add: ata_spec_def)
  obtain d1 where d1: "boot_waitdisk polls D d = Inr d1" "busy d1 = 0"
    using boot_waitdisk_ready [OF A b] by blast
  obtain d2 where d2: "boot_waitdisk polls D (boot_command D s d1) = Inr d2" "busy d2 = 0"
      "words d2 = sector_words disk (unat s)"
    using boot_waitdisk_ready [OF A b] boot_command_words [OF A d1(2) s] by metis
  then show ?thesis
    using insl_copies [OF A d2(3) [unfolded sector_words_def] d2(2), of dst m] d1
    by (simp add: boot_readsect_def)
qed

lemma readseg_loop_reads:
  assumes A: "ata_spec polls D regs busy words disk"
  shows "k \<le> n \<Longrightarrow> unat e \<le> unat p + 512 * k \<Longrightarrow> 0 < k \<longrightarrow> unat p + 512 * k < unat e + 512 \<Longrightarrow>
    unat p + 512 * k < 2 ^ 64 \<Longrightarrow> unat s + k \<le> 2 ^ 28 \<Longrightarrow>
    \<exists>d'. readseg_loop n polls D e p s (m, d) =
      Inr ((\<lambda>x. if unat (x - p) < 512 * k then disk (of_nat (512 * unat s) + (x - p)) else m x), d')"
proof (induction k arbitrary: n p s m d)
  case 0
  then have "\<not> p < e" by (simp add: word_less_nat_alt)
  then show ?case by (cases n) simp_all
next
  case (Suc k)
  obtain n' where n: "n = Suc n'" using Suc.prems(1) by (cases n) simp_all
  have less: "p < e" using Suc.prems(3) by (simp add: word_less_nat_alt)
  have p: "unat (p + 512) = unat p + 512" using Suc.prems(4) by (subst unat_add64) simp_all
  have "unat s + 1 < 2 ^ 32" using Suc.prems(5) by simp
  then have s: "unat (s + 1) = unat s + 1" by (subst unat_add_lem [THEN iffD1]) simp_all
  let ?m = "\<lambda>x. if unat (x - p) < 512 then disk (of_nat (512 * unat s) + (x - p)) else m x"
  obtain d1 where d1: "boot_readsect polls D p s (m, d) = Inr (?m, d1)"
    using boot_readsect_reads [OF A, of s p m d] Suc.prems(5) by auto
  obtain d' where d': "readseg_loop n' polls D e (p + 512) (s + 1) (?m, d1) =
      Inr ((\<lambda>x. if unat (x - (p + 512)) < 512 * k then disk (of_nat (512 * unat (s + 1)) + (x - (p + 512))) else ?m x), d')"
    using Suc.IH [of n' "p + 512" "s + 1" ?m d1] Suc.prems p s n by fastforce
  have "(if unat (x - (p + 512)) < 512 * k then disk (of_nat (512 * unat (s + 1)) + (x - (p + 512))) else ?m x) =
      (if unat (x - p) < 512 * Suc k then disk (of_nat (512 * unat s) + (x - p)) else m x)" for x
  proof (cases "unat (x - p) < 512")
    case True
    have e: "x - (p + 512) = (x - p) - 512" by simp
    have "2 ^ 64 - 512 \<le> unat (x - (p + 512))"
      using True by (simp only: e) (simp add: unat_sub_if')
    then have "\<not> unat (x - (p + 512)) < 512 * k" using Suc.prems(5) by simp
    then show ?thesis using True by simp
  next
    case False
    then have "unat (x - (p + 512)) = unat (x - p) - 512"
      using unat_sub64 [of 512 "x - p"] by (simp add: diff_diff_add)
    moreover have "of_nat (512 * unat (s + 1)) + (x - (p + 512)) = of_nat (512 * unat s) + (x - p)"
      by (simp only: s) simp
    ultimately show ?thesis using False by (simp only:) auto
  qed
  then show ?case using d' d1 less n by (simp add: SECTORSIZE_def)
qed

lemma clear_loop_zeroes: "clear_loop e l m x = (if e \<le> x \<and> x < l then 0 else m x)"
proof (induction e l m rule: clear_loop.induct)
  case (1 e l m)
  show ?case
  proof (cases "e < l")
    case True
    then have "unat e < unat l" by (simp add: word_less_nat_alt)
    then have "unat e + 1 < 18446744073709551616" using unat_less_2_64 [of l] by linarith
    then have "unat (e + 1) = unat e + 1" by (subst unat_add64) simp_all
    then have "e + 1 \<le> x \<longleftrightarrow> e < x" by (simp add: word_le_nat_alt word_less_nat_alt Suc_le_eq)
    moreover have "clear_loop (e + 1) l (m(e := 0)) x = (if e + 1 \<le> x \<and> x < l then 0 else (m(e := 0)) x)"
      by (rule 1 [OF True])
    ultimately show ?thesis using True by (subst clear_loop.simps) (cases "x = e"; auto)
  next
    case False
    then show ?thesis by (subst clear_loop.simps) auto
  qed
qed

subsection \<open>Loading a segment\<close>

lemma sector_start: "unat (p AND NOT (SECTORSIZE - 1)) = seg_lo p" "p AND NOT (SECTORSIZE - 1) = p - of_nat (unat p mod 512)"
proof -
  have m: "(SECTORSIZE - 1) = mask 9" by (simp add: SECTORSIZE_def mask_eq_exp_minus_1)
  have "unat (p AND mask 9) = unat p mod 512"
    by (simp only: take_bit_eq_mask [symmetric] unsigned_take_bit_eq) (simp add: take_bit_eq_mod)
  then have "p AND mask 9 = of_nat (unat p mod 512)" by (metis of_nat_unat ucast_id)
  moreover have "p = (p AND NOT (mask 9)) + (p AND mask 9)" 
    by (subst disjunctive_add_eq_or) (auto simp: bit_eq_iff bit_simps)
  ultimately show e: "p AND NOT (SECTORSIZE - 1) = p - of_nat (unat p mod 512)" by (metis m add_diff_cancel_right')
  have "unat (of_nat (unat p mod 512) :: u64) = unat p mod 512" by (simp add: unat_of_nat64)
  then show "unat (p AND NOT (SECTORSIZE - 1)) = seg_lo p"
    by (simp only: e seg_lo_def) (subst unat_sub64, simp_all)
qed

lemma seg_lo_le: "seg_lo p + unat p mod 512 = unat p"
  by (simp add: seg_lo_def)

lemma boot_readseg_loads:
  assumes A: "ata_spec polls D regs busy words disk"
    and f: "unat p + unat filesz + 512 \<le> 2 ^ 64" and z: "unat p + unat memsz < 2 ^ 64"
    and s: "unat s + (unat p mod 512 + unat filesz + 511) div 512 \<le> 2 ^ 28"
  shows "\<exists>m' d'. boot_readseg polls D p s filesz memsz (m, d) = Inr (m', d')
    \<and> (\<forall>x. unat (x - p) < unat filesz \<longrightarrow> m' x = disk (of_nat (512 * unat s + unat p mod 512) + (x - p)))
    \<and> (\<forall>x. unat filesz \<le> unat (x - p) \<and> unat (x - p) < unat memsz \<longrightarrow> m' x = 0)
    \<and> (\<forall>x. unat x < seg_lo p \<or> seg_hi p filesz memsz \<le> unat x \<longrightarrow> m' x = m x)"
proof -
  let ?off = "unat p mod 512" and ?p = "p AND NOT (SECTORSIZE - 1)"
  let ?k = "(?off + unat filesz + 511) div 512"
  let ?m = "\<lambda>x. if unat (x - ?p) < 512 * ?k then disk (of_nat (512 * unat s) + (x - ?p)) else m x"
  have e: "unat (p + filesz) = unat p + unat filesz" using f by (subst unat_add64) simp_all
  have l: "unat (memsz + p) = unat memsz + unat p" using z by (subst unat_add64) simp_all
  have off: "?off < 512" by simp
  have k: "?off + unat filesz \<le> 512 * ?k" "512 * ?k < ?off + unat filesz + 512"
    using off by linarith+
  have kn: "?k \<le> unat filesz div 512 + 2" using off by linarith
  obtain d' where d': "readseg_loop (unat filesz div 512 + 2) polls D (p + filesz) ?p s (m, d) = Inr (?m, d')"
    using readseg_loop_reads [OF A kn, of "p + filesz" ?p s m d] k seg_lo_le [of p] e f s
    by (auto simp: sector_start(1))
  let ?m' = "clear_loop (p + filesz) (memsz + p) ?m"
  have xp: "unat x = unat p + unat (x - p)" if "unat p + unat (x - p) < 2 ^ 64" for x
    using that unat_add64 [of p "x - p"] by simp
  have up: "unat ?p = seg_lo p" by (rule sector_start)
  have m': "?m' x = (if unat p + unat filesz \<le> unat x \<and> unat x < unat memsz + unat p then 0 else ?m x)" for x
    by (simp only: clear_loop_zeroes word_le_nat_alt word_less_nat_alt e l)
  have "?m' x = disk (of_nat (512 * unat s + ?off) + (x - p))" if x: "unat (x - p) < unat filesz" for x
  proof -
    have ux: "unat x = unat p + unat (x - p)" using x f by (intro xp) simp
    then have "unat (x - ?p) = ?off + unat (x - p)"
      using unat_sub64 [of ?p x] up seg_lo_le [of p] by simp
    then have "unat (x - ?p) < 512 * ?k" using x k(1) by simp
    moreover have "of_nat (512 * unat s) + (x - ?p) = of_nat (512 * unat s + ?off) + (x - p)"
      by (simp add: sector_start(2))
    ultimately show ?thesis using ux x by (simp only: m') simp
  qed
  moreover have "?m' x = 0" if x: "unat filesz \<le> unat (x - p) \<and> unat (x - p) < unat memsz" for x
    using xp [of x] x z by (simp only: m') simp
  moreover have "?m' x = m x" if x: "unat x < seg_lo p \<or> seg_hi p filesz memsz \<le> unat x" for x
  proof -
    have "\<not> unat (x - ?p) < 512 * ?k"
      using x up f k(2) seg_lo_le [of p] unat_less_2_64 [of x] by (auto simp: unat_sub_if' seg_hi_def)
    moreover have "\<not> (unat p + unat filesz \<le> unat x \<and> unat x < unat memsz + unat p)"
      using x seg_lo_le [of p] by (auto simp: seg_hi_def)
    ultimately show ?thesis by (simp only: m') simp
  qed
  ultimately show ?thesis using d' by (auto simp: boot_readseg_def Let_def)
qed

subsection \<open>Loading the kernel\<close>

lemma headers_loadn:
  "headers_in F m \<Longrightarrow> unat a + k \<le> 4096 \<Longrightarrow> loadn k m (ELFHDR + a) = loadn k F a"
proof (induction k arbitrary: a)
  case (Suc k)
  have "unat a + 1 < 2 ^ 64" using Suc.prems(2) by simp
  then have a: "unat (a + 1) = unat a + 1" by (subst unat_add64) simp_all
  have "m (ELFHDR + a) = F a" using Suc.prems by (simp add: headers_in_def)
  then show ?case using Suc.IH [of "a + 1"] Suc.prems a by (simp add: add.assoc)
qed simp

lemma headers_load:
  assumes "headers_in F m"
  shows "unat a + 8 \<le> 4096 \<Longrightarrow> load64 m (ELFHDR + a) = load64 F a"
    "unat a + 4 \<le> 4096 \<Longrightarrow> load32 m (ELFHDR + a) = load32 F a"
    "unat a + 2 \<le> 4096 \<Longrightarrow> load16 m (ELFHDR + a) = load16 F a"
  using headers_loadn [OF assms] by (simp_all add: load64_def load32_def load16_def)

lemma headers_elf:
  assumes "headers_in F m"
  shows "e_magic m ELFHDR = e_magic F 0" "e_phoff m ELFHDR = e_phoff F 0"
    "e_phnum m ELFHDR = e_phnum F 0" "e_entry m ELFHDR = e_entry F 0"
  using headers_load(2) [OF assms, where a = 0] headers_load(1) [OF assms, where a = "0x20"]
    headers_load(3) [OF assms, where a = "0x38"] headers_load(1) [OF assms, where a = "0x18"]
  by (simp_all add: e_magic_def e_phoff_def e_phnum_def e_entry_def)

lemma headers_ph:
  assumes "headers_in F m" "unat a + 56 \<le> 4096"
  shows "p_va m (ELFHDR + a) = p_va F a" "p_offset m (ELFHDR + a) = p_offset F a"
    "p_filesz m (ELFHDR + a) = p_filesz F a" "p_memsz m (ELFHDR + a) = p_memsz F a"
proof -
  have "unat (a + k) = unat a + unat k" if "unat k \<le> 48" for k
    using assms(2) that by (subst unat_add64) simp_all
  then show "p_va m (ELFHDR + a) = p_va F a" "p_offset m (ELFHDR + a) = p_offset F a"
    "p_filesz m (ELFHDR + a) = p_filesz F a" "p_memsz m (ELFHDR + a) = p_memsz F a"
    using headers_load(1) [OF assms(1), of "a + 0x10"] headers_load(1) [OF assms(1), of "a + 8"]
      headers_load(1) [OF assms(1), of "a + 0x20"] headers_load(1) [OF assms(1), of "a + 0x28"] assms(2)
    by (simp_all add: p_va_def p_offset_def p_filesz_def p_memsz_def add.assoc)
qed

lemma kph_unat:
  assumes "bootable F" "i \<le> unat (e_phnum F 0)"
  shows "unat (kph F i) = unat (e_phoff F 0) + 56 * i"
proof -
  have "unat (0x38 * of_nat i :: u64) = 56 * i"
    using assms by (subst unat_mult64) (simp_all add: bootable_def unat_of_nat64)
  then show ?thesis
    using assms by (simp add: kph_def ph_entry_def sizeof_elf_program_def bootable_def unat_add64)
qed

lemma segment_inside:
  assumes "segment_ok F i" "unat (x - p_va F (kph F i)) < max (unat (p_filesz F (kph F i))) (unat (p_memsz F (kph F i)))"
  shows "seg_lo (p_va F (kph F i)) \<le> unat x"
    "unat x < seg_hi (p_va F (kph F i)) (p_filesz F (kph F i)) (p_memsz F (kph F i))"
proof -
  let ?va = "p_va F (kph F i)"
  have "unat ?va + unat (x - ?va) < 2 ^ 64" using assms by (auto simp: segment_ok_def Let_def)
  then have "unat x = unat ?va + unat (x - ?va)" using unat_add64 [of ?va "x - ?va"] by simp
  moreover have "f \<le> 512 * ((f + 511) div 512)" for f :: nat by linarith
  from this [of "unat ?va mod 512 + unat (p_filesz F (kph F i))"]
  have "unat ?va + unat (p_filesz F (kph F i)) \<le>
      seg_lo ?va + 512 * ((unat ?va mod 512 + unat (p_filesz F (kph F i)) + 511) div 512)"
    using seg_lo_le [of ?va] by linarith
  ultimately show "seg_lo ?va \<le> unat x" "unat x < seg_hi ?va (p_filesz F (kph F i)) (p_memsz F (kph F i))"
    using assms(2) seg_lo_le [of ?va] by (auto simp: seg_hi_def)
qed

lemma segment_loaded_restrict:
  assumes "segment_ok F i" "segment_loaded F m i" "\<And>x. \<not> outside_seg F i x \<Longrightarrow> m' x = m x"
  shows "segment_loaded F m' i"
proof -
  have "m' x = m x" if "unat (x - p_va F (kph F i)) < max (unat (p_filesz F (kph F i))) (unat (p_memsz F (kph F i)))" for x
    using segment_inside [OF assms(1) that] by (intro assms(3)) (simp add: outside_seg_def)
  then show ?thesis using assms(2) by (auto simp: segment_loaded_def Let_def)
qed

lemma segment_sector:
  fixes off :: u64
  assumes "unat off + 1024 \<le> 2 ^ 37"
  shows "unat (ucast (ucast KERNEL_START_SECTOR + off div SECTORSIZE) :: u32) = 1 + unat off div 512"
proof -
  have d: "unat (off div SECTORSIZE) = unat off div 512" by (simp add: SECTORSIZE_def unat_div)
  have b: "unat off div 512 + 1 < 2 ^ 32" using assms by simp
  have "unat (1 + off div SECTORSIZE) = 1 + unat off div 512"
    using b by (subst unat_add64) (simp_all add: d)
  then show ?thesis
    using b by (simp add: KERNEL_START_SECTOR_def unsigned_ucast_eq take_bit_nat_eq_self)
qed

lemma boot_readseg_segment:
  assumes A: "ata_spec polls D regs busy words disk" and F: "F = kernel_file disk" and ok: "segment_ok F i"
  shows "\<exists>m' d'. boot_readseg polls D (p_va F (kph F i))
      (ucast (ucast KERNEL_START_SECTOR + p_offset F (kph F i) div SECTORSIZE))
      (p_filesz F (kph F i)) (p_memsz F (kph F i)) (m, d) = Inr (m', d')
    \<and> segment_loaded F m' i \<and> (\<forall>x. outside_seg F i x \<longrightarrow> m' x = m x)"
proof -
  let ?va = "p_va F (kph F i)" and ?fs = "p_filesz F (kph F i)" and ?ms = "p_memsz F (kph F i)"
    and ?off = "p_offset F (kph F i)"
  let ?s = "ucast (ucast KERNEL_START_SECTOR + ?off div SECTORSIZE) :: u32"
  have o: "unat ?off mod 512 = unat ?va mod 512" "unat ?va + unat ?fs + 512 \<le> 2 ^ 64"
      "unat ?va + unat ?ms < 2 ^ 64" "unat ?off + unat ?fs + 1024 \<le> 2 ^ 37"
    using ok by (simp_all add: segment_ok_def Let_def)
  have s: "unat ?s = 1 + unat ?off div 512" using o(4) by (intro segment_sector) simp
  have "unat ?s + (unat ?va mod 512 + unat ?fs + 511) div 512 \<le> 2 ^ 28"
  proof -
    have "unat ?off div 512 + (unat ?off mod 512 + unat ?fs + 511) div 512 = (unat ?off + unat ?fs + 511) div 512"
      using div_mult_self4 [of 512 "unat ?off div 512" "unat ?off mod 512 + unat ?fs + 511"]
      by (simp add: add.assoc [symmetric])
    moreover have "(unat ?off + unat ?fs + 511) div 512 < 2 ^ 28 - 1" using o(4) by simp
    ultimately show ?thesis unfolding s o(1) [symmetric] by simp
  qed
  note load = boot_readseg_loads [OF A o(2,3) this, of m d]
  have "512 * unat ?s + unat ?va mod 512 = unat ?off + 512"
    unfolding s o(1) [symmetric] by simp
  then have "(of_nat (512 * unat ?s + unat ?va mod 512) :: u64) = ?off + 512" by simp
  then have "disk (of_nat (512 * unat ?s + unat ?va mod 512) + y) = F (?off + y)" for y
    by (simp add: F kernel_file_def algebra_simps)
  with load obtain m' d' where r: "boot_readseg polls D ?va ?s ?fs ?ms (m, d) = Inr (m', d')"
      "\<forall>x. unat (x - ?va) < unat ?fs \<longrightarrow> m' x = F (?off + (x - ?va))"
      "\<forall>x. unat ?fs \<le> unat (x - ?va) \<and> unat (x - ?va) < unat ?ms \<longrightarrow> m' x = 0"
      "\<forall>x. unat x < seg_lo ?va \<or> seg_hi ?va ?fs ?ms \<le> unat x \<longrightarrow> m' x = m x" by auto
  then have "segment_loaded F m' i" by (simp add: segment_loaded_def Let_def)
  moreover have "\<forall>x. outside_seg F i x \<longrightarrow> m' x = m x" using r(4) by (simp add: outside_seg_def)
  ultimately show ?thesis using r(1) by blast
qed

lemma boot_segments_load:
  assumes A: "ata_spec polls D regs busy words disk" and F: "F = kernel_file disk" and B: "bootable F"
  defines "n \<equiv> unat (e_phnum F 0)"
  shows "j \<le> n \<Longrightarrow> n - j \<le> fuel \<Longrightarrow> headers_in F m \<Longrightarrow>
    \<exists>m' d'. boot_segments fuel polls D (ELFHDR + kph F n) (ELFHDR + kph F j) (m, d) = Inr (m', d')
      \<and> headers_in F m' \<and> (\<forall>i. j \<le> i \<and> i < n \<longrightarrow> segment_loaded F m' i)
      \<and> (\<forall>x. (\<forall>i. j \<le> i \<and> i < n \<longrightarrow> outside_seg F i x) \<longrightarrow> m' x = m x)"
proof (induction "n - j" arbitrary: j fuel m d)
  case 0
  then have "j = n" by simp
  then show ?case using 0 by (cases fuel) auto
next
  case (Suc k)
  obtain fu where fu: "fuel = Suc fu" using Suc.prems Suc.hyps(2) by (cases fuel) auto
  have j: "j < n" using Suc.hyps(2) by simp
  have u: "unat (kph F i) = unat (e_phoff F 0) + 56 * i" if "i \<le> n" for i using kph_unat [OF B] that n_def by simp
  have pb: "unat (e_phoff F 0) + 56 * n \<le> 4096" using B by (simp add: bootable_def n_def)
  have E: "unat (ELFHDR + kph F i) = 0x3000 + unat (kph F i)" if "i \<le> n" for i
    using u [OF that] pb that by (subst unat_add64) (simp_all add: ELFHDR_def)
  have less: "ELFHDR + kph F j < ELFHDR + kph F n" using j by (simp add: word_less_nat_alt E u)
  have next_ph: "kph F j + sizeof_elf_program = kph F (Suc j)"
    by (simp add: kph_def ph_entry_def sizeof_elf_program_def algebra_simps)
  have ok: "segment_ok F i" if "i < n" for i using B that by (simp add: bootable_def n_def)
  have "unat (kph F j) + 56 \<le> 4096" using u [of j] pb j by simp
  note ph = headers_ph [OF Suc.prems(3) this]
  obtain m1 d1 where r: "boot_readseg polls D (p_va F (kph F j))
      (ucast (ucast KERNEL_START_SECTOR + p_offset F (kph F j) div SECTORSIZE))
      (p_filesz F (kph F j)) (p_memsz F (kph F j)) (m, d) = Inr (m1, d1)"
      "segment_loaded F m1 j" "\<And>x. outside_seg F j x \<Longrightarrow> m1 x = m x"
    using boot_readseg_segment [OF A F ok [OF j], of m d] by blast
  have "headers_in F m1"
  proof (unfold headers_in_def, intro allI impI)
    fix x assume x: "unat (x - ELFHDR) < 4096"
    then have "unat x = 0x3000 + unat (x - ELFHDR)"
      using unat_add64 [of ELFHDR "x - ELFHDR"] by (simp add: ELFHDR_def)
    then have "outside_seg F j x" using x ok [OF j] by (auto simp: segment_ok_def Let_def outside_seg_def)
    then show "m1 x = F (x - ELFHDR)" using r(3) Suc.prems(3) x by (simp add: headers_in_def)
  qed
  then obtain m' d' where m': "boot_segments fu polls D (ELFHDR + kph F n) (ELFHDR + kph F (Suc j)) (m1, d1) = Inr (m', d')"
      "headers_in F m'" "\<And>i. Suc j \<le> i \<and> i < n \<Longrightarrow> segment_loaded F m' i"
      "\<And>x. \<forall>i. Suc j \<le> i \<and> i < n \<longrightarrow> outside_seg F i x \<Longrightarrow> m' x = m1 x"
    using Suc.hyps(1) [of "Suc j" fu m1 d1] Suc.hyps(2) Suc.prems(2) j fu by fastforce
  have "segment_loaded F m' j"
  proof (rule segment_loaded_restrict [OF ok [OF j] r(2)])
    fix x assume x: "\<not> outside_seg F j x"
    have "outside_seg F i x" if i: "Suc j \<le> i \<and> i < n" for i
    proof -
      have "segments_apart F i j" using B i by (simp add: bootable_def n_def)
      then show ?thesis using x by (auto simp: outside_seg_def segments_apart_def)
    qed
    then show "m' x = m1 x" by (intro m'(4)) blast
  qed
  then have "segment_loaded F m' i" if "j \<le> i \<and> i < n" for i using m'(3) [of i] that by (cases "i = j") auto
  moreover have "m' x = m x" if "\<forall>i. j \<le> i \<and> i < n \<longrightarrow> outside_seg F i x" for x
    using m'(4) [of x] r(3) [of x] that j by auto
  moreover have "boot_segments fuel polls D (ELFHDR + kph F n) (ELFHDR + kph F j) (m, d) = Inr (m', d')"
    using r(1) m'(1) fu less by (simp add: ph next_ph add.assoc)
  ultimately show ?case using m'(2) by blast
qed

lemma boot_loads:
  assumes A: "ata_spec polls D regs busy words disk" and B: "bootable (kernel_file disk)"
  shows "\<exists>m' d'. boot polls D (m, d) = Inr (e_entry (kernel_file disk) 0, m', d')
    \<and> (\<forall>i < unat (e_phnum (kernel_file disk) 0). segment_loaded (kernel_file disk) m' i)
    \<and> (\<forall>x. (\<forall>i < unat (e_phnum (kernel_file disk) 0). outside_seg (kernel_file disk) i x)
         \<and> 4096 \<le> unat (x - ELFHDR) \<longrightarrow> m' x = m x)"
proof -
  let ?F = "kernel_file disk"
  obtain m1 d1 where r: "boot_readseg polls D ELFHDR KERNEL_START_SECTOR PAGESIZE PAGESIZE (m, d) = Inr (m1, d1)"
      "\<forall>x. unat (x - ELFHDR) < 4096 \<longrightarrow> m1 x = disk (512 + (x - ELFHDR))"
      "\<forall>x. unat x < 0x3000 \<or> 0x4000 \<le> unat x \<longrightarrow> m1 x = m x"
  proof -
    have "unat ELFHDR + unat PAGESIZE + 512 \<le> 2 ^ 64" "unat ELFHDR + unat PAGESIZE < 2 ^ 64"
        "unat KERNEL_START_SECTOR + (unat ELFHDR mod 512 + unat PAGESIZE + 511) div 512 \<le> 2 ^ 28"
      by (simp_all add: ELFHDR_def PAGESIZE_def KERNEL_START_SECTOR_def)
    moreover have "(of_nat (512 * unat KERNEL_START_SECTOR + unat ELFHDR mod 512) :: u64) = 512"
        "unat PAGESIZE = 4096" "seg_lo ELFHDR = 0x3000" "seg_hi ELFHDR PAGESIZE PAGESIZE = 0x4000"
      by (simp_all add: ELFHDR_def PAGESIZE_def KERNEL_START_SECTOR_def seg_lo_def seg_hi_def)
    ultimately show thesis
      using boot_readseg_loads [OF A, of ELFHDR PAGESIZE PAGESIZE KERNEL_START_SECTOR m d] that by auto
  qed
  have h: "headers_in ?F m1" using r(2) by (simp add: headers_in_def kernel_file_def add.commute)
  note e = headers_elf [OF h]
  have n: "unat (e_phnum ?F 0) \<le> 65536" using unsigned_less [of "e_phnum ?F 0", where ?'a = nat] by simp
  obtain m' d' where s: "boot_segments 65536 polls D (ELFHDR + kph ?F (unat (e_phnum ?F 0))) (ELFHDR + kph ?F 0) (m1, d1) = Inr (m', d')"
      "headers_in ?F m'" "\<forall>i < unat (e_phnum ?F 0). segment_loaded ?F m' i"
      "\<And>x. \<forall>i < unat (e_phnum ?F 0). outside_seg ?F i x \<Longrightarrow> m' x = m1 x"
    using boot_segments_load [OF A refl B, of 0 65536 m1 d1] h n by auto
  have k: "ELFHDR + kph ?F 0 = ELFHDR + e_phoff ?F 0"
      "ELFHDR + kph ?F (unat (e_phnum ?F 0)) = ELFHDR + e_phoff ?F 0 + sizeof_elf_program * ucast (e_phnum ?F 0)"
    by (simp_all add: kph_def ph_entry_def)
  have "e_magic ?F 0 = ELF_MAGIC" using B by (simp add: bootable_def)
  then have "boot polls D (m, d) = Inr (e_entry ?F 0, m', d')"
    using r(1) s(1) headers_elf(4) [OF s(2)] by (simp add: boot_def e k Let_def)
  moreover have "m1 x = m x" if "4096 \<le> unat (x - ELFHDR)" for x
  proof (rule r(3) [rule_format])
    show "unat x < 0x3000 \<or> 0x4000 \<le> unat x" using that by (auto simp: ELFHDR_def unat_sub_if' split: if_splits)
  qed
  ultimately show ?thesis using s(3,4) by auto
qed

text \<open>
  C15: With a controller that behaves as ATA programmed I/O documents, \<open>boot\<close> loads every
  segment of the kernel file to its address, clears the rest of each segment's memory and jumps to
  the entry point, and the only other memory it changes is the header page from 0x3000 to 0x4000
  and the remainder of the sectors at both ends of a segment. The kernel file must have the ELF
  magic number and its program-header table in its first 4096 bytes; each segment's file offset
  and address must agree modulo 512, lie below 2^37 in the file and not wrap around in memory; and
  the segments, extended to whole sectors, must overlap neither each other nor the header page.
\<close>
theorem boot_loads_kernel:
  assumes A: "ata_spec polls D regs busy words disk" and B: "bootable (kernel_file disk)"
  shows "\<exists>m' d'. boot polls D (m, d) = Inr (e_entry (kernel_file disk) 0, m', d')
    \<and> (\<forall>i < unat (e_phnum (kernel_file disk) 0). segment_loaded (kernel_file disk) m' i)
    \<and> (\<forall>x. (\<forall>i < unat (e_phnum (kernel_file disk) 0). outside_seg (kernel_file disk) i x)
         \<and> 4096 \<le> unat (x - ELFHDR) \<longrightarrow> m' x = m x)"
  using boot_loads [OF A B] .

lemma demo_ata_spec:
  "ata_spec 2 (demo_controller disk) dreg (\<lambda>d. if dbusy d then 1 else 0) dwords disk"
proof -
  have "r \<noteq> 0x1F7" if "r \<le> 0x1F6" for r :: u16 using that by (auto simp: word_le_nat_alt)
  then show ?thesis by (simp add: ata_spec_def demo_controller_def)
qed

lemma demo_fields:
  "e_magic (kernel_file demo_disk) 0 = ELF_MAGIC" "e_phoff (kernel_file demo_disk) 0 = 0x40"
  "e_phnum (kernel_file demo_disk) 0 = 1" "e_entry (kernel_file demo_disk) 0 = 0x40002"
  "p_offset (kernel_file demo_disk) 0x40 = 0x1000" "p_va (kernel_file demo_disk) 0x40 = 0x40000"
  "p_filesz (kernel_file demo_disk) 0x40 = 3" "p_memsz (kernel_file demo_disk) 0x40 = 8"
  by (simp_all add: e_magic_def e_phoff_def e_phnum_def e_entry_def p_offset_def p_va_def p_filesz_def
      p_memsz_def load64_bytes load32_bytes load16_bytes kernel_file_def demo_disk_def ELF_MAGIC_def)

lemma demo_bootable: "bootable (kernel_file demo_disk)"
  by (simp add: bootable_def segment_ok_def demo_fields kph_def ph_entry_def seg_lo_def seg_hi_def)

theorem boot_loads_kernel_witness:
  "\<exists>m' d'. boot 2 (demo_controller demo_disk) (\<lambda>_. 0xFF, \<lparr>dreg = (\<lambda>_. 0), dbusy = True, dwords = []\<rparr>)
     = Inr (0x40002, m', d') \<and> segment_loaded (kernel_file demo_disk) m' 0"
  using boot_loads_kernel [OF demo_ata_spec demo_bootable, of "\<lambda>_. 0xFF" "\<lparr>dreg = (\<lambda>_. 0), dbusy = True, dwords = []\<rparr>"]
  by (auto simp: demo_fields)

end
