(* ===== verification/Hostlib.thy ===== *)
theory Hostlib
  imports Prelude
begin

text \<open>
  The number parsers of the host's C library that the host programs call with base 0: \<^verbatim>\<open>strtol\<close> in the
  puzzle functions of \<^verbatim>\<open>asms1/\<close>, \<^verbatim>\<open>strtoul\<close> in the build tools of \<^verbatim>\<open>kernels1/build/\<close>. White space, a sign,
  a prefix that chooses the base, digits. They differ from the kernel's own \<^verbatim>\<open>strtoul\<close> (\<open>Clib\<close>) on a bare
  \<^verbatim>\<open>0x\<close>: the number there is 0 and the parsing stops at the \<^verbatim>\<open>x\<close>.
\<close>

definition c_isspace :: "u8 \<Rightarrow> bool" where "c_isspace c \<longleftrightarrow> c = 32 \<or> 9 \<le> c \<and> c \<le> 13"

definition digit_value :: "u8 \<Rightarrow> int" where
  "digit_value c = (if 48 \<le> c \<and> c \<le> 57 then uint c - 48
     else if 97 \<le> c \<and> c \<le> 122 then uint c - 87
     else if 65 \<le> c \<and> c \<le> 90 then uint c - 55 else 99)"

fun digits_from :: "int \<Rightarrow> int \<Rightarrow> u8 list \<Rightarrow> int" where
  "digits_from base acc [] = acc"
| "digits_from base acc (c # s) = (if digit_value c < base then digits_from base (acc * base + digit_value c) s else acc)"

definition number_prefix :: "u8 list \<Rightarrow> int \<times> u8 list" where
  "number_prefix s =
     (if s \<noteq> [] \<and> hd s = 48
      then (case tl s of
              x # d # t \<Rightarrow> if (x = 120 \<or> x = 88) \<and> digit_value d < 16 then (16, d # t) else (8, s)
            | _ \<Rightarrow> (8, s))
      else (10, s))"

definition number_sign :: "u8 list \<Rightarrow> bool \<times> u8 list" where
  "number_sign s = (case s of c # t \<Rightarrow> if c = 45 then (True, t) else if c = 43 then (False, t) else (False, s)
                     | [] \<Rightarrow> (False, s))"

definition clamp64 :: "int \<Rightarrow> int" where
  "clamp64 v = max (- (2 ^ 63)) (min (2 ^ 63 - 1) v)"

definition c_strtol :: "u8 list \<Rightarrow> int" where
  "c_strtol s =
     (let (neg, s2) = number_sign (dropWhile c_isspace s);
          (base, s3) = number_prefix s2;
          v = digits_from base 0 s3
      in clamp64 (if neg then - v else v))"

text \<open>
  \<open>c_strtoul\<close> also returns the unparsed rest: all of the string when there is no digit. A number that
  does not fit is \<^verbatim>\<open>ULONG_MAX\<close>.
\<close>

definition c_strtoul :: "u8 list \<Rightarrow> u64 \<times> u8 list" where
  "c_strtoul s =
     (let (neg, s2) = number_sign (dropWhile c_isspace s);
          (base, s3) = number_prefix s2;
          v = digits_from base 0 s3
      in if s3 = [] \<or> digit_value (hd s3) \<ge> base then (0, s)
         else (if v \<ge> 2 ^ 64 then - 1 else of_int (if neg then - v else v),
               dropWhile (\<lambda>c. digit_value c < base) s3))"

lemmas hostlib_defs = c_isspace_def digit_value_def number_prefix_def number_sign_def

lemma c_strtoul_bare_0x: "c_strtoul [48, 120] = (0, [120])" "c_strtoul [48, 120, 52] = (4, [])"
  by (simp_all add: c_strtoul_def hostlib_defs)

end
