(* ===== verification/Mkbootdisk.thy ===== *)
theory Mkbootdisk
  imports Clib Printf Elf Hostlib
begin

text \<open>
  The host tool \<^verbatim>\<open>kernels1/build/mkbootdisk.cc\<close>, which writes the disk image the boot loader reads.
  Files are a function from names to contents. The output is a record with the contents of the file
  behind \<^verbatim>\<open>diskfd\<close>, the position in it and what the coming calls of \<^verbatim>\<open>write\<close> answer: an interruption, an
  error, or the number of bytes taken. When that list runs out every \<^verbatim>\<open>write\<close> takes all it is given.
  Every call of \<^verbatim>\<open>usage\<close> ends the tool: with \<open>Usage\<close> when nothing has been written, with \<open>Failed\<close> and the
  output as it stands otherwise.
  \<open>padded\<close> and \<open>boot_sector\<close> describe the image the tool is meant to build.
\<close>

subsection \<open>Output\<close>

datatype wresult = Interrupted | WriteError | Wrote nat

record disk_out =
  contents :: "u8 list"
  fpos :: nat
  curoff :: nat
  maxoff :: nat
  answers :: "wresult list"

text \<open>
  A run that ends in \<^verbatim>\<open>usage\<close> ends before anything is written, or leaves behind what it has written by
  then.
\<close>

datatype tool_exit = Usage string | Failed string disk_out

definition write_at :: "u8 list \<Rightarrow> nat \<Rightarrow> u8 list \<Rightarrow> u8 list" where
  "write_at c p bs = take p c @ replicate (p - length c) 0 @ bs @ drop (p + length bs) c"

definition put :: "u8 list \<Rightarrow> disk_out \<Rightarrow> disk_out" where
  "put bs st = st\<lparr>contents := write_at (contents st) (fpos st) bs, fpos := fpos st + length bs,
     curoff := curoff st + length bs\<rparr>"

function diskwrite_loop :: "u8 list \<Rightarrow> disk_out \<Rightarrow> tool_exit + disk_out" where
  "diskwrite_loop data st =
     (if data = [] then Inr st
      else case answers st of
        [] \<Rightarrow> Inr (put data st)
      | Interrupted # ws \<Rightarrow> diskwrite_loop data (st\<lparr>answers := ws\<rparr>)
      | WriteError # ws \<Rightarrow> Inl (Failed ''write'' (st\<lparr>answers := ws\<rparr>))
      | Wrote k # ws \<Rightarrow>
          if k = 0 then Inl (Failed ''write hit end of file'' (st\<lparr>answers := ws\<rparr>))
          else diskwrite_loop (drop k data) (put (take k data) (st\<lparr>answers := ws\<rparr>)))"
  by pat_completeness auto
termination
  by (relation "measure (\<lambda>(data, st). length (answers st))") (auto simp: put_def)

declare diskwrite_loop.simps [simp del]

definition diskwrite :: "u8 list \<Rightarrow> disk_out \<Rightarrow> tool_exit + disk_out" where
  "diskwrite data st =
     (if maxoff st \<noteq> 0 \<and> curoff st + length data > maxoff st
      then Inl (Failed ''more data than allowed in partition!'' st) else diskwrite_loop data st)"

definition tbind :: "tool_exit + 'a \<Rightarrow> ('a \<Rightarrow> tool_exit + 'b) \<Rightarrow> tool_exit + 'b" where
  "tbind r f = (case r of Inl e \<Rightarrow> Inl e | Inr x \<Rightarrow> f x)"

primrec write_zero_sectors :: "nat \<Rightarrow> disk_out \<Rightarrow> tool_exit + disk_out" where
  "write_zero_sectors 0 st = Inr st"
| "write_zero_sectors (Suc n) st = tbind (diskwrite (replicate 512 0) st) (write_zero_sectors n)"

subsection \<open>Files and arguments\<close>

function write_chunks :: "u8 list \<Rightarrow> nat \<Rightarrow> disk_out \<Rightarrow> tool_exit + (nat \<times> disk_out)" where
  "write_chunks rest p st =
     (if rest = [] then Inr (p, st)
      else case diskwrite (take 4096 rest) st of
        Inl e \<Rightarrow> Inl e
      | Inr st1 \<Rightarrow> write_chunks (drop 4096 rest) (p + length (take 4096 rest)) st1)"
  by pat_completeness auto
termination by (relation "measure (\<lambda>(rest, p, st). length rest)") auto

declare write_chunks.simps [simp del]

definition write_file :: "u8 list \<Rightarrow> nat \<times> disk_out \<Rightarrow> tool_exit + (nat \<times> disk_out)" where
  "write_file bytes ns =
     tbind (write_chunks bytes 0 (snd ns)) (\<lambda>(p, st).
       if p mod 512 \<noteq> 0
       then tbind (diskwrite (replicate (512 - p mod 512) 0) st)
              (\<lambda>st1. Inr (fst ns + (p + (512 - p mod 512)) div 512, st1))
       else Inr (fst ns + p div 512, st))"

definition skip_argument :: "u8 list \<Rightarrow> u64 option" where
  "skip_argument arg =
     (if hd0 arg = 0x40 \<and> isdigit (uint (hd0 (tl arg))) \<and> snd (c_strtoul (tl arg)) = []
      then Some (fst (c_strtoul (tl arg))) else None)"

definition do_argument ::
  "(u8 list \<Rightarrow> u8 list option) \<Rightarrow> u8 list \<Rightarrow> nat \<times> disk_out \<Rightarrow> tool_exit + (nat \<times> disk_out)" where
  "do_argument files arg ns =
     (case skip_argument arg of
        Some skipto \<Rightarrow>
          if fst ns > unat skipto then Inl (Failed ''can't skip to sector'' (snd ns))
          else tbind (write_zero_sectors (unat skipto - fst ns) (snd ns)) (\<lambda>st. Inr (unat skipto, st))
      | None \<Rightarrow> (case files arg of
                    None \<Rightarrow> Inl (Failed ''fopen'' (snd ns))
                  | Some bytes \<Rightarrow> write_file bytes ns))"

primrec do_arguments ::
  "(u8 list \<Rightarrow> u8 list option) \<Rightarrow> u8 list list \<Rightarrow> nat \<times> disk_out \<Rightarrow> tool_exit + (nat \<times> disk_out)" where
  "do_arguments files [] ns = Inr ns"
| "do_arguments files (a # args) ns = tbind (do_argument files a ns) (do_arguments files args)"

definition write_boot_sector :: "u8 list \<Rightarrow> disk_out \<Rightarrow> tool_exit + disk_out" where
  "write_boot_sector file st =
     (let buf = take 4096 file in
      if length buf > 510 then Inl (Failed ''boot block too large'' st)
      else diskwrite (buf @ replicate (510 - length buf) 0 @ [0x55, 0xAA]) st)"

definition write_image ::
  "(u8 list \<Rightarrow> u8 list option) \<Rightarrow> bool \<Rightarrow> u8 list list \<Rightarrow> disk_out \<Rightarrow> tool_exit + disk_out" where
  "write_image files bootsector_special args st =
     tbind (if bootsector_special
            then (case files (hd args) of
                    None \<Rightarrow> Inl (Failed ''fopen'' st)
                  | Some f \<Rightarrow> tbind (write_boot_sector f st) (\<lambda>st1. Inr (tl args, 1, st1)))
            else Inr (args, 0, st)) (\<lambda>(rest, n, st1).
     tbind (do_arguments files rest (n, st1)) (\<lambda>(n2, st2). write_zero_sectors (1024 - n2) st2))"

subsection \<open>Partitions\<close>

definition readsect :: "u8 list \<Rightarrow> u32 \<Rightarrow> tool_exit + u8 list" where
  "readsect disk sectno =
     (if 512 * unat sectno + 512 \<le> length disk
      then Inr (take 512 (drop (512 * unat sectno) disk)) else Inl (Usage ''read''))"

record Partitiondesc =
  part_type :: u8
  lba_start :: u32
  lba_length :: u32

definition le32_at :: "u8 list \<Rightarrow> nat \<Rightarrow> u32" where
  "le32_at buf i = ucast (buf ! i) OR push_bit 8 (ucast (buf ! (i + 1)))
     OR push_bit 16 (ucast (buf ! (i + 2))) OR push_bit 24 (ucast (buf ! (i + 3)))"

definition partition_entry :: "u8 list \<Rightarrow> nat \<Rightarrow> Partitiondesc" where
  "partition_entry buf i =
     \<lparr>part_type = buf ! (446 + 16 * i + 4), lba_start = le32_at buf (446 + 16 * i + 8),
      lba_length = le32_at buf (446 + 16 * i + 12)\<rparr>"

definition is_extended :: "u8 \<Rightarrow> bool" where
  "is_extended t \<longleftrightarrow> t = 0x05 \<or> t = 0x0F \<or> t = 0x85"

text \<open>
  \<open>find_partition\<close> returns the start sector and the length of the partition it chose. A chain of
  extended partitions may be cyclic; \<open>fuel\<close> bounds its depth. \<open>scan_entries\<close> is the loop over the four
  entries from \<open>i\<close> on.
\<close>

fun find_partition :: "nat \<Rightarrow> u8 list \<Rightarrow> nat \<Rightarrow> nat \<Rightarrow> tool_exit + (nat \<times> nat) option"
  and scan_entries :: "nat \<Rightarrow> u8 list \<Rightarrow> nat \<Rightarrow> nat \<Rightarrow> Partitiondesc list \<Rightarrow> tool_exit + (nat \<times> nat) option" where
  "find_partition fuel disk partition_sect extended_sect =
     tbind (readsect disk (of_nat partition_sect)) (\<lambda>buf.
       if buf ! 510 \<noteq> 0x55 \<or> buf ! 511 \<noteq> 0xAA then Inr None
       else scan_entries fuel disk partition_sect extended_sect (map (partition_entry buf) [0..<4]))"
| "scan_entries fuel disk partition_sect extended_sect [] = Inr None"
| "scan_entries fuel disk partition_sect extended_sect (pe # pes) =
     (if lba_length pe = 0 then scan_entries fuel disk partition_sect extended_sect pes
      else if part_type pe = 0x27
      then Inr (Some (partition_sect + unat (lba_start pe), unat (lba_length pe)))
      else if is_extended (part_type pe)
      then (case fuel of
              0 \<Rightarrow> Inl (Usage ''partition chain too deep'')
            | Suc n \<Rightarrow>
                tbind (find_partition n disk (unat (lba_start pe) + extended_sect)
                         (if extended_sect = 0 then unat (lba_start pe) else extended_sect)) (\<lambda>r.
                  case r of Some x \<Rightarrow> Inr (Some x)
                  | None \<Rightarrow> scan_entries fuel disk partition_sect extended_sect pes))
      else scan_entries fuel disk partition_sect extended_sect pes)"

subsection \<open>Multiboot and main\<close>

definition multiboot_header :: "u32 list" where
  "multiboot_header = [0x1BADB002, 0, - 0x1BADB002]"

definition le_bytes :: "u32 \<Rightarrow> u8 list" where
  "le_bytes w = [ucast w, ucast (drop_bit 8 w), ucast (drop_bit 16 w), ucast (drop_bit 24 w)]"

definition as_memory :: "u8 list \<Rightarrow> memory" where
  "as_memory bs a = (if unat a < length bs then bs ! unat a else 0)"

definition do_multiboot :: "disk_out \<Rightarrow> tool_exit + disk_out" where
  "do_multiboot st =
     tbind (readsect (contents st) 0) (\<lambda>buf.
       let m = as_memory buf;
           off = e_phoff m 0 + sizeof_elf_program * ucast (e_phnum m 0)
       in if e_magic m 0 \<noteq> ELF_MAGIC then Inl (Usage ''not an ELF executable file'')
          else if off \<ge> 4096 - 12
          then Inl (Usage ''ELF header too large to accommodate multiboot header'')
          else diskwrite (concat (map le_bytes multiboot_header)) (st\<lparr>fpos := unat off\<rparr>))"

definition new_out :: "wresult list \<Rightarrow> u8 list \<Rightarrow> disk_out" where
  "new_out ws c = \<lparr>contents = c, fpos = 0, curoff = 0, maxoff = 0, answers = ws\<rparr>"

definition open_partition :: "nat \<Rightarrow> wresult list \<Rightarrow> u8 list \<Rightarrow> tool_exit + disk_out" where
  "open_partition fuel ws disk =
     tbind (find_partition fuel disk 0 0) (\<lambda>r.
       case r of
         None \<Rightarrow> Inl (Usage ''no JOS partition (type 0x27) found!'')
       | Some (start, len) \<Rightarrow> Inr ((new_out ws disk)\<lparr>fpos := start * 512, maxoff := len * 512\<rparr>))"

definition mkbootdisk_main ::
  "nat \<Rightarrow> (u8 list \<Rightarrow> u8 list option) \<Rightarrow> wresult list \<Rightarrow> u8 list list \<Rightarrow> tool_exit + disk_out" where
  "mkbootdisk_main fuel files ws argv =
     tbind (case argv of
              [] \<Rightarrow> Inr (True, argv, new_out ws [])
            | a # rest \<Rightarrow>
                if a = ascii ''-p'' then
                  (case rest of
                     [] \<Rightarrow> Inl (Usage '''')
                   | dk # rest2 \<Rightarrow> (case files dk of
                        None \<Rightarrow> Inl (Usage ''open'')
                      | Some d \<Rightarrow> tbind (open_partition fuel ws d) (\<lambda>st. Inr (False, rest2, st))))
                else Inr (True, argv, new_out ws [])) (\<lambda>(special, args, st).
     (case args of
        [] \<Rightarrow> Inl (Usage '''')
      | a # rest \<Rightarrow>
          if a = ascii ''-m'' then
            (case rest of
               [] \<Rightarrow> Inl (Usage '''')
             | k # rest2 \<Rightarrow> (case files k of
                  None \<Rightarrow> Inl (Usage ''open'')
                | Some d \<Rightarrow> do_multiboot (st\<lparr>contents := d, fpos := 0\<rparr>)))
          else write_image files special args st))"

subsection \<open>Specification\<close>

definition tool_result :: "tool_exit + 'a \<Rightarrow> 'a option" where
  "tool_result r = (case r of Inl e \<Rightarrow> None | Inr x \<Rightarrow> Some x)"

text \<open>The file the tool wrote to as it is when the tool ends; \<open>None\<close> when it ended without writing.\<close>

definition left_on_disk :: "tool_exit + disk_out \<Rightarrow> disk_out option" where
  "left_on_disk r = (case r of Inl (Usage e) \<Rightarrow> None | Inl (Failed e st) \<Rightarrow> Some st | Inr st \<Rightarrow> Some st)"

definition padded :: "u8 list \<Rightarrow> u8 list" where
  "padded f = f @ replicate ((512 - length f mod 512) mod 512) 0"

definition boot_sector :: "u8 list \<Rightarrow> u8 list" where
  "boot_sector b = b @ replicate (510 - length b) 0 @ [0x55, 0xAA]"

definition arg_image :: "(u8 list \<Rightarrow> u8 list option) \<Rightarrow> u8 list \<Rightarrow> u8 list \<Rightarrow> u8 list option" where
  "arg_image files a img =
     (case skip_argument a of
        Some s \<Rightarrow> if length img > 512 * unat s then None else Some (img @ replicate (512 * unat s - length img) 0)
      | None \<Rightarrow> map_option (\<lambda>f. img @ padded f) (files a))"

primrec args_image :: "(u8 list \<Rightarrow> u8 list option) \<Rightarrow> u8 list list \<Rightarrow> u8 list \<Rightarrow> u8 list option" where
  "args_image files [] img = Some img"
| "args_image files (a # as) img = Option.bind (arg_image files a img) (args_image files as)"

definition disk_image :: "(u8 list \<Rightarrow> u8 list option) \<Rightarrow> u8 list \<Rightarrow> u8 list list \<Rightarrow> u8 list option" where
  "disk_image files boot args =
     (case files boot of
        None \<Rightarrow> None
      | Some b \<Rightarrow> if length b > 510 then None
          else map_option (\<lambda>img. img @ replicate (1024 * 512 - length img) 0) (args_image files args (boot_sector b)))"

definition no_errors :: "wresult list \<Rightarrow> bool" where
  "no_errors ws \<longleftrightarrow> (\<forall>w \<in> set ws. w \<noteq> WriteError \<and> w \<noteq> Wrote 0)"

text \<open>Output to a file that is only appended to, as the standard output is.\<close>

definition appending :: "disk_out \<Rightarrow> bool" where
  "appending st \<longleftrightarrow> fpos st = length (contents st) \<and> maxoff st = 0 \<and> no_errors (answers st)"

text \<open>Output inside a partition: nothing outside it differs from the disk \<open>d\<close>.\<close>

definition confined :: "u8 list \<Rightarrow> nat \<Rightarrow> nat \<Rightarrow> disk_out \<Rightarrow> bool" where
  "confined d start len st \<longleftrightarrow> maxoff st = len * 512 \<and> fpos st = start * 512 + curoff st \<and> curoff st \<le> len * 512
     \<and> length d \<le> length (contents st)
     \<and> (\<forall>i < length d. i < start * 512 \<or> (start + len) * 512 \<le> i \<longrightarrow> contents st ! i = d ! i)"

text \<open>A disk with one JOS partition of 1024 sectors from sector 2 on, and a few files.\<close>

definition demo_part_disk :: "u8 list" where
  "demo_part_disk = replicate 450 0 @ [0x27] @ replicate 3 0 @ [2, 0, 0, 0, 0, 4, 0, 0] @ replicate 48 0
     @ [0x55, 0xAA] @ replicate 3584 0"

definition demo_files :: "u8 list \<Rightarrow> u8 list option" where
  "demo_files nm = (if nm = [98] then Some [1, 2, 3] else if nm = [107] then Some [7, 8]
     else if nm = [100] then Some demo_part_disk else None)"

subsection \<open>Writing\<close>

lemma tbind_simps [simp]: "tbind (Inl e) f = Inl e" "tbind (Inr x) f = f x"
  by (simp_all add: tbind_def)

lemma tbind_Inr_iff: "tbind r f = Inr y \<longleftrightarrow> (\<exists>x. r = Inr x \<and> f x = Inr y)"
  by (cases r) simp_all

lemma write_at_append: "write_at (write_at c p a) (p + length a) b = write_at c p (a @ b)"
proof -
  have "min (length c) p + (p - length c) = p" by simp
  then show ?thesis by (simp add: write_at_def add.assoc) (simp add: ac_simps)
qed

lemma put_put: "put b (put a st) = put (a @ b) st"
  by (simp add: put_def write_at_append [symmetric] add.assoc)

lemma put_answers [simp]: "put a (st\<lparr>answers := ws\<rparr>) = (put a st)\<lparr>answers := ws\<rparr>" "answers (put a st) = answers st"
  by (simp_all add: put_def)

text \<open>Short and interrupted writes make no difference to what ends up in the file.\<close>

lemma diskwrite_loop_put:
  "diskwrite_loop data st = Inr st' \<Longrightarrow> data \<noteq> [] \<Longrightarrow> \<exists>ws. st' = (put data st)\<lparr>answers := ws\<rparr> \<and> set ws \<subseteq> set (answers st)"
proof (induction data st arbitrary: st' rule: diskwrite_loop.induct)
  case (1 data st)
  show ?case
  proof (cases "answers st")
    case Nil
    then show ?thesis using 1(3,4) by (subst (asm) diskwrite_loop.simps) (auto intro: exI [of _ "[]"] simp: put_def)
  next
    case (Cons w ws)
    show ?thesis
    proof (cases w)
      case Interrupted
      then have "diskwrite_loop data (st\<lparr>answers := ws\<rparr>) = Inr st'"
        using 1(3,4) Cons by (subst (asm) diskwrite_loop.simps) simp
      from 1(1) [OF 1(4) Cons Interrupted this 1(4)] Cons show ?thesis by auto
    next
      case WriteError
      then show ?thesis using 1(3,4) Cons by (subst (asm) diskwrite_loop.simps) simp
    next
      case (Wrote k)
      then have k: "k \<noteq> 0" and r: "diskwrite_loop (drop k data) (put (take k data) (st\<lparr>answers := ws\<rparr>)) = Inr st'"
        using 1(3,4) Cons by (subst (asm) diskwrite_loop.simps; auto split: if_splits)+
      show ?thesis
      proof (cases "drop k data = []")
        case True
        then have "st' = (put data st)\<lparr>answers := ws\<rparr>" using r by (subst (asm) diskwrite_loop.simps) simp
        then show ?thesis using Cons by auto
      next
        case False
        from 1(2) [OF 1(4) Cons Wrote k r False] Cons show ?thesis
          by (auto simp: put_put)
      qed
    qed
  qed
qed

lemma diskwrite_loop_total: "no_errors (answers st) \<Longrightarrow> \<exists>st'. diskwrite_loop data st = Inr st'"
proof (induction data st rule: diskwrite_loop.induct)
  case (1 data st)
  show ?case
  proof (cases "data = [] \<or> answers st = []")
    case True
    then show ?thesis by (subst diskwrite_loop.simps) auto
  next
    case False
    then obtain w ws where ws: "answers st = w # ws" by (cases "answers st") auto
    have d: "data \<noteq> []" using False by simp
    show ?thesis
    proof (cases w)
      case Interrupted
      then have "diskwrite_loop data st = diskwrite_loop data (st\<lparr>answers := ws\<rparr>)"
        using ws d by (subst diskwrite_loop.simps) simp
      then show ?thesis using 1(1) [OF d ws Interrupted] 1(3) ws by (simp add: no_errors_def)
    next
      case WriteError
      then show ?thesis using 1(3) ws by (simp add: no_errors_def)
    next
      case (Wrote k)
      then have k: "k \<noteq> 0" using 1(3) ws by (auto simp: no_errors_def)
      then have "diskwrite_loop data st = diskwrite_loop (drop k data) (put (take k data) (st\<lparr>answers := ws\<rparr>))"
        using ws d Wrote by (subst diskwrite_loop.simps) simp
      then show ?thesis using 1(2) [OF d ws Wrote k] 1(3) ws by (simp add: no_errors_def)
    qed
  qed
qed

lemma diskwrite_append:
  assumes "appending st"
  shows "\<exists>st'. diskwrite bs st = Inr st' \<and> appending st' \<and> contents st' = contents st @ bs"
proof (cases "bs = []")
  case True
  then have "diskwrite bs st = Inr st" using assms by (subst diskwrite_def, subst diskwrite_loop.simps) (simp add: appending_def)
  then show ?thesis using True assms by simp
next
  case False
  obtain st' where st': "diskwrite_loop bs st = Inr st'"
    using diskwrite_loop_total assms by (auto simp: appending_def)
  obtain ws where ws: "st' = (put bs st)\<lparr>answers := ws\<rparr>" "set ws \<subseteq> set (answers st)"
    using diskwrite_loop_put [OF st' False] by blast
  have "contents st' = contents st @ bs" using ws(1) assms by (simp add: put_def write_at_def appending_def)
  moreover have "appending st'" using ws assms by (auto simp: put_def write_at_def appending_def no_errors_def)
  ultimately show ?thesis using st' assms by (simp add: diskwrite_def appending_def)
qed

lemma write_zero_sectors_append:
  "appending st \<Longrightarrow> \<exists>st'. write_zero_sectors n st = Inr st' \<and> appending st' \<and> contents st' = contents st @ replicate (512 * n) 0"
proof (induction n arbitrary: st)
  case (Suc n)
  obtain st1 where st1: "diskwrite (replicate 512 0) st = Inr st1" "appending st1"
      "contents st1 = contents st @ replicate 512 0" using diskwrite_append [OF Suc.prems] by blast
  then show ?case using Suc.IH [OF st1(2)] by (auto simp: replicate_add [symmetric])
qed simp

lemma write_chunks_append:
  "appending st \<Longrightarrow> \<exists>st'. write_chunks rest p st = Inr (p + length rest, st') \<and> appending st' \<and> contents st' = contents st @ rest"
proof (induction rest p st rule: write_chunks.induct)
  case (1 rest p st)
  show ?case
  proof (cases "rest = []")
    case True
    then show ?thesis using 1(2) by (subst write_chunks.simps) simp
  next
    case False
    obtain st1 where st1: "diskwrite (take 4096 rest) st = Inr st1" "appending st1"
        "contents st1 = contents st @ take 4096 rest" using diskwrite_append [OF 1(2)] by blast
    have "p + length (take 4096 rest) + length (drop 4096 rest) = p + length rest" by simp
    then show ?thesis using 1(1) [OF False st1(1,2)] st1 False by (subst write_chunks.simps) (auto simp: min_def)
  qed
qed

lemma write_file_append:
  assumes "appending st" "length (contents st) = 512 * n"
  shows "\<exists>n' st'. write_file f (n, st) = Inr (n', st') \<and> appending st' \<and> contents st' = contents st @ padded f
    \<and> length (contents st') = 512 * n'"
proof -
  obtain st1 where st1: "write_chunks f 0 st = Inr (length f, st1)" "appending st1" "contents st1 = contents st @ f"
    using write_chunks_append [OF assms(1), of f 0] by auto
  show ?thesis
  proof (cases "length f mod 512 = 0")
    case True
    then show ?thesis using st1 assms(2) by (auto simp: write_file_def padded_def)
  next
    case False
    then have lt: "512 - length f mod 512 < 512" "0 < 512 - length f mod 512" by simp_all
    obtain st2 where st2: "diskwrite (replicate (512 - length f mod 512) 0) st1 = Inr st2" "appending st2"
        "contents st2 = contents st1 @ replicate (512 - length f mod 512) 0"
      using diskwrite_append [OF st1(2)] by blast
    have "512 * ((length f + (512 - length f mod 512)) div 512) = length f + (512 - length f mod 512)"
    proof -
      have round: "n = 512 * q + r \<Longrightarrow> r < 512 \<Longrightarrow> n + (512 - r) = 512 * (q + 1)" for n q r :: nat by simp
      have "length f + (512 - length f mod 512) = 512 * (length f div 512 + 1)" by (rule round) simp_all
      then show ?thesis by (simp only: nonzero_mult_div_cancel_left)
    qed
    then show ?thesis using st1 st2 assms(2) False lt
      by (auto simp: write_file_def padded_def distrib_left)
  qed
qed

lemma do_argument_image:
  assumes "appending st" "length (contents st) = 512 * n"
  shows "case arg_image files a (contents st) of
      None \<Rightarrow> \<exists>e. do_argument files a (n, st) = Inl e
    | Some img \<Rightarrow> \<exists>n' st'. do_argument files a (n, st) = Inr (n', st') \<and> appending st' \<and> contents st' = img
        \<and> length img = 512 * n'"
proof (cases "skip_argument a")
  case None
  then show ?thesis using write_file_append [OF assms]
    by (cases "files a") (fastforce simp: do_argument_def arg_image_def)+
next
  case (Some s)
  show ?thesis
  proof (cases "n > unat s")
    case True
    then show ?thesis using Some assms(2) by (simp add: do_argument_def arg_image_def)
  next
    case False
    then have "length (contents st) + 512 * (unat s - n) = 512 * unat s" using assms(2) by simp
    then show ?thesis using Some False assms(2) write_zero_sectors_append [OF assms(1), of "unat s - n"]
      by (auto simp: do_argument_def arg_image_def diff_mult_distrib2)
  qed
qed

lemma do_arguments_image:
  "appending st \<Longrightarrow> length (contents st) = 512 * n \<Longrightarrow>
    (case args_image files as (contents st) of
      None \<Rightarrow> \<exists>e. do_arguments files as (n, st) = Inl e
    | Some img \<Rightarrow> \<exists>n' st'. do_arguments files as (n, st) = Inr (n', st') \<and> appending st' \<and> contents st' = img
        \<and> length img = 512 * n')"
proof (induction as arbitrary: n st)
  case (Cons a as)
  show ?case
  proof (cases "arg_image files a (contents st)")
    case None
    then show ?thesis using do_argument_image [OF Cons.prems, of files a] by auto
  next
    case (Some img)
    then obtain n' st' where "do_argument files a (n, st) = Inr (n', st')" "appending st'" "contents st' = img"
        "length img = 512 * n'" using do_argument_image [OF Cons.prems, of files a] by auto
    then show ?thesis using Cons.IH [of st' n'] Some by (cases "args_image files as img") simp_all
  qed
qed simp

lemma main_image:
  assumes "no_errors ws" "boot \<noteq> ascii ''-p''" "boot \<noteq> ascii ''-m''"
  shows "map_option contents (tool_result (mkbootdisk_main fuel files ws (boot # args))) = disk_image files boot args"
proof (cases "files boot")
  case None
  then show ?thesis using assms by (simp add: mkbootdisk_main_def write_image_def tool_result_def disk_image_def)
next
  case (Some b)
  have ap: "appending (new_out ws [])" using assms(1) by (simp add: appending_def new_out_def)
  show ?thesis
  proof (cases "length b > 510")
    case True
    then show ?thesis using assms Some
      by (simp add: mkbootdisk_main_def write_image_def write_boot_sector_def tool_result_def disk_image_def Let_def)
  next
    case False
    obtain st where st: "write_boot_sector b (new_out ws []) = Inr st" "appending st" "contents st = boot_sector b"
      using diskwrite_append [OF ap, of "boot_sector b"] False
      by (auto simp: write_boot_sector_def boot_sector_def new_out_def min_def Let_def)
    have len: "length (contents st) = 512 * 1" using st(3) False by (simp add: boot_sector_def)
    show ?thesis
    proof (cases "args_image files args (contents st)")
      case None
      then show ?thesis using do_arguments_image [OF st(2) len, of files args] st assms Some False
        by (auto simp: mkbootdisk_main_def write_image_def tool_result_def disk_image_def)
    next
      case img: (Some img)
      then obtain n st' where n: "do_arguments files args (1, st) = Inr (n, st')" "appending st'" "contents st' = img"
          "length img = 512 * n" using do_arguments_image [OF st(2) len, of files args] by auto
      then show ?thesis using write_zero_sectors_append [OF n(2), of "1024 - n"] st assms Some False img
        by (auto simp: mkbootdisk_main_def write_image_def tool_result_def disk_image_def diff_mult_distrib2)
    qed
  qed
qed

text \<open>
  C16: Without write errors \<open>mkbootdisk\<close> produces exactly the image its arguments describe
  (the boot sector with its signature, each file padded to a sector, zeroes up to each sector
  argument and to 1024 sectors) and refuses exactly the arguments that describe none.
\<close>
theorem mkbootdisk_image:
  assumes "no_errors ws" "boot \<noteq> ascii ''-p''" "boot \<noteq> ascii ''-m''"
  shows "map_option contents (tool_result (mkbootdisk_main fuel files ws (boot # args))) = disk_image files boot args"
  using assms by (rule main_image)

subsection \<open>Writing into a partition\<close>

text \<open>
  Everything the tool writes goes through \<^verbatim>\<open>diskwrite\<close>: a property of the output that \<^verbatim>\<open>diskwrite\<close> keeps is
  kept by the whole tool.
\<close>

definition leaves :: "(disk_out \<Rightarrow> bool) \<Rightarrow> ('a \<Rightarrow> disk_out) \<Rightarrow> tool_exit + 'a \<Rightarrow> bool" where
  "leaves P f r = (case r of Inl (Usage e) \<Rightarrow> False | Inl (Failed e st) \<Rightarrow> P st | Inr x \<Rightarrow> P (f x))"

lemma leaves_simps [simp]:
  "leaves P f (Inl (Failed e st)) = P st" "leaves P f (Inr x) = P (f x)" "leaves P f (Inl (Usage e)) = False"
  by (simp_all add: leaves_def)

lemma leaves_tbind:
  assumes "leaves P f r" "\<And>x. P (f x) \<Longrightarrow> leaves P g (h x)"
  shows "leaves P g (tbind r h)"
proof (cases r)
  case (Inl e)
  then show ?thesis using assms(1) by (cases e) simp_all
qed (use assms in simp)

locale disk_writer =
  fixes inv :: "disk_out \<Rightarrow> bool"
  assumes diskwrite_inv: "inv st \<Longrightarrow> leaves inv (\<lambda>st. st) (diskwrite bs st)"
begin

lemma zero_sectors_inv: "inv st \<Longrightarrow> leaves inv (\<lambda>st. st) (write_zero_sectors n st)"
  by (induction n arbitrary: st) (auto intro!: leaves_tbind [OF diskwrite_inv])

lemma chunks_inv: "inv st \<Longrightarrow> leaves inv snd (write_chunks rest p st)"
proof (induction rest p st rule: write_chunks.induct)
  case (1 rest p st)
  have "leaves inv (\<lambda>st. st) (diskwrite (take 4096 rest) st)" using 1(2) by (rule diskwrite_inv)
  then show ?case using 1
    by (subst write_chunks.simps) (cases "diskwrite (take 4096 rest) st"; auto simp: leaves_def split: tool_exit.splits)
qed

lemma file_inv: "inv (snd ns) \<Longrightarrow> leaves inv snd (write_file f ns)"
  unfolding write_file_def
  by (rule leaves_tbind [OF chunks_inv]) (auto split: prod.splits intro!: leaves_tbind [OF diskwrite_inv])

lemma argument_inv: "inv (snd ns) \<Longrightarrow> leaves inv snd (do_argument files a ns)"
  by (auto simp: do_argument_def file_inv split: option.splits intro!: leaves_tbind [OF zero_sectors_inv])

lemma arguments_inv: "inv (snd ns) \<Longrightarrow> leaves inv snd (do_arguments files as ns)"
  by (induction as arbitrary: ns) (auto intro!: leaves_tbind [OF argument_inv])

lemma image_inv: "inv st \<Longrightarrow> leaves inv (\<lambda>st. st) (write_image files False args st)"
  unfolding write_image_def
  by simp (rule leaves_tbind [OF arguments_inv]; auto split: prod.splits intro: zero_sectors_inv)

end

lemma write_at_nth:
  "i < length c \<Longrightarrow> i < p \<or> p + length bs \<le> i \<Longrightarrow> write_at c p bs ! i = c ! i" "length c \<le> length (write_at c p bs)"
  by (auto simp: write_at_def nth_append)

lemma confined_put:
  assumes "confined d start len st" "curoff st + length bs \<le> len * 512"
  shows "confined d start len (put bs st)"
proof -
  have "write_at (contents st) (fpos st) bs ! i = d ! i"
    if "i < length d" "i < start * 512 \<or> (start + len) * 512 \<le> i" for i
    using that assms write_at_nth(1) [of i "contents st" "fpos st" bs] by (auto simp: confined_def distrib_right)
  moreover have "length d \<le> length (write_at (contents st) (fpos st) bs)"
    using assms(1) write_at_nth(2) [of "contents st" "fpos st" bs] by (simp add: confined_def)
  ultimately show ?thesis using assms by (simp add: put_def confined_def)
qed

lemma confined_answers [simp]: "confined d start len (st\<lparr>answers := ws\<rparr>) = confined d start len st"
  by (simp add: confined_def)

text \<open>Whatever the answers are, the bytes taken up to an error are in the partition too.\<close>

lemma confined_loop:
  "confined d start len st \<Longrightarrow> curoff st + length data \<le> len * 512 \<Longrightarrow>
   leaves (confined d start len) (\<lambda>st. st) (diskwrite_loop data st)"
proof (induction data st rule: diskwrite_loop.induct)
  case (1 data st)
  show ?case
  proof (cases "data = []")
    case True
    then show ?thesis using 1(3) by (subst diskwrite_loop.simps) simp
  next
    case False
    have "confined d start len (put (take k data) st)" for k
      using confined_put [OF 1(3), of "take k data"] 1(4) by simp
    moreover have "confined d start len (put data st)" using confined_put [OF 1(3,4)] .
    moreover have "curoff (put (take k data) st) + length (drop k data) \<le> len * 512" for k
      using 1(4) by (simp add: put_def)
    ultimately show ?thesis
      using 1(1) [OF False] 1(2) [OF False] 1(3,4) False
      by (subst diskwrite_loop.simps) (auto split: list.splits wresult.splits)
  qed
qed

lemma confined_diskwrite:
  assumes "confined d start len st" "0 < len"
  shows "leaves (confined d start len) (\<lambda>st. st) (diskwrite bs st)"
  using assms confined_loop [OF assms(1), of bs] by (auto simp: diskwrite_def confined_def)

interpretation partition: disk_writer "\<lambda>st. confined d start (Suc l) st" for d start l
  by unfold_locales (erule confined_diskwrite; simp)

lemma scan_entries_length:
  "find_partition fuel disk ps es = Inr (Some (s, l)) \<Longrightarrow> 0 < l"
  "scan_entries fuel disk ps es pes = Inr (Some (s, l)) \<Longrightarrow> 0 < l"
proof (induction fuel disk ps es and fuel disk ps es pes rule: find_partition_scan_entries.induct)
  case (3 fuel disk ps es pe pes)
  then show ?case
    by (auto simp: tbind_Inr_iff unat_gt_0 split: if_splits nat.splits option.splits)
qed (auto simp: tbind_Inr_iff split: if_splits)

text \<open>
  C17: However \<open>mkbootdisk -p\<close> ends once it has found the partition, with success, a
  refused argument or a write error in the middle of its output, it has changed no byte of the
  disk outside that partition and has not cut the disk.
\<close>
theorem mkbootdisk_partition_confined:
  assumes "files dk = Some d" "find_partition fuel d 0 0 = Inr (Some (start, len))" "a \<noteq> ascii ''-m''"
  shows "\<exists>st. left_on_disk (mkbootdisk_main fuel files ws (ascii ''-p'' # dk # a # args)) = Some st
    \<and> length d \<le> length (contents st)
    \<and> (\<forall>i < length d. i < start * 512 \<or> (start + len) * 512 \<le> i \<longrightarrow> contents st ! i = d ! i)"
proof -
  obtain l where l: "len = Suc l" using scan_entries_length(1) [OF assms(2)] by (cases len) auto
  let ?st = "(new_out ws d)\<lparr>fpos := start * 512, maxoff := len * 512\<rparr>"
  have "mkbootdisk_main fuel files ws (ascii ''-p'' # dk # a # args) = write_image files False (a # args) ?st"
    using assms by (simp add: mkbootdisk_main_def open_partition_def)
  moreover have "confined d start (Suc l) ?st" by (simp add: confined_def new_out_def l)
  then have "leaves (confined d start (Suc l)) (\<lambda>st. st) (write_image files False (a # args) ?st)"
    by (rule partition.image_inv)
  ultimately show ?thesis
    by (auto simp: leaves_def left_on_disk_def confined_def l split: sum.splits tool_exit.splits)
qed

lemma ascii_dash: "ascii ''-p'' = [45, 112]" "ascii ''-m'' = [45, 109]"
  by (simp_all add: ascii_def)

theorem mkbootdisk_image_witness:
  "map_option contents (tool_result (mkbootdisk_main 0 demo_files [Wrote 5, Interrupted, Wrote 600] [[98], [107]]))
    = Some (boot_sector [1, 2, 3] @ padded [7, 8] @ replicate (1022 * 512) 0)"
proof -
  have s: "skip_argument [107] = None" by (simp add: skip_argument_def hd0_def)
  have "map_option contents (tool_result (mkbootdisk_main 0 demo_files [Wrote 5, Interrupted, Wrote 600] [[98], [107]]))
    = disk_image demo_files [98] [[107]]"
    by (rule mkbootdisk_image) (simp_all add: no_errors_def ascii_dash)
  then show ?thesis
    by (simp add: disk_image_def demo_files_def arg_image_def s) (simp add: boot_sector_def padded_def)
qed

lemma diskwrite_room:
  assumes "no_errors (answers st)" "curoff st + length bs \<le> maxoff st"
  shows "\<exists>st'. diskwrite bs st = Inr st' \<and> no_errors (answers st') \<and> curoff st' = curoff st + length bs \<and> maxoff st' = maxoff st"
proof (cases "bs = []")
  case True
  then show ?thesis using assms by (simp add: diskwrite_def diskwrite_loop.simps)
next
  case False
  obtain st' where st': "diskwrite_loop bs st = Inr st'" using diskwrite_loop_total [OF assms(1)] by blast
  obtain ws where "st' = (put bs st)\<lparr>answers := ws\<rparr>" "set ws \<subseteq> set (answers st)"
    using diskwrite_loop_put [OF st' False] by blast
  then show ?thesis using assms st' by (auto simp: diskwrite_def put_def no_errors_def)
qed

lemma zero_sectors_room:
  "no_errors (answers st) \<Longrightarrow> curoff st + 512 * n \<le> maxoff st \<Longrightarrow> \<exists>st'. write_zero_sectors n st = Inr st'"
proof (induction n arbitrary: st)
  case (Suc n)
  then obtain st' where "diskwrite (replicate 512 0) st = Inr st'" "no_errors (answers st')"
      "curoff st' = curoff st + 512" "maxoff st' = maxoff st"
    using diskwrite_room [of st "replicate 512 0"] by auto
  then show ?case using Suc.IH [of st'] Suc.prems by simp
qed simp

lemma demo_partition: "find_partition 0 demo_part_disk 0 0 = Inr (Some (2, 1024))"
proof -
  have b: "demo_part_disk = replicate 450 0 @ [0x27] @ replicate 3 0 @ [2, 0, 0, 0, 0, 4, 0, 0] @ replicate 48 0
     @ [0x55, 0xAA] @ replicate 3584 0" by (simp add: demo_part_disk_def)
  have "take 512 demo_part_disk = replicate 450 0 @ [0x27] @ replicate 3 0 @ [2, 0, 0, 0, 0, 4, 0, 0] @ replicate 48 0 @ [0x55, 0xAA]"
    by (simp add: b)
  then show ?thesis
    by (simp add: readsect_def partition_entry_def le32_at_def nth_append upt_rec) (simp add: demo_part_disk_def)
qed

theorem mkbootdisk_partition_confined_witness:
  "\<exists>st. mkbootdisk_main 0 demo_files [Interrupted] [ascii ''-p'', [100], [107]] = Inr st \<and> contents st ! 510 = 0x55"
proof -
  let ?st = "(new_out [Interrupted] demo_part_disk)\<lparr>fpos := 1024, maxoff := 524288\<rparr>"
  have s: "skip_argument [107] = None" by (simp add: skip_argument_def hd0_def)
  obtain st1 where st1: "diskwrite [7, 8] ?st = Inr st1" "no_errors (answers st1)" "curoff st1 = 2" "maxoff st1 = 524288"
    using diskwrite_room [of ?st "[7, 8]"] by (auto simp: new_out_def no_errors_def)
  obtain st2 where st2: "diskwrite (replicate 510 0) st1 = Inr st2" "no_errors (answers st2)" "curoff st2 = 512"
      "maxoff st2 = 524288" using diskwrite_room [of st1 "replicate 510 0"] st1 by auto
  obtain st where st: "write_zero_sectors 1023 st2 = Inr st" using zero_sectors_room [of st2 1023] st2 by auto
  have "write_chunks [7, 8] 0 ?st = Inr (2, st1)"
    using st1(1) by (subst write_chunks.simps, simp, subst write_chunks.simps) simp
  then have "do_arguments demo_files [[107]] (0, ?st) = Inr (1, st2)"
    using st2(1) by (simp add: do_argument_def s demo_files_def write_file_def)
  then have m: "mkbootdisk_main 0 demo_files [Interrupted] [ascii ''-p'', [100], [107]] = Inr st"
    using st by (simp add: mkbootdisk_main_def open_partition_def demo_partition demo_files_def ascii_dash write_image_def
        del: find_partition.simps do_arguments.simps)
  have "510 < length demo_part_disk" "demo_part_disk ! 510 = 0x55" by (simp_all add: demo_part_disk_def nth_append)
  then show ?thesis
    using m mkbootdisk_partition_confined [OF _ demo_partition, of demo_files "[100]" "[107]" "[Interrupted]" "[]"]
    by (auto simp: demo_files_def ascii_dash left_on_disk_def)
qed

end
