(* ===== verification/Bootdisk.thy ===== *)
theory Bootdisk
  imports Boot Mkbootdisk
begin

text \<open>
  From the host tool to the running kernel: the disk image that \<^verbatim>\<open>mkbootdisk\<close> builds from a boot sector and
  a kernel is one from which the boot loader loads that kernel. The loader reads the image through
  the controller of \<open>ata_spec\<close>.
\<close>

text \<open>Two files that agree on their first bytes are equally good to boot from.\<close>

definition agree_low :: "memory \<Rightarrow> memory \<Rightarrow> bool" where
  "agree_low F G \<longleftrightarrow> (\<forall>a. unat a < 2 ^ 38 \<longrightarrow> F a = G a)"

definition demo_kernel_file :: "u8 list" where
  "demo_kernel_file = map (\<lambda>i. kernel_file demo_disk (of_nat i)) [0..<0x1003]"

definition demo_boot_files :: "u8 list \<Rightarrow> u8 list option" where
  "demo_boot_files nm = (if nm = [98] then Some [1, 2, 3] else if nm = [107] then Some demo_kernel_file else None)"

lemma agree_loadn: "agree_low F G \<Longrightarrow> unat a + k \<le> 2 ^ 38 \<Longrightarrow> loadn k F a = loadn k G a"
proof (rule loadn_cong)
  fix b assume a: "agree_low F G" "unat a + k \<le> 2 ^ 38" "unat (b - a) < k"
  then have "unat b = unat a + unat (b - a)" using unat_add64 [of a "b - a"] by simp
  then show "F b = G b" using a by (simp add: agree_low_def)
qed simp

lemma agree_headers:
  assumes "agree_low F G"
  shows "e_magic F 0 = e_magic G 0" "e_phoff F 0 = e_phoff G 0" "e_phnum F 0 = e_phnum G 0" "e_entry F 0 = e_entry G 0"
    "kph F i = kph G i"
  using agree_loadn [OF assms]
  by (simp_all add: e_magic_def e_phoff_def e_phnum_def e_entry_def kph_def load64_def load32_def load16_def)

lemma agree_program:
  assumes "agree_low F G" "unat a + 56 \<le> 4096"
  shows "p_va F a = p_va G a" "p_offset F a = p_offset G a" "p_filesz F a = p_filesz G a" "p_memsz F a = p_memsz G a"
proof -
  have "unat (a + k) = unat a + unat k" if "unat k \<le> 48" for k
    using assms(2) that by (subst unat_add64) simp_all
  then show "p_va F a = p_va G a" "p_offset F a = p_offset G a" "p_filesz F a = p_filesz G a" "p_memsz F a = p_memsz G a"
    using assms agree_loadn [OF assms(1)]
    by (simp_all add: p_va_def p_offset_def p_filesz_def p_memsz_def load64_def)
qed

lemma agree_bootable:
  assumes FG: "agree_low F G" and B: "bootable F"
  shows "bootable G"
    "i < unat (e_phnum F 0) \<Longrightarrow> segment_loaded G m i \<Longrightarrow> segment_loaded F m i"
    "i < unat (e_phnum F 0) \<Longrightarrow> outside_seg F i x \<Longrightarrow> outside_seg G i x"
proof -
  note h = agree_headers [OF FG]
  have p: "p_va F (kph G i) = p_va G (kph G i)" "p_offset F (kph G i) = p_offset G (kph G i)"
      "p_filesz F (kph G i) = p_filesz G (kph G i)" "p_memsz F (kph G i) = p_memsz G (kph G i)"
    if "i < unat (e_phnum F 0)" for i
  proof -
    have "unat (kph F i) + 56 \<le> 4096" using kph_unat [OF B, of i] that B by (simp add: bootable_def)
    then show "p_va F (kph G i) = p_va G (kph G i)" "p_offset F (kph G i) = p_offset G (kph G i)"
        "p_filesz F (kph G i) = p_filesz G (kph G i)" "p_memsz F (kph G i) = p_memsz G (kph G i)"
      using agree_program [OF FG] by (simp_all add: h)
  qed
  show "bootable G" using B p by (auto simp: bootable_def segment_ok_def segments_apart_def Let_def h)
  show "i < unat (e_phnum F 0) \<Longrightarrow> outside_seg F i x \<Longrightarrow> outside_seg G i x"
    using p [of i] by (simp add: outside_seg_def h)
  assume i: "i < unat (e_phnum F 0)" and l: "segment_loaded G m i"
  have o: "unat (p_offset F (kph F i)) + unat (p_filesz F (kph F i)) + 1024 \<le> 2 ^ 37"
    using B i by (simp add: bootable_def segment_ok_def Let_def)
  have "F (p_offset F (kph F i) + y) = G (p_offset F (kph F i) + y)" if "unat y < unat (p_filesz F (kph F i))" for y
  proof -
    have "unat (p_offset F (kph F i) + y) = unat (p_offset F (kph F i)) + unat y"
      using o that by (subst unat_add64) simp_all
    then show ?thesis using FG o that by (simp add: agree_low_def)
  qed
  then show "segment_loaded F m i" using l p [OF i] by (auto simp: segment_loaded_def Let_def h)
qed

lemma as_memory_nth: "unat a < length bs \<Longrightarrow> as_memory bs a = bs ! unat a"
  by (simp add: as_memory_def)

lemma kernel_file_image:
  assumes "length b \<le> 510"
  shows "agree_low (as_memory K) (kernel_file (as_memory (boot_sector b @ padded K @ replicate n 0)))"
proof (unfold agree_low_def, intro allI impI)
  fix a :: addr assume a: "unat a < 2 ^ 38"
  have l: "length (boot_sector b) = 512" using assms by (simp add: boot_sector_def)
  have "unat (a + 512) = unat a + 512" using a by (subst unat_add64) simp_all
  moreover obtain q where "padded K = K @ replicate q 0" by (auto simp: padded_def)
  ultimately show "as_memory K a = kernel_file (as_memory (boot_sector b @ padded K @ replicate n 0)) a"
    by (auto simp: as_memory_def kernel_file_def nth_append l)
qed

text \<open>
  C4: The disk image that \<open>mkbootdisk\<close> writes from a boot sector and a kernel, whatever
  short or interrupted writes happen, is one from which the boot loader loads exactly the segments
  of that kernel and jumps to its entry point.
\<close>
theorem bootdisk_boots:
  assumes "no_errors ws" "boot_name \<noteq> ascii ''-p''" "boot_name \<noteq> ascii ''-m''" "skip_argument kernel_name = None"
    and "files boot_name = Some b" "length b \<le> 510" "files kernel_name = Some K" "bootable (as_memory K)"
    and A: "\<And>disk. mkbootdisk_main fuel files ws [boot_name, kernel_name] = Inr disk \<Longrightarrow>
      ata_spec polls D regs busy words (as_memory (contents disk))"
  shows "\<exists>disk m' d'. mkbootdisk_main fuel files ws [boot_name, kernel_name] = Inr disk
    \<and> boot polls D (m, d) = Inr (e_entry (as_memory K) 0, m', d')
    \<and> (\<forall>i < unat (e_phnum (as_memory K) 0). segment_loaded (as_memory K) m' i)"
proof -
  let ?img = "boot_sector b @ padded K @ replicate (1024 * 512 - length (boot_sector b @ padded K)) 0"
  have "disk_image files boot_name [kernel_name] = Some ?img"
    using assms by (simp add: disk_image_def arg_image_def)
  then obtain disk where disk: "mkbootdisk_main fuel files ws [boot_name, kernel_name] = Inr disk" "contents disk = ?img"
    using main_image [OF assms(1-3), of fuel files "[kernel_name]"] by (auto simp: tool_result_def split: sum.splits)
  let ?G = "kernel_file (as_memory (contents disk))"
  have g: "agree_low (as_memory K) ?G" using kernel_file_image [OF assms(6)] disk(2) by simp
  note ag = agree_bootable [OF g assms(8)]
  obtain m' d' where "boot polls D (m, d) = Inr (e_entry ?G 0, m', d')"
      "\<forall>i < unat (e_phnum ?G 0). segment_loaded ?G m' i"
    using boot_loads [OF A [OF disk(1)] ag(1), of m d] by blast
  then show ?thesis using disk(1) ag(2) agree_headers [OF g] by auto
qed

lemma demo_kernel_bootable: "bootable (as_memory demo_kernel_file)" "e_phnum (as_memory demo_kernel_file) 0 = 1"
  "e_entry (as_memory demo_kernel_file) 0 = 0x40002"
proof -
  have "agree_low (kernel_file demo_disk) (as_memory demo_kernel_file)"
  proof (unfold agree_low_def, intro allI impI)
    fix a :: addr assume a: "unat a < 2 ^ 38"
    have "unat (a + 512) = unat a + 512" using a by (subst unat_add64) simp_all
    then have "kernel_file demo_disk a = 0" if "0x1003 \<le> unat a"
      using that by (auto simp: kernel_file_def demo_disk_def)
    then show "kernel_file demo_disk a = as_memory demo_kernel_file a"
      by (auto simp: as_memory_def demo_kernel_file_def)
  qed
  note g = this
  show "bootable (as_memory demo_kernel_file)" using agree_bootable(1) [OF g demo_bootable] .
  show "e_phnum (as_memory demo_kernel_file) 0 = 1" "e_entry (as_memory demo_kernel_file) 0 = 0x40002"
    using agree_headers [OF g] by (simp_all add: demo_fields)
qed

theorem bootdisk_boots_witness:
  "\<exists>disk m' d'. mkbootdisk_main 0 demo_boot_files [Wrote 100] [[98], [107]] = Inr disk
    \<and> boot 2 (demo_controller (as_memory (contents disk))) (\<lambda>_. 0, \<lparr>dreg = (\<lambda>_. 0), dbusy = True, dwords = []\<rparr>)
      = Inr (0x40002, m', d') \<and> segment_loaded (as_memory demo_kernel_file) m' 0"
proof -
  let ?r = "mkbootdisk_main 0 demo_boot_files [Wrote 100] [[98], [107]]"
  let ?D = "case ?r of Inl e \<Rightarrow> demo_controller (\<lambda>_. 0) | Inr disk \<Rightarrow> demo_controller (as_memory (contents disk))"
  have "\<exists>disk m' d'. ?r = Inr disk \<and> boot 2 ?D (\<lambda>_. 0, \<lparr>dreg = (\<lambda>_. 0), dbusy = True, dwords = []\<rparr>)
      = Inr (e_entry (as_memory demo_kernel_file) 0, m', d')
    \<and> (\<forall>i < unat (e_phnum (as_memory demo_kernel_file) 0). segment_loaded (as_memory demo_kernel_file) m' i)"
  proof (rule bootdisk_boots [where b = "[1, 2, 3]"])
    show "ata_spec 2 ?D dreg (\<lambda>d. if dbusy d then 1 else 0) dwords (as_memory (contents disk))" if "?r = Inr disk" for disk
      using that demo_ata_spec by simp
  qed (simp_all add: no_errors_def ascii_dash demo_boot_files_def skip_argument_def hd0_def demo_kernel_bootable)
  then show ?thesis by (auto simp: demo_kernel_bootable)
qed

end
