(* ===== verification/Pci.thy ===== *)
theory Pci
  imports Console Ports
begin

text \<open>
  PCI configuration space, \<^verbatim>\<open>kernels1/k-pci.hh\<close>, and its users in \<^verbatim>\<open>kernels1/k-hardware.cc\<close>: the scan of
  the functions of the first eight buses and \<^verbatim>\<open>poweroff\<close>. The host bridge
  is behind the ports \<open>IO\<close>, a parameter.
  \<open>pci_spec\<close> states the configuration mechanism of the host bridge: a double word read from the data
  port is the register of the address written to the address port before.
  \<open>pci_valid\<close> is the reference definition of the functions that exist: function 0 of a slot that
  answers, and the other functions of a slot whose function 0 says it has several.
\<close>

subsection \<open>Configuration addresses\<close>

definition addr_end :: int where "addr_end = 0x80000"
definition config_vendor :: int where "config_vendor = 0"
definition config_command :: int where "config_command = 4"
definition config_lthb :: int where "config_lthb = 12"

definition make_addr :: "int \<Rightarrow> int \<Rightarrow> int \<Rightarrow> int res" where
  "make_addr bus slot func =
     check (0 \<le> bus \<and> bus < 256) (AssertFail ''bus >= 0 && bus < 256'')
    (check (0 \<le> slot \<and> slot < 32) (AssertFail ''slot >= 0 && slot < 32'')
    (check (0 \<le> func \<and> func < 8) (AssertFail ''func >= 0 && func < 8'')
    (Inr (push_bit 16 bus OR push_bit 11 slot OR push_bit 8 func))))"

definition check_addr :: "int \<Rightarrow> int \<Rightarrow> int res" where
  "check_addr a r = check (0 \<le> a \<and> a < 0x1000000) (AssertFail ''addr >= 0 && addr < 0x1000000'') (Inr r)"

definition addr_bus :: "int \<Rightarrow> int res" where
  "addr_bus a = check_addr a (drop_bit 16 a)"

definition addr_slot :: "int \<Rightarrow> int res" where
  "addr_slot a = check_addr a (drop_bit 11 a AND 0x1F)"

definition addr_func :: "int \<Rightarrow> int res" where
  "addr_func a = check_addr a (drop_bit 8 a AND 0x7)"

subsection \<open>Port accesses\<close>

definition pci_select :: "'d port_io \<Rightarrow> int \<Rightarrow> 'd \<Rightarrow> 'd" where
  "pci_select IO a d = outl IO 0xCF8 (0x80000000 OR of_int a) d"

definition readl :: "'d port_io \<Rightarrow> int \<Rightarrow> 'd \<Rightarrow> (u32 \<times> 'd) res" where
  "readl IO a d =
     check (0 \<le> a \<and> a AND 3 = 0) (AssertFail ''addr >= 0 && !(addr & 3)'')
     (Inr (inl IO 0xCFC (pci_select IO a d)))"

definition readw :: "'d port_io \<Rightarrow> int \<Rightarrow> 'd \<Rightarrow> (u16 \<times> 'd) res" where
  "readw IO a d =
     check (0 \<le> a \<and> a AND 1 = 0) (AssertFail ''addr >= 0 && !(addr & 1)'')
     (Inr (inw IO (0xCFC + (a AND 3)) (pci_select IO a d)))"

definition readb :: "'d port_io \<Rightarrow> int \<Rightarrow> 'd \<Rightarrow> (u8 \<times> 'd) res" where
  "readb IO a d =
     check (0 \<le> a) (AssertFail ''addr >= 0'')
     (Inr (inb IO (0xCFC + (a AND 3)) (pci_select IO a d)))"

definition writel :: "'d port_io \<Rightarrow> int \<Rightarrow> u32 \<Rightarrow> 'd \<Rightarrow> 'd res" where
  "writel IO a v d =
     check (0 \<le> a \<and> a AND 3 = 0) (AssertFail ''addr >= 0 && !(addr & 3)'')
     (Inr (outl IO 0xCFC v (pci_select IO a d)))"

definition writew :: "'d port_io \<Rightarrow> int \<Rightarrow> u16 \<Rightarrow> 'd \<Rightarrow> 'd res" where
  "writew IO a v d =
     check (0 \<le> a \<and> a AND 1 = 0) (AssertFail ''addr >= 0 && !(addr & 1)'')
     (Inr (outw IO 0xCFC (v + of_int (a AND 3)) (pci_select IO a d)))"

definition writeb :: "'d port_io \<Rightarrow> int \<Rightarrow> u8 \<Rightarrow> 'd \<Rightarrow> 'd res" where
  "writeb IO a v d =
     check (0 \<le> a) (AssertFail ''addr >= 0'')
     (Inr (port_outb IO 0xCFC (v + of_int (a AND 3)) (pci_select IO a d)))"

subsection \<open>Scanning\<close>

definition pci_advance :: "int \<Rightarrow> u32 \<Rightarrow> int res" where
  "pci_advance a x =
     bind_res (addr_func a) (\<lambda>f.
     bind_res (if f = 0 \<and> (x = -1 \<or> x AND 0x800000 = 0) then make_addr 0 1 0 else make_addr 0 0 1)
       (\<lambda>step. Inr (a + step)))"

lemma make_addr_slot [simp]: "make_addr 0 1 0 = Inr 2048"
  by (simp add: make_addr_def)

lemma make_addr_func [simp]: "make_addr 0 0 1 = Inr 256"
  by (simp add: make_addr_def)

lemma pci_advance_greater: "pci_advance a x = Inr b \<Longrightarrow> a < b"
  by (auto simp: pci_advance_def res_simps split: if_splits)

function next_loop :: "'d port_io \<Rightarrow> int \<Rightarrow> u32 \<Rightarrow> 'd \<Rightarrow> (int \<times> 'd) res" where
  "next_loop IO a x d =
     bind_res (pci_advance a x) (\<lambda>a1.
       if a1 \<ge> addr_end then Inr (-1, d)
       else bind_res (readl IO (a1 + config_lthb) d) (\<lambda>(x1, d1).
            if x1 \<noteq> -1 then Inr (a1, d1) else next_loop IO a1 x1 d1))"
  by pat_completeness auto
termination
  by (relation "measure (\<lambda>(IO, a, x, d). nat (addr_end - a))") (auto dest: pci_advance_greater)

declare next_loop.simps [simp del]

definition pci_next :: "'d port_io \<Rightarrow> int \<Rightarrow> 'd \<Rightarrow> (int \<times> 'd) res" where
  "pci_next IO a d = bind_res (readl IO (a + config_lthb) d) (\<lambda>(x, d1). next_loop IO a x d1)"

lemma next_loop_greater: "next_loop IO a x d = Inr (b, d') \<Longrightarrow> b = -1 \<or> a < b \<and> b < addr_end"
proof (induction IO a x d arbitrary: b d' rule: next_loop.induct)
  case (1 IO a x d)
  from 1(2) obtain a1 where a1: "pci_advance a x = Inr a1" by (subst (asm) next_loop.simps) (auto simp: res_simps)
  then have less: "a < a1" by (rule pci_advance_greater)
  show ?case
  proof (cases "a1 \<ge> addr_end")
    case True
    then show ?thesis using 1(2) a1 by (subst (asm) next_loop.simps) simp
  next
    case False
    then obtain x1 d1 where r: "readl IO (a1 + config_lthb) d = Inr (x1, d1)"
      using 1(2) a1 by (subst (asm) next_loop.simps) (auto simp: res_simps)
    show ?thesis
    proof (cases "x1 = -1")
      case True
      then have "next_loop IO a1 x1 d1 = Inr (b, d')" using 1(2) a1 r False by (subst (asm) next_loop.simps) simp
      with 1(1) [OF a1 False r refl] True less show ?thesis by force
    next
      case x1: False
      then show ?thesis using 1(2) a1 r False less by (subst (asm) next_loop.simps) simp
    qed
  qed
qed

lemma pci_next_greater: "pci_next IO a d = Inr (b, d') \<Longrightarrow> b = -1 \<or> a < b \<and> b < addr_end"
  by (auto simp: pci_next_def res_simps dest: next_loop_greater)

text \<open>The predicate of \<^verbatim>\<open>find\<close> may itself access the ports.\<close>

function pci_find :: "'d port_io \<Rightarrow> (int \<Rightarrow> 'd \<Rightarrow> (bool \<times> 'd) res) \<Rightarrow> int \<Rightarrow> 'd \<Rightarrow> (int \<times> 'd) res" where
  "pci_find IO p a d =
     (if a \<ge> 0
      then bind_res (p a d) (\<lambda>(t, d1).
           if t then Inr (a, d1)
           else bind_res (pci_next IO a d1) (\<lambda>(a1, d2). pci_find IO p a1 d2))
      else Inr (a, d))"
  by pat_completeness auto
termination
  by (relation "measure (\<lambda>(IO, p, a, d). if a < 0 then 0 else Suc (nat (addr_end - a)))")
    (auto dest!: pci_next_greater)

declare pci_find.simps [simp del]

definition pci_enable :: "'d port_io \<Rightarrow> int \<Rightarrow> 'd \<Rightarrow> 'd res" where
  "pci_enable IO a d = writew IO (a + config_command) 0x0007 d"

definition is_acpi :: "'d port_io \<Rightarrow> int \<Rightarrow> 'd \<Rightarrow> (bool \<times> 'd) res" where
  "is_acpi IO a d = bind_res (readl IO (a + config_vendor) d) (\<lambda>(vd, d1).
     Inr (vd = 0x71138086 \<or> vd = 0x29188086, d1))"

text \<open>
  \<^verbatim>\<open>poweroff\<close> up to the endless loop at its end: the device state with the power-management register
  written, and the screen with the message.
\<close>

definition suspend :: "'d port_io \<Rightarrow> 'd \<Rightarrow> 'd res" where
  "suspend IO d =
     bind_res (pci_find IO (is_acpi IO) 0 d) (\<lambda>(a, d1).
       if a \<ge> 0
       then bind_res (readl IO (a + 0x40) d1) (\<lambda>(x, d2).
            Inr (outw IO (uint (x AND 0xFFC0) + 4) 0x2000 d2))
       else Inr d1)"

definition poweroff :: "'d port_io \<Rightarrow> 'd \<Rightarrow> 'a screen_scheme \<Rightarrow> ('d \<times> 'a screen_scheme) res" where
  "poweroff IO d scr =
     bind_res (suspend IO d) (\<lambda>d1.
     bind_res (console_vprintf True (CPOS 24 0) 0xC000 (ascii ''Cannot power off!\<newline>'') [] scr) (\<lambda>(_, scr1).
     Inr (d1, scr1)))"

subsection \<open>Specification\<close>

definition pci_spec :: "'d port_io \<Rightarrow> ('d \<Rightarrow> bool) \<Rightarrow> (int \<Rightarrow> u32) \<Rightarrow> bool" where
  "pci_spec IO ok cfg \<longleftrightarrow>
     (\<forall>d a. ok d \<and> 0 \<le> a \<and> a < 0x1000000 \<and> a mod 4 = 0 \<longrightarrow>
        fst (in32 IO 0xCFC (out32 IO 0xCF8 (0x80000000 OR of_int a) d)) = cfg a
        \<and> ok (snd (in32 IO 0xCFC (out32 IO 0xCF8 (0x80000000 OR of_int a) d))))"

definition answers :: "(int \<Rightarrow> u32) \<Rightarrow> int \<Rightarrow> bool" where
  "answers cfg a \<longleftrightarrow> cfg (a + 12) \<noteq> -1"

definition multifunction :: "(int \<Rightarrow> u32) \<Rightarrow> int \<Rightarrow> bool" where
  "multifunction cfg a \<longleftrightarrow> answers cfg a \<and> cfg (a + 12) AND 0x800000 \<noteq> 0"

definition slot_base :: "int \<Rightarrow> int" where "slot_base a = 2048 * (a div 2048)"

definition pci_scannable :: "(int \<Rightarrow> u32) \<Rightarrow> int \<Rightarrow> bool" where
  "pci_scannable cfg a \<longleftrightarrow> 0 \<le> a \<and> a < addr_end \<and> a mod 256 = 0
     \<and> (a mod 2048 = 0 \<or> multifunction cfg (slot_base a))"

definition pci_valid :: "(int \<Rightarrow> u32) \<Rightarrow> int \<Rightarrow> bool" where
  "pci_valid cfg a \<longleftrightarrow> pci_scannable cfg a \<and> answers cfg a"

definition is_acpi_id :: "(int \<Rightarrow> u32) \<Rightarrow> int \<Rightarrow> bool" where
  "is_acpi_id cfg a \<longleftrightarrow> cfg a = 0x71138086 \<or> cfg a = 0x29188086"

text \<open>What \<^verbatim>\<open>next\<close> returns after an address: the next function that exists.\<close>

definition next_valid :: "(int \<Rightarrow> u32) \<Rightarrow> int \<Rightarrow> int \<Rightarrow> bool" where
  "next_valid cfg a b \<longleftrightarrow> b = -1 \<and> (\<forall>c > a. \<not> pci_valid cfg c)
     \<or> pci_valid cfg b \<and> a < b \<and> (\<forall>c. a < c \<and> c < b \<longrightarrow> \<not> pci_valid cfg c)"

text \<open>What \<^verbatim>\<open>find\<close> returns from an address on: the first candidate with the property.\<close>

definition first_match :: "(int \<Rightarrow> u32) \<Rightarrow> (int \<Rightarrow> bool) \<Rightarrow> int \<Rightarrow> int \<Rightarrow> bool" where
  "first_match cfg p a b \<longleftrightarrow>
     b = -1 \<and> (\<forall>c \<ge> a. (c = a \<or> pci_valid cfg c) \<longrightarrow> \<not> p c)
     \<or> a \<le> b \<and> (b = a \<or> pci_valid cfg b) \<and> p b \<and> (\<forall>c. a \<le> c \<and> c < b \<and> (c = a \<or> pci_valid cfg c) \<longrightarrow> \<not> p c)"

text \<open>A bus with two devices, the second of them a power-management controller.\<close>

definition demo_reg :: "u32 \<Rightarrow> u32" where
  "demo_reg s = (if s = 0x80000000 then 0x12378086 else if s = 0x8000000C then 0
     else if s = 0x80000800 then 0x71138086 else if s = 0x8000080C then 0
     else if s = 0x80000840 then 0xB001 else -1)"

definition demo_cfg :: "int \<Rightarrow> u32" where "demo_cfg a = demo_reg (0x80000000 OR of_int a)"

definition demo_io :: "(u32 \<times> (u16 \<times> u16) list) port_io" where
  "demo_io = \<lparr>in8 = (\<lambda>p d. (0, d)), in16 = (\<lambda>p d. (0, d)), in32 = (\<lambda>p d. (demo_reg (fst d), d)),
     out8 = (\<lambda>p v d. d), out16 = (\<lambda>p v d. (fst d, (p, v) # snd d)), out32 = (\<lambda>p v d. (v, snd d))\<rparr>"

subsection \<open>The scan\<close>

lemma readl_cfg:
  assumes "pci_spec IO ok cfg" "ok d" "0 \<le> a" "a < 0x1000000" "a mod 4 = 0"
  shows "\<exists>d'. readl IO a d = Inr (cfg a, d') \<and> ok d'"
proof -
  have "a AND 3 = a mod 4" using take_bit_eq_mask [of 2 a] by (simp add: take_bit_eq_mod mask_eq_exp_minus_1)
  then have "readl IO a d = Inr (in32 IO 0xCFC (out32 IO 0xCF8 (0x80000000 OR of_int a) d))"
    using assms(3,5) by (simp add: readl_def pci_select_def port_defs)
  then show ?thesis
    using assms by (cases "in32 IO 0xCFC (out32 IO 0xCF8 (0x80000000 OR of_int a) d)") (auto simp: pci_spec_def dest!: spec [of _ d] spec [of _ a])
qed

lemma addr_func_div: "0 \<le> a \<Longrightarrow> a < addr_end \<Longrightarrow> addr_func a = Inr (a div 256 mod 8)"
  using take_bit_eq_mask [of 3 "a div 256"]
  by (simp add: addr_func_def check_addr_def addr_end_def drop_bit_eq_div take_bit_eq_mod mask_eq_exp_minus_1)

lemma config_register:
  assumes "pci_scannable cfg a" "0 \<le> k" "k < 256" "k mod 4 = 0"
  shows "0 \<le> a + k" "a + k < 0x1000000" "(a + k) mod 4 = 0"
proof -
  obtain q where "a = 256 * q" using assms(1) by (auto simp: pci_scannable_def)
  then show "0 \<le> a + k" "a + k < 0x1000000" "(a + k) mod 4 = 0"
    using assms by (auto simp: pci_scannable_def addr_end_def mod_add_eq)
qed

lemma slot_arith:
  "slot_base (256 * q) = 256 * (8 * (q div 8))" "(256 * q) mod 2048 = 0 \<longleftrightarrow> q mod 8 = 0"
  "(256 * q) div 256 mod 8 = q mod 8" for q :: int
proof -
  have "(256 * q) mod (256 * 8) = 256 * (q mod 8)" by (rule mult_mod_right [symmetric])
  moreover have "(256 * q) div (256 * 8) = q div 8" by (rule div_mult_mult1) simp
  ultimately show "slot_base (256 * q) = 256 * (8 * (q div 8))" "(256 * q) mod 2048 = 0 \<longleftrightarrow> q mod 8 = 0"
    "(256 * q) div 256 mod 8 = q mod 8" by (simp_all add: slot_base_def)
qed

lemma scannable_block:
  "pci_scannable cfg c \<longleftrightarrow> (\<exists>q. c = 256 * q \<and> 0 \<le> q \<and> q < 0x800 \<and> (q mod 8 = 0 \<or> multifunction cfg (256 * (8 * (q div 8)))))"
proof (cases "c mod 256 = 0")
  case True
  then obtain q where "c = 256 * q" by auto
  then show ?thesis by (auto simp: pci_scannable_def addr_end_def slot_arith)
next
  case False
  then show ?thesis by (auto simp: pci_scannable_def)
qed

text \<open>One step of the scan goes to the next scannable address.\<close>

lemma pci_advance_next:
  assumes "pci_scannable cfg a"
  shows "\<exists>b. pci_advance a (cfg (a + 12)) = Inr b \<and> a < b \<and> (b < addr_end \<longrightarrow> pci_scannable cfg b)
    \<and> (\<forall>c. a < c \<and> c < b \<longrightarrow> \<not> pci_scannable cfg c)"
proof -
  from assms obtain q where q: "a = 256 * q" "0 \<le> q" "q < 0x800" "q mod 8 = 0 \<or> multifunction cfg (256 * (8 * (q div 8)))"
    by (auto simp: scannable_block)
  have f: "addr_func a = Inr (q mod 8)" using q addr_func_div [of a] by (simp add: addr_end_def slot_arith)
  show ?thesis
  proof (cases "q mod 8 = 0 \<and> \<not> multifunction cfg a")
    case True
    then have adv: "pci_advance a (cfg (a + 12)) = Inr (256 * (q + 8))"
      using f by (auto simp: pci_advance_def multifunction_def answers_def q(1))
    have "\<not> pci_scannable cfg c" if c: "a < c" "c < 256 * (q + 8)" for c
    proof
      assume "pci_scannable cfg c"
      then obtain r where r: "c = 256 * r" "r mod 8 = 0 \<or> multifunction cfg (256 * (8 * (r div 8)))"
        by (auto simp: scannable_block)
      have "q < r" "r < q + 8" "q mod 8 = 0" using r(1) c q(1) True by simp_all
      then have "r mod 8 \<noteq> 0" "8 * (r div 8) = q" by presburger+
      then show False using r(2) True q(1) by simp
    qed
    moreover have "pci_scannable cfg (256 * (q + 8))" if "256 * (q + 8) < addr_end"
      unfolding scannable_block by (rule exI [of _ "q + 8"]) (use that q True in \<open>simp add: addr_end_def\<close>)
    moreover have "a < 256 * (q + 8)" by (simp add: q(1))
    ultimately show ?thesis using adv by blast
  next
    case False
    then have adv: "pci_advance a (cfg (a + 12)) = Inr (256 * (q + 1))"
      using f q(4) by (auto simp: pci_advance_def multifunction_def answers_def q(1))
    have m: "multifunction cfg (256 * (8 * (q div 8)))"
    proof (cases "q mod 8 = 0")
      case True
      then have "8 * (q div 8) = q" by presburger
      then show ?thesis using True False q(1) by simp
    qed (use q(4) in simp)
    have "\<not> pci_scannable cfg c" if "a < c" "c < 256 * (q + 1)" for c
      using that by (auto simp: scannable_block q(1))
    moreover have "pci_scannable cfg (256 * (q + 1))" if "256 * (q + 1) < addr_end"
    proof -
      have "(q + 1) mod 8 = 0 \<or> (q + 1) div 8 = q div 8" by presburger
      then show ?thesis
        unfolding scannable_block by (intro exI [of _ "q + 1"]) (use that q m in \<open>auto simp: addr_end_def\<close>)
    qed
    moreover have "a < 256 * (q + 1)" by (simp add: q(1))
    ultimately show ?thesis using adv by blast
  qed
qed

lemma next_loop_valid:
  assumes spec: "pci_spec IO ok cfg"
  shows "pci_scannable cfg a \<Longrightarrow> x = cfg (a + 12) \<Longrightarrow> ok d \<Longrightarrow>
    \<exists>b d'. next_loop IO a x d = Inr (b, d') \<and> ok d' \<and> next_valid cfg a b"
proof (induction "nat (addr_end - a)" arbitrary: a x d rule: less_induct)
  case less
  obtain b where b: "pci_advance a x = Inr b" "a < b" "b < addr_end \<longrightarrow> pci_scannable cfg b"
      "\<And>c. a < c \<Longrightarrow> c < b \<Longrightarrow> \<not> pci_scannable cfg c"
    using pci_advance_next [OF less.prems(1)] less.prems(2) by auto
  show ?case
  proof (cases "b \<ge> addr_end")
    case True
    then have "next_loop IO a x d = Inr (-1, d)" using b(1) by (subst next_loop.simps) simp
    moreover have "\<not> pci_valid cfg c" if "a < c" for c
      using b(4) [OF that] True by (cases "c < b") (auto simp: pci_valid_def pci_scannable_def)
    ultimately show ?thesis using less.prems(3) by (auto simp: next_valid_def)
  next
    case False
    then have sb: "pci_scannable cfg b" using b(3) by simp
    obtain d1 where r: "readl IO (b + config_lthb) d = Inr (cfg (b + 12), d1)" "ok d1"
      using readl_cfg [OF spec less.prems(3) config_register [OF sb, of 12]] by (auto simp: config_lthb_def)
    show ?thesis
    proof (cases "cfg (b + 12) = -1")
      case True
      have "nat (addr_end - b) < nat (addr_end - a)" using b(2) False by simp
      from less.hyps [OF this sb refl r(2)] obtain e d' where e: "next_loop IO b (cfg (b + 12)) d1 = Inr (e, d')"
          "ok d'" "next_valid cfg b e" by blast
      have "\<not> pci_valid cfg c" if "a < c" "c \<le> b" for c
        using b(4) [of c] that True by (cases "c = b") (auto simp: pci_valid_def answers_def)
      then have "next_valid cfg a e" using e(3) b(2)
        by (auto simp: next_valid_def) (meson le_less_linear)+
      then show ?thesis using e b(1) r(1) True False by (subst next_loop.simps) simp
    next
      case x1: False
      then have "next_valid cfg a b" using b sb by (auto simp: next_valid_def pci_valid_def answers_def)
      then show ?thesis using b(1) r x1 False by (subst next_loop.simps) simp
    qed
  qed
qed

lemma pci_next_valid:
  assumes spec: "pci_spec IO ok cfg" and a: "pci_scannable cfg a" and d: "ok d"
  shows "\<exists>b d'. pci_next IO a d = Inr (b, d') \<and> ok d' \<and> next_valid cfg a b"
proof -
  obtain d1 where "readl IO (a + config_lthb) d = Inr (cfg (a + 12), d1)" "ok d1"
    using readl_cfg [OF spec d config_register [OF a, of 12]] by (auto simp: config_lthb_def)
  then show ?thesis using next_loop_valid [OF spec a refl] by (simp add: pci_next_def)
qed

theorem pci_next_least:
  assumes spec: "pci_spec IO ok cfg" and a: "pci_scannable cfg a" and d: "ok d"
  shows "\<exists>b d'. pci_next IO a d = Inr (b, d') \<and> ok d' \<and> next_valid cfg a b"
  using assms by (rule pci_next_valid)

lemma pci_find_first:
  assumes spec: "pci_spec IO ok cfg"
    and pr: "\<And>a d. pci_scannable cfg a \<Longrightarrow> ok d \<Longrightarrow> \<exists>d'. pr a d = Inr (p a, d') \<and> ok d'"
  shows "pci_scannable cfg a \<Longrightarrow> ok d \<Longrightarrow>
    \<exists>b d'. pci_find IO pr a d = Inr (b, d') \<and> ok d' \<and> first_match cfg p a b"
proof (induction "nat (addr_end - a)" arbitrary: a d rule: less_induct)
  case less
  have a: "0 \<le> a" "a < addr_end" using less.prems(1) by (simp_all add: pci_scannable_def)
  obtain d1 where d1: "pr a d = Inr (p a, d1)" "ok d1" using pr [OF less.prems] by blast
  show ?case
  proof (cases "p a")
    case True
    then show ?thesis using a d1 by (subst pci_find.simps) (auto simp: first_match_def)
  next
    case False
    obtain b d2 where b: "pci_next IO a d1 = Inr (b, d2)" "ok d2" "next_valid cfg a b"
      using pci_next_valid [OF spec less.prems(1) d1(2)] by blast
    have step: "pci_find IO pr a d = pci_find IO pr b d2"
      using a d1 b False by (subst pci_find.simps) simp
    show ?thesis
    proof (cases "b = -1")
      case True
      then have "pci_find IO pr b d2 = Inr (-1, d2)" by (subst pci_find.simps) simp
      moreover have "first_match cfg p a (-1)"
      proof -
        have "\<not> pci_valid cfg (-1)" by (simp add: pci_valid_def pci_scannable_def)
        then have "\<not> pci_valid cfg c" if "a < c" for c using b(3) True that by (auto simp: next_valid_def)
        then show ?thesis using False by (auto simp: first_match_def order_le_less)
      qed
      ultimately show ?thesis using step b(2) by auto
    next
      case F: False
      then have nb: "pci_valid cfg b" "a < b" "\<And>c. a < c \<Longrightarrow> c < b \<Longrightarrow> \<not> pci_valid cfg c"
        using b(3) by (auto simp: next_valid_def)
      have "nat (addr_end - b) < nat (addr_end - a)" using nb a by simp
      from less.hyps [OF this _ b(2)] nb(1) obtain e d' where e: "pci_find IO pr b d2 = Inr (e, d')" "ok d'"
          "first_match cfg p b e" by (auto simp: pci_valid_def)
      have "\<not> p c" if "a \<le> c" "c < b" "c = a \<or> pci_valid cfg c" for c
        using that nb(3) [of c] False by (cases "c = a") auto
      then have "first_match cfg p a e"
        using e(3) nb by (auto simp: first_match_def) (meson not_le less_le_trans less_imp_le)+
      then show ?thesis using step e by auto
    qed
  qed
qed

lemma is_acpi_reads:
  assumes "pci_spec IO ok cfg" "pci_scannable cfg a" "ok d"
  shows "\<exists>d'. is_acpi IO a d = Inr (is_acpi_id cfg a, d') \<and> ok d'"
  using readl_cfg [OF assms(1,3) config_register [OF assms(2), of 0]]
  by (auto simp: is_acpi_def is_acpi_id_def config_vendor_def)

text \<open>
  C27: \<open>poweroff\<close> scans the buses to an end and writes the suspend command to the
  power-management port of the first ACPI controller that exists, and to no port when there is
  none.
\<close>
theorem poweroff_suspends:
  assumes spec: "pci_spec IO ok cfg" and d: "ok d" and scr: "screen_ok scr"
  shows "\<exists>d' scr' a d1. poweroff IO d scr = Inr (d', scr') \<and> first_match cfg (is_acpi_id cfg) 0 a \<and> ok d1
    \<and> d' = (if a = -1 then d1 else out16 IO (ucast (cfg (a + 0x40) AND 0xFFC0) + 4) 0x2000 d1)"
proof -
  have z: "pci_scannable cfg 0" by (simp add: pci_scannable_def addr_end_def)
  obtain a d1 where f: "pci_find IO (is_acpi IO) 0 d = Inr (a, d1)" "ok d1" "first_match cfg (is_acpi_id cfg) 0 a"
    using pci_find_first [OF spec, of "is_acpi IO" "is_acpi_id cfg" 0 d] is_acpi_reads [OF spec] z d by blast
  have "\<exists>d2. ok d2 \<and> suspend IO d = Inr (if a = -1 then d2 else out16 IO (ucast (cfg (a + 0x40) AND 0xFFC0) + 4) 0x2000 d2)"
  proof (cases "a = -1")
    case True
    then show ?thesis using f by (simp add: suspend_def)
  next
    case False
    then have a: "0 \<le> a" "a = 0 \<or> pci_valid cfg a" using f(3) by (auto simp: first_match_def)
    then have "pci_scannable cfg a" using z by (auto simp: pci_valid_def)
    then show ?thesis
      using False a(1) f(1) readl_cfg [OF spec f(2) config_register [of cfg a "0x40"]] by (auto simp: suspend_def port_defs)
  qed
  then obtain d2 where "ok d2" "suspend IO d = Inr (if a = -1 then d2 else out16 IO (ucast (cfg (a + 0x40) AND 0xFFC0) + 4) 0x2000 d2)"
    by blast
  moreover have "\<exists>out. vprintf 0xC000 (ascii ''Cannot power off!\<newline>'') [] = Inr out" by (simp add: vprintf_match)
  then obtain pos scr' where "console_vprintf True (CPOS 24 0) 0xC000 (ascii ''Cannot power off!\<newline>'') [] scr = Inr (pos, scr')"
    using console_vprintf_in_bounds [OF scr] by blast
  ultimately show ?thesis using f(3)
    by (intro exI [of _ "if a = -1 then d2 else out16 IO (ucast (cfg (a + 0x40) AND 0xFFC0) + 4) 0x2000 d2"]
        exI [of _ scr'] exI [of _ a] exI [of _ d2]) (simp add: poweroff_def)
qed

lemma demo_pci_spec: "pci_spec demo_io (\<lambda>d. snd d = []) demo_cfg"
  by (simp add: pci_spec_def demo_io_def demo_cfg_def)

lemma demo_first_match:
  assumes "first_match demo_cfg (is_acpi_id demo_cfg) 0 a" shows "a = 0x800"
proof -
  have ids: "\<not> is_acpi_id demo_cfg 0" "is_acpi_id demo_cfg 0x800"
    by (simp_all add: is_acpi_id_def demo_cfg_def demo_reg_def)
  have v: "pci_valid demo_cfg 0x800"
    by (simp add: pci_valid_def pci_scannable_def addr_end_def answers_def demo_cfg_def demo_reg_def)
  have "\<not> multifunction demo_cfg 0" by (simp add: multifunction_def demo_cfg_def demo_reg_def)
  then have "\<not> pci_valid demo_cfg c" if "0 < c" "c < 0x800" for c
    using that by (auto simp: pci_valid_def pci_scannable_def slot_base_def)
  then show ?thesis using assms ids v unfolding first_match_def
    by (metis linorder_neqE_linordered_idom order_le_less zero_le_numeral)
qed

theorem pci_next_least_witness:
  "\<exists>b d'. pci_next demo_io 0 (0, []) = Inr (b, d') \<and> snd d' = [] \<and> next_valid demo_cfg 0 b"
  using pci_next_least [OF demo_pci_spec, of 0 "(0, [])"] by (simp add: pci_scannable_def addr_end_def)

theorem poweroff_suspends_witness:
  "\<exists>d' scr'. poweroff demo_io (0, []) blank_screen = Inr (d', scr') \<and> snd d' = [(0xB004, 0x2000)]"
proof -
  have "screen_ok blank_screen" by (simp add: screen_ok_def blank_screen_def)
  then obtain d' scr' a d1 where p: "poweroff demo_io (0, []) blank_screen = Inr (d', scr')"
      "first_match demo_cfg (is_acpi_id demo_cfg) 0 a" "snd d1 = []"
      "d' = (if a = -1 then d1 else out16 demo_io (ucast (demo_cfg (a + 0x40) AND 0xFFC0) + 4) 0x2000 d1)"
    using poweroff_suspends [OF demo_pci_spec, of "(0, [])" blank_screen] by auto
  then show ?thesis using demo_first_match [OF p(2)] by (auto simp: demo_cfg_def demo_reg_def demo_io_def)
qed

end
