(* ===== verification/ElfFile.thy ===== *)
theory ElfFile
  imports Prelude
begin

text \<open>
  The structures of \<^verbatim>\<open>kernels1/elf.h\<close> as records, with their layout in a file: \<open>encode_*\<close> lists the bytes
  of a structure in memory order, \<open>decode_*\<close> reads one back from as many bytes as it has. None of
  them has padding, so each pair is inverse in both directions. The tools have no code for this: they
  access the structures in place, and these functions are the layout the compiler gives them. Integers
  are little-endian, as on the machines that run the tools and the kernel.
\<close>

subsection \<open>Little-endian integers\<close>

fun le :: "nat \<Rightarrow> nat \<Rightarrow> u8 list" where
  "le 0 v = []"
| "le (Suc k) v = of_nat v # le k (v div 256)"

fun le_val :: "u8 list \<Rightarrow> nat" where
  "le_val [] = 0"
| "le_val (b # bs) = unat b + 256 * le_val bs"

definition field :: "u8 list \<Rightarrow> nat \<Rightarrow> nat \<Rightarrow> nat" where
  "field bs off k = le_val (take k (drop off bs))"

lemma length_le [simp]: "length (le k v) = k"
  by (induction k arbitrary: v) simp_all

lemma le_val_bound: "le_val bs < 256 ^ length bs"
proof (induction bs)
  case (Cons b bs)
  have "unat b < 256" using unsigned_less [of b, where ?'a = nat] by simp
  with Cons show ?case by simp
qed simp

lemma le_val_le [simp]: "le_val (le k v) = v mod 256 ^ k"
proof (induction k arbitrary: v)
  case (Suc k)
  have "unat (of_nat v :: u8) = v mod 256" by (simp add: unat_of_nat take_bit_eq_mod)
  moreover have "v mod 256 + 256 * ((v div 256) mod 256 ^ k) = v mod (256 * 256 ^ k)"
    by (metis add.commute mod_mult2_eq)
  ultimately show ?case using Suc by simp
qed simp

lemma le_le_val: "le (length bs) (le_val bs) = bs"
proof (induction bs)
  case (Cons b bs)
  have b: "unat b < 256" using unsigned_less [of b, where ?'a = nat] by simp
  have "(of_nat (unat b + 256 * le_val bs) :: u8) = of_nat (unat b)"
    by (subst word_of_nat_eq_iff) (simp add: take_bit_eq_mod)
  moreover have "(unat b + 256 * le_val bs) div 256 = le_val bs" using b by simp
  ultimately show ?case using Cons by simp
qed simp

lemma field_append_le:
  assumes "length pre = off"
  shows "field (pre @ le k v @ post) off k = v mod 256 ^ k"
  using assms by (simp add: field_def)

lemma le_field: "off + k \<le> length bs \<Longrightarrow> le k (field bs off k) = take k (drop off bs)"
  using le_le_val [of "take k (drop off bs)"] by (simp add: field_def min_absorb2)

lemma field_bound: "off + k \<le> length bs \<Longrightarrow> field bs off k < 256 ^ k"
  using le_val_bound [of "take k (drop off bs)"] by (simp add: field_def min_absorb2)

lemma of_nat_mod_bytes [simp]:
  "(of_nat (unat (v64 :: u64) mod 18446744073709551616) :: u64) = v64"
  "(of_nat (unat (v32 :: u32) mod 4294967296) :: u32) = v32"
  "(of_nat (unat (v16 :: u16) mod 65536) :: u16) = v16"
  "(of_nat (unat (v8 :: u8) mod 256) :: u8) = v8"
  using unsigned_less [of v64, where ?'a = nat] unsigned_less [of v32, where ?'a = nat]
    unsigned_less [of v16, where ?'a = nat] unsigned_less [of v8, where ?'a = nat] by simp_all

subsection \<open>Structures\<close>

record elf_header =
  eh_magic :: u32
  eh_elf :: "u8 list"
  eh_type :: u16
  eh_machine :: u16
  eh_version :: u32
  eh_entry :: u64
  eh_phoff :: u64
  eh_shoff :: u64
  eh_flags :: u32
  eh_ehsize :: u16
  eh_phentsize :: u16
  eh_phnum :: u16
  eh_shentsize :: u16
  eh_shnum :: u16
  eh_shstrndx :: u16

record elf_program =
  ph_type :: u32
  ph_flags :: u32
  ph_offset :: u64
  ph_va :: u64
  ph_pa :: u64
  ph_filesz :: u64
  ph_memsz :: u64
  ph_align :: u64

record elf_section =
  sh_name :: u32
  sh_type :: u32
  sh_flags :: u64
  sh_addr :: u64
  sh_offset :: u64
  sh_size :: u64
  sh_link :: u32
  sh_info :: u32
  sh_addralign :: u64
  sh_entsize :: u64

record elf_symbol =
  sy_name :: u32
  sy_info :: u8
  sy_other :: u8
  sy_shndx :: u16
  sy_value :: u64
  sy_size :: u64

record elf_symtabref =
  sr_sym :: u64
  sr_nsym :: u64
  sr_strtab :: u64
  sr_size :: u64

definition encode_header :: "elf_header \<Rightarrow> u8 list" where
  "encode_header h =
     le 4 (unat (eh_magic h)) @ eh_elf h @ le 2 (unat (eh_type h)) @ le 2 (unat (eh_machine h))
     @ le 4 (unat (eh_version h)) @ le 8 (unat (eh_entry h)) @ le 8 (unat (eh_phoff h))
     @ le 8 (unat (eh_shoff h)) @ le 4 (unat (eh_flags h)) @ le 2 (unat (eh_ehsize h))
     @ le 2 (unat (eh_phentsize h)) @ le 2 (unat (eh_phnum h)) @ le 2 (unat (eh_shentsize h))
     @ le 2 (unat (eh_shnum h)) @ le 2 (unat (eh_shstrndx h))"

definition decode_header :: "u8 list \<Rightarrow> elf_header" where
  "decode_header bs =
     \<lparr>eh_magic = of_nat (field bs 0 4), eh_elf = take 12 (drop 4 bs), eh_type = of_nat (field bs 0x10 2),
      eh_machine = of_nat (field bs 0x12 2), eh_version = of_nat (field bs 0x14 4),
      eh_entry = of_nat (field bs 0x18 8), eh_phoff = of_nat (field bs 0x20 8),
      eh_shoff = of_nat (field bs 0x28 8), eh_flags = of_nat (field bs 0x30 4),
      eh_ehsize = of_nat (field bs 0x34 2), eh_phentsize = of_nat (field bs 0x36 2),
      eh_phnum = of_nat (field bs 0x38 2), eh_shentsize = of_nat (field bs 0x3A 2),
      eh_shnum = of_nat (field bs 0x3C 2), eh_shstrndx = of_nat (field bs 0x3E 2)\<rparr>"

definition encode_program :: "elf_program \<Rightarrow> u8 list" where
  "encode_program p =
     le 4 (unat (ph_type p)) @ le 4 (unat (ph_flags p)) @ le 8 (unat (ph_offset p)) @ le 8 (unat (ph_va p))
     @ le 8 (unat (ph_pa p)) @ le 8 (unat (ph_filesz p)) @ le 8 (unat (ph_memsz p)) @ le 8 (unat (ph_align p))"

definition decode_program :: "u8 list \<Rightarrow> elf_program" where
  "decode_program bs =
     \<lparr>ph_type = of_nat (field bs 0 4), ph_flags = of_nat (field bs 4 4), ph_offset = of_nat (field bs 8 8),
      ph_va = of_nat (field bs 0x10 8), ph_pa = of_nat (field bs 0x18 8), ph_filesz = of_nat (field bs 0x20 8),
      ph_memsz = of_nat (field bs 0x28 8), ph_align = of_nat (field bs 0x30 8)\<rparr>"

definition encode_section :: "elf_section \<Rightarrow> u8 list" where
  "encode_section s =
     le 4 (unat (sh_name s)) @ le 4 (unat (sh_type s)) @ le 8 (unat (sh_flags s)) @ le 8 (unat (sh_addr s))
     @ le 8 (unat (sh_offset s)) @ le 8 (unat (sh_size s)) @ le 4 (unat (sh_link s)) @ le 4 (unat (sh_info s))
     @ le 8 (unat (sh_addralign s)) @ le 8 (unat (sh_entsize s))"

definition decode_section :: "u8 list \<Rightarrow> elf_section" where
  "decode_section bs =
     \<lparr>sh_name = of_nat (field bs 0 4), sh_type = of_nat (field bs 4 4), sh_flags = of_nat (field bs 8 8),
      sh_addr = of_nat (field bs 0x10 8), sh_offset = of_nat (field bs 0x18 8), sh_size = of_nat (field bs 0x20 8),
      sh_link = of_nat (field bs 0x28 4), sh_info = of_nat (field bs 0x2C 4),
      sh_addralign = of_nat (field bs 0x30 8), sh_entsize = of_nat (field bs 0x38 8)\<rparr>"

definition encode_symbol :: "elf_symbol \<Rightarrow> u8 list" where
  "encode_symbol s =
     le 4 (unat (sy_name s)) @ [sy_info s, sy_other s] @ le 2 (unat (sy_shndx s)) @ le 8 (unat (sy_value s))
     @ le 8 (unat (sy_size s))"

definition decode_symbol :: "u8 list \<Rightarrow> elf_symbol" where
  "decode_symbol bs =
     \<lparr>sy_name = of_nat (field bs 0 4), sy_info = of_nat (field bs 4 1), sy_other = of_nat (field bs 5 1),
      sy_shndx = of_nat (field bs 6 2), sy_value = of_nat (field bs 8 8), sy_size = of_nat (field bs 0x10 8)\<rparr>"

definition encode_symtabref :: "elf_symtabref \<Rightarrow> u8 list" where
  "encode_symtabref r =
     le 8 (unat (sr_sym r)) @ le 8 (unat (sr_nsym r)) @ le 8 (unat (sr_strtab r)) @ le 8 (unat (sr_size r))"

definition decode_symtabref :: "u8 list \<Rightarrow> elf_symtabref" where
  "decode_symtabref bs =
     \<lparr>sr_sym = of_nat (field bs 0 8), sr_nsym = of_nat (field bs 8 8), sr_strtab = of_nat (field bs 0x10 8),
      sr_size = of_nat (field bs 0x18 8)\<rparr>"

definition ELF_SHT_NULL :: u32 where "ELF_SHT_NULL = 0"
definition ELF_SHT_PROGBITS :: u32 where "ELF_SHT_PROGBITS = 1"
definition ELF_SHT_SYMTAB :: u32 where "ELF_SHT_SYMTAB = 2"
definition ELF_SHT_STRTAB :: u32 where "ELF_SHT_STRTAB = 3"
definition ELF_SHT_NOBITS :: u32 where "ELF_SHT_NOBITS = 8"
definition ELF_SHF_ALLOC :: u64 where "ELF_SHF_ALLOC = 2"
definition ELF_PFLAG_READ :: u32 where "ELF_PFLAG_READ = 4"
definition ELF_STT_MASK :: u8 where "ELF_STT_MASK = 0x0F"
definition ELF_STT_OBJECT :: u8 where "ELF_STT_OBJECT = 0x01"
definition ELF_STT_FUNC :: u8 where "ELF_STT_FUNC = 0x02"

lemmas sht_consts = ELF_SHT_NULL_def ELF_SHT_PROGBITS_def ELF_SHT_SYMTAB_def ELF_SHT_STRTAB_def ELF_SHT_NOBITS_def

subsection \<open>Layout lemmas\<close>

lemma encode_lengths [simp]:
  "length (eh_elf h) = 12 \<Longrightarrow> length (encode_header h) = 64" "length (encode_program p) = 56"
  "length (encode_section s) = 64" "length (encode_symbol y) = 24" "length (encode_symtabref r) = 32"
  by (simp_all add: encode_header_def encode_program_def encode_section_def encode_symbol_def encode_symtabref_def)

text \<open>A field of a concatenation of fields is found by skipping the parts before it.\<close>

lemma field_skip: "length a \<le> off \<Longrightarrow> field (a @ b) off k = field b (off - length a) k"
  by (simp add: field_def)

lemma field_here: "field (le k v @ b) 0 k = v mod 256 ^ k" "field (le k v) 0 k = v mod 256 ^ k"
  by (simp_all add: field_def)

lemma field_byte: "field (b # bs) 0 (Suc 0) = unat b"
  by (simp add: field_def)

lemma field_byte_skip: "0 < off \<Longrightarrow> field (b # bs) off k = field bs (off - 1) k"
  by (cases off) (simp_all add: field_def)

lemmas field_simps' = field_skip field_here field_byte field_byte_skip

lemma decode_program_encode [simp]: "decode_program (encode_program p) = p"
  by (cases p) (simp add: decode_program_def encode_program_def field_simps')

lemma decode_section_encode [simp]: "decode_section (encode_section s) = s"
  by (cases s) (simp add: decode_section_def encode_section_def field_simps')

lemma decode_symbol_encode [simp]: "decode_symbol (encode_symbol s) = s"
  by (cases s) (simp add: decode_symbol_def encode_symbol_def field_simps')

lemma decode_symtabref_encode [simp]: "decode_symtabref (encode_symtabref r) = r"
  by (cases r) (simp add: decode_symtabref_def encode_symtabref_def field_simps')

lemma decode_header_encode [simp]: "length (eh_elf h) = 12 \<Longrightarrow> decode_header (encode_header h) = h"
  by (cases h) (simp add: decode_header_def encode_header_def field_simps')

text \<open>The other direction: bytes are the concatenation of the fields read from them.\<close>

lemma le_field_word:
  "off + 8 \<le> length bs \<Longrightarrow> le 8 (unat (of_nat (field bs off 8) :: u64)) = take 8 (drop off bs)"
  "off + 4 \<le> length bs \<Longrightarrow> le 4 (unat (of_nat (field bs off 4) :: u32)) = take 4 (drop off bs)"
  "off + 2 \<le> length bs \<Longrightarrow> le 2 (unat (of_nat (field bs off 2) :: u16)) = take 2 (drop off bs)"
  using field_bound [of off 8 bs] field_bound [of off 4 bs] field_bound [of off 2 bs]
  by (simp_all add: unat_of_nat take_bit_nat_eq_self le_field)

lemma byte_field: "off < length bs \<Longrightarrow> (of_nat (field bs off (Suc 0)) :: u8) = bs ! off"
  by (simp add: field_def take_Suc_conv_app_nth)

lemma take_drop_join: "n = off + k \<Longrightarrow> take k (drop off bs) @ drop n bs = drop off bs"
  "take k bs @ drop k bs = bs"
  by (metis add.commute append_take_drop_id drop_drop) simp

lemma byte_drop_join: "off < length bs \<Longrightarrow> n = Suc off \<Longrightarrow> bs ! off # drop n bs = drop off bs"
  by (simp add: Cons_nth_drop_Suc)

lemma encode_program_decode [simp]: "length bs = 56 \<Longrightarrow> encode_program (decode_program bs) = bs"
  by (simp add: decode_program_def encode_program_def le_field_word take_drop_join)

lemma encode_section_decode [simp]: "length bs = 64 \<Longrightarrow> encode_section (decode_section bs) = bs"
  by (simp add: decode_section_def encode_section_def le_field_word take_drop_join)

lemma encode_symtabref_decode [simp]: "length bs = 32 \<Longrightarrow> encode_symtabref (decode_symtabref bs) = bs"
  by (simp add: decode_symtabref_def encode_symtabref_def le_field_word take_drop_join)

lemma encode_symbol_decode [simp]: "length bs = 24 \<Longrightarrow> encode_symbol (decode_symbol bs) = bs"
  by (simp add: decode_symbol_def encode_symbol_def le_field_word byte_field take_drop_join byte_drop_join)

lemma encode_header_decode [simp]: "length bs = 64 \<Longrightarrow> encode_header (decode_header bs) = bs"
  by (simp add: decode_header_def encode_header_def le_field_word take_drop_join)

theorem elf_structures_roundtrip:
  "(length bs = 64 \<longrightarrow> encode_header (decode_header bs) = bs \<and> encode_section (decode_section bs) = bs)
    \<and> (length bs = 56 \<longrightarrow> encode_program (decode_program bs) = bs)
    \<and> (length bs = 24 \<longrightarrow> encode_symbol (decode_symbol bs) = bs)
    \<and> (length bs = 32 \<longrightarrow> encode_symtabref (decode_symtabref bs) = bs)
    \<and> (length (eh_elf h) = 12 \<longrightarrow> decode_header (encode_header h) = h)
    \<and> decode_section (encode_section s) = s \<and> decode_program (encode_program p) = p
    \<and> decode_symbol (encode_symbol y) = y \<and> decode_symtabref (encode_symtabref r) = r"
  by simp

theorem elf_structures_roundtrip_witness:
  "encode_symbol (decode_symbol (replicate 24 7)) = replicate 24 7"
  using elf_structures_roundtrip [of "replicate 24 7"] by simp

end
