(* ===== verification/Mksymtab.thy ===== *)
theory Mksymtab
  imports ElfFile Mkbootdisk "HOL-Library.Product_Lexorder"
begin

text \<open>
  The host tool \<^verbatim>\<open>kernels1/build/mkchickadeesymtab.cc\<close>, which prepares the symbol table of the kernel
  image: it checks the file, moves the table to a page boundary, fills in the kernel's reference to it,
  sorts it and adds a program header, so that the boot loader loads it.
  \<open>elf_info\<close> has the fields of the class, \<^verbatim>\<open>data_\<close> as \<open>ei_data\<close> and so on. \<open>ei_data\<close> is the list of the
  bytes allocated (its length is \<^verbatim>\<open>capacity_\<close>); \<open>ei_pht\<close>, \<open>ei_sht\<close>, \<open>ei_symtab\<close> and \<open>ei_symstrtab\<close> are
  offsets into it. Every access checks that it stays inside the allocation, as the machine would allow,
  and otherwise ends in \<open>OutOfRange\<close>; that lookups stay inside the file is proved separately (\<open>Symtab\<close>),
  by showing that they give the same answers when nothing follows the file. \<open>fresh\<close> gives the bytes that \<^verbatim>\<open>new\<close>
  leaves in an allocation. An error message ends the tool, with \<open>Exit1\<close>; the values the messages
  print are left out. The number of table entries is read from the header once per loop.
\<close>

subsection \<open>Errors and iteration\<close>

datatype symtab_exit =
    Exit1 string
  | Aborted string
  | OutOfRange
  | LoopBound

type_synonym 'a tool = "symtab_exit + 'a"

definition ebind :: "'a tool \<Rightarrow> ('a \<Rightarrow> 'b tool) \<Rightarrow> 'b tool" where
  "ebind r f = (case r of Inl e \<Rightarrow> Inl e | Inr x \<Rightarrow> f x)"

definition fail_if :: "bool \<Rightarrow> string \<Rightarrow> 'a tool \<Rightarrow> 'a tool" where
  "fail_if b msg r = (if b then Inl (Exit1 msg) else r)"

fun for_each :: "(nat \<Rightarrow> unit tool) \<Rightarrow> nat list \<Rightarrow> unit tool" where
  "for_each f [] = Inr ()"
| "for_each f (i # is) = ebind (f i) (\<lambda>_. for_each f is)"

fun search :: "(nat \<Rightarrow> bool tool) \<Rightarrow> nat list \<Rightarrow> nat option tool" where
  "search f [] = Inr None"
| "search f (i # is) = ebind (f i) (\<lambda>b. if b then Inr (Some i) else search f is)"

fun update_each :: "(nat \<Rightarrow> 's \<Rightarrow> 's tool) \<Rightarrow> nat list \<Rightarrow> 's \<Rightarrow> 's tool" where
  "update_each f [] s = Inr s"
| "update_each f (i # is) s = ebind (f i s) (update_each f is)"

subsection \<open>The file in memory\<close>

record elf_info =
  ei_data :: "u8 list"
  ei_size :: nat
  ei_changed :: bool
  ei_ok :: bool
  ei_pht :: nat
  ei_sht :: nat
  ei_symtab :: "nat option"
  ei_nsymtab :: nat
  ei_symstrtab :: nat

definition ei_capacity :: "elf_info \<Rightarrow> nat" where "ei_capacity ei = length (ei_data ei)"

definition get :: "elf_info \<Rightarrow> nat \<Rightarrow> nat \<Rightarrow> u8 list tool" where
  "get ei off k = (if off + k \<le> length (ei_data ei) then Inr (take k (drop off (ei_data ei))) else Inl OutOfRange)"

definition patch :: "u8 list \<Rightarrow> nat \<Rightarrow> u8 list \<Rightarrow> u8 list" where
  "patch d off bs = take off d @ bs @ drop (off + length bs) d"

definition store :: "nat \<Rightarrow> u8 list \<Rightarrow> elf_info \<Rightarrow> elf_info tool" where
  "store off bs ei =
     (if off + length bs \<le> length (ei_data ei) then Inr (ei\<lparr>ei_data := patch (ei_data ei) off bs\<rparr>) else Inl OutOfRange)"

definition eh_of :: "elf_info \<Rightarrow> elf_header tool" where
  "eh_of ei = ebind (get ei 0 64) (\<lambda>bs. Inr (decode_header bs))"

definition program_at :: "elf_info \<Rightarrow> nat \<Rightarrow> elf_program tool" where
  "program_at ei i = ebind (get ei (ei_pht ei + 56 * i) 56) (\<lambda>bs. Inr (decode_program bs))"

definition section_at :: "elf_info \<Rightarrow> nat \<Rightarrow> elf_section tool" where
  "section_at ei i = ebind (get ei (ei_sht ei + 64 * i) 64) (\<lambda>bs. Inr (decode_section bs))"

definition symbol_at :: "elf_info \<Rightarrow> nat \<Rightarrow> nat \<Rightarrow> elf_symbol tool" where
  "symbol_at ei base i = ebind (get ei (base + 24 * i) 24) (\<lambda>bs. Inr (decode_symbol bs))"

definition byte_at :: "elf_info \<Rightarrow> nat \<Rightarrow> u8 tool" where
  "byte_at ei off = ebind (get ei off 1) (\<lambda>bs. Inr (hd bs))"

text \<open>\<open>strcmp\<close> against a constant string without zero bytes, as a test for equality.\<close>

fun str_eq :: "u8 list \<Rightarrow> u8 list \<Rightarrow> bool tool" where
  "str_eq [] nm = Inl OutOfRange"
| "str_eq (b # bs) [] = Inr (b = 0)"
| "str_eq (b # bs) (c # cs) = (if b = c then str_eq bs cs else Inr False)"

definition strcmp_at :: "elf_info \<Rightarrow> nat \<Rightarrow> u8 list \<Rightarrow> bool tool" where
  "strcmp_at ei off nm = str_eq (drop off (ei_data ei)) nm"

definition grow :: "(nat \<Rightarrow> u8) \<Rightarrow> nat \<Rightarrow> elf_info \<Rightarrow> elf_info" where
  "grow fresh capacity ei =
     (if capacity > ei_capacity ei
      then let capacity' = max capacity (ei_capacity ei + 32768);
               ei1 = ei\<lparr>ei_data := ei_data ei @ map fresh [ei_capacity ei..<capacity']\<rparr>;
               eh = decode_header (take 64 (ei_data ei1))
           in if ei_ok ei
              then ei1\<lparr>ei_pht := unat (eh_phoff eh), ei_sht := unat (eh_shoff eh), ei_symtab := None, ei_nsymtab := 0\<rparr>
              else ei1
      else ei)"

subsection \<open>validate\<close>

definition in_file :: "elf_info \<Rightarrow> elf_section \<Rightarrow> bool" where
  "in_file ei sh \<longleftrightarrow> unat (sh_offset sh) < ei_size ei \<and> unat (sh_size sh) \<le> ei_size ei - unat (sh_offset sh)"

definition has_contents :: "elf_section \<Rightarrow> bool" where
  "has_contents sh \<longleftrightarrow> sh_type sh \<noteq> ELF_SHT_NULL \<and> sh_type sh \<noteq> ELF_SHT_NOBITS"

definition check_symtab :: "elf_info \<Rightarrow> elf_header \<Rightarrow> elf_section \<Rightarrow> unit tool" where
  "check_symtab ei eh sh =
     fail_if (unat (sh_link sh) \<ge> unat (eh_shnum eh)) ''bad linked string table''
     (ebind (section_at ei (unat (sh_link sh))) (\<lambda>str.
      fail_if (sh_type str \<noteq> ELF_SHT_STRTAB) ''bad linked string table''
      (for_each (\<lambda>j. ebind (symbol_at ei (unat (sh_offset sh)) j) (\<lambda>sy.
          fail_if (unat (sy_name sy) \<ge> unat (sh_size str)) ''symbol name out of range'' (Inr ())))
        [0..<unat (sh_size sh) div 24])))"

definition check_strtab :: "elf_info \<Rightarrow> elf_section \<Rightarrow> unit tool" where
  "check_strtab ei sh =
     fail_if (sh_size sh = 0) ''bad string table contents''
     (ebind (byte_at ei (unat (sh_offset sh))) (\<lambda>b.
      fail_if (b \<noteq> 0) ''bad string table contents''
      (ebind (byte_at ei (unat (sh_offset sh + sh_size sh - 1))) (\<lambda>b.
       fail_if (b \<noteq> 0) ''bad string table contents'' (Inr ())))))"

definition check_section :: "elf_info \<Rightarrow> elf_header \<Rightarrow> elf_section \<Rightarrow> nat \<Rightarrow> unit tool" where
  "check_section ei eh shstr i =
     ebind (section_at ei i) (\<lambda>sh.
     fail_if (i = 0 \<and> sh_type sh \<noteq> ELF_SHT_NULL) ''should start with null section''
     (fail_if (unat (sh_name sh) \<ge> unat (sh_size shstr)) ''bad section name''
     (ebind (byte_at ei (unat (sh_offset shstr) + unat (sh_name sh))) (\<lambda>_.
     (fail_if (has_contents sh \<and> \<not> in_file ei sh) ''bad offset/size''
     (ebind (if sh_type sh = ELF_SHT_SYMTAB then check_symtab ei eh sh else Inr ()) (\<lambda>_.
      if sh_type sh = ELF_SHT_STRTAB then check_strtab ei sh else Inr ())))))))"

definition validate_sections :: "elf_info \<Rightarrow> elf_header \<Rightarrow> unit tool" where
  "validate_sections ei eh =
     ebind (section_at ei (unat (eh_shstrndx eh))) (\<lambda>shstr.
     fail_if (sh_type shstr \<noteq> ELF_SHT_STRTAB \<or> sh_size shstr = 0) ''no section header string table''
     (ebind (byte_at ei (unat (sh_offset shstr))) (\<lambda>b.
      fail_if (b \<noteq> 0) ''bad section header string table''
      (ebind (byte_at ei (unat (sh_offset shstr) + (unat (sh_size shstr) - 1))) (\<lambda>b.
       fail_if (b \<noteq> 0) ''bad section header string table''
       (for_each (check_section ei eh shstr) [0..<unat (eh_shnum eh)]))))))"

definition validate :: "elf_info \<Rightarrow> elf_info tool" where
  "validate ei0 =
     (if ei_ok ei0 then Inr ei0
      else fail_if (ei_size ei0 < 64) ''not an ELF file''
        (ebind (eh_of ei0) (\<lambda>eh.
         fail_if (eh_magic eh \<noteq> ELF_MAGIC) ''not an ELF file''
        (fail_if (eh_phentsize eh \<noteq> 56 \<or> eh_shentsize eh \<noteq> 64) ''unexpected component sizes''
        (fail_if (eh_phnum eh = 0 \<or> eh_shnum eh = 0) ''empty components''
        (let ei = ei0\<lparr>ei_pht := unat (eh_phoff eh), ei_sht := unat (eh_shoff eh)\<rparr> in
         fail_if (ei_pht ei \<ge> ei_size ei \<or> (ei_size ei - ei_pht ei) div 56 < unat (eh_phnum eh)
             \<or> ei_sht ei \<ge> ei_size ei \<or> (ei_size ei - ei_sht ei) div 64 < unat (eh_shnum eh)) ''bad offsets''
        (fail_if (eh_shstrndx eh = 0 \<or> eh_shstrndx eh \<ge> eh_shnum eh) ''no section header string table''
        (ebind (validate_sections ei eh) (\<lambda>_. Inr (ei\<lparr>ei_ok := True\<rparr>))))))))))"

subsection \<open>Looking things up\<close>

definition shstrtab :: "elf_info \<Rightarrow> nat tool" where
  "shstrtab ei =
     ebind (eh_of ei) (\<lambda>eh. ebind (section_at ei (unat (eh_shstrndx eh))) (\<lambda>sh. Inr (unat (sh_offset sh))))"

definition find_section :: "elf_info \<Rightarrow> u8 list \<Rightarrow> nat tool" where
  "find_section ei name =
     (if \<not> ei_ok ei then Inl (Aborted ''ok_'')
      else ebind (shstrtab ei) (\<lambda>str.
        ebind (eh_of ei) (\<lambda>eh.
        ebind (search (\<lambda>i. ebind (section_at ei i) (\<lambda>sh. strcmp_at ei (str + unat (sh_name sh)) name))
                 [0..<unat (eh_shnum eh)]) (\<lambda>r.
        Inr (case r of Some i \<Rightarrow> i | None \<Rightarrow> 0)))))"

definition first_offset :: "elf_info \<Rightarrow> u64 tool" where
  "first_offset ei =
     ebind (eh_of ei) (\<lambda>eh.
     update_each (\<lambda>i off. ebind (section_at ei i) (\<lambda>sh.
         Inr (if has_contents sh then min off (sh_offset sh) else off)))
       [0..<unat (eh_shnum eh)] (-1))"

definition symtab :: "elf_info \<Rightarrow> elf_info tool" where
  "symtab ei =
     (if ei_symtab ei \<noteq> None then Inr ei
      else ebind (find_section ei (ascii ''.symtab'')) (\<lambda>i.
        if i = 0 then Inr ei
        else ebind (section_at ei i) (\<lambda>sh.
          if sh_type sh \<noteq> ELF_SHT_SYMTAB then Inr ei
          else ebind (section_at ei (unat (sh_link sh))) (\<lambda>str.
            Inr (ei\<lparr>ei_symtab := Some (unat (sh_offset sh)), ei_nsymtab := unat (sh_size sh) div 24 mod 2 ^ 32,
                    ei_symstrtab := unat (sh_offset str)\<rparr>)))))"

definition sym_at :: "elf_info \<Rightarrow> nat \<Rightarrow> elf_symbol tool" where
  "sym_at ei i = (case ei_symtab ei of None \<Rightarrow> Inl OutOfRange | Some base \<Rightarrow> symbol_at ei base i)"

text \<open>
  A symbol is given by its index; \<open>after\<close> is the one the search continues from. The source subtracts
  \<^verbatim>\<open>symtab_\<close> from it before it makes sure that the table is loaded: with a null \<^verbatim>\<open>symtab_\<close> the difference is
  undefined.
\<close>

definition find_symbol :: "u8 list \<Rightarrow> nat option \<Rightarrow> elf_info \<Rightarrow> (nat option \<times> elf_info) tool" where
  "find_symbol name after ei0 =
     ebind (case after of
              None \<Rightarrow> Inr 0
            | Some k \<Rightarrow> if ei_symtab ei0 = None then Inl OutOfRange else Inr (k + 1)) (\<lambda>first.
     ebind (symtab ei0) (\<lambda>ei.
     ebind (search (\<lambda>i. ebind (sym_at ei i) (\<lambda>sy. strcmp_at ei (ei_symstrtab ei + unat (sy_name sy)) name))
              [first..<ei_nsymtab ei]) (\<lambda>r.
     Inr (r, ei))))"

subsection \<open>Sorting\<close>

definition special :: "elf_symbol \<Rightarrow> bool" where
  "special a \<longleftrightarrow> sy_info a AND ELF_STT_MASK > ELF_STT_FUNC"

definition symbol_less :: "elf_symbol \<Rightarrow> elf_symbol \<Rightarrow> bool" where
  "symbol_less a b =
     (if special a \<or> special b then special a \<and> \<not> special b
      else sy_value a < sy_value b \<or> (sy_value a = sy_value b \<and> sy_size a < sy_size b))"

text \<open>\<open>std::stable_sort\<close>: a sorting by \<open>lt\<close> in which equivalent elements keep their order.\<close>

fun stable_insert :: "('a \<Rightarrow> 'a \<Rightarrow> bool) \<Rightarrow> 'a \<Rightarrow> 'a list \<Rightarrow> 'a list" where
  "stable_insert lt x [] = [x]"
| "stable_insert lt x (y # ys) = (if lt y x then y # stable_insert lt x ys else x # y # ys)"

fun stable_sort :: "('a \<Rightarrow> 'a \<Rightarrow> bool) \<Rightarrow> 'a list \<Rightarrow> 'a list" where
  "stable_sort lt [] = []"
| "stable_sort lt (x # xs) = stable_insert lt x (stable_sort lt xs)"

definition symbols :: "elf_info \<Rightarrow> nat \<Rightarrow> nat \<Rightarrow> elf_symbol list" where
  "symbols ei base n = map (\<lambda>i. decode_symbol (take 24 (drop (base + 24 * i) (ei_data ei)))) [0..<n]"

definition sort_symtab :: "elf_info \<Rightarrow> elf_info tool" where
  "sort_symtab ei0 =
     ebind (symtab ei0) (\<lambda>ei.
     ebind (search (\<lambda>i. ebind (sym_at ei i) (\<lambda>a. ebind (sym_at ei (i - 1)) (\<lambda>b. Inr (symbol_less a b))))
              [2..<ei_nsymtab ei]) (\<lambda>r.
     case (r, ei_symtab ei) of
       (Some i, Some base) \<Rightarrow>
         ebind (get ei (base + 24) (24 * (ei_nsymtab ei - 1))) (\<lambda>_.
         ebind (store (base + 24)
                  (concat (map encode_symbol (stable_sort symbol_less (symbols ei (base + 24) (ei_nsymtab ei - 1))))) ei)
           (\<lambda>ei1. Inr (ei1\<lparr>ei_changed := True\<rparr>)))
     | _ \<Rightarrow> Inr ei))"

subsection \<open>Moving sections\<close>

definition shift_program :: "u64 \<Rightarrow> u64 \<Rightarrow> nat \<Rightarrow> elf_info \<Rightarrow> elf_info tool" where
  "shift_program offset diff i ei =
     ebind (program_at ei i) (\<lambda>ph.
     if ph_offset ph \<ge> offset
     then store (ei_pht ei + 56 * i) (encode_program (ph\<lparr>ph_offset := ph_offset ph + diff\<rparr>)) ei
     else fail_if (ph_offset ph + ph_filesz ph > offset) ''program spans alignment boundary'' (Inr ei))"

definition shift_section :: "u64 \<Rightarrow> u64 \<Rightarrow> nat \<Rightarrow> elf_info \<Rightarrow> elf_info tool" where
  "shift_section offset diff i ei =
     ebind (section_at ei i) (\<lambda>sh.
     if sh_offset sh \<ge> offset
     then store (ei_sht ei + 64 * i) (encode_section (sh\<lparr>sh_offset := sh_offset sh + diff\<rparr>)) ei
     else fail_if (has_contents sh \<and> sh_offset sh + sh_size sh > offset) ''section spans alignment boundary'' (Inr ei))"

text \<open>\<open>grow\<close>, \<open>memmove\<close> and \<open>memset\<close>: the bytes from \<open>offset\<close> on move up, zeros take their place.\<close>

definition move_data :: "(nat \<Rightarrow> u8) \<Rightarrow> nat \<Rightarrow> nat \<Rightarrow> elf_info \<Rightarrow> elf_info" where
  "move_data fresh offset diff ei0 =
     (let ei = grow fresh (ei_size ei0 + diff) ei0; d = ei_data ei in
      ei\<lparr>ei_data := take offset d @ replicate diff 0 @ take (ei_size ei - offset) (drop offset d)
                   @ drop (ei_size ei + diff) d,
         ei_size := ei_size ei + diff, ei_changed := True\<rparr>)"

definition shift_sections :: "(nat \<Rightarrow> u8) \<Rightarrow> u64 \<Rightarrow> u64 \<Rightarrow> elf_info \<Rightarrow> elf_info tool" where
  "shift_sections fresh offset diff ei0 =
     (if \<not> (unat offset < ei_size ei0 \<and> sint diff > 0) then Inl (Aborted ''offset < size_ && diff > 0'')
      else ebind (eh_of ei0) (\<lambda>eh.
        fail_if (eh_phoff eh + ucast (eh_phnum eh) * 56 \<ge> offset) ''program header spans alignment boundary''
        (ebind (update_each (shift_program offset diff) [0..<unat (eh_phnum eh)] ei0) (\<lambda>ei1.
         ebind (update_each (shift_section offset diff) [0..<unat (eh_shnum eh)] ei1) (\<lambda>ei2.
         let ei3 = move_data fresh (unat offset) (unat diff) ei2 in
         ebind (eh_of ei3) (\<lambda>eh3.
         if eh_shoff eh3 \<ge> offset
         then ebind (store 0 (encode_header (eh3\<lparr>eh_shoff := eh_shoff eh3 + diff\<rparr>)) ei3) (\<lambda>ei4.
              Inr (ei4\<lparr>ei_sht := unat (eh_shoff eh3 + diff)\<rparr>))
         else Inr ei3))))))"

subsection \<open>The kernel's reference to the table\<close>

definition rewrite_one ::
  "u64 \<Rightarrow> u64 \<Rightarrow> elf_symbol \<Rightarrow> u64 \<times> elf_info \<Rightarrow> (u64 \<times> elf_info) tool" where
  "rewrite_one strtab_off sz sy ale =
     (let loadaddr0 = fst ale; ei = snd ale in
      fail_if (sy_size sy \<noteq> 32) ''symbol has unexpected size''
      (ebind (section_at ei (unat (sy_shndx sy))) (\<lambda>sh.
       fail_if (sh_type sh \<noteq> ELF_SHT_PROGBITS \<or> sy_value sy < sh_addr sh
                \<or> sy_value sy \<ge> sh_addr sh + sh_size sh - 32) ''bad reference''
       (let stref_off = unat (sh_offset sh + (sy_value sy - sh_addr sh)) in
        ebind (if loadaddr0 = 0 then ebind (get ei stref_off 8) (\<lambda>bs. Inr (of_nat (le_val bs))) else Inr loadaddr0)
          (\<lambda>loadaddr.
        ebind (get ei stref_off 32) (\<lambda>old.
        let new = encode_symtabref \<lparr>sr_sym = loadaddr, sr_nsym = of_nat (ei_nsymtab ei),
                    sr_strtab = loadaddr + strtab_off, sr_size = sz\<rparr> in
        if old \<noteq> new
        then ebind (store stref_off new ei) (\<lambda>ei1. Inr (loadaddr, ei1\<lparr>ei_changed := True\<rparr>))
        else Inr (loadaddr, ei)))))))"

primrec rewrite_loop ::
  "nat \<Rightarrow> u8 list \<Rightarrow> u64 \<Rightarrow> u64 \<Rightarrow> nat option \<Rightarrow> nat \<Rightarrow> u64 \<times> elf_info \<Rightarrow> (nat \<times> u64 \<times> elf_info) tool" where
  "rewrite_loop 0 name strtab_off sz sy nfound ale = Inl LoopBound"
| "rewrite_loop (Suc fuel) name strtab_off sz sy nfound ale =
     (case sy of
        None \<Rightarrow> Inr (nfound, ale)
      | Some i \<Rightarrow>
          ebind (sym_at (snd ale) i) (\<lambda>s.
          ebind (eh_of (snd ale)) (\<lambda>eh.
          ebind (if sy_info s AND ELF_STT_MASK = ELF_STT_OBJECT \<and> sy_shndx s < eh_shnum eh
                 then ebind (rewrite_one strtab_off sz s ale) (\<lambda>ale1. Inr (nfound + 1, ale1))
                 else Inr (nfound, ale)) (\<lambda>(nfound1, loadaddr, ei).
          ebind (find_symbol name (Some i) ei) (\<lambda>(sy1, ei1).
          rewrite_loop fuel name strtab_off sz sy1 nfound1 (loadaddr, ei1))))))"

definition rewrite_symtabref ::
  "u8 list \<Rightarrow> u64 \<Rightarrow> u64 \<Rightarrow> u64 \<times> elf_info \<Rightarrow> (nat \<times> u64 \<times> elf_info) tool" where
  "rewrite_symtabref name strtab_off sz ale =
     ebind (find_symbol name None (snd ale)) (\<lambda>(sy, ei).
     rewrite_loop (ei_nsymtab ei + 2) name strtab_off sz sy 0 (fst ale, ei))"

subsection \<open>main\<close>

definition align_symtab :: "(nat \<Rightarrow> u8) \<Rightarrow> nat \<Rightarrow> elf_info \<Rightarrow> elf_info tool" where
  "align_symtab fresh symtabndx ei =
     ebind (section_at ei symtabndx) (\<lambda>sh.
     ebind (eh_of ei) (\<lambda>eh.
     fail_if (unat (sh_link sh) \<ge> unat (eh_shnum eh) \<or> unat (sh_link sh) \<noteq> symtabndx + 1)
       ''.symtab has unexpected links''
     (ebind (section_at ei (unat (sh_link sh))) (\<lambda>str.
      fail_if (sh_type str \<noteq> ELF_SHT_STRTAB) ''.symtab has unexpected links''
      (if sh_offset sh AND 0xFFF \<noteq> 0
       then if sh_addralign sh \<ge> 0x1000 then Inl (Aborted ''symtab.sh_addralign < 0x1000'')
            else ebind (store (ei_sht ei + 64 * symtabndx) (encode_section (sh\<lparr>sh_addralign := 0x1000\<rparr>)) ei) (\<lambda>ei1.
                 shift_sections fresh (sh_offset sh) (0x1000 - (sh_offset sh AND 0xFFF)) (ei1\<lparr>ei_changed := True\<rparr>))
       else Inr ei)))))"

definition mark_allocated :: "u64 \<Rightarrow> u64 \<Rightarrow> nat \<Rightarrow> elf_info \<Rightarrow> elf_info tool" where
  "mark_allocated loadaddr va i ei =
     (if loadaddr = 0 then Inr ei
      else ebind (section_at ei i) (\<lambda>sh.
        if sh_flags sh AND ELF_SHF_ALLOC \<noteq> 0 then Inr ei
        else ebind (store (ei_sht ei + 64 * i)
                     (encode_section (sh\<lparr>sh_flags := sh_flags sh OR ELF_SHF_ALLOC, sh_addr := va\<rparr>)) ei)
               (\<lambda>ei1. Inr (ei1\<lparr>ei_changed := True\<rparr>))))"

definition symtab_program :: "u64 \<Rightarrow> u64 \<Rightarrow> u64 \<Rightarrow> elf_program" where
  "symtab_program loadaddr first_off last_off =
     \<lparr>ph_type = ELF_PTYPE_LOAD, ph_flags = ELF_PFLAG_READ, ph_offset = first_off, ph_va = loadaddr,
      ph_pa = loadaddr, ph_filesz = last_off - first_off, ph_memsz = last_off - first_off, ph_align = 0x1000\<rparr>"

text \<open>The index at which the program header belongs, then the table with a header inserted there.\<close>

definition program_position :: "u64 \<Rightarrow> elf_info \<Rightarrow> elf_header \<Rightarrow> nat tool" where
  "program_position loadaddr ei eh =
     ebind (search (\<lambda>i. ebind (program_at ei i) (\<lambda>ph. Inr (\<not> ph_va ph + ph_filesz ph < loadaddr)))
              [0..<unat (eh_phnum eh)]) (\<lambda>r.
     Inr (case r of Some i \<Rightarrow> i | None \<Rightarrow> unat (eh_phnum eh)))"

definition insert_program :: "nat \<Rightarrow> elf_program \<Rightarrow> elf_header \<Rightarrow> elf_info \<Rightarrow> elf_info tool" where
  "insert_program i ph eh ei =
     ebind (get ei (ei_pht ei + 56 * i) (56 * (unat (eh_phnum eh) - i))) (\<lambda>rest.
     ebind (store (ei_pht ei + 56 * (i + 1)) rest ei) (\<lambda>ei1.
     ebind (store 0 (encode_header (eh\<lparr>eh_phnum := eh_phnum eh + 1\<rparr>)) ei1) (\<lambda>ei2.
     ebind (store (ei_pht ei + 56 * i) (encode_program ph) ei2) (\<lambda>ei3.
     Inr (ei3\<lparr>ei_changed := True\<rparr>)))))"

definition add_program_header :: "u64 \<Rightarrow> u64 \<Rightarrow> u64 \<Rightarrow> elf_info \<Rightarrow> elf_info tool" where
  "add_program_header loadaddr first_off last_off ei =
     (if loadaddr = 0 then Inr ei
      else ebind (eh_of ei) (\<lambda>eh.
        ebind (program_position loadaddr ei eh) (\<lambda>i.
        ebind (if i = unat (eh_phnum eh) then Inr False
               else ebind (program_at ei i) (\<lambda>ph.
                 Inr (ph_va ph = loadaddr \<and> ph_offset ph = first_off \<and> ph_filesz ph \<ge> last_off - first_off)))
          (\<lambda>found.
        if found then Inr ei
        else ebind (first_offset ei) (\<lambda>offset0.
          fail_if (eh_phoff eh + (ucast (eh_phnum eh) + 1) * 56 > offset0 \<or> eh_shoff eh \<le> offset0)
            ''unexpected program headers''
          (insert_program i (symtab_program loadaddr first_off last_off) eh ei))))))"

text \<open>Everything \<open>main\<close> does to the file, from \<open>validate\<close> to the program header.\<close>

definition transform :: "(nat \<Rightarrow> u8) \<Rightarrow> u64 \<Rightarrow> u8 list \<Rightarrow> bool \<Rightarrow> elf_info \<Rightarrow> elf_info tool" where
  "transform fresh loadaddr0 lsymtab_name lsymtab_set ei0 =
     ebind (validate ei0) (\<lambda>ei1.
     ebind (find_section ei1 (ascii ''.symtab'')) (\<lambda>symtabndx.
     ebind (if symtabndx = 0 then Inr False
            else ebind (section_at ei1 symtabndx) (\<lambda>sh. Inr (sh_type sh = ELF_SHT_SYMTAB))) (\<lambda>is_symtab.
     fail_if (\<not> is_symtab) ''no .symtab section''
     (ebind (align_symtab fresh symtabndx ei1) (\<lambda>ei2.
     ebind (section_at ei2 symtabndx) (\<lambda>sh.
     ebind (section_at ei2 (symtabndx + 1)) (\<lambda>str.
     let first_off = sh_offset sh; strtab_off = sh_offset str; last_off = sh_offset str + sh_size str in
     ebind (rewrite_symtabref lsymtab_name (strtab_off - first_off) (last_off - first_off) (loadaddr0, ei2))
       (\<lambda>(nfound, loadaddr, ei3).
     fail_if (nfound = 0 \<and> lsymtab_set) ''no symbol found''
     (ebind (sort_symtab ei3) (\<lambda>ei4.
     ebind (mark_allocated loadaddr loadaddr symtabndx ei4) (\<lambda>ei5.
     ebind (mark_allocated loadaddr (loadaddr + strtab_off - first_off) (symtabndx + 1) ei5) (\<lambda>ei6.
     add_program_header loadaddr first_off last_off ei6))))))))))))"

text \<open>
  Reading the input: what \<^verbatim>\<open>read\<close> answers, in order; when the list runs out it returns all that is left
  and fits. \<^verbatim>\<open>getopt\<close> has split the arguments into options and file names.
\<close>

datatype rresult = ReadAgain | ReadError | Got nat

function read_loop :: "(nat \<Rightarrow> u8) \<Rightarrow> u8 list \<Rightarrow> rresult list \<Rightarrow> elf_info \<Rightarrow> elf_info tool" where
  "read_loop fresh rest rs ei0 =
     (let ei = (if ei_size ei0 = ei_capacity ei0 then grow fresh (ei_capacity ei0 * 2) ei0 else ei0);
          room = min (length rest) (ei_capacity ei - ei_size ei);
          more = (\<lambda>r. ei\<lparr>ei_data := patch (ei_data ei) (ei_size ei) (take r rest), ei_size := ei_size ei + r\<rparr>)
      in case rs of
           [] \<Rightarrow> if room = 0 then Inr ei else read_loop fresh (drop room rest) [] (more room)
         | ReadAgain # rs1 \<Rightarrow> read_loop fresh rest rs1 ei
         | ReadError # rs1 \<Rightarrow> Inl (Exit1 ''read'')
         | Got k # rs1 \<Rightarrow>
             if min k room = 0 then Inr ei else read_loop fresh (drop (min k room) rest) rs1 (more (min k room)))"
  by pat_completeness auto
termination
  by (relation "measure (\<lambda>(fresh, rest, rs, ei). length rest + length rs)") auto

declare read_loop.simps [simp del]

definition new_info :: elf_info where
  "new_info = \<lparr>ei_data = [], ei_size = 0, ei_changed = False, ei_ok = False, ei_pht = 0, ei_sht = 0,
     ei_symtab = None, ei_nsymtab = 0, ei_symstrtab = 0\<rparr>"

definition initial_capacity :: "bool \<Rightarrow> nat \<Rightarrow> nat" where
  "initial_capacity regular st_size = (if regular then (st_size + 32767) div 32768 * 32768 else 262144)"

definition read_file :: "(nat \<Rightarrow> u8) \<Rightarrow> bool \<Rightarrow> nat \<Rightarrow> u8 list \<Rightarrow> rresult list \<Rightarrow> elf_info tool" where
  "read_file fresh regular st_size bytes rs =
     read_loop fresh bytes rs (grow fresh (initial_capacity regular st_size) new_info)"

fun write_out :: "u8 list \<Rightarrow> wresult list \<Rightarrow> u8 list tool" where
  "write_out rest [] = Inr rest"
| "write_out rest (w # ws) =
     (if rest = [] then Inr []
      else case w of
        Wrote k \<Rightarrow> ebind (write_out (drop k rest) ws) (\<lambda>out. Inr (take k rest @ out))
      | Interrupted \<Rightarrow> write_out rest ws
      | WriteError \<Rightarrow> Inl (Exit1 ''write''))"

datatype opt = OptA "u8 list" | OptS "u8 list" | OptV | OptOther

record settings =
  opt_loadaddr :: u64
  opt_name :: "u8 list"
  opt_set :: bool
  opt_verbose :: bool

definition apply_option :: "opt \<Rightarrow> settings \<Rightarrow> settings tool" where
  "apply_option x st =
     (case x of
        OptA arg \<Rightarrow> fail_if (snd (c_strtoul arg) \<noteq> []) ''bad -a argument'' (Inr (st\<lparr>opt_loadaddr := fst (c_strtoul arg)\<rparr>))
      | OptS arg \<Rightarrow> Inr (st\<lparr>opt_name := arg, opt_set := True\<rparr>)
      | OptV \<Rightarrow> Inr (st\<lparr>opt_verbose := True\<rparr>)
      | OptOther \<Rightarrow> Inl (Exit1 ''usage''))"

fun apply_options :: "opt list \<Rightarrow> settings \<Rightarrow> settings tool" where
  "apply_options [] st = Inr st"
| "apply_options (x # xs) st = ebind (apply_option x st) (apply_options xs)"

record host_file =
  hf_bytes :: "u8 list"
  hf_regular :: bool
  hf_size :: nat

definition is_std :: "u8 list \<Rightarrow> bool" where "is_std fn \<longleftrightarrow> fn = ascii ''-''"

definition output_name :: "u8 list list \<Rightarrow> u8 list" where
  "output_name args =
     (if length args = 1 then args ! 0 else if length args = 2 then args ! 1 else ascii ''-'')"

text \<open>The result of \<open>main\<close>: nothing written, or the name of the output and what is written to it.\<close>

definition symtab_main ::
  "(nat \<Rightarrow> u8) \<Rightarrow> opt list \<Rightarrow> u8 list list \<Rightarrow> host_file \<Rightarrow> (u8 list \<Rightarrow> host_file option) \<Rightarrow> (u8 list \<Rightarrow> bool)
    \<Rightarrow> rresult list \<Rightarrow> wresult list \<Rightarrow> (u8 list \<times> u8 list) option tool" where
  "symtab_main fresh opts args stdin files writable rs ws =
     ebind (apply_options opts \<lparr>opt_loadaddr = 0, opt_name = ascii ''symtab'', opt_set = False, opt_verbose = False\<rparr>) (\<lambda>st.
     fail_if (length args > 2) ''usage''
     (let from_file = (args \<noteq> [] \<and> \<not> is_std (args ! 0)) in
      case (if from_file then files (args ! 0) else Some stdin) of
        None \<Rightarrow> Inl (Exit1 ''open'')
      | Some f \<Rightarrow>
          ebind (read_file fresh (hf_regular f) (hf_size f) (hf_bytes f) rs) (\<lambda>ei.
          ebind (transform fresh (opt_loadaddr st) (opt_name st) (opt_set st) ei) (\<lambda>ei1.
          if \<not> ei_changed ei1 \<and> length args = 1 \<and> from_file then Inr None
          else let ofn = output_name args in
            fail_if (\<not> is_std ofn \<and> \<not> writable ofn) ''open''
            (ebind (write_out (take (ei_size ei1) (ei_data ei1)) ws) (\<lambda>out. Inr (Some (ofn, out))))))))"

subsection \<open>Specification\<close>

text \<open>The tables of a file, read without checks, and what a file must be like to be accepted.\<close>

definition hdr :: "elf_info \<Rightarrow> elf_header" where "hdr ei = decode_header (take 64 (ei_data ei))"

definition sec :: "elf_info \<Rightarrow> nat \<Rightarrow> elf_section" where
  "sec ei i = decode_section (take 64 (drop (ei_sht ei + 64 * i) (ei_data ei)))"

definition prog :: "elf_info \<Rightarrow> nat \<Rightarrow> elf_program" where
  "prog ei i = decode_program (take 56 (drop (ei_pht ei + 56 * i) (ei_data ei)))"

definition symb :: "elf_info \<Rightarrow> nat \<Rightarrow> nat \<Rightarrow> elf_symbol" where
  "symb ei base i = decode_symbol (take 24 (drop (base + 24 * i) (ei_data ei)))"

abbreviation shnum :: "elf_info \<Rightarrow> nat" where "shnum ei \<equiv> unat (eh_shnum (hdr ei))"
abbreviation phnum :: "elf_info \<Rightarrow> nat" where "phnum ei \<equiv> unat (eh_phnum (hdr ei))"
abbreviation shstr :: "elf_info \<Rightarrow> elf_section" where "shstr ei \<equiv> sec ei (unat (eh_shstrndx (hdr ei)))"

definition strtab_ok :: "elf_info \<Rightarrow> elf_section \<Rightarrow> bool" where
  "strtab_ok ei sh \<longleftrightarrow> sh_size sh \<noteq> 0 \<and> ei_data ei ! unat (sh_offset sh) = 0
     \<and> ei_data ei ! (unat (sh_offset sh) + unat (sh_size sh) - 1) = 0"

definition symtab_ok :: "elf_info \<Rightarrow> elf_section \<Rightarrow> bool" where
  "symtab_ok ei sh \<longleftrightarrow> unat (sh_link sh) < shnum ei \<and> sh_type (sec ei (unat (sh_link sh))) = ELF_SHT_STRTAB
     \<and> (\<forall>j < unat (sh_size sh) div 24.
          unat (sy_name (symb ei (unat (sh_offset sh)) j)) < unat (sh_size (sec ei (unat (sh_link sh)))))"

definition section_ok :: "elf_info \<Rightarrow> nat \<Rightarrow> bool" where
  "section_ok ei i \<longleftrightarrow>
     (i = 0 \<longrightarrow> sh_type (sec ei i) = ELF_SHT_NULL)
     \<and> unat (sh_name (sec ei i)) < unat (sh_size (shstr ei))
     \<and> (has_contents (sec ei i) \<longrightarrow> in_file ei (sec ei i))
     \<and> (sh_type (sec ei i) = ELF_SHT_SYMTAB \<longrightarrow> symtab_ok ei (sec ei i))
     \<and> (sh_type (sec ei i) = ELF_SHT_STRTAB \<longrightarrow> strtab_ok ei (sec ei i))"

definition tables_ok :: "elf_info \<Rightarrow> bool" where
  "tables_ok ei \<longleftrightarrow>
     64 \<le> ei_size ei \<and> ei_size ei \<le> length (ei_data ei)
     \<and> ei_pht ei = unat (eh_phoff (hdr ei)) \<and> ei_sht ei = unat (eh_shoff (hdr ei))
     \<and> ei_pht ei + 56 * phnum ei \<le> ei_size ei \<and> ei_sht ei + 64 * shnum ei \<le> ei_size ei
     \<and> eh_shstrndx (hdr ei) \<noteq> 0 \<and> eh_shstrndx (hdr ei) < eh_shnum (hdr ei)"

definition wf_elf :: "elf_info \<Rightarrow> bool" where
  "wf_elf ei \<longleftrightarrow>
     eh_magic (hdr ei) = ELF_MAGIC \<and> eh_phentsize (hdr ei) = 56 \<and> eh_shentsize (hdr ei) = 64
     \<and> eh_phnum (hdr ei) \<noteq> 0 \<and> eh_shnum (hdr ei) \<noteq> 0 \<and> tables_ok ei
     \<and> sh_type (shstr ei) = ELF_SHT_STRTAB \<and> (\<forall>i < shnum ei. section_ok ei i)"

subsection \<open>Rewriting fallible steps\<close>

named_theorems tool_simps \<open>rewriting of the tool's fallible steps\<close>

lemma ebind_simps [simp, tool_simps]: "ebind (Inl e) f = Inl e" "ebind (Inr x) f = f x"
  by (simp_all add: ebind_def)

lemma ebind_Inr_iff [tool_simps]: "ebind r f = Inr y \<longleftrightarrow> (\<exists>x. r = Inr x \<and> f x = Inr y)"
  by (cases r) simp_all

lemma fail_if_Inr_iff [tool_simps]: "fail_if b msg r = Inr x \<longleftrightarrow> \<not> b \<and> r = Inr x"
  by (simp add: fail_if_def)

lemma fail_if_simps [simp]: "fail_if False msg r = r" "fail_if True msg r = Inl (Exit1 msg)"
  by (simp_all add: fail_if_def)

lemma for_each_ok [tool_simps]: "for_each f is = Inr () \<longleftrightarrow> (\<forall>i \<in> set is. f i = Inr ())"
  by (induction "is") (auto simp: ebind_Inr_iff)

lemma search_total:
  "(\<And>i. i \<in> set is \<Longrightarrow> f i = Inr (P i)) \<Longrightarrow> search f is = Inr (find P is)"
  by (induction "is") auto

lemma get_Inr_iff [tool_simps]:
  "get ei off k = Inr bs \<longleftrightarrow> off + k \<le> length (ei_data ei) \<and> bs = take k (drop off (ei_data ei))"
  by (auto simp: get_def)

lemma table_reads:
  "64 \<le> length (ei_data ei) \<Longrightarrow> eh_of ei = Inr (hdr ei)"
  "ei_sht ei + 64 * i + 64 \<le> length (ei_data ei) \<Longrightarrow> section_at ei i = Inr (sec ei i)"
  "ei_pht ei + 56 * i + 56 \<le> length (ei_data ei) \<Longrightarrow> program_at ei i = Inr (prog ei i)"
  "base + 24 * i + 24 \<le> length (ei_data ei) \<Longrightarrow> symbol_at ei base i = Inr (symb ei base i)"
  by (simp_all add: eh_of_def section_at_def program_at_def symbol_at_def get_def hdr_def sec_def prog_def symb_def)

lemma byte_at_Inr_iff [tool_simps]: "byte_at ei off = Inr b \<longleftrightarrow> off < length (ei_data ei) \<and> b = ei_data ei ! off"
  by (auto simp: byte_at_def ebind_Inr_iff get_Inr_iff take_Suc_conv_app_nth hd_drop_conv_nth)

subsection \<open>What validate accepts\<close>

lemma tables_ok_section:
  assumes "tables_ok ei" "i < shnum ei"
  shows "section_at ei i = Inr (sec ei i)"
proof (rule table_reads(2))
  have "64 * i + 64 \<le> 64 * shnum ei" using assms(2) by simp
  with assms(1) show "ei_sht ei + 64 * i + 64 \<le> length (ei_data ei)" unfolding tables_ok_def by linarith
qed

lemma tables_ok_program:
  assumes "tables_ok ei" "i < phnum ei"
  shows "program_at ei i = Inr (prog ei i)"
proof (rule table_reads(3))
  have "56 * i + 56 \<le> 56 * phnum ei" using assms(2) by simp
  with assms(1) show "ei_pht ei + 56 * i + 56 \<le> length (ei_data ei)" unfolding tables_ok_def by linarith
qed

lemma tables_ok_header: "tables_ok ei \<Longrightarrow> eh_of ei = Inr (hdr ei)"
  by (rule table_reads(1)) (simp add: tables_ok_def)

lemma in_file_symbol:
  assumes "in_file ei sh" "ei_size ei \<le> length (ei_data ei)" "j < unat (sh_size sh) div 24"
  shows "symbol_at ei (unat (sh_offset sh)) j = Inr (symb ei (unat (sh_offset sh)) j)"
proof (rule table_reads(4))
  have "24 * j + 24 \<le> unat (sh_size sh)" using assms(3) by linarith
  with assms(1,2) show "unat (sh_offset sh) + 24 * j + 24 \<le> length (ei_data ei)" unfolding in_file_def by linarith
qed

lemma check_symtab_iff:
  assumes t: "tables_ok ei" and f: "in_file ei sh"
  shows "check_symtab ei (hdr ei) sh = Inr () \<longleftrightarrow> symtab_ok ei sh"
proof (cases "unat (sh_link sh) < shnum ei")
  case True
  have "(ebind (symbol_at ei (unat (sh_offset sh)) j) (\<lambda>sy. fail_if (b \<le> unat (sy_name sy)) msg (Inr ())) = Inr ())
      \<longleftrightarrow> unat (sy_name (symb ei (unat (sh_offset sh)) j)) < b" if "j < unat (sh_size sh) div 24" for j b msg
    using in_file_symbol [OF f _ that] t by (simp add: tables_ok_def fail_if_Inr_iff not_le)
  then show ?thesis using True tables_ok_section [OF t True]
    by (auto simp: check_symtab_def symtab_ok_def for_each_ok fail_if_Inr_iff)
qed (simp add: check_symtab_def symtab_ok_def fail_if_Inr_iff)

lemma check_strtab_iff:
  assumes s: "ei_size ei \<le> length (ei_data ei)" and f: "in_file ei sh" and b: "length (ei_data ei) < 2 ^ 64"
  shows "check_strtab ei sh = Inr () \<longleftrightarrow> strtab_ok ei sh"
proof (cases "sh_size sh = 0")
  case False
  then have z: "0 < unat (sh_size sh)" by (simp add: unat_gt_0)
  have le: "unat (sh_offset sh) + unat (sh_size sh) \<le> length (ei_data ei)" using f s unfolding in_file_def by linarith
  then have sum: "unat (sh_offset sh + sh_size sh) = unat (sh_offset sh) + unat (sh_size sh)"
    using b by (subst unat_add64) simp_all
  have "unat (sh_offset sh + sh_size sh - 1) = unat (sh_offset sh) + unat (sh_size sh) - 1"
    using sum z by (subst unat_minus_one) (auto simp: unat_eq_zero [symmetric])
  then show ?thesis using False z le by (auto simp: check_strtab_def strtab_ok_def tool_simps)
qed (simp add: check_strtab_def strtab_ok_def)

lemma has_contents_types: "sh_type sh = ELF_SHT_SYMTAB \<Longrightarrow> has_contents sh" "sh_type sh = ELF_SHT_STRTAB \<Longrightarrow> has_contents sh"
  by (simp_all add: has_contents_def sht_consts)

lemma check_section_iff:
  assumes t: "tables_ok ei" and b: "length (ei_data ei) < 2 ^ 64" and i: "i < shnum ei"
    and str: "unat (sh_offset (shstr ei)) + unat (sh_size (shstr ei)) \<le> length (ei_data ei)"
  shows "check_section ei (hdr ei) (shstr ei) i = Inr () \<longleftrightarrow> section_ok ei i"
proof -
  have s: "ei_size ei \<le> length (ei_data ei)" using t by (simp add: tables_ok_def)
  let ?sh = "sec ei i"
  show ?thesis
  proof (cases "has_contents ?sh \<and> \<not> in_file ei ?sh")
    case True
    then show ?thesis using tables_ok_section [OF t i] by (auto simp: check_section_def section_ok_def tool_simps)
  next
    case False
    then have sy: "sh_type ?sh = ELF_SHT_SYMTAB \<Longrightarrow> check_symtab ei (hdr ei) ?sh = Inr () \<longleftrightarrow> symtab_ok ei ?sh"
      and st: "sh_type ?sh = ELF_SHT_STRTAB \<Longrightarrow> check_strtab ei ?sh = Inr () \<longleftrightarrow> strtab_ok ei ?sh"
      using has_contents_types check_symtab_iff [OF t] check_strtab_iff [OF s _ b] by blast+
    have "unat (sh_offset (shstr ei)) + unat (sh_name ?sh) < length (ei_data ei)"
      if "unat (sh_name ?sh) < unat (sh_size (shstr ei))" using str that by linarith
    then show ?thesis using False sy st tables_ok_section [OF t i]
      by (cases "i = 0") (auto simp: check_section_def section_ok_def tool_simps not_le split: if_splits)
  qed
qed

lemma wf_elf_shstr:
  assumes "wf_elf ei"
  shows "in_file ei (shstr ei)" "strtab_ok ei (shstr ei)" "unat (eh_shstrndx (hdr ei)) < shnum ei"
proof -
  show i: "unat (eh_shstrndx (hdr ei)) < shnum ei" using assms by (simp add: wf_elf_def tables_ok_def word_less_nat_alt)
  then show "in_file ei (shstr ei)" "strtab_ok ei (shstr ei)"
    using assms has_contents_types(2) by (auto simp: wf_elf_def section_ok_def)
qed

lemma validate_sections_iff:
  assumes t: "tables_ok ei" and b: "length (ei_data ei) < 2 ^ 64"
  shows "validate_sections ei (hdr ei) = Inr () \<longleftrightarrow>
    sh_type (shstr ei) = ELF_SHT_STRTAB \<and> (\<forall>i < shnum ei. section_ok ei i)"
    (is "?v = Inr () \<longleftrightarrow> ?w")
proof
  have n: "unat (eh_shstrndx (hdr ei)) < shnum ei" using t by (simp add: tables_ok_def word_less_nat_alt)
  note ss = tables_ok_section [OF t n]
  have z: "sh_size (shstr ei) \<noteq> 0 \<Longrightarrow> 0 < unat (sh_size (shstr ei))" by (simp add: unat_gt_0)
  show ?w if v: "?v = Inr ()"
  proof -
    from v have v1: "sh_type (shstr ei) = ELF_SHT_STRTAB" "sh_size (shstr ei) \<noteq> 0"
      "unat (sh_offset (shstr ei)) + (unat (sh_size (shstr ei)) - 1) < length (ei_data ei)"
      "\<forall>i < shnum ei. check_section ei (hdr ei) (shstr ei) i = Inr ()"
      by (auto simp: validate_sections_def ss tool_simps)
    then have "unat (sh_offset (shstr ei)) + unat (sh_size (shstr ei)) \<le> length (ei_data ei)" using z by linarith
    then show ?w using v1 check_section_iff [OF t b] by blast
  qed
  show "?v = Inr ()" if w: ?w
  proof -
    have "has_contents (shstr ei)" "section_ok ei (unat (eh_shstrndx (hdr ei)))" using w n has_contents_types by blast+
    then have f: "in_file ei (shstr ei)" "strtab_ok ei (shstr ei)" using w by (auto simp: section_ok_def)
    have le: "unat (sh_offset (shstr ei)) + unat (sh_size (shstr ei)) \<le> length (ei_data ei)"
      using f(1) t unfolding in_file_def tables_ok_def by linarith
    then have c: "\<forall>i < shnum ei. check_section ei (hdr ei) (shstr ei) i = Inr ()"
      using w check_section_iff [OF t b] by blast
    have "0 < unat (sh_size (shstr ei))" using f(2) z by (simp add: strtab_ok_def)
    then show ?thesis using w f(2) le c
      by (auto simp: validate_sections_def ss tool_simps strtab_ok_def Suc_le_eq)
  qed
qed

lemma room_iff: "0 < n \<Longrightarrow> \<not> (off \<ge> size \<or> (size - off) div k < n) \<longleftrightarrow> off + k * n \<le> size" if "0 < k" for k n off size :: nat
proof -
  assume n: "0 < n"
  have "n \<le> (size - off) div k \<longleftrightarrow> k * n \<le> size - off" using that by (simp add: less_eq_div_iff_mult_less_eq mult.commute)
  moreover have "0 < k * n" using that n by simp
  ultimately show ?thesis by linarith
qed

lemma validate_iff:
  assumes s: "ei_size ei \<le> length (ei_data ei)" and b: "length (ei_data ei) < 2 ^ 64" and nok: "\<not> ei_ok ei"
  shows "validate ei = Inr ei' \<longleftrightarrow>
    wf_elf ei' \<and> ei' = ei\<lparr>ei_pht := unat (eh_phoff (hdr ei)), ei_sht := unat (eh_shoff (hdr ei)), ei_ok := True\<rparr>"
    (is "_ \<longleftrightarrow> wf_elf ei' \<and> ei' = ?e")
proof -
  let ?f = "ei\<lparr>ei_pht := unat (eh_phoff (hdr ei)), ei_sht := unat (eh_shoff (hdr ei))\<rparr>"
  have h: "hdr ?e = hdr ei" "hdr ?f = hdr ei" by (simp_all add: hdr_def)
  have ok: "section_ok ?e i = section_ok ?f i" "sec ?e i = sec ?f i" "tables_ok ?e = tables_ok ?f" for i
    by (simp_all add: section_ok_def tables_ok_def symtab_ok_def strtab_ok_def in_file_def sec_def symb_def h)
  show ?thesis
  proof (cases "64 \<le> ei_size ei \<and> eh_magic (hdr ei) = ELF_MAGIC \<and> eh_phentsize (hdr ei) = 56 \<and> eh_shentsize (hdr ei) = 64
      \<and> eh_phnum (hdr ei) \<noteq> 0 \<and> eh_shnum (hdr ei) \<noteq> 0 \<and> tables_ok ?f")
    case True
    then have eo: "eh_of ei = Inr (hdr ei)" using s by (intro table_reads(1)) simp
    have pos: "0 < phnum ei" "0 < shnum ei" using True by (simp_all add: unat_gt_0)
    have t: "tables_ok ?f" "ei_pht ?f + 56 * phnum ei \<le> ei_size ?f" "ei_sht ?f + 64 * shnum ei \<le> ei_size ?f"
      using True by (simp_all add: tables_ok_def h)
    have "validate ei = ebind (validate_sections ?f (hdr ei)) (\<lambda>_. Inr ?e)"
      using True nok eo room_iff [THEN iffD2, OF _ pos(1) t(2)] room_iff [THEN iffD2, OF _ pos(2) t(3)]
      by (simp add: validate_def Let_def tables_ok_def h linorder_not_less [symmetric] del: linorder_not_less not_less)
    then show ?thesis
      using validate_sections_iff [OF t(1)] b True ok h by (auto simp: wf_elf_def ebind_Inr_iff)
  next
    case False
    have "validate ei \<noteq> Inr ei'"
    proof
      assume "validate ei = Inr ei'"
      then have g: "64 \<le> ei_size ei" using nok by (auto simp: validate_def fail_if_def split: if_splits)
      then have "eh_of ei = Inr (hdr ei)" using s by (intro table_reads(1)) simp
      then show False using False \<open>validate ei = Inr ei'\<close> nok s g
          room_iff [of 56 "phnum ei" "ei_pht ?f" "ei_size ?f"] room_iff [of 64 "shnum ei" "ei_sht ?f" "ei_size ?f"]
        by (auto simp: validate_def tool_simps Let_def tables_ok_def h unat_gt_0 split: if_splits)
    qed
    moreover have "\<not> (wf_elf ei' \<and> ei' = ?e)" using False ok h s by (auto simp: wf_elf_def tables_ok_def)
    ultimately show ?thesis by simp
  qed
qed

subsection \<open>Lookups stay inside the file\<close>

definition cstr :: "elf_info \<Rightarrow> nat \<Rightarrow> u8 list" where
  "cstr ei off = takeWhile (\<lambda>b. b \<noteq> 0) (drop off (ei_data ei))"

definition section_name :: "elf_info \<Rightarrow> nat \<Rightarrow> u8 list" where
  "section_name ei i = cstr ei (unat (sh_offset (shstr ei)) + unat (sh_name (sec ei i)))"

definition symbol_name :: "elf_info \<Rightarrow> nat \<Rightarrow> u8 list" where
  "symbol_name ei i = cstr ei (ei_symstrtab ei + unat (sy_name (symb ei (the (ei_symtab ei)) i)))"

text \<open>The cached symbol table is the one of a symbol-table section.\<close>

definition cached :: "elf_info \<Rightarrow> nat \<Rightarrow> bool" where
  "cached ei i \<longleftrightarrow> i < shnum ei \<and> sh_type (sec ei i) = ELF_SHT_SYMTAB
     \<and> ei_symtab ei = Some (unat (sh_offset (sec ei i))) \<and> ei_nsymtab ei = unat (sh_size (sec ei i)) div 24 mod 2 ^ 32
     \<and> ei_symstrtab ei = unat (sh_offset (sec ei (unat (sh_link (sec ei i)))))"

definition cache_ok :: "elf_info \<Rightarrow> bool" where
  "cache_ok ei \<longleftrightarrow> (if ei_symtab ei = None then ei_nsymtab ei = 0 else \<exists>i. cached ei i)"

lemma str_eq_spec: "0 \<in> set bs \<Longrightarrow> 0 \<notin> set nm \<Longrightarrow> str_eq bs nm = Inr (takeWhile (\<lambda>b. b \<noteq> 0) bs = nm)"
  by (induction bs nm rule: str_eq.induct) auto

lemma strtab_terminates:
  assumes "in_file ei sh" "strtab_ok ei sh" "ei_size ei \<le> length (ei_data ei)" "n < unat (sh_size sh)"
  shows "0 \<in> set (drop (unat (sh_offset sh) + n) (ei_data ei))"
proof -
  let ?k = "unat (sh_size sh) - 1 - n"
  have le: "unat (sh_offset sh) + unat (sh_size sh) \<le> length (ei_data ei)" using assms(1,3) unfolding in_file_def by linarith
  then have "?k < length (drop (unat (sh_offset sh) + n) (ei_data ei))" using assms(4) by simp
  moreover have "drop (unat (sh_offset sh) + n) (ei_data ei) ! ?k = 0"
    using assms(2,4) le by (simp add: strtab_ok_def)
  ultimately show ?thesis by (metis nth_mem)
qed

lemma strcmp_at_spec:
  assumes "in_file ei sh" "strtab_ok ei sh" "ei_size ei \<le> length (ei_data ei)" "n < unat (sh_size sh)" "0 \<notin> set nm"
  shows "strcmp_at ei (unat (sh_offset sh) + n) nm = Inr (cstr ei (unat (sh_offset sh) + n) = nm)"
  unfolding strcmp_at_def cstr_def by (rule str_eq_spec [OF strtab_terminates [OF assms(1-4)] assms(5)])

lemma wf_elf_size: "wf_elf ei \<Longrightarrow> ei_size ei \<le> length (ei_data ei)" "wf_elf ei \<Longrightarrow> tables_ok ei"
  by (simp_all add: wf_elf_def tables_ok_def)

lemma wf_elf_section: "wf_elf ei \<Longrightarrow> i < shnum ei \<Longrightarrow> section_ok ei i"
  by (simp add: wf_elf_def)

lemma find_section_spec:
  assumes w: "wf_elf ei" and ok: "ei_ok ei" and nm: "0 \<notin> set nm"
  shows "find_section ei nm = Inr (case find (\<lambda>i. section_name ei i = nm) [0..<shnum ei] of Some i \<Rightarrow> i | None \<Rightarrow> 0)"
proof -
  note t = wf_elf_size(2) [OF w] and str = wf_elf_shstr [OF w]
  have "ebind (section_at ei i) (\<lambda>sh. strcmp_at ei (unat (sh_offset (shstr ei)) + unat (sh_name sh)) nm)
      = Inr (section_name ei i = nm)" if "i \<in> set [0..<shnum ei]" for i
    using that tables_ok_section [OF t] wf_elf_section [OF w] strcmp_at_spec [OF str(1,2) wf_elf_size(1) [OF w] _ nm]
    by (simp add: section_ok_def section_name_def)
  then show ?thesis
    using search_total [of "[0..<shnum ei]"] tables_ok_header [OF t] tables_ok_section [OF t str(3)] ok
    by (simp add: find_section_def shstrtab_def)
qed

lemma symtab_link:
  assumes w: "wf_elf ei" and i: "i < shnum ei" "sh_type (sec ei i) = ELF_SHT_SYMTAB"
  defines "str \<equiv> sec ei (unat (sh_link (sec ei i)))"
  shows "section_at ei (unat (sh_link (sec ei i))) = Inr str" "in_file ei (sec ei i)" "in_file ei str" "strtab_ok ei str"
    "j < unat (sh_size (sec ei i)) div 24 \<Longrightarrow> unat (sy_name (symb ei (unat (sh_offset (sec ei i))) j)) < unat (sh_size str)"
proof -
  have s: "symtab_ok ei (sec ei i)" and f: "in_file ei (sec ei i)"
    using wf_elf_section [OF w i(1)] i(2) has_contents_types(1) by (auto simp: section_ok_def)
  then have l: "unat (sh_link (sec ei i)) < shnum ei" "sh_type str = ELF_SHT_STRTAB" by (simp_all add: symtab_ok_def str_def)
  then show "in_file ei str" "strtab_ok ei str"
    using wf_elf_section [OF w l(1)] has_contents_types(2) by (auto simp: section_ok_def str_def)
  show "section_at ei (unat (sh_link (sec ei i))) = Inr str"
    using tables_ok_section [OF wf_elf_size(2) [OF w] l(1)] by (simp add: str_def)
  show "in_file ei (sec ei i)" by (rule f)
  show "unat (sy_name (symb ei (unat (sh_offset (sec ei i))) j)) < unat (sh_size str)"
    if "j < unat (sh_size (sec ei i)) div 24" using s that by (simp add: symtab_ok_def str_def)
qed

lemma wf_elf_cache [simp]:
  "wf_elf (ei\<lparr>ei_symtab := a, ei_nsymtab := b, ei_symstrtab := c\<rparr>) = wf_elf ei"
  "hdr (ei\<lparr>ei_symtab := a, ei_nsymtab := b, ei_symstrtab := c\<rparr>) = hdr ei"
  "sec (ei\<lparr>ei_symtab := a, ei_nsymtab := b, ei_symstrtab := c\<rparr>) = sec ei"
  by (simp_all add: wf_elf_def section_ok_def tables_ok_def symtab_ok_def strtab_ok_def in_file_def sec_def symb_def hdr_def fun_eq_iff)

lemma symtab_spec:
  assumes w: "wf_elf ei" and ok: "ei_ok ei" and c: "cache_ok ei"
  shows "\<exists>a b d. symtab ei = Inr (ei\<lparr>ei_symtab := a, ei_nsymtab := b, ei_symstrtab := d\<rparr>)
    \<and> cache_ok (ei\<lparr>ei_symtab := a, ei_nsymtab := b, ei_symstrtab := d\<rparr>)
    \<and> (ei_symtab ei \<noteq> None \<longrightarrow> a = ei_symtab ei \<and> b = ei_nsymtab ei \<and> d = ei_symstrtab ei)"
proof (cases "ei_symtab ei = None")
  case False
  then have "symtab ei = Inr (ei\<lparr>ei_symtab := ei_symtab ei, ei_nsymtab := ei_nsymtab ei, ei_symstrtab := ei_symstrtab ei\<rparr>)"
    by (simp add: symtab_def)
  then show ?thesis using c by fastforce
next
  case None: True
  let ?r = "find (\<lambda>i. section_name ei i = ascii ''.symtab'') [0..<shnum ei]"
  have f: "find_section ei (ascii ''.symtab'') = Inr (case ?r of Some i \<Rightarrow> i | None \<Rightarrow> 0)"
    by (rule find_section_spec [OF w ok]) (simp add: ascii_def)
  have keep: ?thesis if "symtab ei = Inr ei"
  proof -
    have "symtab ei = Inr (ei\<lparr>ei_symtab := ei_symtab ei, ei_nsymtab := ei_nsymtab ei, ei_symstrtab := ei_symstrtab ei\<rparr>)"
      using that by simp
    then show ?thesis using c by fastforce
  qed
  show ?thesis
  proof (cases ?r)
    case None': None
    then show ?thesis using keep None f by (simp add: symtab_def)
  next
    case (Some i)
    then have i: "i < shnum ei" by (auto simp: find_Some_iff)
    note si = tables_ok_section [OF wf_elf_size(2) [OF w] i]
    show ?thesis
    proof (cases "i = 0 \<or> sh_type (sec ei i) \<noteq> ELF_SHT_SYMTAB")
      case True
      then show ?thesis using keep None f Some si by (auto simp: symtab_def)
    next
      case False
      let ?str = "sec ei (unat (sh_link (sec ei i)))"
      have "symtab ei = Inr (ei\<lparr>ei_symtab := Some (unat (sh_offset (sec ei i))),
          ei_nsymtab := unat (sh_size (sec ei i)) div 24 mod 2 ^ 32, ei_symstrtab := unat (sh_offset ?str)\<rparr>)"
        using False None f Some si symtab_link(1) [OF w i] by (simp add: symtab_def)
      then show ?thesis using False i None
        by (intro exI conjI) (assumption, auto simp: cache_ok_def cached_def)
    qed
  qed
qed

lemma cached_reads:
  assumes w: "wf_elf ei" and c: "cache_ok ei" and j: "j < ei_nsymtab ei"
  shows "sym_at ei j = Inr (symb ei (the (ei_symtab ei)) j)" (is ?read)
    and "0 \<notin> set nm \<Longrightarrow>
      strcmp_at ei (ei_symstrtab ei + unat (sy_name (symb ei (the (ei_symtab ei)) j))) nm = Inr (symbol_name ei j = nm)"
    and "the (ei_symtab ei) + 24 * ei_nsymtab ei \<le> length (ei_data ei)" (is ?fits)
proof -
  obtain i where i: "cached ei i" using c j by (auto simp: cache_ok_def split: if_splits)
  note l = symtab_link [OF w, of i] and s = wf_elf_size(1) [OF w]
  have n: "ei_nsymtab ei \<le> unat (sh_size (sec ei i)) div 24" using i by (simp add: cached_def)
  then have j': "j < unat (sh_size (sec ei i)) div 24" using j by linarith
  show ?read using in_file_symbol [OF l(2) s j'] i by (simp add: sym_at_def cached_def)
  have "24 * ei_nsymtab ei \<le> unat (sh_size (sec ei i))" using n by linarith
  moreover have "unat (sh_offset (sec ei i)) + unat (sh_size (sec ei i)) \<le> length (ei_data ei)"
    using l(2) i s by (auto simp: cached_def in_file_def)
  ultimately show ?fits using i unfolding cached_def by simp
  assume nm: "0 \<notin> set nm"
  show "strcmp_at ei (ei_symstrtab ei + unat (sy_name (symb ei (the (ei_symtab ei)) j))) nm = Inr (symbol_name ei j = nm)"
    using strcmp_at_spec [OF l(3,4) s l(5) [OF _ _ j'] nm] i by (simp add: symbol_name_def cached_def)
qed

lemma find_symbol_spec:
  assumes w: "wf_elf ei" and ok: "ei_ok ei" and c: "cache_ok ei" and nm: "0 \<notin> set nm"
    and after: "after \<noteq> None \<longrightarrow> ei_symtab ei \<noteq> None"
  shows "\<exists>ei'. symtab ei = Inr ei' \<and> wf_elf ei' \<and> cache_ok ei' \<and> find_symbol nm after ei =
    Inr (find (\<lambda>i. symbol_name ei' i = nm) [(case after of None \<Rightarrow> 0 | Some k \<Rightarrow> k + 1)..<ei_nsymtab ei'], ei')"
proof -
  obtain ei' where s: "symtab ei = Inr ei'" and w': "wf_elf ei'" and c': "cache_ok ei'"
    using symtab_spec [OF w ok c] w wf_elf_cache(1) by metis
  have "ebind (sym_at ei' i) (\<lambda>sy. strcmp_at ei' (ei_symstrtab ei' + unat (sy_name sy)) nm) = Inr (symbol_name ei' i = nm)"
    if "i \<in> set [k..<ei_nsymtab ei']" for i k
    using that cached_reads(1,2) [OF w' c'] nm by simp
  then have "search (\<lambda>i. ebind (sym_at ei' i) (\<lambda>sy. strcmp_at ei' (ei_symstrtab ei' + unat (sy_name sy)) nm)) [k..<ei_nsymtab ei']
      = Inr (find (\<lambda>i. symbol_name ei' i = nm) [k..<ei_nsymtab ei'])" for k
    by (rule search_total)
  then show ?thesis using s w' c' after by (cases after) (auto simp: find_symbol_def)
qed

text \<open>
  A view of a file: the same bytes up to \<^verbatim>\<open>size_\<close>, in an allocation of any length with any bytes after
  them. What is found in an accepted file is found in every view of it.
\<close>

definition view_of :: "elf_info \<Rightarrow> u8 list \<Rightarrow> bool" where
  "view_of ei d \<longleftrightarrow> take (ei_size ei) d = take (ei_size ei) (ei_data ei)"

lemma view_part: "view_of ei d \<Longrightarrow> off + k \<le> ei_size ei \<Longrightarrow> take k (drop off d) = take k (drop off (ei_data ei))"
proof -
  assume v: "view_of ei d" and fit: "off + k \<le> ei_size ei"
  have "take k (drop off x) = take k (drop off (take (ei_size ei) x))" for x :: "u8 list"
    using fit by (simp add: drop_take min_def)
  then show ?thesis using v unfolding view_of_def by metis
qed

lemma view_nth: "view_of ei d \<Longrightarrow> k < ei_size ei \<Longrightarrow> d ! k = ei_data ei ! k"
  unfolding view_of_def by (metis nth_take)

lemma view_tables:
  assumes w: "wf_elf ei" and v: "view_of ei d"
  shows "hdr (ei\<lparr>ei_data := d\<rparr>) = hdr ei" "i < shnum ei \<Longrightarrow> sec (ei\<lparr>ei_data := d\<rparr>) i = sec ei i"
    "in_file ei sh \<Longrightarrow> j < unat (sh_size sh) div 24 \<Longrightarrow>
      symb (ei\<lparr>ei_data := d\<rparr>) (unat (sh_offset sh)) j = symb ei (unat (sh_offset sh)) j"
proof -
  have t: "64 \<le> ei_size ei" "ei_sht ei + 64 * shnum ei \<le> ei_size ei"
    using wf_elf_size(2) [OF w] by (simp_all add: tables_ok_def)
  show "hdr (ei\<lparr>ei_data := d\<rparr>) = hdr ei" using view_part [OF v, of 0 64] t(1) by (simp add: hdr_def)
  show "sec (ei\<lparr>ei_data := d\<rparr>) i = sec ei i" if "i < shnum ei"
  proof -
    have "64 * i + 64 \<le> 64 * shnum ei" using that by simp
    then show ?thesis using view_part [OF v, of "ei_sht ei + 64 * i" 64] t(2) by (simp add: sec_def)
  qed
  show "symb (ei\<lparr>ei_data := d\<rparr>) (unat (sh_offset sh)) j = symb ei (unat (sh_offset sh)) j"
    if "in_file ei sh" "j < unat (sh_size sh) div 24"
  proof -
    have "24 * j + 24 \<le> unat (sh_size sh)" using that(2) by linarith
    then have "unat (sh_offset sh) + 24 * j + 24 \<le> ei_size ei" using that(1) unfolding in_file_def by linarith
    then show ?thesis using view_part [OF v, of "unat (sh_offset sh) + 24 * j" 24] by (simp add: symb_def)
  qed
qed

lemma view_strtab:
  assumes v: "view_of ei d" and f: "in_file ei sh"
  shows "strtab_ok (ei\<lparr>ei_data := d\<rparr>) sh = strtab_ok ei sh"
proof (cases "sh_size sh = 0")
  case False
  then have "0 < unat (sh_size sh)" by (simp add: unat_gt_0)
  then have "unat (sh_offset sh) < ei_size ei" "unat (sh_offset sh) + unat (sh_size sh) - 1 < ei_size ei"
    using f unfolding in_file_def by linarith+
  then show ?thesis using view_nth [OF v] by (simp add: strtab_ok_def)
qed (simp add: strtab_ok_def)

lemma view_wf:
  assumes w: "wf_elf ei" and v: "view_of ei d"
  shows "wf_elf (ei\<lparr>ei_data := d\<rparr>)"
proof -
  let ?e = "ei\<lparr>ei_data := d\<rparr>"
  note t = view_tables [OF w v] and s = wf_elf_shstr(3) [OF w]
  have f: "in_file ?e sh = in_file ei sh" for sh by (simp add: in_file_def)
  have "length (take (ei_size ei) d) = ei_size ei" using v wf_elf_size(1) [OF w] by (simp add: view_of_def)
  then have "ei_size ei \<le> length d" by simp
  then have "tables_ok ?e" using wf_elf_size(2) [OF w] by (simp add: tables_ok_def t(1))
  moreover have "section_ok ?e i" if i: "i < shnum ei" for i
  proof -
    have ok: "section_ok ei i" by (rule wf_elf_section [OF w i])
    have "symtab_ok ?e (sec ei i)" if "sh_type (sec ei i) = ELF_SHT_SYMTAB"
      using ok that has_contents_types(1) t by (auto simp: section_ok_def symtab_ok_def)
    moreover have "strtab_ok ?e (sec ei i)" if "sh_type (sec ei i) = ELF_SHT_STRTAB"
      using ok that has_contents_types(2) view_strtab [OF v] by (auto simp: section_ok_def)
    ultimately show ?thesis using ok t(2) [OF i] t(2) [OF s] by (auto simp: section_ok_def t(1) f)
  qed
  ultimately show ?thesis using w t(2) [OF s] by (simp add: wf_elf_def t(1))
qed

lemma view_cstr:
  assumes v: "view_of ei d" and s: "in_file ei sh" "strtab_ok ei sh" "ei_size ei \<le> length (ei_data ei)" "n < unat (sh_size sh)"
  shows "cstr (ei\<lparr>ei_data := d\<rparr>) (unat (sh_offset sh) + n) = cstr ei (unat (sh_offset sh) + n)"
proof -
  let ?o = "unat (sh_offset sh) + n"
  let ?m = "unat (sh_size sh) - n"
  have "?o \<le> length (ei_data ei)" "?o + (?m - 1) = unat (sh_offset sh) + unat (sh_size sh) - 1"
    using s(1,3,4) unfolding in_file_def by linarith+
  then have "drop ?o (ei_data ei) ! (?m - 1) = 0" using s(2) by (simp add: strtab_ok_def)
  moreover have len: "?o + ?m \<le> ei_size ei" using s(1,4) unfolding in_file_def by linarith
  ultimately have z: "0 \<in> set (take ?m (drop ?o (ei_data ei)))"
    using s(3,4) unfolding in_set_conv_nth by (intro exI [of _ "?m - 1"]) simp
  have "takeWhile (\<lambda>b. b \<noteq> 0) (drop ?o x) = takeWhile (\<lambda>b. b \<noteq> 0) (take ?m (drop ?o x))"
    if "0 \<in> set (take ?m (drop ?o x))" for x :: "u8 list"
    using takeWhile_append1 [OF that, of "\<lambda>b. b \<noteq> 0" "drop ?m (drop ?o x)"] by (simp only: append_take_drop_id simp_thms)
  then show ?thesis using z view_part [OF v len] unfolding cstr_def by simp
qed

lemma view_names:
  assumes w: "wf_elf ei" and v: "view_of ei d"
  shows "i < shnum ei \<Longrightarrow> section_name (ei\<lparr>ei_data := d\<rparr>) i = section_name ei i"
    and "cache_ok ei \<Longrightarrow> cache_ok (ei\<lparr>ei_data := d\<rparr>)"
    and "cache_ok ei \<Longrightarrow> j < ei_nsymtab ei \<Longrightarrow> symbol_name (ei\<lparr>ei_data := d\<rparr>) j = symbol_name ei j"
proof -
  note t = view_tables [OF w v] and s = wf_elf_shstr [OF w] and len = wf_elf_size(1) [OF w]
  show "section_name (ei\<lparr>ei_data := d\<rparr>) i = section_name ei i" if i: "i < shnum ei"
    using view_cstr [OF v s(1,2) len] wf_elf_section [OF w i] t(2) [OF i] t(2) [OF s(3)]
    by (simp add: section_name_def section_ok_def t(1))
  have link: "sec (ei\<lparr>ei_data := d\<rparr>) (unat (sh_link (sec ei i))) = sec ei (unat (sh_link (sec ei i)))" if "cached ei i" for i
    using that wf_elf_section [OF w, of i] t(2) by (simp add: cached_def section_ok_def symtab_ok_def)
  show "cache_ok (ei\<lparr>ei_data := d\<rparr>)" if "cache_ok ei"
    using that link t(1,2) by (auto simp: cache_ok_def cached_def split: if_splits)
  assume c: "cache_ok ei" and j: "j < ei_nsymtab ei"
  obtain i where i: "cached ei i" using c j by (auto simp: cache_ok_def split: if_splits)
  then have j': "j < unat (sh_size (sec ei i)) div 24" using j by (simp add: cached_def)
  note l = symtab_link [OF w, of i]
  show "symbol_name (ei\<lparr>ei_data := d\<rparr>) j = symbol_name ei j"
    using i view_cstr [OF v l(3,4) len l(5) [OF _ _ j']] t(3) [OF l(2) j'] by (simp add: symbol_name_def cached_def)
qed

subsection \<open>Input, output and loops\<close>

text \<open>Whatever \<^verbatim>\<open>write\<close> answers, the bytes written in the end are the bytes of the file, in order.\<close>

lemma write_out_all: "write_out rest ws = Inr out \<Longrightarrow> out = rest"
proof (induction rest ws arbitrary: out rule: write_out.induct)
  case (2 rest w ws)
  show ?case
  proof (cases w)
    case (Wrote k)
    then show ?thesis using 2 by (cases "rest = []") (fastforce simp: ebind_Inr_iff)+
  qed (use 2 in \<open>auto split: if_splits\<close>)
qed simp

definition no_read_error :: "rresult list \<Rightarrow> bool" where
  "no_read_error rs \<longleftrightarrow> (\<forall>r \<in> set rs. r \<noteq> ReadError \<and> r \<noteq> Got 0)"

lemma grow_capacity:
  assumes "\<not> ei_ok ei"
  shows "\<exists>x. grow fresh c ei = ei\<lparr>ei_data := ei_data ei @ x\<rparr>" "c \<le> length (ei_data (grow fresh c ei))"
proof -
  show "\<exists>x. grow fresh c ei = ei\<lparr>ei_data := ei_data ei @ x\<rparr>"
  proof (cases "c > ei_capacity ei")
    case False
    then have "grow fresh c ei = ei\<lparr>ei_data := ei_data ei @ []\<rparr>" by (simp add: grow_def)
    then show ?thesis by blast
  qed (use assms in \<open>auto simp: grow_def Let_def\<close>)
  show "c \<le> length (ei_data (grow fresh c ei))" using assms by (simp add: grow_def Let_def ei_capacity_def)
qed

lemma read_loop_all:
  "no_read_error rs \<Longrightarrow> \<not> ei_ok ei \<Longrightarrow> ei_size ei \<le> length (ei_data ei) \<Longrightarrow> 0 < length (ei_data ei) \<Longrightarrow>
    \<exists>d. read_loop fresh rest rs ei = Inr (ei\<lparr>ei_data := d, ei_size := ei_size ei + length rest\<rparr>)
      \<and> ei_size ei + length rest \<le> length d \<and> take (ei_size ei + length rest) d = take (ei_size ei) (ei_data ei) @ rest"
proof (induction fresh rest rs ei rule: read_loop.induct)
  case (1 fresh rest rs ei0)
  define ei where "ei = (if ei_size ei0 = ei_capacity ei0 then grow fresh (ei_capacity ei0 * 2) ei0 else ei0)"
  define room where "room = min (length rest) (ei_capacity ei - ei_size ei)"
  define more where "more = (\<lambda>r. ei\<lparr>ei_data := patch (ei_data ei) (ei_size ei) (take r rest), ei_size := ei_size ei + r\<rparr>)"
  obtain x where x: "ei = ei0\<lparr>ei_data := ei_data ei0 @ x\<rparr>"
  proof (cases "ei_size ei0 = ei_capacity ei0")
    case True
    then show ?thesis using grow_capacity(1) [OF 1(5), of fresh "ei_capacity ei0 * 2"] that by (auto simp: ei_def)
  next
    case False
    then have "ei = ei0\<lparr>ei_data := ei_data ei0 @ []\<rparr>" by (simp add: ei_def)
    then show ?thesis by (rule that)
  qed
  have big: "ei_size ei0 < length (ei_data ei)"
  proof (cases "ei_size ei0 = ei_capacity ei0")
    case True
    moreover have "length (ei_data ei0) < length (ei_data (grow fresh (length (ei_data ei0) * 2) ei0))"
      using grow_capacity(2) [OF 1(5), of "length (ei_data ei0) * 2" fresh] 1(7) by linarith
    ultimately show ?thesis by (simp add: ei_def ei_capacity_def)
  qed (use 1(6) in \<open>simp add: ei_def ei_capacity_def\<close>)
  have ei: "ei_size ei = ei_size ei0" "\<not> ei_ok ei" "take (ei_size ei0) (ei_data ei) = take (ei_size ei0) (ei_data ei0)"
    using x 1(5,6) by simp_all
  have step: "read_loop fresh rest rs ei0 = (case rs of
           [] \<Rightarrow> if room = 0 then Inr ei else read_loop fresh (drop room rest) [] (more room)
         | ReadAgain # rs1 \<Rightarrow> read_loop fresh rest rs1 ei
         | ReadError # rs1 \<Rightarrow> Inl (Exit1 ''read'')
         | Got k # rs1 \<Rightarrow>
             if min k room = 0 then Inr ei else read_loop fresh (drop (min k room) rest) rs1 (more (min k room)))"
    by (subst read_loop.simps) (simp only: Let_def ei_def [symmetric] room_def [symmetric], simp only: more_def)
  have stop: ?case if "read_loop fresh rest rs ei0 = Inr ei" "rest = []"
    using that x ei big by (intro exI [of _ "ei_data ei"]) simp
  have advance: ?case if run: "read_loop fresh rest rs ei0 = read_loop fresh (drop r rest) rs' (more r)"
      and r: "0 < r" "r \<le> room" "no_read_error rs'"
      and IH: "no_read_error rs' \<Longrightarrow> \<not> ei_ok (more r) \<Longrightarrow> ei_size (more r) \<le> length (ei_data (more r)) \<Longrightarrow> 0 < length (ei_data (more r)) \<Longrightarrow>
        \<exists>d. read_loop fresh (drop r rest) rs' (more r) = Inr ((more r)\<lparr>ei_data := d, ei_size := ei_size (more r) + length (drop r rest)\<rparr>)
        \<and> ei_size (more r) + length (drop r rest) \<le> length d
        \<and> take (ei_size (more r) + length (drop r rest)) d = take (ei_size (more r)) (ei_data (more r)) @ drop r rest" for r rs'
  proof -
    have fit: "ei_size ei0 + r \<le> length (ei_data ei)" "r \<le> length rest" using r ei(1) big by (auto simp: room_def ei_capacity_def)
    have m: "ei_size (more r) = ei_size ei0 + r" "\<not> ei_ok (more r)" "length (ei_data (more r)) = length (ei_data ei)"
        "take (ei_size ei0 + r) (ei_data (more r)) = take (ei_size ei0) (ei_data ei0) @ take r rest"
      using ei fit 1(6) by (simp_all add: more_def patch_def)
    obtain d where "read_loop fresh (drop r rest) rs' (more r) = Inr ((more r)\<lparr>ei_data := d, ei_size := ei_size (more r) + length (drop r rest)\<rparr>)"
        "ei_size (more r) + length (drop r rest) \<le> length d"
        "take (ei_size (more r) + length (drop r rest)) d = take (ei_size (more r)) (ei_data (more r)) @ drop r rest"
      using IH r m fit big by fastforce
    then show ?thesis using run m fit x by (intro exI [of _ d]) (simp add: more_def)
  qed
  have room0: "rest = []" if "room = 0" using that big ei(1) by (auto simp: room_def ei_capacity_def min_def split: if_splits)
  show ?case
  proof (cases rs)
    case Nil
    show ?thesis
    proof (cases "room = 0")
      case True
      then show ?thesis using stop room0 step Nil by simp
    next
      case False
      then show ?thesis using advance [of room "[]"] step Nil 1(1) [OF ei_def room_def more_def Nil] 1(4) by simp
    qed
  next
    case (Cons a rs1)
    have nr: "no_read_error rs1" "a \<noteq> ReadError" "a \<noteq> Got 0" using 1(4) Cons by (auto simp: no_read_error_def)
    show ?thesis
    proof (cases a)
      case ReadAgain
      then show ?thesis using step Cons 1(2) [OF ei_def room_def more_def Cons ReadAgain nr(1) ei(2)] ei big x 1(6,7) by auto
    next
      case (Got k)
      show ?thesis
      proof (cases "min k room = 0")
        case True
        then show ?thesis using stop room0 step Cons Got nr(3) by (auto simp: min_def split: if_splits)
      next
        case False
        have run: "read_loop fresh rest rs ei0 = read_loop fresh (drop (min k room) rest) rs1 (more (min k room))"
          by (subst step) (simp only: Cons Got list.case rresult.case False if_False)
        have "0 < min k room" "min k room \<le> room" using False by simp_all
        then show ?thesis using advance [OF run _ _ nr(1)] 1(3) [OF ei_def room_def more_def Cons Got False] by blast
      qed
    qed (use nr in simp)
  qed
qed

lemma read_file_all:
  assumes "no_read_error rs" "0 < initial_capacity regular st_size"
  shows "\<exists>ei. read_file fresh regular st_size bytes rs = Inr ei \<and> ei_size ei = length bytes
    \<and> length bytes \<le> length (ei_data ei) \<and> take (ei_size ei) (ei_data ei) = bytes
    \<and> \<not> ei_ok ei \<and> ei_symtab ei = None \<and> ei_nsymtab ei = 0 \<and> \<not> ei_changed ei"
proof -
  have n: "\<not> ei_ok new_info" by (simp add: new_info_def)
  obtain x where x: "grow fresh (initial_capacity regular st_size) new_info = new_info\<lparr>ei_data := ei_data new_info @ x\<rparr>"
    using grow_capacity(1) [OF n] by blast
  have "0 < length (ei_data (grow fresh (initial_capacity regular st_size) new_info))"
    using grow_capacity(2) [OF n, of "initial_capacity regular st_size" fresh] assms(2) by linarith
  then show ?thesis
    using read_loop_all [OF assms(1), of "grow fresh (initial_capacity regular st_size) new_info" fresh bytes] x
    by (auto simp: read_file_def new_info_def)
qed

text \<open>
  Each round of \<open>rewrite_loop\<close> continues at a later symbol, and \<open>rewrite_one\<close> leaves the number of symbols
  alone, so the bound on the rounds is never reached.
\<close>

lemma search_in: "search f is = Inr (Some i) \<Longrightarrow> i \<in> set is \<and> f i = Inr True"
  by (induction "is") (auto simp: ebind_Inr_iff split: if_splits)

lemma find_symbol_later:
  assumes "ei_symtab ei \<noteq> None" "find_symbol nm after ei = Inr (r, ei')"
  shows "ei' = ei" "r = Some i \<Longrightarrow> (case after of None \<Rightarrow> 0 | Some k \<Rightarrow> k + 1) \<le> i \<and> i < ei_nsymtab ei"
  using assms by (auto simp: find_symbol_def symtab_def ebind_Inr_iff dest!: search_in split: option.splits)

lemma rewrite_one_keeps:
  assumes "rewrite_one so sz sy (l, ei) = Inr (l', ei')"
  shows "ei_symtab ei' = ei_symtab ei" "ei_nsymtab ei' = ei_nsymtab ei"
  using assms by (auto simp: rewrite_one_def tool_simps Let_def store_def split: if_splits)

lemma str_eq_not_LoopBound: "str_eq xs nm \<noteq> Inl LoopBound"
  by (induction xs nm rule: str_eq.induct) auto

lemma not_LoopBound:
  "get ei off k \<noteq> Inl LoopBound" "eh_of ei \<noteq> Inl LoopBound" "section_at ei i \<noteq> Inl LoopBound" "symbol_at ei b i \<noteq> Inl LoopBound"
  "sym_at ei i \<noteq> Inl LoopBound" "store off bs ei \<noteq> Inl LoopBound" "strcmp_at ei off nm \<noteq> Inl LoopBound"
  by (auto simp: get_def eh_of_def section_at_def symbol_at_def sym_at_def store_def ebind_def strcmp_at_def str_eq_not_LoopBound
      split: sum.splits option.splits if_splits)

lemma ebind_LoopBound: "ebind r f = Inl LoopBound \<longleftrightarrow> r = Inl LoopBound \<or> (\<exists>x. r = Inr x \<and> f x = Inl LoopBound)"
  by (cases r) simp_all

lemma fail_if_LoopBound: "fail_if b msg r = Inl LoopBound \<longleftrightarrow> \<not> b \<and> r = Inl LoopBound"
  by (simp add: fail_if_def)

lemma search_LoopBound: "(\<And>i. f i \<noteq> Inl LoopBound) \<Longrightarrow> search f is \<noteq> Inl LoopBound"
  by (induction "is") (auto simp: ebind_LoopBound)

lemma symtab_not_LoopBound: "symtab ei \<noteq> Inl LoopBound"
proof -
  have "find_section ei nm \<noteq> Inl LoopBound" for nm
    using search_LoopBound by (auto simp: find_section_def shstrtab_def ebind_LoopBound not_LoopBound)
  then show ?thesis by (auto simp: symtab_def ebind_LoopBound not_LoopBound split: if_splits)
qed

lemma find_symbol_not_LoopBound: "find_symbol nm after ei \<noteq> Inl LoopBound"
  using search_LoopBound
  by (auto simp: find_symbol_def ebind_LoopBound not_LoopBound symtab_not_LoopBound split: option.splits if_splits)

lemma rewrite_one_not_LoopBound: "rewrite_one so sz sy (l, ei) \<noteq> Inl LoopBound"
  by (auto simp: rewrite_one_def Let_def ebind_LoopBound fail_if_LoopBound not_LoopBound split: if_splits)

lemma rewrite_loop_ends:
  "ei_symtab ei \<noteq> None \<Longrightarrow> (\<And>i. sy = Some i \<Longrightarrow> ei_nsymtab ei - i + 1 < fuel) \<Longrightarrow> 0 < fuel \<Longrightarrow>
    rewrite_loop fuel nm so sz sy nfound (l, ei) \<noteq> Inl LoopBound"
proof (induction fuel arbitrary: sy nfound l ei)
  case (Suc fuel)
  show ?case
  proof (cases sy)
    case (Some i)
    have fuel: "ei_nsymtab ei - i < fuel" using Suc.prems(2) [OF Some] by simp
    have rest: "ebind (find_symbol nm (Some i) e) (\<lambda>(s1, e1). rewrite_loop fuel nm so sz s1 nf (l1, e1)) \<noteq> Inl LoopBound"
      if e: "ei_symtab e = ei_symtab ei" "ei_nsymtab e = ei_nsymtab ei" for e nf l1
    proof (cases "find_symbol nm (Some i) e")
      case (Inl x)
      then show ?thesis using find_symbol_not_LoopBound [of nm "Some i" e] by simp
    next
      case (Inr p)
      obtain s1 e1 where p: "p = (s1, e1)" by (cases p)
      have s: "ei_symtab e \<noteq> None" using e Suc.prems(1) by simp
      note F = find_symbol_later [OF s, of nm "Some i" s1 e1]
      have e1: "e1 = e" using F(1) Inr p by simp
      have "ei_nsymtab e - j + 1 < fuel" if "s1 = Some j" for j
        using F(2) [OF _ that] Inr p e(2) fuel that by auto
      then show ?thesis using Suc.IH [of e s1 nf l1] s Inr p e1 fuel by simp
    qed
    have "ebind (find_symbol nm (Some i) e) (\<lambda>(s1, e1). rewrite_loop fuel nm so sz s1 nf (l1, e1)) \<noteq> Inl LoopBound"
      if "rewrite_one so sz s (l, ei) = Inr (l1, e)" for s e nf l1
      using rest rewrite_one_keeps [OF that] by blast
    then show ?thesis using Some rest rewrite_one_not_LoopBound
      by (auto simp: ebind_LoopBound [of "sym_at ei i"] ebind_LoopBound [of "eh_of ei"] not_LoopBound
          ebind_LoopBound [of "ebind (rewrite_one so sz s (l, ei)) f" for s f] ebind_LoopBound [of "rewrite_one so sz s (l, ei)" for s]
          ebind_Inr_iff split: if_splits)
  qed simp
qed simp

lemma rewrite_symtabref_ends: "rewrite_symtabref nm so sz (l, ei) \<noteq> Inl LoopBound"
proof (cases "find_symbol nm None ei")
  case (Inl x)
  then show ?thesis using find_symbol_not_LoopBound [of nm None ei] by (simp add: rewrite_symtabref_def)
next
  case (Inr p)
  obtain s1 e1 where p: "p = (s1, e1)" by (cases p)
  show ?thesis
  proof (cases s1)
    case None
    then show ?thesis using Inr p by (simp add: rewrite_symtabref_def)
  next
    case (Some i)
    obtain a where "sym_at e1 i = Inr a"
      using Inr p Some by (auto simp: find_symbol_def ebind_Inr_iff dest!: search_in)
    then have "ei_symtab e1 \<noteq> None" by (auto simp: sym_at_def split: option.splits)
    then show ?thesis using Inr p Some rewrite_loop_ends [of e1 s1 "ei_nsymtab e1 + 2" nm so sz 0 l]
      by (simp add: rewrite_symtabref_def del: rewrite_loop.simps)
  qed
qed

text \<open>
  The bounds check of \<open>rewrite_one\<close> subtracts the size of the reference from the end of the section without
  checking that the section is that large: for a section that ends below 32 it wraps around, and a
  reference far outside the file is accepted.
\<close>
theorem rewrite_one_wraps:
  assumes "section_at ei (unat (sy_shndx sy)) = Inr sh" "sh_type sh = ELF_SHT_PROGBITS" "sh_addr sh = 0" "sh_size sh = 8"
    and "sy_size sy = 32" "sy_value sy = 0x1000" "loadaddr \<noteq> 0"
    and "unat (sh_offset sh) < length (ei_data ei)" "length (ei_data ei) < 0x1000"
  shows "rewrite_one so sz sy (loadaddr, ei) = Inl OutOfRange"
proof -
  have "unat (sh_offset sh + 0x1000) = unat (sh_offset sh) + 0x1000" using assms(8,9) by (subst unat_add64) simp_all
  then have "get ei (unat (sh_offset sh + 0x1000)) 32 = Inl OutOfRange" using assms(9) by (simp add: get_def)
  then show ?thesis using assms by (simp add: rewrite_one_def Let_def)
qed

end
