(* ===== verification/Debug.thy ===== *)
theory Debug
  imports Hardware
begin

text \<open>
  What the kernel does when it fails, from \<^verbatim>\<open>kernels1/k-hardware.cc\<close>: the symbol-table lookup, the walk
  over stack frames, the messages of \<^verbatim>\<open>panic\<close> and \<^verbatim>\<open>assert_fail\<close>, and the final loop that only serves the
  keyboard. The symbol table is in memory; the record \<open>symtabref\<close> says where, as the build tool
  \<^verbatim>\<open>mkchickadeesymtab\<close> fills it in. The stack and frame pointers, which the code reads from the
  processor, are arguments. \<open>fuel\<close> bounds the number of stack frames; the walk is shown to end.
\<close>

subsection \<open>Symbol table\<close>

record symtabref =
  symtab_sym :: addr
  symtab_nsym :: u64
  symtab_strtab :: addr

definition st_name :: "memory \<Rightarrow> symtabref \<Rightarrow> u64 \<Rightarrow> u32" where
  "st_name m T i = load32 m (symtab_sym T + 24 * i)"

definition st_value :: "memory \<Rightarrow> symtabref \<Rightarrow> u64 \<Rightarrow> u64" where
  "st_value m T i = load64 m (symtab_sym T + 24 * i + 8)"

definition st_size :: "memory \<Rightarrow> symtabref \<Rightarrow> u64 \<Rightarrow> u64" where
  "st_size m T i = load64 m (symtab_sym T + 24 * i + 16)"

definition symtab_map :: "link \<Rightarrow> memory \<Rightarrow> memory" where
  "symtab_map L m =
     (let e = entry_of (kpt L 2) (SYMTAB_ADDR div 0x200000)
      in if load64 m e = 0 then store64 m e (SYMTAB_ADDR OR PTE_P OR PTE_W OR PTE_PS) else m)"

definition symbol_matches :: "memory \<Rightarrow> symtabref \<Rightarrow> addr \<Rightarrow> u64 \<Rightarrow> bool" where
  "symbol_matches m T a i \<longleftrightarrow>
     st_value m T i \<le> a
     \<and> (if i + 1 = symtab_nsym T then a < st_value m T i + 0x1000 else a < st_value m T (i + 1))
     \<and> (st_size m T i = 0 \<or> a \<le> st_value m T i + st_size m T i)"

definition symbol_found :: "memory \<Rightarrow> symtabref \<Rightarrow> u64 \<Rightarrow> (addr \<times> addr) option" where
  "symbol_found m T i =
     (if st_value m T i = 0 then None
      else Some (symtab_strtab T + ucast (st_name m T i), st_value m T i))"

lemma middle:
  assumes "l < (r :: u64)"
  shows "unat (l + drop_bit 1 (r - l)) = unat l + (unat r - unat l) div 2"
    "unat (l + drop_bit 1 (r - l) + 1) = unat l + (unat r - unat l) div 2 + 1"
    "unat l + (unat r - unat l) div 2 < unat r"
proof -
  have lr: "unat l < unat r" using assms by (simp add: word_less_nat_alt)
  then have d: "unat (drop_bit 1 (r - l)) = (unat r - unat l) div 2"
    by (subst unat_drop_bit_eq) (simp add: drop_bit_eq_div unat_sub64)
  show b: "unat l + (unat r - unat l) div 2 < unat r" using lr by linarith
  then have b2: "unat l + (unat r - unat l) div 2 + 1 < 18446744073709551616" using unat_less_2_64 [of r] by linarith
  then show m: "unat (l + drop_bit 1 (r - l)) = unat l + (unat r - unat l) div 2"
    by (subst unat_add64) (simp_all only: d, simp_all)
  show "unat (l + drop_bit 1 (r - l) + 1) = unat l + (unat r - unat l) div 2 + 1"
    using b2 by (subst unat_add64) (simp_all only: m, simp_all)
qed

function lookup_loop :: "memory \<Rightarrow> symtabref \<Rightarrow> addr \<Rightarrow> u64 \<Rightarrow> u64 \<Rightarrow> (addr \<times> addr) option" where
  "lookup_loop m T a l r =
     (if l < r
      then (let i = l + drop_bit 1 (r - l)
            in if symbol_matches m T a i then symbol_found m T i
               else if st_value m T i < a then lookup_loop m T a (i + 1) r
               else lookup_loop m T a l i)
      else None)"
  by pat_completeness auto

termination
proof (relation "measure (\<lambda>(m, T, a, l, r). unat r - unat l)")
  fix m :: memory and T :: symtabref and a l r i :: u64
  assume "l < r" "i = l + drop_bit 1 (r - l)"
  then show "((m, T, a, i + 1, r), m, T, a, l, r) \<in> measure (\<lambda>(m, T, a, l, r). unat r - unat l)"
    "((m, T, a, l, i), m, T, a, l, r) \<in> measure (\<lambda>(m, T, a, l, r). unat r - unat l)"
    using middle [of l r] by (simp_all, linarith+)
qed simp

declare lookup_loop.simps [simp del]

definition lookup_symbol :: "link \<Rightarrow> symtabref \<Rightarrow> addr \<Rightarrow> memory \<Rightarrow> (addr \<times> addr) option \<times> memory" where
  "lookup_symbol L T a m =
     (let m1 = symtab_map L m in (lookup_loop m1 T a 0 (symtab_nsym T), m1))"

subsection \<open>Stack frames\<close>

record backtracer =
  bt_rbp :: addr
  bt_rsp :: addr
  bt_stack_top :: addr
  bt_pt :: addr

definition bt_check :: "memory \<Rightarrow> backtracer \<Rightarrow> backtracer res" where
  "bt_check m bt =
     (let stop = bt\<lparr>bt_rbp := 0, bt_rsp := 0\<rparr>
      in if bt_rbp bt < bt_rsp bt \<or> bt_stack_top bt - bt_rbp bt < 16 then Inr stop
         else bind_res (vmiter_new m (bt_pt bt) (bt_rbp bt)) (\<lambda>it.
              bind_res (vm_range_perm m it 16) (\<lambda>p.
              Inr (if p AND PTE_P = 0 then stop else bt))))"

definition bt_new :: "memory \<Rightarrow> addr \<Rightarrow> addr \<Rightarrow> addr \<Rightarrow> addr \<Rightarrow> backtracer res" where
  "bt_new m pt rbp rsp stack_top =
     bt_check m \<lparr>bt_rbp = rbp, bt_rsp = rsp, bt_stack_top = stack_top, bt_pt = pt\<rparr>"

definition bt_ok :: "backtracer \<Rightarrow> bool" where
  "bt_ok bt \<longleftrightarrow> bt_rsp bt \<noteq> 0"

definition bt_ret_rip :: "memory \<Rightarrow> backtracer \<Rightarrow> addr" where
  "bt_ret_rip m bt = load64 m (bt_rbp bt + 8)"

definition bt_step :: "memory \<Rightarrow> backtracer \<Rightarrow> backtracer res" where
  "bt_step m bt = bt_check m (bt\<lparr>bt_rsp := bt_rbp bt + 16, bt_rbp := load64 m (bt_rbp bt)\<rparr>)"

subsection \<open>Messages\<close>

definition COLOR_ERROR :: u32 where "COLOR_ERROR = 0xC000"

definition error_printf :: "u8 list \<Rightarrow> va list \<Rightarrow> 'a kstate_scheme \<Rightarrow> 'a kstate_scheme res" where
  "error_printf format val s = bind_res (error_vprintf (-1) COLOR_ERROR format val s) (\<lambda>(_, s1). Inr s1)"

text \<open>
  The bytes a \<^verbatim>\<open>char*\<close> argument points at. In a memory without any zero byte the search for the end goes
  round for ever.
\<close>

definition string_at :: "memory \<Rightarrow> addr \<Rightarrow> u8 list res" where
  "string_at m a =
     (case strlen m a of
        None \<Rightarrow> Inl Diverges
      | Some n \<Rightarrow> Inr (map (\<lambda>i. m (a + of_nat i)) [0..<unat n]))"

definition print_frame ::
  "(u8 list \<Rightarrow> va list \<Rightarrow> 'a kstate_scheme \<Rightarrow> 'a kstate_scheme res) \<Rightarrow> u8 list \<Rightarrow> u8 list \<Rightarrow> va list \<Rightarrow> bool
   \<Rightarrow> link \<Rightarrow> symtabref \<Rightarrow> addr \<Rightarrow> 'a kstate_scheme \<Rightarrow> 'a kstate_scheme res" where
  "print_frame pr named plain args quiet_zero L T rip s =
     (let (r, m1) = lookup_symbol L T rip (mem s); s1 = s\<lparr>mem := m1\<rparr>
      in case r of
           Some (name, start) \<Rightarrow> bind_res (string_at m1 name) (\<lambda>nm. pr named (args @ [VNum rip, VStr nm]) s1)
         | None \<Rightarrow> if quiet_zero \<and> rip = 0 then Inr s1 else pr plain (args @ [VNum rip]) s1)"

primrec backtrace_loop ::
  "nat \<Rightarrow> (int \<Rightarrow> addr \<Rightarrow> 'a kstate_scheme \<Rightarrow> 'a kstate_scheme res) \<Rightarrow> int \<Rightarrow> backtracer
   \<Rightarrow> 'a kstate_scheme \<Rightarrow> 'a kstate_scheme res" where
  "backtrace_loop 0 show frame bt s = (if bt_ok bt then Inl OutOfFuel else Inr s)"
| "backtrace_loop (Suc n) show frame bt s =
     (if bt_ok bt
      then bind_res (show frame (bt_ret_rip (mem s) bt) s) (\<lambda>s1.
           bind_res (bt_step (mem s1) bt) (\<lambda>bt1. backtrace_loop n show (frame + 1) bt1 s1))
      else Inr s)"

definition log_backtrace ::
  "nat \<Rightarrow> link \<Rightarrow> symtabref \<Rightarrow> u8 list \<Rightarrow> addr \<Rightarrow> addr \<Rightarrow> 'a kstate_scheme \<Rightarrow> 'a kstate_scheme res" where
  "log_backtrace fuel L T prefix rsp rbp s =
     bind_res (if rsp \<noteq> rbp \<and> round_up rsp 0x1000 = round_down rbp 0x1000
               then log_vprintf (ascii ''%s  warning: possible stack overflow (rsp %p, rbp %p)\<newline>'')
                      [VNum rsp, VNum rbp] s
               else Inr s) (\<lambda>s1.
     bind_res (bt_new (mem s1) (cr3 s1) rbp rsp (round_up rsp 0x1000)) (\<lambda>bt.
     backtrace_loop fuel (\<lambda>frame rip.
       print_frame log_vprintf (ascii ''%s  #%d  %p  <%s>\<newline>'') (ascii ''%s  #%d  %p\<newline>'')
         [VStr prefix, VNum (of_int frame)] True L T rip) 1 bt s1))"

definition error_print_backtrace ::
  "nat \<Rightarrow> link \<Rightarrow> symtabref \<Rightarrow> addr \<Rightarrow> addr \<Rightarrow> 'a kstate_scheme \<Rightarrow> 'a kstate_scheme res" where
  "error_print_backtrace fuel L T rsp rbp s =
     bind_res (bt_new (mem s) (cr3 s) rbp rsp (round_up rsp 0x1000)) (\<lambda>bt.
     backtrace_loop fuel (\<lambda>frame rip.
       print_frame error_printf (ascii ''  #%d  %p  <%s>\<newline>'') (ascii ''  #%d  %p\<newline>'')
         [VNum (of_int frame)] False L T rip) 1 bt s)"

definition CCOL :: "int \<Rightarrow> int" where "CCOL cpos = cpos mod 80"

definition panic_message :: "(u8 list \<times> va list) option \<Rightarrow> 'a kstate_scheme \<Rightarrow> 'a kstate_scheme res" where
  "panic_message format s =
     (case format of
        Some (fmt, val) \<Rightarrow>
          bind_res (error_printf (ascii ''PANIC: '') [] s) (\<lambda>s1.
          bind_res (error_printf fmt val s1) (\<lambda>s2.
          if CCOL (cursorpos s2) \<noteq> 0 then error_printf (ascii ''\<newline>'') [] s2 else Inr s2))
      | None \<Rightarrow>
          bind_res (error_printf (ascii ''PANIC'') [] s) (\<lambda>s1. log_vprintf (ascii ''\<newline>'') [] s1))"

definition vpanic ::
  "nat \<Rightarrow> link \<Rightarrow> symtabref \<Rightarrow> addr \<Rightarrow> addr \<Rightarrow> addr \<Rightarrow> (u8 list \<times> va list) option
   \<Rightarrow> 'a kstate_scheme \<Rightarrow> 'a kstate_scheme res" where
  "vpanic fuel L T rsp rbp rip format s =
     bind_res (panic_message format (s\<lparr>cursorpos := CPOS 24 80\<rparr>)) (\<lambda>s1.
     bind_res (if rip \<noteq> 0
               then print_frame error_printf (ascii ''  #0  %p  <%s>\<newline>'') (ascii ''  #0  %p\<newline>'') [] False L T rip s1
               else Inr s1) (\<lambda>s2.
     error_print_backtrace fuel L T rsp rbp s2))"

primrec fail :: "nat \<Rightarrow> link \<Rightarrow> 'a kstate_scheme \<Rightarrow> (outcome \<times> 'a kstate_scheme) res" where
  "fail 0 L s = Inr (Spinning, s)"
| "fail (Suc n) L s =
     bind_res (check_keyboard L s) (\<lambda>(k, s1). case k of Inr out \<Rightarrow> Inr (out, s1) | Inl c \<Rightarrow> fail n L s1)"

definition panic ::
  "nat \<Rightarrow> nat \<Rightarrow> link \<Rightarrow> symtabref \<Rightarrow> addr \<Rightarrow> addr \<Rightarrow> addr \<Rightarrow> (u8 list \<times> va list) option
   \<Rightarrow> 'a kstate_scheme \<Rightarrow> (outcome \<times> 'a kstate_scheme) res" where
  "panic polls fuel L T rsp rbp rip format s =
     bind_res (vpanic fuel L T rsp rbp rip format s) (fail polls L)"

definition assert_message ::
  "u8 list \<Rightarrow> int \<Rightarrow> u8 list \<Rightarrow> u8 list option \<Rightarrow> 'a kstate_scheme \<Rightarrow> 'a kstate_scheme res" where
  "assert_message file line msg description s =
     bind_res (case description of
                 Some d \<Rightarrow> error_printf (ascii ''%s:%d: %s\<newline>'') [VStr file, VNum (of_int line), VStr d]
                             (s\<lparr>cursorpos := CPOS 23 0\<rparr>)
               | None \<Rightarrow> Inr (s\<lparr>cursorpos := CPOS 23 0\<rparr>)) (\<lambda>s1.
     error_printf (ascii ''%s:%d: kernel assertion '' @ [39] @ ascii ''%s'' @ [39] @ ascii '' failed\<newline>'')
       [VStr file, VNum (of_int line), VStr msg] s1)"

definition assert_fail ::
  "nat \<Rightarrow> nat \<Rightarrow> link \<Rightarrow> symtabref \<Rightarrow> addr \<Rightarrow> addr \<Rightarrow> u8 list \<Rightarrow> int \<Rightarrow> u8 list \<Rightarrow> u8 list option
   \<Rightarrow> 'a kstate_scheme \<Rightarrow> (outcome \<times> 'a kstate_scheme) res" where
  "assert_fail polls fuel L T rsp rbp file line msg description s =
     bind_res (assert_message file line msg description s) (\<lambda>s1.
     bind_res (error_print_backtrace fuel L T rsp rbp s1) (fail polls L))"

text \<open>\<^verbatim>\<open>assert_memeq_fail\<close> shows the bytes around the first difference of two blocks.\<close>

function memeq_pos :: "memory \<Rightarrow> addr \<Rightarrow> addr \<Rightarrow> nat \<Rightarrow> nat \<Rightarrow> nat" where
  "memeq_pos m x y sz p =
     (if p < sz \<and> m (x + of_nat p) = m (y + of_nat p) then memeq_pos m x y sz (p + 1) else p)"
  by pat_completeness auto
termination by (relation "measure (\<lambda>(m, x, y, sz, p). sz - p)") auto

declare memeq_pos.simps [simp del]

definition assert_memeq_fail ::
  "nat \<Rightarrow> nat \<Rightarrow> link \<Rightarrow> symtabref \<Rightarrow> addr \<Rightarrow> addr \<Rightarrow> u8 list \<Rightarrow> int \<Rightarrow> u8 list \<Rightarrow> addr \<Rightarrow> addr \<Rightarrow> u64
   \<Rightarrow> 'a kstate_scheme \<Rightarrow> (outcome \<times> 'a kstate_scheme) res" where
  "assert_memeq_fail polls fuel L T rsp rbp file line msg x y sz s =
     (let n = unat sz; p = memeq_pos (mem s) x y n 0;
          spos = (if p \<le> 10 then 0 else p - 10);
          epos = (if p + 10 < n then p + 10 else n);
          e1 = (if spos > 0 then ascii ''...'' else []);
          e2 = (if epos < n then ascii ''...'' else []);
          bytes = (\<lambda>a. map (\<lambda>i. mem s (a + of_nat i)) [spos..<epos])
      in bind_res (error_vprintf (CPOS 22 0) COLOR_ERROR
             (ascii ''%s:%d: '' @ [34] @ ascii ''%s%.*s%s'' @ [34] @ ascii '' != '' @ [34] @ ascii ''%s%.*s%s'' @ [34] @ ascii '' @%zu\<newline>'')
             [VStr file, VNum (of_int line), VStr e1, VNum (of_nat (epos - spos)), VStr (bytes x), VStr e2,
              VStr e1, VNum (of_nat (epos - spos)), VStr (bytes y), VStr e2, VNum (of_nat p)] s) (\<lambda>(_, s1).
         assert_fail polls fuel L T rsp rbp file line msg None s1))"

subsection \<open>Specification\<close>

text \<open>The search the binary search replaces: the first symbol that matches.\<close>

definition linear_lookup :: "memory \<Rightarrow> symtabref \<Rightarrow> addr \<Rightarrow> (addr \<times> addr) option" where
  "linear_lookup m T a =
     (case find (\<lambda>i. symbol_matches m T a (of_nat i)) [0..<unat (symtab_nsym T)] of
        None \<Rightarrow> None | Some i \<Rightarrow> symbol_found m T (of_nat i))"

definition symbols_sorted :: "memory \<Rightarrow> symtabref \<Rightarrow> bool" where
  "symbols_sorted m T \<longleftrightarrow>
     (\<forall>i j. i < j \<and> j < unat (symtab_nsym T) \<longrightarrow> st_value m T (of_nat i) \<le> st_value m T (of_nat j))"

definition address_unique :: "memory \<Rightarrow> symtabref \<Rightarrow> addr \<Rightarrow> bool" where
  "address_unique m T a \<longleftrightarrow>
     (\<forall>i j. i < j \<and> j < unat (symtab_nsym T) \<longrightarrow> \<not> (st_value m T (of_nat i) = a \<and> st_value m T (of_nat j) = a))"

text \<open>Two symbols, at 0x40000 and 0x40100, in a memory where the table is mapped already.\<close>

definition demo_symtab :: symtabref where
  "demo_symtab = \<lparr>symtab_sym = 0x1000000, symtab_nsym = 2, symtab_strtab = 0x1000030\<rparr>"

definition demo_symtab_mem :: memory where
  "demo_symtab_mem = (\<lambda>_. 0)(0x52040 := 0x83, 0x52043 := 1, 0x1000000 := 1, 0x100000A := 4,
     0x1000018 := 6, 0x1000021 := 1, 0x1000022 := 4)"

definition demo_stack_state :: kstate where
  "demo_stack_state =
     \<lparr>console = replicate 2000 0, cursorpos = 0, ports = [], mem = (\<lambda>_. 0), physpages = replicate 512 0,
      next_alloc_pa = 0, ptable = [], current = 0, show_memory = False, pipebuf = 0, pipebuf_len = 0,
      ticks = 1, last_ticks = 0, showing = 0, keys = \<lparr>modifiers = 0, last_escape = 0\<rparr>, key_polls = [],
      pp_initialized = True, lapic_writes = [], cr3 = 0x1000, mu_v = None\<rparr>"

subsection \<open>Looking up symbols\<close>

lemma symbol_matches_nat:
  assumes "symbol_matches m T a (of_nat i)" "i < unat (symtab_nsym T)"
  shows "st_value m T (of_nat i) \<le> a" "Suc i < unat (symtab_nsym T) \<Longrightarrow> a < st_value m T (of_nat (Suc i))"
proof -
  show "st_value m T (of_nat i) \<le> a" using assms(1) by (simp add: symbol_matches_def)
  assume s: "Suc i < unat (symtab_nsym T)"
  have "Suc i < 2 ^ 64" using s unat_addr_bound [of "symtab_nsym T"] by linarith
  then have "unat (of_nat (Suc i) :: u64) = Suc i" by (rule unat_of_nat64)
  then have "(of_nat i :: u64) + 1 \<noteq> symtab_nsym T" using s by (metis Suc_eq_plus1 less_irrefl of_nat_1 of_nat_add)
  then show "a < st_value m T (of_nat (Suc i))" using assms(1) by (simp add: symbol_matches_def add.commute)
qed

lemma lookup_loop_linear:
  "symbols_sorted m T \<Longrightarrow> address_unique m T a \<Longrightarrow> unat r \<le> unat (symtab_nsym T) \<Longrightarrow>
    (\<And>j. j < unat (symtab_nsym T) \<Longrightarrow> symbol_matches m T a (of_nat j) \<Longrightarrow> unat l \<le> j \<and> j < unat r) \<Longrightarrow>
    lookup_loop m T a l r = linear_lookup m T a"
proof (induction m T a l r rule: lookup_loop.induct)
  case (1 m T a l r)
  let ?n = "unat (symtab_nsym T)"
  show ?case
  proof (cases "l < r")
    case False
    then have "\<not> symbol_matches m T a (of_nat j)" if "j < ?n" for j
      using 1(6) [OF that] by (auto simp: word_less_nat_alt)
    then have "find (\<lambda>i. symbol_matches m T a (of_nat i)) [0..<?n] = None" by (simp add: find_None_iff)
    then show ?thesis using False by (subst lookup_loop.simps) (simp add: linear_lookup_def)
  next
    case True
    let ?i = "l + drop_bit 1 (r - l)" and ?k = "unat l + (unat r - unat l) div 2"
    note mid = middle [OF True]
    have i: "of_nat ?k = ?i" using mid(1) by (metis of_nat_unat ucast_id)
    have k: "?k < ?n" using mid(3) 1(5) by linarith
    have sorted: "st_value m T (of_nat p) \<le> st_value m T (of_nat q)" if "p < q" "q < ?n" for p q
      using 1(3) that by (simp add: symbols_sorted_def)
    have before: "\<not> symbol_matches m T a (of_nat j)" if j: "j < p" "p < ?n" "st_value m T (of_nat p) \<le> a" for j p
    proof
      assume "symbol_matches m T a (of_nat j)"
      then have "a < st_value m T (of_nat (Suc j))" using symbol_matches_nat(2) [of m T a j] j by simp
      also have "\<dots> \<le> st_value m T (of_nat p)"
        using sorted [of "Suc j" p] j by (cases "Suc j = p") auto
      finally show False using j(3) by simp
    qed
    have after: "\<not> symbol_matches m T a (of_nat j)" if j: "p < j" "j < ?n" "a \<le> st_value m T (of_nat p)" for j p
    proof
      assume "symbol_matches m T a (of_nat j)"
      then have "st_value m T (of_nat j) \<le> a" using symbol_matches_nat(1) j by simp
      with sorted [OF j(1,2)] j(3) have "st_value m T (of_nat p) = a" "st_value m T (of_nat j) = a" by simp_all
      with 1(4) j(1,2) show False by (auto simp: address_unique_def)
    qed
    show ?thesis
    proof (cases "symbol_matches m T a ?i")
      case m: True
      have "st_value m T (of_nat ?k) \<le> a" using m i by (simp add: symbol_matches_def)
      then have "find (\<lambda>i. symbol_matches m T a (of_nat i)) [0..<?n] = Some ?k"
        using m i k before [of _ ?k] by (auto simp: find_Some_iff intro!: exI [of _ ?k])
      then show ?thesis using True m i by (subst lookup_loop.simps) (simp add: linear_lookup_def)
    next
      case nm: False
      show ?thesis
      proof (cases "st_value m T ?i < a")
        case lt: True
        have "unat (?i + 1) \<le> j \<and> j < unat r" if "j < ?n" "symbol_matches m T a (of_nat j)" for j
          using before [of j ?k] that 1(6) [OF that] nm i k less_imp_le [OF lt] mid(2) by (cases "j < ?k"; cases "j = ?k") auto
        then have "lookup_loop m T a (?i + 1) r = linear_lookup m T a" using 1(1) [OF True refl nm lt 1(3,4,5)] by blast
        then show ?thesis using True nm lt by (subst lookup_loop.simps) (simp add: Let_def)
      next
        case ge: False
        have "unat l \<le> j \<and> j < unat ?i" if "j < ?n" "symbol_matches m T a (of_nat j)" for j
          using after [of ?k j] that 1(6) [OF that] nm i k ge [unfolded not_less] mid(1) by (cases "?k < j"; cases "j = ?k") auto
        moreover have "unat ?i \<le> ?n" using mid(1) k by simp
        ultimately have "lookup_loop m T a l ?i = linear_lookup m T a" using 1(2) [OF True refl nm ge 1(3,4)] by blast
        then show ?thesis using True nm ge by (subst lookup_loop.simps) (simp add: Let_def)
      qed
    qed
  qed
qed

theorem lookup_symbol_linear:
  assumes "symbols_sorted (symtab_map L m) T" "address_unique (symtab_map L m) T a"
  shows "lookup_symbol L T a m = (linear_lookup (symtab_map L m) T a, symtab_map L m)"
  using lookup_loop_linear [OF assms, of "symtab_nsym T" 0] by (simp add: lookup_symbol_def Let_def)

text \<open>
  The restriction to unique addresses is needed: among four symbols at one address the binary search
  always turns left, and misses the last one, which matches.
\<close>
theorem lookup_symbol_misses_aliases:
  assumes n: "symtab_nsym T = 4" and v: "\<And>i. i < 4 \<Longrightarrow> st_value m T i = a" "st_size m T 3 = 0" "a < a + 0x1000"
  shows "lookup_loop m T a 0 (symtab_nsym T) = None \<and> symbol_matches m T a 3"
proof -
  have no: "\<not> symbol_matches m T a 0" "\<not> symbol_matches m T a 1" "\<not> symbol_matches m T a 2"
    using v(1) [of 1] v(1) [of 2] v(1) [of 3] n by (simp_all add: symbol_matches_def)
  have half: "drop_bit 1 (4 :: u64) = 2" "drop_bit 1 (2 :: u64) = 1" "drop_bit 1 (1 :: u64) = 0"
    by (simp_all add: drop_bit_Suc)
  have "lookup_loop m T a 0 4 = lookup_loop m T a 0 2" using no(3) v(1) [of 2]
    by (subst lookup_loop.simps) (simp add: half)
  also have "\<dots> = lookup_loop m T a 0 1" using no(2) v(1) [of 1]
    by (subst lookup_loop.simps) (simp add: half)
  also have "\<dots> = lookup_loop m T a 0 0" using no(1) v(1) [of 0]
    by (subst lookup_loop.simps) (simp add: half)
  also have "\<dots> = None" by (subst lookup_loop.simps) simp
  finally show ?thesis using n v by (simp add: symbol_matches_def)
qed

subsection \<open>Walking the stack\<close>

lemma bt_check_returns:
  assumes "aligned 4096 (bt_pt bt)" "bt_check m bt = Inl e"
  shows "\<exists>msg. e = Panic msg"
proof -
  have new: "\<exists>msg. e = Panic msg" if "vmiter_new m (bt_pt bt) (bt_rbp bt) = Inl e" for e
    using that by (auto simp: vmiter_new_place vm_place_def split: prod.splits if_splits)
  have "\<exists>p. vm_range_perm m it 16 = Inr p" if "vmiter_new m (bt_pt bt) (bt_rbp bt) = Inr it" for it
  proof -
    have "vm_level it \<le> 3" using that vm_place_ok(1) [OF _ assms(1)] by (intro vm_ok_level) (simp add: vmiter_new_place)
    then have "(2 :: nat) ^ 12 \<le> unat (pageoffmask (vm_level it) + 1)"
      by (subst region_size) (assumption, rule power_increasing, simp_all)
    then have "\<not> pageoffmask (vm_level it) + 1 < 16" by (simp add: word_less_nat_alt)
    then show ?thesis by (simp add: vm_range_perm_def Let_def)
  qed
  with assms(2) new show ?thesis
    by (auto simp: bt_check_def Let_def bind_res_def split: if_splits sum.splits)
qed

lemma strlen_loop_ends: "m a = 0 \<Longrightarrow> \<exists>k. strlen_loop m s n = Some k"
proof (induction "unat (a - s)" arbitrary: s n)
  case 0
  then have "m s = 0" by simp
  then show ?case by (subst strlen_loop.simps) simp
next
  case (Suc d)
  show ?case
  proof (cases "m s = 0")
    case False
    have "unat (a - (s + 1)) = d" using Suc.hyps(2) unat_sub64 [of 1 "a - s"] by (simp add: diff_diff_eq)
    then show ?thesis using Suc.hyps(1) [of "s + 1" "n + 1"] Suc.prems False by (subst strlen_loop.simps) simp
  qed (subst strlen_loop.simps, simp)
qed

text \<open>A search for the end of a string ends when some byte of memory is zero.\<close>

lemma string_at_Inl: "string_at m a = Inl e \<Longrightarrow> e = Diverges \<and> (\<forall>b. m b \<noteq> 0)"
  using strlen_loop_ends [of m _ a 0] by (auto simp: string_at_def strlen_def split: option.splits)

lemma bt_check_ok:
  assumes "bt_check m bt = Inr bt'" "bt_ok bt'" "aligned 4096 (bt_pt bt)"
  shows "bt' = bt" "bt_rsp bt \<le> bt_rbp bt" "translate m (bt_pt bt) (bt_rbp bt) \<noteq> None"
proof -
  have c: "\<not> bt_rbp bt < bt_rsp bt" using assms(1,2) by (auto simp: bt_check_def bt_ok_def Let_def res_simps split: if_splits)
  obtain it p where i: "vmiter_new m (bt_pt bt) (bt_rbp bt) = Inr it" "vm_range_perm m it 16 = Inr p"
      "bt' = (if p AND PTE_P = 0 then bt\<lparr>bt_rbp := 0, bt_rsp := 0\<rparr> else bt)"
    using assms(1,2) by (auto simp: bt_check_def bt_ok_def Let_def res_simps split: if_splits)
  have it: "vmiter_new m (bt_pt bt) (bt_rbp bt) = Inr it" "vm_range_perm m it 16 = Inr p"
      "p AND PTE_P \<noteq> 0" "bt' = bt" using i assms(2) by (simp_all add: bt_ok_def split: if_splits)
  then have "vm_perms m it AND PTE_P \<noteq> 0" by (auto simp: vm_range_perm_def Let_def split: if_splits)
  moreover have ok: "vm_ok m it" "vm_pt it = bt_pt bt" "vm_va it = bt_rbp bt"
    using it(1) vm_place_ok [OF _ assms(3)] by (simp_all add: vmiter_new_place)
  ultimately have "vm_present m it" using vm_ok_translate(2) [OF ok(1)] by (cases "vm_present m it") simp_all
  then show "translate m (bt_pt bt) (bt_rbp bt) \<noteq> None" using vm_ok_translate(1) [OF ok(1)] ok by simp
  show "bt' = bt" by (rule it(4))
  show "bt_rsp bt \<le> bt_rbp bt" using c by simp
qed

text \<open>Every frame is above the one before, so the walk ends unless the last 16 bytes of the address space are mapped.\<close>

lemma backtrace_loop_returns:
  assumes pt: "aligned 4096 pt" and e: "e = OutOfFuel \<or> e = Diverges"
    and show_ok: "\<And>frame rip s. good s \<Longrightarrow> show frame rip s \<noteq> Inl e \<and> (\<forall>s'. show frame rip s = Inr s' \<longrightarrow> good s')"
    and top_free: "\<And>s va. good s \<Longrightarrow> 2 ^ 64 - 16 \<le> unat va \<Longrightarrow> translate (mem s) pt va = None"
  shows "good s \<Longrightarrow> bt_pt bt = pt \<Longrightarrow>
    (bt_ok bt \<Longrightarrow> bt_rsp bt \<le> bt_rbp bt \<and> unat (bt_rbp bt) < 2 ^ 64 - 16 \<and> 2 ^ 64 \<le> unat (bt_rsp bt) + 16 * n) \<Longrightarrow>
    backtrace_loop n show frame bt s \<noteq> Inl e"
proof (induction n arbitrary: frame bt s)
  case 0
  have "\<not> bt_ok bt"
  proof
    assume "bt_ok bt"
    then have "2 ^ 64 \<le> unat (bt_rsp bt)" using 0(3) by simp
    then show False by simp
  qed
  then show ?case by simp
next
  case (Suc n)
  show ?case
  proof (cases "bt_ok bt")
    case True
    have b: "bt_rsp bt \<le> bt_rbp bt" "unat (bt_rbp bt) < 2 ^ 64 - 16" "2 ^ 64 \<le> unat (bt_rsp bt) + 16 * Suc n"
      using Suc.prems(3) [OF True] by simp_all
    have sp: "unat (bt_rbp bt + 16) = unat (bt_rbp bt) + 16" using b(2) by (subst unat_add64) simp_all
    have "backtrace_loop n show (frame + 1) bt1 s1 \<noteq> Inl e"
      if s1: "show frame (bt_ret_rip (mem s) bt) s = Inr s1" and bt1: "bt_step (mem s1) bt = Inr bt1" for s1 bt1
    proof (rule Suc.IH)
      let ?bt = "bt\<lparr>bt_rsp := bt_rbp bt + 16, bt_rbp := load64 (mem s1) (bt_rbp bt)\<rparr>"
      show good: "good s1" using show_ok [OF Suc.prems(1)] s1 by blast
      have ch: "bt_check (mem s1) ?bt = Inr bt1" using bt1 by (simp add: bt_step_def)
      then show "bt_pt bt1 = pt" using Suc.prems(2) by (auto simp: bt_check_def Let_def res_simps split: if_splits)
      assume ok: "bt_ok bt1"
      note c = bt_check_ok [OF ch ok]
      have "bt1 = ?bt" "bt_rsp ?bt \<le> bt_rbp ?bt" "translate (mem s1) pt (bt_rbp ?bt) \<noteq> None"
        using c pt Suc.prems(2) by simp_all
      moreover from this(3) have "unat (bt_rbp ?bt) < 2 ^ 64 - 16"
        using top_free [OF good, of "bt_rbp ?bt"] by (meson not_le)
      ultimately show "bt_rsp bt1 \<le> bt_rbp bt1 \<and> unat (bt_rbp bt1) < 2 ^ 64 - 16 \<and> 2 ^ 64 \<le> unat (bt_rsp bt1) + 16 * n"
        using sp b by (auto simp: word_le_nat_alt)
    qed
    moreover have "bt_step m bt \<noteq> Inl e" for m
      unfolding bt_step_def using pt Suc.prems(2) e
        bt_check_returns [of "bt\<lparr>bt_rsp := bt_rbp bt + 16, bt_rbp := load64 m (bt_rbp bt)\<rparr>" m e] by auto
    ultimately show ?thesis using True show_ok [OF Suc.prems(1)] by (auto simp: res_simps)
  qed simp
qed

lemma symtab_map_idem: "symtab_map L (symtab_map L m) = symtab_map L m"
  by (auto simp: symtab_map_def Let_def SYMTAB_ADDR_def pte_consts)

lemma error_printf_total:
  assumes "screen_ok s" "\<And>c. \<exists>out. vprintf c fmt args = Inr out"
  shows "\<exists>s'. error_printf fmt args s = Inr s' \<and> screen_ok s' \<and> mem s' = mem s"
proof -
  obtain o1 o2 where "vprintf 0 fmt args = Inr o1" "vprintf COLOR_ERROR fmt args = Inr o2" using assms(2) by blast
  from error_vprintf_total [OF assms(1) this, of "-1"] show ?thesis by (auto simp: error_printf_def)
qed

lemma frame_formats:
  "\<exists>out. vprintf c (ascii ''  #%d  %p  <%s>\<newline>'') [VNum f, VNum rip, VStr nm] = Inr out"
  "\<exists>out. vprintf c (ascii ''  #%d  %p\<newline>'') [VNum f, VNum rip] = Inr out"
  by (simp_all add: vprintf_match)

lemma print_frame_ok:
  assumes inv: "screen_ok s'" "mem s' = m0 \<or> mem s' = symtab_map L m0"
  shows "print_frame error_printf (ascii ''  #%d  %p  <%s>\<newline>'') (ascii ''  #%d  %p\<newline>'')
      [VNum (of_int frame)] False L T rip s' \<noteq> Inl OutOfFuel
    \<and> ((\<exists>a. symtab_map L m0 a = 0) \<longrightarrow>
        print_frame error_printf (ascii ''  #%d  %p  <%s>\<newline>'') (ascii ''  #%d  %p\<newline>'')
          [VNum (of_int frame)] False L T rip s' \<noteq> Inl Diverges)
    \<and> (\<forall>s1. print_frame error_printf (ascii ''  #%d  %p  <%s>\<newline>'') (ascii ''  #%d  %p\<newline>'')
      [VNum (of_int frame)] False L T rip s' = Inr s1 \<longrightarrow> screen_ok s1 \<and> (mem s1 = m0 \<or> mem s1 = symtab_map L m0))"
proof -
  let ?m = "symtab_map L (mem s')"
  have m: "?m = symtab_map L m0" using inv by (auto simp: symtab_map_idem)
  have sc: "screen_ok (s'\<lparr>mem := ?m\<rparr>)" using inv by (simp add: screen_ok_def)
  have e: "\<exists>s1. error_printf (ascii ''  #%d  %p  <%s>\<newline>'') [VNum f, VNum rip, VStr nm] (s'\<lparr>mem := ?m\<rparr>) = Inr s1 \<and> (screen_ok s1 \<and> (mem s1 = m0 \<or> mem s1 = symtab_map L m0))"
    "\<exists>s1. error_printf (ascii ''  #%d  %p\<newline>'') [VNum f, VNum rip] (s'\<lparr>mem := ?m\<rparr>) = Inr s1 \<and> (screen_ok s1 \<and> (mem s1 = m0 \<or> mem s1 = symtab_map L m0))" for f nm
  proof -
    show "\<exists>s1. error_printf (ascii ''  #%d  %p  <%s>\<newline>'') [VNum f, VNum rip, VStr nm] (s'\<lparr>mem := ?m\<rparr>) = Inr s1 \<and> (screen_ok s1 \<and> (mem s1 = m0 \<or> mem s1 = symtab_map L m0))"
      using error_printf_total [OF sc frame_formats(1) [of _ f rip nm]] m by (elim exE) (intro exI, auto)
    show "\<exists>s1. error_printf (ascii ''  #%d  %p\<newline>'') [VNum f, VNum rip] (s'\<lparr>mem := ?m\<rparr>) = Inr s1 \<and> (screen_ok s1 \<and> (mem s1 = m0 \<or> mem s1 = symtab_map L m0))"
      using error_printf_total [OF sc frame_formats(2) [of _ f rip]] m by (elim exE) (intro exI, auto)
  qed
  show ?thesis
  proof (cases "lookup_loop ?m T rip 0 (symtab_nsym T)")
    case None
    then show ?thesis using e(2) [of "of_int frame"] by (auto simp: print_frame_def lookup_symbol_def Let_def)
  next
    case (Some x)
    then obtain nm start where x: "lookup_loop ?m T rip 0 (symtab_nsym T) = Some (nm, start)" by (cases x) auto
    show ?thesis
    proof (cases "string_at ?m nm")
      case (Inl er)
      then show ?thesis using x string_at_Inl [OF Inl] m
        by (auto simp: print_frame_def lookup_symbol_def Let_def)
    next
      case (Inr str)
      then show ?thesis using e(1) [of "of_int frame" str] x by (auto simp: print_frame_def lookup_symbol_def Let_def)
    qed
  qed
qed

text \<open>
  C26: The walk over stack frames that \<open>panic\<close> prints ends for any contents of memory,
  provided the last 16 bytes of the address space are not mapped; and when some byte of memory is
  zero so does the search for the end of every symbol name it prints.
\<close>
theorem backtrace_ends:
  assumes "screen_ok s" "aligned 4096 (cr3 s)" "2 ^ 60 \<le> fuel"
    and "\<And>va. 2 ^ 64 - 16 \<le> unat va \<Longrightarrow> translate (mem s) (cr3 s) va = None"
    and "\<And>va. 2 ^ 64 - 16 \<le> unat va \<Longrightarrow> translate (symtab_map L (mem s)) (cr3 s) va = None"
  shows "error_print_backtrace fuel L T rsp rbp s \<noteq> Inl OutOfFuel
    \<and> ((\<exists>a. symtab_map L (mem s) a = 0) \<longrightarrow> error_print_backtrace fuel L T rsp rbp s \<noteq> Inl Diverges)"
proof -
  let ?good = "\<lambda>s'. screen_ok s' \<and> (mem s' = mem s \<or> mem s' = symtab_map L (mem s))"
  let ?show = "\<lambda>frame rip. print_frame error_printf (ascii ''  #%d  %p  <%s>\<newline>'') (ascii ''  #%d  %p\<newline>'')
         [VNum (of_int frame)] False L T rip"
  have ends: "error_print_backtrace fuel L T rsp rbp s \<noteq> Inl e"
    if e: "e = OutOfFuel \<or> e = Diverges \<and> (\<exists>a. symtab_map L (mem s) a = 0)" for e
  proof -
    have show_ok: "?show frame rip s' \<noteq> Inl e \<and> (\<forall>s1. ?show frame rip s' = Inr s1 \<longrightarrow> ?good s1)"
      if "?good s'" for frame rip s' using print_frame_ok [of s' "mem s" L frame T rip] that e by blast
    have "backtrace_loop fuel ?show 1 bt s \<noteq> Inl e" if bt: "bt_new (mem s) (cr3 s) rbp rsp (round_up rsp 0x1000) = Inr bt" for bt
    proof (rule backtrace_loop_returns [where good = ?good, OF assms(2)])
      show "?good s" using assms(1) by simp
      show "bt_pt bt = cr3 s" using bt by (auto simp: bt_new_def bt_check_def Let_def res_simps split: if_splits)
      assume ok: "bt_ok bt"
      note c = bt_check_ok [OF bt [unfolded bt_new_def] ok]
      have "unat (bt_rbp bt) < 2 ^ 64 - 16" using c assms(2) assms(4) [of rbp] by (auto simp: not_le [symmetric])
      then show "bt_rsp bt \<le> bt_rbp bt \<and> unat (bt_rbp bt) < 2 ^ 64 - 16 \<and> 2 ^ 64 \<le> unat (bt_rsp bt) + 16 * fuel"
        using c assms(2,3) by auto
    qed (use show_ok assms e in auto)
    moreover have "bt_new (mem s) (cr3 s) rbp rsp (round_up rsp 0x1000) \<noteq> Inl e"
      using assms(2) e bt_check_returns [of "\<lparr>bt_rbp = rbp, bt_rsp = rsp, bt_stack_top = round_up rsp 0x1000, bt_pt = cr3 s\<rparr>" "mem s" e]
      by (auto simp: bt_new_def)
    ultimately show ?thesis by (auto simp: error_print_backtrace_def res_simps)
  qed
  show ?thesis using ends [of OutOfFuel] ends [of Diverges] by blast
qed

text \<open>
  The warning of \<^verbatim>\<open>log_backtrace\<close> has three conversions and two arguments, the first of them a number
  where the format asks for a string.
\<close>

theorem log_backtrace_warning:
  assumes "rsp \<noteq> rbp" "round_up rsp 0x1000 = round_down rbp 0x1000"
  shows "log_backtrace fuel L T prefix rsp rbp s = Inl BadVarargs"
proof -
  have "vprintf 0 (ascii ''%s  warning: possible stack overflow (rsp %p, rbp %p)\<newline>'') [VNum rsp, VNum rbp] = Inl BadVarargs"
    by (simp add: vprintf_match)
  then show ?thesis using assms by (simp add: log_backtrace_def log_vprintf_def)
qed

lemma demo_symbols:
  "symtab_map demo_link demo_symtab_mem = demo_symtab_mem" "st_value demo_symtab_mem demo_symtab 0 = 0x40000"
  "st_value demo_symtab_mem demo_symtab 1 = 0x40100" "st_name demo_symtab_mem demo_symtab 0 = 1"
  "st_size demo_symtab_mem demo_symtab 0 = 0"
  by (simp_all add: symtab_map_def Let_def kpt_def demo_link_def PAGESIZE_def SYMTAB_ADDR_def entry_of_def
      load64_bytes load32_bytes st_value_def st_name_def st_size_def demo_symtab_def demo_symtab_mem_def)

lemma demo_sorted: "symbols_sorted demo_symtab_mem demo_symtab"
proof -
  have "symtab_nsym demo_symtab = 2" by (simp add: demo_symtab_def)
  moreover have "i < j \<and> j < 2 \<longleftrightarrow> i = 0 \<and> j = 1" for i j :: nat by auto
  ultimately show ?thesis by (simp add: symbols_sorted_def demo_symbols)
qed

lemma demo_unique: "address_unique demo_symtab_mem demo_symtab 0x40050"
proof -
  have "symtab_nsym demo_symtab = 2" by (simp add: demo_symtab_def)
  moreover have "i < j \<and> j < 2 \<longleftrightarrow> i = 0 \<and> j = 1" for i j :: nat by auto
  ultimately show ?thesis by (simp add: address_unique_def demo_symbols)
qed

theorem lookup_symbol_linear_witness:
  "fst (lookup_symbol demo_link demo_symtab 0x40050 demo_symtab_mem) = Some (0x1000031, 0x40000)"
proof -
  have n: "symtab_nsym demo_symtab = 2" by (simp add: demo_symtab_def)
  have "symbol_matches demo_symtab_mem demo_symtab 0x40050 0" by (simp add: symbol_matches_def demo_symbols n)
  then have "linear_lookup demo_symtab_mem demo_symtab 0x40050 = Some (0x1000031, 0x40000)"
    by (simp add: linear_lookup_def n upt_rec symbol_found_def demo_symbols) (simp add: demo_symtab_def)
  then show ?thesis
    using lookup_symbol_linear [of demo_link demo_symtab_mem demo_symtab "0x40050"] demo_sorted demo_unique
    by (simp add: demo_symbols)
qed

theorem log_backtrace_warning_witness:
  "log_backtrace 5 demo_link demo_symtab [] 0x7EFF8 0x7F008 demo_stack_state = Inl BadVarargs"
  using log_backtrace_warning [of "0x7EFF8" "0x7F008" 5 demo_link demo_symtab "[]" demo_stack_state]
  by (simp add: round_up_def round_down_def)

lemma zero_table:
  assumes "\<And>b. 0x1000 \<le> unat b \<Longrightarrow> unat b < 0x2000 \<Longrightarrow> m b = 0"
  shows "translate m 0x1000 va = None"
proof -
  have "pageindex va 3 < 512" by (rule pageindex_less)
  then have e: "unat (entry_of 0x1000 (pageindex va 3)) = 0x1000 + 8 * unat (pageindex va 3)"
    by (intro unat_entry_of [of "0x1000", simplified]) (simp_all add: aligned_def)
  have "load64 m (entry_of 0x1000 (pageindex va 3)) = load64 (\<lambda>_. 0) (entry_of 0x1000 (pageindex va 3))"
  proof (rule load64_cong)
    fix b assume "unat (b - entry_of 0x1000 (pageindex va 3)) < 8"
    moreover have "unat (pageindex va 3) < 512" using \<open>pageindex va 3 < 512\<close> by (simp add: word_less_nat_alt)
    ultimately have "unat b = unat (entry_of 0x1000 (pageindex va 3)) + unat (b - entry_of 0x1000 (pageindex va 3))"
      using unat_add64 [of "entry_of 0x1000 (pageindex va 3)" "b - entry_of 0x1000 (pageindex va 3)"] e by simp
    then show "m b = 0"
      using e \<open>unat (b - entry_of 0x1000 (pageindex va 3)) < 8\<close> \<open>unat (pageindex va 3) < 512\<close> by (intro assms) linarith+
  qed
  then show ?thesis by (simp add: translate_def load64_bytes numeral_3_eq_3)
qed

theorem backtrace_ends_witness:
  "error_print_backtrace (2 ^ 60) demo_link demo_symtab 0x7EFF8 0x7F008 demo_stack_state \<noteq> Inl OutOfFuel"
proof (rule backtrace_ends [THEN conjunct1])
  show "screen_ok demo_stack_state" by (simp add: screen_ok_def demo_stack_state_def)
  show "aligned 4096 (cr3 demo_stack_state)" by (simp add: aligned_def demo_stack_state_def)
  show "translate (mem demo_stack_state) (cr3 demo_stack_state) va = None" for va
    by (simp add: demo_stack_state_def zero_table)
  have "symtab_map demo_link (\<lambda>_. 0) b = 0" if "unat b < 0x2000" for b
  proof -
    have "8 \<le> unat (b - 0x52040)" using that by (simp add: unat_sub_if')
    then show ?thesis
      by (simp add: symtab_map_def Let_def kpt_def demo_link_def PAGESIZE_def SYMTAB_ADDR_def entry_of_def store64_outside)
  qed
  then show "translate (symtab_map demo_link (mem demo_stack_state)) (cr3 demo_stack_state) va = None" for va
    by (simp add: demo_stack_state_def zero_table)
qed simp

end
