(* ===== verification/Symtab.thy ===== *)
theory Symtab
  imports Mksymtab Debug
begin

text \<open>
  What the symbol-table builder guarantees and the kernel relies on: the table is sorted, stably, by
  address and size, and nothing else in the file changes; moving sections to align the table keeps the
  contents of every section; and the kernel's binary search over the table the tool wrote finds
  what a search of all entries finds.
\<close>

subsection \<open>Sorting\<close>

definition symbol_key :: "elf_symbol \<Rightarrow> bool \<times> u64 \<times> u64" where
  "symbol_key a = (if special a then (False, 0, 0) else (True, sy_value a, sy_size a))"

lemma symbol_less_key: "symbol_less a b \<longleftrightarrow> symbol_key a < symbol_key b"
  by (auto simp: symbol_less_def symbol_key_def less_prod_def less_eq_prod_def)

lemma stable_insert_insort:
  "(\<And>a b. lt a b \<longleftrightarrow> f a < (f b :: 'k :: linorder)) \<Longrightarrow> stable_insert lt x ys = insort_key f x ys"
  by (induction ys) auto

lemma stable_sort_key:
  "(\<And>a b. lt a b \<longleftrightarrow> f a < (f b :: 'k :: linorder)) \<Longrightarrow> stable_sort lt xs = sort_key f xs"
  by (induction xs) (simp_all add: stable_insert_insort)

text \<open>Bytes that are a concatenation of records of equal length.\<close>

lemma concat_chunk:
  assumes "\<And>x. x \<in> set xs \<Longrightarrow> length (f x) = k" "i < length xs"
  shows "take k (drop (k * i) (concat (map f xs))) = f (xs ! i)"
  using assms
proof (induction xs arbitrary: i)
  case (Cons x xs)
  show ?case
  proof (cases i)
    case (Suc j)
    then have "take k (drop (k * j) (concat (map f xs))) = f (xs ! j)" using Cons by simp
    then show ?thesis using Suc Cons.prems(1) [of x] by simp
  qed (use Cons.prems in simp)
qed simp

lemma concat_length: "(\<And>x. x \<in> set xs \<Longrightarrow> length (f x) = k) \<Longrightarrow> length (concat (map f xs)) = k * length xs"
  by (induction xs) simp_all

lemma patch_length: "off + length bs \<le> length d \<Longrightarrow> length (patch d off bs) = length d"
  by (simp add: patch_def)

lemma patch_inside:
  "off + length bs \<le> length d \<Longrightarrow> i + k \<le> length bs \<Longrightarrow> take k (drop (off + i) (patch d off bs)) = take k (drop i bs)"
  by (simp add: patch_def)

lemma patch_nth_outside: "off + length bs \<le> length d \<Longrightarrow> i < off \<or> off + length bs \<le> i \<Longrightarrow> patch d off bs ! i = d ! i"
  by (auto simp: patch_def nth_append)

lemma slice_cong:
  "length a = length b \<Longrightarrow> (\<And>i. p \<le> i \<Longrightarrow> i < p + k \<Longrightarrow> a ! i = b ! i) \<Longrightarrow> take k (drop p a) = take k (drop p b)"
  by (auto intro!: nth_equalityI)

lemma patch_outside:
  assumes "off + length bs \<le> length d" "p + k \<le> off \<or> off + length bs \<le> p"
  shows "take k (drop p (patch d off bs)) = take k (drop p d)"
  using assms by (intro slice_cong patch_length patch_nth_outside) auto

lemma symbols_patch:
  assumes "off + 24 * length xs \<le> length (ei_data ei)"
  shows "symbols (ei\<lparr>ei_data := patch (ei_data ei) off (concat (map encode_symbol xs))\<rparr>) off (length xs) = xs"
proof (rule nth_equalityI)
  let ?bs = "concat (map encode_symbol xs)"
  have l: "length ?bs = 24 * length xs" by (rule concat_length) simp
  show "length (symbols (ei\<lparr>ei_data := patch (ei_data ei) off ?bs\<rparr>) off (length xs)) = length xs" by (simp add: symbols_def)
  fix i assume "i < length (symbols (ei\<lparr>ei_data := patch (ei_data ei) off ?bs\<rparr>) off (length xs))"
  then have i: "i < length xs" by (simp add: symbols_def)
  then have "take 24 (drop (off + 24 * i) (patch (ei_data ei) off ?bs)) = take 24 (drop (24 * i) ?bs)"
    using assms l by (intro patch_inside) simp_all
  also have "\<dots> = encode_symbol (xs ! i)" using i by (intro concat_chunk) simp_all
  finally show "symbols (ei\<lparr>ei_data := patch (ei_data ei) off ?bs\<rparr>) off (length xs) ! i = xs ! i"
    using i by (simp add: symbols_def)
qed

lemma symbols_nth: "i < n \<Longrightarrow> symbols ei (base + 24) n ! i = symb ei base (Suc i)"
  by (simp add: symbols_def symb_def ac_simps)

lemma sorted_already:
  assumes "find (\<lambda>i. symbol_less (symb ei base i) (symb ei base (i - 1))) [2..<n] = None"
  shows "sort_key symbol_key (symbols ei (base + 24) (n - 1)) = symbols ei (base + 24) (n - 1)"
proof (rule sort_key_id_if_sorted)
  let ?xs = "symbols ei (base + 24) (n - 1)"
  have len: "length ?xs = n - 1" by (simp add: symbols_def)
  have "symbol_key (?xs ! i) \<le> symbol_key (?xs ! Suc i)" if "Suc i < n - 1" for i
  proof -
    have "\<not> symbol_less (symb ei base (Suc (Suc i))) (symb ei base (Suc (Suc i) - 1))"
      using assms that by (auto simp: find_None_iff dest: spec [of _ "Suc (Suc i)"])
    then show ?thesis using that by (simp add: symbols_nth symbol_less_key not_less)
  qed
  then show "sorted (map symbol_key ?xs)" using len by (simp add: sorted_iff_nth_Suc)
qed

lemma sort_symtab_spec:
  assumes w: "wf_elf ei" and ok: "ei_ok ei" and c: "cache_ok ei"
  shows "\<exists>ei1 ei2. symtab ei = Inr ei1 \<and> sort_symtab ei = Inr ei2
    \<and> (let base = the (ei_symtab ei1); n = ei_nsymtab ei1 in
        symbols ei2 (base + 24) (n - 1) = sort_key symbol_key (symbols ei1 (base + 24) (n - 1))
        \<and> length (ei_data ei2) = length (ei_data ei)
        \<and> (\<forall>p. p < base + 24 \<or> base + 24 * n \<le> p \<longrightarrow> ei_data ei2 ! p = ei_data ei ! p)
        \<and> ei2 = ei1\<lparr>ei_data := ei_data ei2, ei_changed := ei_changed ei2\<rparr>)"
proof -
  obtain ei1 where s: "symtab ei = Inr ei1" and d: "ei_data ei1 = ei_data ei" and w1: "wf_elf ei1" and c1: "cache_ok ei1"
    using symtab_spec [OF w ok c] w wf_elf_cache(1) by auto
  let ?base = "the (ei_symtab ei1)" and ?n = "ei_nsymtab ei1"
  let ?P = "\<lambda>i. symbol_less (symb ei1 ?base i) (symb ei1 ?base (i - 1))"
  have "search (\<lambda>i. ebind (sym_at ei1 i) (\<lambda>a. ebind (sym_at ei1 (i - 1)) (\<lambda>b. Inr (symbol_less a b)))) [2..<?n]
      = Inr (find ?P [2..<?n])"
    by (rule search_total) (use cached_reads(1) [OF w1 c1] less_imp_diff_less in auto)
  then have srt: "sort_symtab ei = (case (find ?P [2..<?n], ei_symtab ei1) of
       (Some i, Some base) \<Rightarrow>
         ebind (get ei1 (base + 24) (24 * (?n - 1))) (\<lambda>_.
         ebind (store (base + 24) (concat (map encode_symbol (stable_sort symbol_less (symbols ei1 (base + 24) (?n - 1))))) ei1)
           (\<lambda>ei1. Inr (ei1\<lparr>ei_changed := True\<rparr>)))
     | _ \<Rightarrow> Inr ei1)" using s by (simp add: sort_symtab_def)
  show ?thesis
  proof (cases "find ?P [2..<?n]")
    case None
    then show ?thesis using s srt sorted_already [OF None] d
      by (intro exI [of _ ei1]) (simp add: Let_def)
  next
    case (Some i)
    then have n: "2 < ?n" by (auto simp: find_Some_iff)
    then obtain base where b: "ei_symtab ei1 = Some base" using c1 by (auto simp: cache_ok_def split: if_splits)
    have fit: "base + 24 * ?n \<le> length (ei_data ei1)" using cached_reads(3) [OF w1 c1, of 0] n b by simp
    let ?xs = "sort_key symbol_key (symbols ei1 (base + 24) (?n - 1))"
    let ?bs = "concat (map encode_symbol ?xs)"
    have lx: "length ?xs = ?n - 1" by (simp add: symbols_def)
    have lb: "length ?bs = 24 * (?n - 1)" using concat_length [of ?xs encode_symbol 24] lx by simp
    have fit': "base + 24 + 24 * (?n - 1) \<le> length (ei_data ei1)" using fit n by linarith
    let ?e = "ei1\<lparr>ei_data := patch (ei_data ei1) (base + 24) ?bs, ei_changed := True\<rparr>"
    have "sort_symtab ei = Inr ?e"
      using srt Some b fit' lb stable_sort_key [of symbol_less symbol_key] symbol_less_key by (simp add: get_def store_def)
    moreover have "symbols ?e (base + 24) (?n - 1) = ?xs"
      using symbols_patch [of "base + 24" ?xs ei1] lx fit' by (simp add: symbols_def)
    moreover have "patch (ei_data ei1) (base + 24) ?bs ! p = ei_data ei ! p" if "p < base + 24 \<or> base + 24 * ?n \<le> p" for p
      using patch_nth_outside [of "base + 24" ?bs "ei_data ei1" p] lb fit' that n d by (simp add: right_diff_distrib')
    ultimately show ?thesis using s b d patch_length [of "base + 24" ?bs "ei_data ei1"] lb fit'
      by (intro exI [of _ ei1] exI [of _ ?e]) (simp add: Let_def)
  qed
qed

subsection \<open>Moving sections\<close>

definition chunk :: "u8 list \<Rightarrow> nat \<Rightarrow> nat \<Rightarrow> u8 list" where
  "chunk d off k = take k (drop off d)"

lemma chunk_eqI:
  "off + k \<le> length d \<Longrightarrow> off' + k \<le> length d' \<Longrightarrow> (\<And>i. i < k \<Longrightarrow> d ! (off + i) = d' ! (off' + i))
    \<Longrightarrow> chunk d off k = chunk d' off' k"
  by (auto simp: chunk_def intro!: nth_equalityI)

lemma update_each_append: "update_each f (xs @ ys) s = ebind (update_each f xs s) (update_each f ys)"
proof (induction xs arbitrary: s)
  case (Cons x xs)
  then show ?case by (cases "f x s") simp_all
qed simp

lemma data_again: "e = ei\<lparr>ei_data := a\<rparr> \<Longrightarrow> e\<lparr>ei_data := x\<rparr> = ei\<lparr>ei_data := x\<rparr>" for e ei :: elf_info
  by simp

lemma data_only: "e = ei\<lparr>ei_data := a\<rparr> \<Longrightarrow> ei_sht e = ei_sht ei \<and> ei_pht e = ei_pht ei \<and> ei_size e = ei_size ei \<and> ei_ok e = ei_ok ei"
  for e ei :: elf_info
  by simp

text \<open>A pass over a table that replaces every entry \<open>r\<close> by \<open>g r\<close>, or fails.\<close>

lemma update_table:
  fixes ei ei' :: elf_info
  assumes step: "\<And>i e e'. i < n \<Longrightarrow> base + k * n \<le> length (ei_data e) \<Longrightarrow> e = ei\<lparr>ei_data := ei_data e\<rparr> \<Longrightarrow> step i e = Inr e' \<Longrightarrow>
      e' = e\<lparr>ei_data := patch (ei_data e) (base + k * i) (enc (g (dec (chunk (ei_data e) (base + k * i) k))))\<rparr>"
    and enc: "\<And>r. length (enc r) = k" "\<And>r. dec (enc r) = r"
    and len: "base + k * n \<le> length (ei_data ei)"
  shows "m \<le> n \<Longrightarrow> update_each step [0..<m] ei = Inr ei' \<Longrightarrow>
    ei' = ei\<lparr>ei_data := ei_data ei'\<rparr> \<and> length (ei_data ei') = length (ei_data ei)
    \<and> (\<forall>p. p < base \<or> base + k * m \<le> p \<longrightarrow> ei_data ei' ! p = ei_data ei ! p)
    \<and> (\<forall>i < m. dec (chunk (ei_data ei') (base + k * i) k) = g (dec (chunk (ei_data ei) (base + k * i) k)))"
proof (induction m arbitrary: ei')
  case (Suc m)
  from Suc.prems(2) obtain e where e: "update_each step [0..<m] ei = Inr e" "step m e = Inr ei'"
    by (auto simp: update_each_append ebind_Inr_iff)
  let ?d = "ei_data e" and ?o = "base + k * m"
  let ?new = "enc (g (dec (chunk ?d ?o k)))"
  have IH: "e = ei\<lparr>ei_data := ?d\<rparr>" "length ?d = length (ei_data ei)"
      "\<And>p. p < base \<or> ?o \<le> p \<Longrightarrow> ?d ! p = ei_data ei ! p"
      "\<And>i. i < m \<Longrightarrow> dec (chunk ?d (base + k * i) k) = g (dec (chunk (ei_data ei) (base + k * i) k))"
    using Suc.IH [OF Suc_leD [OF Suc.prems(1)] e(1)] by blast+
  have ei': "ei' = e\<lparr>ei_data := patch ?d ?o ?new\<rparr>"
    using step [OF _ _ IH(1) e(2)] Suc.prems(1) len IH(2) by simp
  then have d': "ei_data ei' = patch ?d ?o ?new" by simp
  have "k * m + k \<le> k * n" using mult_le_mono2 [OF Suc.prems(1), of k] by simp
  then have fit: "?o + length ?new \<le> length ?d" using len IH(2) enc(1) by simp
  have before: "chunk (patch ?d ?o ?new) (base + k * i) k = chunk ?d (base + k * i) k" if "i < m" for i
  proof -
    have "k * i + k \<le> k * m" using mult_le_mono2 [of "Suc i" m k] that by simp
    then show ?thesis using patch_outside [OF fit, of "base + k * i" k] by (simp add: chunk_def)
  qed
  have here: "chunk (patch ?d ?o ?new) ?o k = ?new" using patch_inside [OF fit, of 0 k] enc(1) by (simp add: chunk_def)
  have old: "chunk ?d ?o k = chunk (ei_data ei) ?o k"
    using IH(2,3) fit enc(1) by (intro chunk_eqI) auto
  have "dec (chunk (ei_data ei') (base + k * i) k) = g (dec (chunk (ei_data ei) (base + k * i) k))" if "i < Suc m" for i
    using that IH(4) before here old enc(2) d' by (cases "i = m") auto
  moreover have "ei_data ei' ! p = ei_data ei ! p" if "p < base \<or> base + k * Suc m \<le> p" for p
    using that IH(3) [of p] patch_nth_outside [OF fit, of p] enc(1) d' by auto
  moreover have "ei' = ei\<lparr>ei_data := ei_data ei'\<rparr>" 
    using trans [OF ei' data_again [OF IH(1)]] d' by (simp only:)
  ultimately show ?case using d' IH(2) patch_length [OF fit] by simp
qed simp

definition moved_section :: "u64 \<Rightarrow> u64 \<Rightarrow> elf_section \<Rightarrow> elf_section" where
  "moved_section offset diff sh = (if sh_offset sh \<ge> offset then sh\<lparr>sh_offset := sh_offset sh + diff\<rparr> else sh)"

definition moved_program :: "u64 \<Rightarrow> u64 \<Rightarrow> elf_program \<Rightarrow> elf_program" where
  "moved_program offset diff ph = (if ph_offset ph \<ge> offset then ph\<lparr>ph_offset := ph_offset ph + diff\<rparr> else ph)"

lemma patch_same: "off + length bs \<le> length d \<Longrightarrow> bs = take (length bs) (drop off d) \<Longrightarrow> patch d off bs = d"
  unfolding patch_def by (metis append_take_drop_id drop_drop add.commute)

lemma chunk_length: "off + k \<le> length d \<Longrightarrow> length (chunk d off k) = k"
  by (simp add: chunk_def)

lemma shift_program_step:
  assumes "ei_pht e + 56 * n \<le> length (ei_data e)" "i < n" "shift_program offset diff i e = Inr e'"
  shows "e' = e\<lparr>ei_data := patch (ei_data e) (ei_pht e + 56 * i)
      (encode_program (moved_program offset diff (decode_program (chunk (ei_data e) (ei_pht e + 56 * i) 56))))\<rparr>"
proof -
  have fit: "ei_pht e + 56 * i + 56 \<le> length (ei_data e)" using assms(1,2) by linarith
  then have "chunk (ei_data e) (ei_pht e + 56 * i) 56 = take 56 (drop (ei_pht e + 56 * i) (ei_data e))" "program_at e i = Inr (prog e i)"
    by (simp_all add: chunk_def table_reads(3))
  moreover have "patch (ei_data e) (ei_pht e + 56 * i) (chunk (ei_data e) (ei_pht e + 56 * i) 56) = ei_data e"
    using fit by (intro patch_same) (simp_all add: chunk_length, simp add: chunk_def)
  ultimately show ?thesis using assms(3) fit
    by (auto simp: shift_program_def moved_program_def store_def prog_def chunk_def fail_if_def split: if_splits)
qed

lemma shift_section_step:
  assumes "ei_sht e + 64 * n \<le> length (ei_data e)" "i < n" "shift_section offset diff i e = Inr e'"
  shows "e' = e\<lparr>ei_data := patch (ei_data e) (ei_sht e + 64 * i)
      (encode_section (moved_section offset diff (decode_section (chunk (ei_data e) (ei_sht e + 64 * i) 64))))\<rparr>"
proof -
  have fit: "ei_sht e + 64 * i + 64 \<le> length (ei_data e)" using assms(1,2) by linarith
  then have "chunk (ei_data e) (ei_sht e + 64 * i) 64 = take 64 (drop (ei_sht e + 64 * i) (ei_data e))" "section_at e i = Inr (sec e i)"
    by (simp_all add: chunk_def table_reads(2))
  moreover have "patch (ei_data e) (ei_sht e + 64 * i) (chunk (ei_data e) (ei_sht e + 64 * i) 64) = ei_data e"
    using fit by (intro patch_same) (simp_all add: chunk_length, simp add: chunk_def)
  ultimately show ?thesis using assms(3) fit
    by (auto simp: shift_section_def moved_section_def store_def sec_def chunk_def fail_if_def split: if_splits)
qed

lemma hdr_cong:
  assumes "64 \<le> length (ei_data a)" "64 \<le> length (ei_data b)" "\<And>p. p < 64 \<Longrightarrow> ei_data a ! p = ei_data b ! p"
  shows "hdr a = hdr b"
  using chunk_eqI [of 0 64 "ei_data a" 0 "ei_data b"] assms by (simp add: hdr_def chunk_def)

lemma sec_cong:
  assumes "ei_sht a + 64 * i + 64 \<le> length (ei_data a)" "ei_sht b + 64 * i + 64 \<le> length (ei_data b)"
    "\<And>p. p < 64 \<Longrightarrow> ei_data a ! (ei_sht a + 64 * i + p) = ei_data b ! (ei_sht b + 64 * i + p)"
  shows "sec a i = sec b i"
  using chunk_eqI [OF assms] by (simp add: sec_def chunk_def)

lemma prog_cong:
  assumes "ei_pht a + 56 * i + 56 \<le> length (ei_data a)" "ei_pht b + 56 * i + 56 \<le> length (ei_data b)"
    "\<And>p. p < 56 \<Longrightarrow> ei_data a ! (ei_pht a + 56 * i + p) = ei_data b ! (ei_pht b + 56 * i + p)"
  shows "prog a i = prog b i"
  using chunk_eqI [OF assms] by (simp add: prog_def chunk_def)

text \<open>The two passes of \<open>shift_sections\<close> over the tables.\<close>

lemma program_pass:
  assumes "ei_pht ei + 56 * n \<le> length (ei_data ei)" "update_each (shift_program offset diff) [0..<n] ei = Inr ei1"
  shows "ei1 = ei\<lparr>ei_data := ei_data ei1\<rparr>" "length (ei_data ei1) = length (ei_data ei)"
    "p < ei_pht ei \<or> ei_pht ei + 56 * n \<le> p \<Longrightarrow> ei_data ei1 ! p = ei_data ei ! p"
    "i < n \<Longrightarrow> prog ei1 i = moved_program offset diff (prog ei i)"
proof -
  have "ei1 = ei\<lparr>ei_data := ei_data ei1\<rparr> \<and> length (ei_data ei1) = length (ei_data ei)
    \<and> (\<forall>p. p < ei_pht ei \<or> ei_pht ei + 56 * n \<le> p \<longrightarrow> ei_data ei1 ! p = ei_data ei ! p)
    \<and> (\<forall>i < n. decode_program (chunk (ei_data ei1) (ei_pht ei + 56 * i) 56)
         = moved_program offset diff (decode_program (chunk (ei_data ei) (ei_pht ei + 56 * i) 56)))"
  proof (rule update_table [where n = n, OF _ _ _ assms(1) _ assms(2)])
    fix j e e' assume "j < n" "ei_pht ei + 56 * n \<le> length (ei_data e)" and ee: "e = ei\<lparr>ei_data := ei_data e\<rparr>"
      and "shift_program offset diff j e = Inr e'"
    moreover have "ei_pht e = ei_pht ei" using data_only [OF ee] by simp
    ultimately show "e' = e\<lparr>ei_data := patch (ei_data e) (ei_pht ei + 56 * j)
        (encode_program (moved_program offset diff (decode_program (chunk (ei_data e) (ei_pht ei + 56 * j) 56))))\<rparr>"
      using shift_program_step by metis
  qed simp_all
  then show u: "ei1 = ei\<lparr>ei_data := ei_data ei1\<rparr>" and "length (ei_data ei1) = length (ei_data ei)"
    and "p < ei_pht ei \<or> ei_pht ei + 56 * n \<le> p \<Longrightarrow> ei_data ei1 ! p = ei_data ei ! p"
    and q: "i < n \<Longrightarrow> prog ei1 i = moved_program offset diff (prog ei i)"
    using data_only [where e = ei1 and ei = ei and a = "ei_data ei1"] by (blast, blast, blast, simp add: prog_def chunk_def)
qed

lemma section_pass:
  assumes "ei_sht ei + 64 * n \<le> length (ei_data ei)" "update_each (shift_section offset diff) [0..<n] ei = Inr ei1"
  shows "ei1 = ei\<lparr>ei_data := ei_data ei1\<rparr>" "length (ei_data ei1) = length (ei_data ei)"
    "p < ei_sht ei \<or> ei_sht ei + 64 * n \<le> p \<Longrightarrow> ei_data ei1 ! p = ei_data ei ! p"
    "i < n \<Longrightarrow> sec ei1 i = moved_section offset diff (sec ei i)"
proof -
  have "ei1 = ei\<lparr>ei_data := ei_data ei1\<rparr> \<and> length (ei_data ei1) = length (ei_data ei)
    \<and> (\<forall>p. p < ei_sht ei \<or> ei_sht ei + 64 * n \<le> p \<longrightarrow> ei_data ei1 ! p = ei_data ei ! p)
    \<and> (\<forall>i < n. decode_section (chunk (ei_data ei1) (ei_sht ei + 64 * i) 64)
         = moved_section offset diff (decode_section (chunk (ei_data ei) (ei_sht ei + 64 * i) 64)))"
  proof (rule update_table [where n = n, OF _ _ _ assms(1) _ assms(2)])
    fix j e e' assume "j < n" "ei_sht ei + 64 * n \<le> length (ei_data e)" and ee: "e = ei\<lparr>ei_data := ei_data e\<rparr>"
      and "shift_section offset diff j e = Inr e'"
    moreover have "ei_sht e = ei_sht ei" using data_only [OF ee] by simp
    ultimately show "e' = e\<lparr>ei_data := patch (ei_data e) (ei_sht ei + 64 * j)
        (encode_section (moved_section offset diff (decode_section (chunk (ei_data e) (ei_sht ei + 64 * j) 64))))\<rparr>"
      using shift_section_step by metis
  qed simp_all
  then show u: "ei1 = ei\<lparr>ei_data := ei_data ei1\<rparr>" and "length (ei_data ei1) = length (ei_data ei)"
    and "p < ei_sht ei \<or> ei_sht ei + 64 * n \<le> p \<Longrightarrow> ei_data ei1 ! p = ei_data ei ! p"
    and q: "i < n \<Longrightarrow> sec ei1 i = moved_section offset diff (sec ei i)"
    using data_only [where e = ei1 and ei = ei and a = "ei_data ei1"] by (blast, blast, blast, simp add: sec_def chunk_def)
qed

definition program_spans :: "u64 \<Rightarrow> elf_program \<Rightarrow> bool" where
  "program_spans offset ph \<longleftrightarrow> ph_offset ph < offset \<and> ph_offset ph + ph_filesz ph > offset"

definition section_spans :: "u64 \<Rightarrow> elf_section \<Rightarrow> bool" where
  "section_spans offset sh \<longleftrightarrow> has_contents sh \<and> sh_offset sh < offset \<and> sh_offset sh + sh_size sh > offset"

lemma program_pass_next:
  assumes "ei_pht ei + 56 * Suc n \<le> length (ei_data ei)" "update_each (shift_program offset diff) [0..<n] ei = Inr e"
  shows "(\<exists>e'. shift_program offset diff n e = Inr e') \<longleftrightarrow> \<not> program_spans offset (prog ei n)"
proof -
  have l: "ei_pht ei + 56 * n \<le> length (ei_data ei)" using assms(1) by simp
  note P = program_pass [OF l assms(2)]
  note d = data_only [OF P(1)]
  have "prog e n = prog ei n" using d P(2,3) assms(1) by (intro prog_cong) auto
  moreover have "program_at e n = Inr (prog e n)" using d P(2) assms(1) by (intro table_reads(3)) simp
  ultimately show ?thesis using d P(2) assms(1)
    by (auto simp: shift_program_def program_spans_def store_def fail_if_def not_le not_less)
qed

lemma section_pass_next:
  assumes "ei_sht ei + 64 * Suc n \<le> length (ei_data ei)" "update_each (shift_section offset diff) [0..<n] ei = Inr e"
  shows "(\<exists>e'. shift_section offset diff n e = Inr e') \<longleftrightarrow> \<not> section_spans offset (sec ei n)"
proof -
  have l: "ei_sht ei + 64 * n \<le> length (ei_data ei)" using assms(1) by simp
  note P = section_pass [OF l assms(2)]
  note d = data_only [OF P(1)]
  have "sec e n = sec ei n" using d P(2,3) assms(1) by (intro sec_cong) auto
  moreover have "section_at e n = Inr (sec e n)" using d P(2) assms(1) by (intro table_reads(2)) simp
  ultimately show ?thesis using d P(2) assms(1)
    by (auto simp: shift_section_def section_spans_def store_def fail_if_def not_le not_less)
qed

lemma program_pass_returns:
  "ei_pht ei + 56 * n \<le> length (ei_data ei) \<Longrightarrow>
    (\<exists>e. update_each (shift_program offset diff) [0..<n] ei = Inr e) \<longleftrightarrow> (\<forall>i < n. \<not> program_spans offset (prog ei i))"
proof (induction n)
  case (Suc n)
  then show ?case using program_pass_next [OF Suc.prems]
    by (auto simp: update_each_append ebind_Inr_iff less_Suc_eq)
qed simp

lemma section_pass_returns:
  "ei_sht ei + 64 * n \<le> length (ei_data ei) \<Longrightarrow>
    (\<exists>e. update_each (shift_section offset diff) [0..<n] ei = Inr e) \<longleftrightarrow> (\<forall>i < n. \<not> section_spans offset (sec ei i))"
proof (induction n)
  case (Suc n)
  then show ?case using section_pass_next [OF Suc.prems]
    by (auto simp: update_each_append ebind_Inr_iff less_Suc_eq)
qed simp

definition contents_of :: "elf_info \<Rightarrow> elf_section \<Rightarrow> u8 list" where
  "contents_of ei sh = chunk (ei_data ei) (unat (sh_offset sh)) (unat (sh_size sh))"

definition apart :: "nat \<times> nat \<Rightarrow> nat \<times> nat \<Rightarrow> bool" where
  "apart a b \<longleftrightarrow> fst a + snd a \<le> fst b \<or> fst b + snd b \<le> fst a"

text \<open>
  What the tool relies on and does not check: the header, the two tables and the contents of the
  sections do not overlap, and the boundary does not cut the section table.
\<close>

definition tables_apart :: "elf_info \<Rightarrow> bool" where
  "tables_apart ei \<longleftrightarrow>
     64 \<le> ei_pht ei \<and> 64 \<le> ei_sht ei \<and> apart (ei_pht ei, 56 * phnum ei) (ei_sht ei, 64 * shnum ei)
     \<and> (\<forall>i < shnum ei. has_contents (sec ei i) \<longrightarrow> 64 \<le> unat (sh_offset (sec ei i))
          \<and> apart (unat (sh_offset (sec ei i)), unat (sh_size (sec ei i))) (ei_pht ei, 56 * phnum ei)
          \<and> apart (unat (sh_offset (sec ei i)), unat (sh_size (sec ei i))) (ei_sht ei, 64 * shnum ei))"

definition not_cut :: "elf_info \<Rightarrow> nat \<Rightarrow> bool" where
  "not_cut ei off \<longleftrightarrow> off \<le> ei_sht ei \<or> ei_sht ei + 64 * shnum ei \<le> off"

lemma grow_spec:
  fixes fresh c
  assumes "ei_pht ei = unat (eh_phoff (hdr ei))" "ei_sht ei = unat (eh_shoff (hdr ei))" "64 \<le> length (ei_data ei)"
  defines "g \<equiv> grow fresh c ei"
  shows "\<exists>x. ei_data g = ei_data ei @ x" "c \<le> length (ei_data g)"
    "ei_pht g = ei_pht ei" "ei_sht g = ei_sht ei" "ei_size g = ei_size ei" "ei_ok g = ei_ok ei"
    "ei_symtab ei = None \<Longrightarrow> ei_nsymtab ei = 0 \<Longrightarrow> ei_symtab g = None \<and> ei_nsymtab g = 0"
proof -
  let ?d = "ei_data ei @ map fresh [length (ei_data ei)..<max c (length (ei_data ei) + 32768)]"
  have "take 64 ?d = take 64 (ei_data ei)" using assms(3) by simp
  then have h: "decode_header (take 64 ?d) = hdr ei" by (simp only: hdr_def)
  show "\<exists>x. ei_data g = ei_data ei @ x" "c \<le> length (ei_data g)"
    "ei_pht g = ei_pht ei" "ei_sht g = ei_sht ei" "ei_size g = ei_size ei" "ei_ok g = ei_ok ei"
    "ei_symtab ei = None \<Longrightarrow> ei_nsymtab ei = 0 \<Longrightarrow> ei_symtab g = None \<and> ei_nsymtab g = 0"
    using assms(1,2) h by (auto simp: g_def grow_def ei_capacity_def Let_def simp del: take_append)
qed

lemma nth_moved:
  assumes "off \<le> (sz :: nat)" "sz + diff \<le> length d" and p: "p < sz + diff"
  shows "(take off d @ replicate diff z @ take (sz - off) (drop off d) @ drop (sz + diff) d) ! p =
    (if p < off then d ! p else if p < off + diff then z else d ! (p - diff))"
  using assms by (auto simp: nth_append min_def)

lemma length_moved:
  assumes "off \<le> (sz :: nat)" "sz + diff \<le> length d"
  shows "length (take off d @ replicate diff z @ take (sz - off) (drop off d) @ drop (sz + diff) d) = length d"
  using assms by simp

lemma move_data_spec:
  fixes fresh diff
  assumes "ei_pht ei = unat (eh_phoff (hdr ei))" "ei_sht ei = unat (eh_shoff (hdr ei))" "64 \<le> length (ei_data ei)"
    and "off \<le> ei_size ei" "ei_size ei \<le> length (ei_data ei)"
  defines "e \<equiv> move_data fresh off diff ei"
  shows "ei_size e = ei_size ei + diff" "ei_size ei + diff \<le> length (ei_data e)"
    "ei_pht e = ei_pht ei" "ei_sht e = ei_sht ei" "ei_ok e = ei_ok ei"
    "ei_symtab ei = None \<Longrightarrow> ei_nsymtab ei = 0 \<Longrightarrow> ei_symtab e = None \<and> ei_nsymtab e = 0"
    "p < off \<Longrightarrow> ei_data e ! p = ei_data ei ! p"
    "off + diff \<le> p \<Longrightarrow> p < ei_size ei + diff \<Longrightarrow> ei_data e ! p = ei_data ei ! (p - diff)"
proof -
  let ?g = "grow fresh (ei_size ei + diff) ei"
  note g = grow_spec [OF assms(1-3), where fresh = fresh and c = "ei_size ei + diff"]
  obtain x where x: "ei_data ?g = ei_data ei @ x" using g(1) by blast
  have d: "ei_data e = take off (ei_data ?g) @ replicate diff 0 @ take (ei_size ei - off) (drop off (ei_data ?g))
      @ drop (ei_size ei + diff) (ei_data ?g)" using g(5) by (simp add: e_def move_data_def Let_def)
  note m = length_moved [OF assms(4) g(2)] nth_moved [OF assms(4) g(2)]
  show "ei_size e = ei_size ei + diff" "ei_pht e = ei_pht ei" "ei_sht e = ei_sht ei" "ei_ok e = ei_ok ei"
    "ei_symtab ei = None \<Longrightarrow> ei_nsymtab ei = 0 \<Longrightarrow> ei_symtab e = None \<and> ei_nsymtab e = 0"
    using g by (simp_all add: e_def move_data_def Let_def)
  show "ei_size ei + diff \<le> length (ei_data e)" using d m(1) g(2) by metis
  show "ei_data e ! p = ei_data ei ! p" if "p < off"
  proof -
    have "ei_data e ! p = ei_data ?g ! p" unfolding d using m(2) [of p] that assms(4) by simp
    then show ?thesis using x that assms(4,5) by (simp add: nth_append)
  qed
  show "ei_data e ! p = ei_data ei ! (p - diff)" if "off + diff \<le> p" "p < ei_size ei + diff"
  proof -
    have "ei_data e ! p = ei_data ?g ! (p - diff)" unfolding d using m(2) [of p] that by simp
    moreover have "p - diff < length (ei_data ei)" using that assms(5) by linarith
    ultimately show ?thesis using x by (simp add: nth_append)
  qed
qed

lemma program_pass_sec:
  assumes "tables_ok ei" "tables_apart ei" "update_each (shift_program offset diff) [0..<phnum ei] ei = Inr ei1" "i < shnum ei"
  shows "sec ei1 i = sec ei i"
proof -
  have lp: "ei_pht ei + 56 * phnum ei \<le> length (ei_data ei)" and ls: "ei_sht ei + 64 * shnum ei \<le> length (ei_data ei)"
    using assms(1) by (simp_all add: tables_ok_def)
  note e1 = program_pass [OF lp assms(3)]
  note d1 = data_only [OF e1(1)]
  have "ei_pht ei + 56 * phnum ei \<le> ei_sht ei \<or> ei_sht ei + 64 * shnum ei \<le> ei_pht ei"
    using assms(2) by (simp add: tables_apart_def apart_def)
  moreover have "ei_sht ei + 64 * i + 64 \<le> ei_sht ei + 64 * shnum ei" using assms(4) by simp
  ultimately show ?thesis using ls d1 e1(2) by (intro sec_cong) (auto intro!: e1(3))
qed

lemma shift_tables:
  assumes t: "tables_ok ei" and a: "tables_apart ei"
    and f: "\<forall>i < shnum ei. has_contents (sec ei i) \<longrightarrow> in_file ei (sec ei i)"
    and u1: "update_each (shift_program offset diff) [0..<phnum ei] ei = Inr ei1"
    and u2: "update_each (shift_section offset diff) [0..<shnum ei] ei1 = Inr ei2"
  shows "ei2 = ei\<lparr>ei_data := ei_data ei2\<rparr>" "length (ei_data ei2) = length (ei_data ei)" "hdr ei2 = hdr ei"
    "i < phnum ei \<Longrightarrow> prog ei2 i = moved_program offset diff (prog ei i)"
    "i < shnum ei \<Longrightarrow> sec ei2 i = moved_section offset diff (sec ei i)"
    "i < shnum ei \<Longrightarrow> has_contents (sec ei i) \<Longrightarrow> contents_of ei2 (sec ei i) = contents_of ei (sec ei i)"
    "i < shnum ei \<Longrightarrow> has_contents (sec ei i) \<Longrightarrow> sh_offset (sec ei i) < offset \<Longrightarrow>
      sh_offset (sec ei i) + sh_size (sec ei i) \<le> offset"
proof -
  have lp: "ei_pht ei + 56 * phnum ei \<le> length (ei_data ei)" and ls: "ei_sht ei + 64 * shnum ei \<le> length (ei_data ei)"
    using t by (simp_all add: tables_ok_def)
  note e1 = program_pass [OF lp u1]
  note d1 = data_only [OF e1(1)]
  have ls1: "ei_sht ei1 + 64 * shnum ei \<le> length (ei_data ei1)" using ls d1 e1(2) by simp
  note e2 = section_pass [OF ls1 u2]
  note o1 = e1(3) and p1 = e1(4) and o2 = e2(3) [unfolded d1 [THEN conjunct1]] and s2 = e2(4)
  note d2 = data_only [OF e2(1)]
  show "ei2 = ei\<lparr>ei_data := ei_data ei2\<rparr>" using trans [OF e2(1) data_again [OF e1(1)]] .
  show len: "length (ei_data ei2) = length (ei_data ei)" using e1 e2 by simp
  have a': "64 \<le> ei_pht ei" "64 \<le> ei_sht ei" and ap: "ei_pht ei + 56 * phnum ei \<le> ei_sht ei \<or> ei_sht ei + 64 * shnum ei \<le> ei_pht ei"
    using a by (simp_all add: tables_apart_def apart_def)
  show "hdr ei2 = hdr ei" using t len o1 o2 a' by (intro hdr_cong) (auto simp: tables_ok_def)
  show "prog ei2 i = moved_program offset diff (prog ei i)" if i: "i < phnum ei"
  proof -
    have "ei_pht ei + 56 * i + 56 \<le> ei_pht ei + 56 * phnum ei" using i by simp
    then have "prog ei2 i = prog ei1 i" using lp d1 d2 len e1(2) ap by (intro prog_cong) (auto intro!: o2)
    then show ?thesis using p1 [OF i] by simp
  qed
  note sec1 = program_pass_sec [OF t a u1]
  then show "sec ei2 i = moved_section offset diff (sec ei i)" if "i < shnum ei"
    using s2 [OF that] that by simp
  show "contents_of ei2 (sec ei i) = contents_of ei (sec ei i)" if i: "i < shnum ei" "has_contents (sec ei i)" for i
  proof -
    have ca: "apart (unat (sh_offset (sec ei i)), unat (sh_size (sec ei i))) (ei_pht ei, 56 * phnum ei)"
        "apart (unat (sh_offset (sec ei i)), unat (sh_size (sec ei i))) (ei_sht ei, 64 * shnum ei)"
      using a i unfolding tables_apart_def by blast+
    have "ei_data ei2 ! (unat (sh_offset (sec ei i)) + k) = ei_data ei ! (unat (sh_offset (sec ei i)) + k)"
      if "k < unat (sh_size (sec ei i))" for k
      using ca that unfolding apart_def by (intro trans [OF o2 o1]) (simp_all, linarith+)
    moreover have "unat (sh_offset (sec ei i)) + unat (sh_size (sec ei i)) \<le> length (ei_data ei)"
      using f [rule_format, OF i] t unfolding in_file_def tables_ok_def by linarith
    ultimately show ?thesis unfolding contents_of_def using len by (intro chunk_eqI) simp_all
  qed
  show "sh_offset (sec ei i) + sh_size (sec ei i) \<le> offset"
    if "i < shnum ei" "has_contents (sec ei i)" "sh_offset (sec ei i) < offset"
    using section_pass_returns [OF ls1] u2 that sec1 [OF that(1)] by (fastforce simp: section_spans_def)
qed

lemma program_table_end:
  assumes t: "tables_ok ei" and b: "ei_size ei < 2 ^ 64"
  shows "unat (eh_phoff (hdr ei) + ucast (eh_phnum (hdr ei)) * 56) = ei_pht ei + 56 * phnum ei"
proof -
  have "unat (ucast (eh_phnum (hdr ei)) :: u64) = phnum ei"
    using unsigned_less [of "eh_phnum (hdr ei)", where ?'a = nat] by (simp add: unsigned_ucast_eq take_bit_nat_eq_self)
  then have "unat (ucast (eh_phnum (hdr ei)) * 56 :: u64) = phnum ei * 56"
    using unsigned_less [of "eh_phnum (hdr ei)", where ?'a = nat] by (subst unat_mult64) simp_all
  then show ?thesis using t b by (subst unat_add64) (auto simp: tables_ok_def)
qed

text \<open>The four steps of \<open>shift_sections\<close>, when none of them fails.\<close>

lemma shift_sections_steps:
  assumes t: "tables_ok ei" and b: "ei_size ei < 2 ^ 64" and sh: "shift_sections fresh offset diff ei = Inr ei'"
  obtains ei1 ei2 where "unat offset < ei_size ei" "0 < sint diff" "ei_pht ei + 56 * phnum ei < unat offset"
    "update_each (shift_program offset diff) [0..<phnum ei] ei = Inr ei1"
    "update_each (shift_section offset diff) [0..<shnum ei] ei1 = Inr ei2"
    "ebind (eh_of (move_data fresh (unat offset) (unat diff) ei2)) (\<lambda>eh3.
       if eh_shoff eh3 \<ge> offset
       then ebind (store 0 (encode_header (eh3\<lparr>eh_shoff := eh_shoff eh3 + diff\<rparr>)) (move_data fresh (unat offset) (unat diff) ei2))
         (\<lambda>ei4. Inr (ei4\<lparr>ei_sht := unat (eh_shoff eh3 + diff)\<rparr>))
       else Inr (move_data fresh (unat offset) (unat diff) ei2)) = Inr ei'"
proof -
  note program_table_end [OF t b]
  then show ?thesis using that sh tables_ok_header [OF t]
    by (auto simp: shift_sections_def tool_simps Let_def word_less_nat_alt word_le_nat_alt not_le split: if_splits)
qed

lemma unat_diff_pos_less: "0 < sint (diff :: u64) \<Longrightarrow> 0 < unat diff \<and> unat diff < 2 ^ 63"
  using sint_neg_iff [of diff] by (cases "diff = 0") (auto simp: unat_gt_0)

lemma store_header_spec:
  assumes "64 \<le> length (ei_data e)" "length (eh_elf h) = 12" "store 0 (encode_header h) e = Inr e'"
  shows "e' = e\<lparr>ei_data := ei_data e'\<rparr>" "length (ei_data e') = length (ei_data e)" "hdr e' = h"
    "64 \<le> p \<Longrightarrow> ei_data e' ! p = ei_data e ! p"
proof -
  have e': "e' = e\<lparr>ei_data := patch (ei_data e) 0 (encode_header h)\<rparr>" using assms by (simp add: store_def)
  have fit: "0 + length (encode_header h) \<le> length (ei_data e)" using assms by simp
  show "e' = e\<lparr>ei_data := ei_data e'\<rparr>" by (simp add: e')
  show "length (ei_data e') = length (ei_data e)" using e' patch_length [OF fit] by simp
  show "hdr e' = h" using e' patch_inside [OF fit, of 0 64] assms(2) by (simp add: hdr_def)
  show "ei_data e' ! p = ei_data e ! p" if "64 \<le> p" using e' patch_nth_outside [OF fit, of p] assms(2) that by simp
qed

lemma hdr_elf_length: "16 \<le> length (ei_data e) \<Longrightarrow> length (eh_elf (hdr e)) = 12"
  by (simp add: hdr_def decode_header_def)

lemma shift_sections_bytes:
  assumes t: "tables_ok ei" and a: "tables_apart ei" and b: "ei_size ei + unat diff < 2 ^ 64"
    and f: "\<forall>i < shnum ei. has_contents (sec ei i) \<longrightarrow> in_file ei (sec ei i)"
    and sh: "shift_sections fresh offset diff ei = Inr ei'"
  obtains ei1 ei2 where
    "update_each (shift_program offset diff) [0..<phnum ei] ei = Inr ei1"
    "update_each (shift_section offset diff) [0..<shnum ei] ei1 = Inr ei2"
    "unat offset < ei_size ei" "ei_pht ei + 56 * phnum ei < unat offset"
    "ei_size ei' = ei_size ei + unat diff" "ei_size ei + unat diff \<le> length (ei_data ei')"
    "ei_pht ei' = ei_pht ei" "ei_ok ei' = ei_ok ei"
    "ei_sht ei' = (if unat offset \<le> ei_sht ei then ei_sht ei + unat diff else ei_sht ei)"
    "hdr ei' = (if unat offset \<le> ei_sht ei then (hdr ei)\<lparr>eh_shoff := eh_shoff (hdr ei) + diff\<rparr> else hdr ei)"
    "\<And>p. 64 \<le> p \<Longrightarrow> p < unat offset \<Longrightarrow> ei_data ei' ! p = ei_data ei2 ! p"
    "\<And>p. unat offset \<le> p \<Longrightarrow> p < ei_size ei \<Longrightarrow> ei_data ei' ! (p + unat diff) = ei_data ei2 ! p"
    "ei_symtab ei = None \<Longrightarrow> ei_nsymtab ei = 0 \<Longrightarrow> ei_symtab ei' = None \<and> ei_nsymtab ei' = 0"
proof -
  have b0: "ei_size ei < 2 ^ 64" using b by simp
  obtain ei1 ei2 where g: "unat offset < ei_size ei" "0 < sint diff" "ei_pht ei + 56 * phnum ei < unat offset"
    and u: "update_each (shift_program offset diff) [0..<phnum ei] ei = Inr ei1"
      "update_each (shift_section offset diff) [0..<shnum ei] ei1 = Inr ei2"
    and fin: "ebind (eh_of (move_data fresh (unat offset) (unat diff) ei2)) (\<lambda>eh3.
       if eh_shoff eh3 \<ge> offset
       then ebind (store 0 (encode_header (eh3\<lparr>eh_shoff := eh_shoff eh3 + diff\<rparr>)) (move_data fresh (unat offset) (unat diff) ei2))
         (\<lambda>ei4. Inr (ei4\<lparr>ei_sht := unat (eh_shoff eh3 + diff)\<rparr>))
       else Inr (move_data fresh (unat offset) (unat diff) ei2)) = Inr ei'"
    using shift_sections_steps [OF t b0 sh] by blast
  note T = shift_tables [OF t a f u]
  note d2 = data_only [OF T(1)]
  have sym2: "ei_symtab ei2 = ei_symtab ei" "ei_nsymtab ei2 = ei_nsymtab ei" using T(1) by (metis elf_info.select_convs(7,8) elf_info.surjective elf_info.update_convs(1))+
  have o64: "64 \<le> unat offset" using a g(3) by (simp add: tables_apart_def)
  let ?e = "move_data fresh (unat offset) (unat diff) ei2"
  have pre: "ei_pht ei2 = unat (eh_phoff (hdr ei2))" "ei_sht ei2 = unat (eh_shoff (hdr ei2))" "64 \<le> length (ei_data ei2)"
      "unat offset \<le> ei_size ei2" "ei_size ei2 \<le> length (ei_data ei2)"
    using t T(2,3) d2 g(1) by (simp_all add: tables_ok_def)
  note M = move_data_spec [OF pre, where fresh = fresh and diff = "unat diff"]
  have l64: "64 \<le> length (ei_data ?e)" using M(2) d2 o64 g(1) by linarith
  have h: "hdr ?e = hdr ei" using l64 pre(3) T(3) o64 M(7) by (subst hdr_cong [of ?e ei2]) simp_all
  have sht: "offset \<le> eh_shoff (hdr ei) \<longleftrightarrow> unat offset \<le> ei_sht ei" using t by (simp add: tables_ok_def word_le_nat_alt)
  have sum: "unat (eh_shoff (hdr ei) + diff) = ei_sht ei + unat diff"
    using t b by (subst unat_add64) (auto simp: tables_ok_def)
  show ?thesis
  proof (cases "unat offset \<le> ei_sht ei")
    case False
    then have "ei' = ?e" using fin table_reads(1) [OF l64] h sht by simp
    then show ?thesis using that [OF u g(1,3)] False M d2 h sym2 by simp
  next
    case True
    let ?h = "(hdr ei)\<lparr>eh_shoff := eh_shoff (hdr ei) + diff\<rparr>"
    obtain e4 where e4: "store 0 (encode_header ?h) ?e = Inr e4" "ei' = e4\<lparr>ei_sht := ei_sht ei + unat diff\<rparr>"
      using fin table_reads(1) [OF l64] h sht True sum by (auto simp: ebind_Inr_iff)
    have "length (eh_elf ?h) = 12" using hdr_elf_length [of ei] t by (simp add: tables_ok_def)
    note H = store_header_spec [OF l64 this e4(1)]
    have "hdr ei' = ?h" using H(3) e4(2) by (simp add: hdr_def)
    moreover have "ei_symtab e4 = ei_symtab ?e" "ei_nsymtab e4 = ei_nsymtab ?e"
      using H(1) by (metis elf_info.select_convs(7,8) elf_info.surjective elf_info.update_convs(1))+
    ultimately show ?thesis using that [OF u g(1,3)] True M d2 H e4(2) data_only [OF H(1)] o64 sym2 by simp
  qed
qed

lemma moved_section_simps [simp]:
  "sh_type (moved_section offset diff sh) = sh_type sh" "sh_name (moved_section offset diff sh) = sh_name sh"
  "sh_size (moved_section offset diff sh) = sh_size sh" "sh_link (moved_section offset diff sh) = sh_link sh"
  "has_contents (moved_section offset diff sh) = has_contents sh"
  by (simp_all add: moved_section_def has_contents_def)

lemma chunk_chunk: "i + k \<le> n \<Longrightarrow> chunk (chunk d off n) i k = chunk d (off + i) k"
  by (simp add: chunk_def drop_take min_absorb1 add.commute)

lemma chunk_nth: "off + n \<le> length d \<Longrightarrow> i < n \<Longrightarrow> chunk d off n ! i = d ! (off + i)"
  by (simp add: chunk_def)

lemma shift_sections_spec:
  assumes w: "wf_elf ei" and a: "tables_apart ei" and cut: "not_cut ei (unat offset)" and b: "ei_size ei + unat diff < 2 ^ 64"
    and sh: "shift_sections fresh offset diff ei = Inr ei'"
  shows "shnum ei' = shnum ei" "phnum ei' = phnum ei" "tables_ok ei'" "ei_size ei' = ei_size ei + unat diff" "ei_ok ei' = ei_ok ei"
    "i < phnum ei \<Longrightarrow> prog ei' i = moved_program offset diff (prog ei i)"
    "i < shnum ei \<Longrightarrow> sec ei' i = moved_section offset diff (sec ei i)"
    "i < shnum ei \<Longrightarrow> has_contents (sec ei i) \<Longrightarrow> in_file ei' (sec ei' i) \<and> contents_of ei' (sec ei' i) = contents_of ei (sec ei i)"
    "ei_symtab ei = None \<Longrightarrow> ei_nsymtab ei = 0 \<Longrightarrow> ei_symtab ei' = None \<and> ei_nsymtab ei' = 0"
proof -
  note t = wf_elf_size(2) [OF w]
  have f: "\<forall>i < shnum ei. has_contents (sec ei i) \<longrightarrow> in_file ei (sec ei i)"
    using wf_elf_section [OF w] by (simp add: section_ok_def)
  obtain ei1 ei2 where u: "update_each (shift_program offset diff) [0..<phnum ei] ei = Inr ei1"
      "update_each (shift_section offset diff) [0..<shnum ei] ei1 = Inr ei2"
    and g: "unat offset < ei_size ei" "ei_pht ei + 56 * phnum ei < unat offset"
    and sz: "ei_size ei' = ei_size ei + unat diff" "ei_size ei + unat diff \<le> length (ei_data ei')"
    and pht: "ei_pht ei' = ei_pht ei" "ei_ok ei' = ei_ok ei"
    and sht: "ei_sht ei' = (if unat offset \<le> ei_sht ei then ei_sht ei + unat diff else ei_sht ei)"
    and h: "hdr ei' = (if unat offset \<le> ei_sht ei then (hdr ei)\<lparr>eh_shoff := eh_shoff (hdr ei) + diff\<rparr> else hdr ei)"
    and low: "\<And>p. 64 \<le> p \<Longrightarrow> p < unat offset \<Longrightarrow> ei_data ei' ! p = ei_data ei2 ! p"
    and high: "\<And>p. unat offset \<le> p \<Longrightarrow> p < ei_size ei \<Longrightarrow> ei_data ei' ! (p + unat diff) = ei_data ei2 ! p"
    and cache: "ei_symtab ei = None \<Longrightarrow> ei_nsymtab ei = 0 \<Longrightarrow> ei_symtab ei' = None \<and> ei_nsymtab ei' = 0"
    by (rule shift_sections_bytes [OF t a b f sh]) (rule that)
  note T = shift_tables [OF t a f u]
  note d2 = data_only [OF T(1)]
  have a': "64 \<le> ei_pht ei" "64 \<le> ei_sht ei" using a by (simp_all add: tables_apart_def)
  have t': "ei_pht ei + 56 * phnum ei \<le> ei_size ei" "ei_sht ei + 64 * shnum ei \<le> ei_size ei" "ei_size ei \<le> length (ei_data ei)"
    using t by (simp_all add: tables_ok_def)
  show n: "shnum ei' = shnum ei" "phnum ei' = phnum ei" using h by simp_all
  have off: "unat (eh_shoff (hdr ei)) = ei_sht ei" using t by (simp add: tables_ok_def)
  then have sum: "unat (eh_shoff (hdr ei) + diff) = ei_sht ei + unat diff" using t'(2) b by (subst unat_add64) auto
  show "tables_ok ei'"
  proof -
    have "ei_sht ei' = unat (eh_shoff (hdr ei'))" using sht h sum off by simp
    moreover have "ei_sht ei' + 64 * shnum ei \<le> ei_size ei + unat diff" using sht t'(2) by auto
    ultimately show ?thesis using t sz pht h n by (auto simp: tables_ok_def)
  qed
  show "ei_size ei' = ei_size ei + unat diff" "ei_ok ei' = ei_ok ei" using sz pht by simp_all
  show "ei_symtab ei' = None \<and> ei_nsymtab ei' = 0" if "ei_symtab ei = None" "ei_nsymtab ei = 0" using cache that by simp
  show "prog ei' i = moved_program offset diff (prog ei i)" if i: "i < phnum ei"
  proof -
    have "ei_pht ei + 56 * i + 56 \<le> ei_pht ei + 56 * phnum ei" using i by simp
    then have "prog ei' i = prog ei2 i" using d2 pht T(2) t' sz g a'(1) by (intro prog_cong) (auto intro!: low)
    then show ?thesis using T(4) [OF i] by simp
  qed
  show s: "sec ei' i = moved_section offset diff (sec ei i)" if i: "i < shnum ei" for i
  proof -
    have i64: "ei_sht ei + 64 * i + 64 \<le> ei_sht ei + 64 * shnum ei" using i by simp
    have "sec ei' i = sec ei2 i"
    proof (rule sec_cong)
      fix p :: nat assume p: "p < 64"
      show "ei_data ei' ! (ei_sht ei' + 64 * i + p) = ei_data ei2 ! (ei_sht ei2 + 64 * i + p)"
      proof (cases "unat offset \<le> ei_sht ei")
        case True
        then show ?thesis using high [of "ei_sht ei + 64 * i + p"] sht d2 p i64 t'(2) by (simp add: ac_simps)
      next
        case False
        then have "ei_sht ei + 64 * shnum ei \<le> unat offset" using cut by (simp add: not_cut_def)
        then show ?thesis using low [of "ei_sht ei + 64 * i + p"] False sht d2 p i64 a'(2) by simp
      qed
    qed (use sht sz d2 T(2) i64 t' in auto)
    then show ?thesis using T(5) [OF i] by simp
  qed
  show "in_file ei' (sec ei' i) \<and> contents_of ei' (sec ei' i) = contents_of ei (sec ei i)"
    if i: "i < shnum ei" "has_contents (sec ei i)" for i
  proof -
    let ?s = "sec ei i"
    note fi = f [rule_format, OF i]
    have inf: "unat (sh_offset ?s) + unat (sh_size ?s) \<le> ei_size ei" "unat (sh_offset ?s) < ei_size ei"
      using fi unfolding in_file_def by linarith+
    have c64: "64 \<le> unat (sh_offset ?s)" using a i by (simp add: tables_apart_def)
    show ?thesis
    proof (cases "offset \<le> sh_offset ?s")
      case True
      have new: "unat (sh_offset (sec ei' i)) = unat (sh_offset ?s) + unat diff"
        using s [OF i(1)] True inf b by (simp add: moved_section_def unat_add64)
      have "contents_of ei' (sec ei' i) = contents_of ei2 ?s"
        unfolding contents_of_def using new s [OF i(1)] inf sz T(2) t' True
        by (auto simp: word_le_nat_alt ac_simps intro!: chunk_eqI high [of "unat (sh_offset ?s) + p" for p, simplified ac_simps])
      then show ?thesis using T(6) [OF i] new s [OF i(1)] inf sz by (simp add: in_file_def)
    next
      case False
      then have lt: "sh_offset ?s < offset" by simp
      have "unat (sh_offset ?s + sh_size ?s) = unat (sh_offset ?s) + unat (sh_size ?s)" using inf b by (subst unat_add64) auto
      then have below: "unat (sh_offset ?s) + unat (sh_size ?s) \<le> unat offset" using T(7) [OF i lt] by (simp add: word_le_nat_alt)
      have new: "sec ei' i = ?s" using s [OF i(1)] False by (simp add: moved_section_def)
      have "contents_of ei' (sec ei' i) = contents_of ei2 ?s"
        unfolding contents_of_def using new inf sz T(2) t' below c64 by (auto intro!: chunk_eqI low)
      then show ?thesis using T(6) [OF i] new inf sz by (simp add: in_file_def)
    qed
  qed
qed

subsection \<open>When moving succeeds\<close>

lemma shift_sections_returns:
  assumes w: "wf_elf ei" and a: "tables_apart ei"
    and o: "unat offset < ei_size ei" "0 < sint diff" "ei_pht ei + 56 * phnum ei < unat offset" "ei_size ei < 2 ^ 64"
    and p: "\<forall>i < phnum ei. \<not> program_spans offset (prog ei i)" and s: "\<forall>i < shnum ei. \<not> section_spans offset (sec ei i)"
  shows "\<exists>ei'. shift_sections fresh offset diff ei = Inr ei'"
proof -
  note t = wf_elf_size(2) [OF w]
  have lp: "ei_pht ei + 56 * phnum ei \<le> length (ei_data ei)" and ls: "ei_sht ei + 64 * shnum ei \<le> length (ei_data ei)"
    using t by (simp_all add: tables_ok_def)
  have f: "\<forall>i < shnum ei. has_contents (sec ei i) \<longrightarrow> in_file ei (sec ei i)"
    using wf_elf_section [OF w] by (simp add: section_ok_def)
  obtain ei1 where u1: "update_each (shift_program offset diff) [0..<phnum ei] ei = Inr ei1"
    using program_pass_returns [OF lp] p by blast
  have "ei_sht ei1 + 64 * shnum ei \<le> length (ei_data ei1)"
    using ls program_pass(2) [OF lp u1] data_only [OF program_pass(1) [OF lp u1]] by simp
  then obtain ei2 where u2: "update_each (shift_section offset diff) [0..<shnum ei] ei1 = Inr ei2"
    using section_pass_returns s program_pass_sec [OF t a u1] by metis
  note T = shift_tables [OF t a f u1 u2]
  note d2 = data_only [OF T(1)]
  have pre: "ei_pht ei2 = unat (eh_phoff (hdr ei2))" "ei_sht ei2 = unat (eh_shoff (hdr ei2))" "64 \<le> length (ei_data ei2)"
      "unat offset \<le> ei_size ei2" "ei_size ei2 \<le> length (ei_data ei2)"
    using t T(2,3) d2 o(1) by (simp_all add: tables_ok_def)
  let ?e = "move_data fresh (unat offset) (unat diff) ei2"
  note M = move_data_spec [OF pre, where fresh = fresh and diff = "unat diff"]
  have l64: "64 \<le> length (ei_data ?e)" using M(2) t d2 by (simp add: tables_ok_def)
  obtain e4 where "store 0 (encode_header ((hdr ?e)\<lparr>eh_shoff := eh_shoff (hdr ?e) + diff\<rparr>)) ?e = Inr e4"
    using l64 hdr_elf_length [of ?e] by (simp add: store_def)
  moreover have "\<not> offset \<le> eh_phoff (hdr ei) + ucast (eh_phnum (hdr ei)) * 56"
    using o(3) program_table_end [OF t o(4)] by (simp add: word_le_nat_alt)
  ultimately show ?thesis using o(1,2) u1 u2 tables_ok_header [OF t] table_reads(1) [OF l64]
    by (auto simp: shift_sections_def Let_def)
qed

subsection \<open>Well-formedness is kept\<close>

definition same_section :: "elf_info \<Rightarrow> elf_info \<Rightarrow> nat \<Rightarrow> bool" where
  "same_section ei ei' i \<longleftrightarrow>
     sh_type (sec ei' i) = sh_type (sec ei i) \<and> sh_name (sec ei' i) = sh_name (sec ei i)
     \<and> sh_size (sec ei' i) = sh_size (sec ei i) \<and> sh_link (sec ei' i) = sh_link (sec ei i)
     \<and> (has_contents (sec ei i) \<longrightarrow> in_file ei' (sec ei' i) \<and> contents_of ei' (sec ei' i) = contents_of ei (sec ei i))"

lemma same_section_trans: "same_section a b i \<Longrightarrow> same_section b c i \<Longrightarrow> same_section a c i"
  by (auto simp: same_section_def has_contents_def)

definition same_header :: "elf_info \<Rightarrow> elf_info \<Rightarrow> bool" where
  "same_header ei ei' \<longleftrightarrow> hdr ei' = (hdr ei)\<lparr>eh_shoff := eh_shoff (hdr ei')\<rparr>"

lemma shoff_only:
  assumes "h' = h\<lparr>eh_shoff := x\<rparr>"
  shows "eh_magic h' = eh_magic h" "eh_phentsize h' = eh_phentsize h" "eh_shentsize h' = eh_shentsize h"
    "eh_phnum h' = eh_phnum h" "eh_shnum h' = eh_shnum h" "eh_shstrndx h' = eh_shstrndx h"
  using assms by simp_all

lemmas same_header_simps = shoff_only [OF same_header_def [THEN iffD1]]

lemma contents_nth:
  assumes "in_file ei sh" "ei_size ei \<le> length (ei_data ei)" "k < unat (sh_size sh)"
  shows "contents_of ei sh ! k = ei_data ei ! (unat (sh_offset sh) + k)"
  using assms unfolding in_file_def contents_of_def by (intro chunk_nth) auto

lemma contents_symb:
  assumes "24 * j + 24 \<le> unat (sh_size sh)"
  shows "symb ei (unat (sh_offset sh)) j = decode_symbol (chunk (contents_of ei sh) (24 * j) 24)"
  using assms by (simp add: symb_def contents_of_def chunk_chunk) (simp add: chunk_def)

lemma wf_transfer:
  assumes w: "wf_elf ei" and t: "tables_ok ei'" and h: "same_header ei ei'"
    and s: "\<And>i. i < shnum ei \<Longrightarrow> same_section ei ei' i"
  shows "wf_elf ei'"
proof -
  note H = same_header_simps [OF h]
  note size = wf_elf_size(1) [OF w] and size' = t [unfolded tables_ok_def, THEN conjunct2, THEN conjunct1]
  note str = wf_elf_shstr(3) [OF w]
  have "section_ok ei' i" if i: "i < shnum ei" for i
  proof -
    note S = s [OF i] and ok = wf_elf_section [OF w i]
    have fi: "in_file ei' (sec ei' i)" "contents_of ei' (sec ei' i) = contents_of ei (sec ei i)" "in_file ei (sec ei i)"
      if "has_contents (sec ei i)"
      using S ok that by (simp_all add: same_section_def section_ok_def)
    have sym: "symtab_ok ei' (sec ei' i)" if y: "sh_type (sec ei i) = ELF_SHT_SYMTAB"
    proof -
      have o: "symtab_ok ei (sec ei i)" using ok y by (simp add: section_ok_def)
      then have l: "unat (sh_link (sec ei i)) < shnum ei" by (simp add: symtab_ok_def)
      have "symb ei' (unat (sh_offset (sec ei' i))) j = symb ei (unat (sh_offset (sec ei i))) j"
        if "j < unat (sh_size (sec ei i)) div 24" for j
      proof -
        have "24 * j + 24 \<le> unat (sh_size (sec ei i))" using that by linarith
        then show ?thesis using contents_symb [of j "sec ei i" ei] contents_symb [of j "sec ei' i" ei'] S fi(2) [OF has_contents_types(1) [OF y]]
          by (simp add: same_section_def)
      qed
      then show ?thesis using o S s [OF l] H(5) by (simp add: symtab_ok_def same_section_def)
    qed
    have "strtab_ok ei' (sec ei' i)" if y: "sh_type (sec ei i) = ELF_SHT_STRTAB"
    proof -
      have o: "strtab_ok ei (sec ei i)" using ok y by (simp add: section_ok_def)
      then have z: "0 < unat (sh_size (sec ei i))" by (simp add: strtab_ok_def unat_gt_0)
      have "ei_data ei' ! (unat (sh_offset (sec ei' i)) + k) = ei_data ei ! (unat (sh_offset (sec ei i)) + k)"
        if "k < unat (sh_size (sec ei i))" for k
        using fi [OF has_contents_types(2) [OF y]] contents_nth [OF _ size, of "sec ei i" k] contents_nth [OF _ size', of "sec ei' i" k] S that
        by (simp add: same_section_def)
      from this [of 0] this [of "unat (sh_size (sec ei i)) - 1"] show ?thesis using o z S
        by (simp add: strtab_ok_def same_section_def Suc_le_eq)
    qed
    with sym fi show ?thesis using S ok s [OF str] H(6) by (auto simp: section_ok_def same_section_def has_contents_def)
  qed
  then show ?thesis using w t H s [OF str] by (simp add: wf_elf_def same_section_def)
qed

lemma shift_sections_wf:
  assumes w: "wf_elf ei" and a: "tables_apart ei" and cut: "not_cut ei (unat offset)" and b: "ei_size ei + unat diff < 2 ^ 64"
    and sh: "shift_sections fresh offset diff ei = Inr ei'"
  shows "wf_elf ei'" "i < shnum ei \<Longrightarrow> same_section ei ei' i"
proof -
  note S = shift_sections_spec [OF w a cut b sh]
  show s: "same_section ei ei' i" if "i < shnum ei" for i
    using S(7,8) [OF that] by (simp add: same_section_def)
  have f: "\<forall>i < shnum ei. has_contents (sec ei i) \<longrightarrow> in_file ei (sec ei i)"
    using wf_elf_section [OF w] by (simp add: section_ok_def)
  have "same_header ei ei'"
    by (rule shift_sections_bytes [OF wf_elf_size(2) [OF w] a b f sh]) (simp add: same_header_def)
  then show "wf_elf ei'" using wf_transfer [OF w S(3)] s by blast
qed

lemma store_section_spec:
  assumes w: "wf_elf ei" and a: "tables_apart ei" and i: "i < shnum ei"
    and f: "sh_type sh = sh_type (sec ei i)" "sh_name sh = sh_name (sec ei i)" "sh_size sh = sh_size (sec ei i)"
      "sh_link sh = sh_link (sec ei i)" "sh_offset sh = sh_offset (sec ei i)"
    and st: "store (ei_sht ei + 64 * i) (encode_section sh) ei = Inr ei'"
  shows "ei' = ei\<lparr>ei_data := ei_data ei'\<rparr>" "hdr ei' = hdr ei" "sec ei' i = sh" "j < shnum ei \<Longrightarrow> j \<noteq> i \<Longrightarrow> sec ei' j = sec ei j"
    "wf_elf ei'" "tables_apart ei'" "j < shnum ei \<Longrightarrow> same_section ei ei' j" "k < phnum ei \<Longrightarrow> prog ei' k = prog ei k"
    "j < shnum ei \<Longrightarrow> sh_offset (sec ei' j) = sh_offset (sec ei j)"
proof -
  let ?o = "ei_sht ei + 64 * i"
  have t: "ei_sht ei + 64 * shnum ei \<le> ei_size ei" "ei_size ei \<le> length (ei_data ei)" "64 \<le> ei_size ei" "tables_ok ei"
    using wf_elf_size [OF w] by (simp_all add: tables_ok_def)
  have fit: "?o + length (encode_section sh) \<le> length (ei_data ei)" using t i by simp
  have e': "ei' = ei\<lparr>ei_data := patch (ei_data ei) ?o (encode_section sh)\<rparr>" using st fit by (simp add: store_def)
  then show u: "ei' = ei\<lparr>ei_data := ei_data ei'\<rparr>" by simp
  note d = data_only [OF u]
  have len: "length (ei_data ei') = length (ei_data ei)" using e' patch_length [OF fit] by simp
  have out: "ei_data ei' ! p = ei_data ei ! p" if "p < ?o \<or> ?o + 64 \<le> p" for p
    using e' patch_nth_outside [OF fit, of p] that by simp
  have a': "64 \<le> ei_sht ei" using a by (simp add: tables_apart_def)
  show h: "hdr ei' = hdr ei" using t len a' by (intro hdr_cong) (auto intro!: out)
  show si: "sec ei' i = sh" using e' patch_inside [OF fit, of 0 64] by (simp add: sec_def)
  show sj: "sec ei' j = sec ei j" if j: "j < shnum ei" "j \<noteq> i" for j
  proof (rule sec_cong)
    fix p :: nat assume "p < 64"
    then show "ei_data ei' ! (ei_sht ei' + 64 * j + p) = ei_data ei ! (ei_sht ei + 64 * j + p)"
      using j(2) d by (cases "j < i") (auto intro!: out)
  qed (use t j d len in auto)
  have offs: "sh_offset (sec ei' j) = sh_offset (sec ei j) \<and> sh_size (sec ei' j) = sh_size (sec ei j)
      \<and> sh_type (sec ei' j) = sh_type (sec ei j) \<and> sh_name (sec ei' j) = sh_name (sec ei j) \<and> sh_link (sec ei' j) = sh_link (sec ei j)"
    if "j < shnum ei" for j using si sj [OF that] f by (cases "j = i") simp_all
  then show "sh_offset (sec ei' j) = sh_offset (sec ei j)" if "j < shnum ei" using that by blast
  show "prog ei' k = prog ei k" if k: "k < phnum ei"
  proof -
    have "ei_pht ei + 56 * k + 56 \<le> ei_pht ei + 56 * phnum ei" using k by simp
    moreover have "ei_pht ei + 56 * phnum ei \<le> length (ei_data ei)" using t(4) by (simp add: tables_ok_def)
    moreover have "ei_pht ei + 56 * phnum ei \<le> ei_sht ei \<or> ei_sht ei + 64 * shnum ei \<le> ei_pht ei"
      using a by (simp add: tables_apart_def apart_def)
    ultimately show ?thesis using d len i by (intro prog_cong) (auto intro!: out)
  qed
  show ta: "tables_apart ei'" using offs a d h by (auto simp: tables_apart_def has_contents_def)
  show same: "same_section ei ei' j" if j: "j < shnum ei" for j
  proof -
    have "in_file ei' (sec ei' j) \<and> contents_of ei' (sec ei' j) = contents_of ei (sec ei j)" if c: "has_contents (sec ei j)"
    proof -
      have fi: "in_file ei (sec ei j)" using wf_elf_section [OF w j] c by (simp add: section_ok_def)
      have le: "unat (sh_offset (sec ei j)) + unat (sh_size (sec ei j)) \<le> length (ei_data ei)"
        using fi t unfolding in_file_def by linarith
      have "apart (unat (sh_offset (sec ei j)), unat (sh_size (sec ei j))) (ei_sht ei, 64 * shnum ei)"
        using a j c by (simp add: tables_apart_def)
      then have "contents_of ei' (sec ei' j) = contents_of ei (sec ei j)"
        unfolding contents_of_def using offs [OF j] le len i by (auto simp: apart_def intro!: chunk_eqI out)
      then show ?thesis using fi offs [OF j] d by (simp add: in_file_def)
    qed
    then show ?thesis using offs [OF j] by (simp add: same_section_def)
  qed
  have "tables_ok ei'" using t(4) d h len by (simp add: tables_ok_def)
  then show "wf_elf ei'" using wf_transfer [OF w _ _ same] h by (simp add: same_header_def)
qed

lemma page_round_up:
  assumes "unat x + 0x1000 < 2 ^ 64"
  shows "unat (x + (0x1000 - (x AND 0xFFF))) = unat x + (4096 - unat x mod 4096)"
    "unat (0x1000 - (x AND 0xFFF) :: u64) = 4096 - unat x mod 4096"
proof -
  have m: "unat (x AND 0xFFF) = unat x mod 4096"
  proof -
    have "x AND 0xFFF = take_bit 12 x" by (simp add: take_bit_eq_mask mask_eq_exp_minus_1)
    then have "unat (x AND 0xFFF) = take_bit 12 (unat x)" by (simp only: unsigned_take_bit_eq)
    then show ?thesis by (simp add: take_bit_eq_mod)
  qed
  show d: "unat (0x1000 - (x AND 0xFFF) :: u64) = 4096 - unat x mod 4096"
    using m by (subst unat_sub64) simp_all
  have "unat x mod 4096 < 4096" by simp
  then have p: "0 < unat (0x1000 - (x AND 0xFFF) :: u64)" "unat (0x1000 - (x AND 0xFFF) :: u64) \<le> 4096" using d by linarith+
  show "unat (x + (0x1000 - (x AND 0xFFF))) = unat x + (4096 - unat x mod 4096)"
    using assms p d by (subst unat_add64) simp_all
qed

lemma page_multiple: "(x + (4096 - x mod 4096)) mod 4096 = (0 :: nat)"
proof -
  define q r where "q = x div 4096" and "r = x mod 4096"
  then have "x = 4096 * q + r" "r < 4096" by simp_all
  then have "x + (4096 - r) = 4096 * (q + 1)" by simp
  then show ?thesis by (simp add: r_def)
qed

lemma changed_irrelevant:
  "hdr (ei\<lparr>ei_changed := c\<rparr>) = hdr ei" "sec (ei\<lparr>ei_changed := c\<rparr>) = sec ei" "prog (ei\<lparr>ei_changed := c\<rparr>) = prog ei"
  "wf_elf (ei\<lparr>ei_changed := c\<rparr>) = wf_elf ei" "tables_apart (ei\<lparr>ei_changed := c\<rparr>) = tables_apart ei"
  by (simp_all add: hdr_def sec_def prog_def wf_elf_def tables_ok_def section_ok_def symtab_ok_def strtab_ok_def in_file_def symb_def
      tables_apart_def fun_eq_iff)

lemma align_symtab_spec:
  assumes w: "wf_elf ei" and a: "tables_apart ei" and cut: "not_cut ei (unat (sh_offset (sec ei ndx)))"
    and b: "ei_size ei + 0x1000 < 2 ^ 64" and i: "ndx < shnum ei" and ty: "sh_type (sec ei ndx) = ELF_SHT_SYMTAB"
    and al: "align_symtab fresh ndx ei = Inr ei'"
  shows "wf_elf ei'" "j < shnum ei \<Longrightarrow> same_section ei ei' j" "unat (sh_offset (sec ei' ndx)) mod 4096 = 0" "shnum ei' = shnum ei"
proof -
  note t = wf_elf_size(2) [OF w]
  let ?sh = "sec ei ndx"
  let ?o = "sh_offset ?sh" and ?d = "0x1000 - (sh_offset ?sh AND 0xFFF)"
  have fi: "in_file ei ?sh" using wf_elf_section [OF w i] ty has_contents_types(1) by (simp add: section_ok_def)
  have ob: "unat ?o + 0x1000 < 2 ^ 64" using fi b unfolding in_file_def by linarith
  note P = page_round_up [OF ob]
  have ref: "same_section ei ei j" if "j < shnum ei" for j
    using wf_elf_section [OF w that] by (simp add: same_section_def section_ok_def)
  have "wf_elf ei' \<and> (\<forall>j < shnum ei. same_section ei ei' j) \<and> unat (sh_offset (sec ei' ndx)) mod 4096 = 0 \<and> shnum ei' = shnum ei"
  proof (cases "?o AND 0xFFF = 0")
    case True
    then have "ei' = ei" using al by (auto simp: align_symtab_def tool_simps tables_ok_section [OF t i] split: if_splits)
    moreover have "unat ?o mod 4096 = 0"
    proof -
      have "unat ?o mod 4096 = 4096 - (4096 - unat ?o mod 4096)" by simp
      also have "\<dots> = 0" using P(2) True by simp
      finally show ?thesis .
    qed
    ultimately show ?thesis using w ref by simp
  next
    case False
    let ?new = "?sh\<lparr>sh_addralign := 0x1000\<rparr>"
    obtain ei1 where e1: "store (ei_sht ei + 64 * ndx) (encode_section ?new) ei = Inr ei1"
      "shift_sections fresh ?o ?d (ei1\<lparr>ei_changed := True\<rparr>) = Inr ei'"
      using al False by (auto simp: align_symtab_def tool_simps tables_ok_section [OF t i] split: if_splits)
    let ?e = "ei1\<lparr>ei_changed := True\<rparr>"
    have eq: "hdr ?e = hdr ei1" "sec ?e = sec ei1" "wf_elf ?e = wf_elf ei1" "tables_apart ?e = tables_apart ei1"
      by (simp_all add: changed_irrelevant)
    note S = store_section_spec [OF w a i _ _ _ _ _ e1(1), simplified]
    note d = data_only [OF S(1)]
    have cut': "not_cut ?e (unat ?o)" using cut d S(2) eq(1) by (simp add: not_cut_def)
    have b': "ei_size ?e + unat ?d < 2 ^ 64" using b d P(2) by simp
    have w1: "wf_elf ?e" "tables_apart ?e" using S(5,6) eq by simp_all
    have i1: "ndx < shnum ?e" using i S(2) eq(1) by simp
    note H = shift_sections_spec [OF w1 cut' b' e1(2)] shift_sections_wf [OF w1 cut' b' e1(2)]
    have n: "shnum ei' = shnum ei" using H(1) S(2) eq(1) by simp
    have "same_section ei ei' j" if j: "j < shnum ei" for j
    proof (rule same_section_trans [OF S(7) [OF j]])
      have "same_section ?e ei' j" using H(11) [of j] j S(2) eq(1) by simp
      then show "same_section ei1 ei' j" using eq(2) by (auto simp: same_section_def contents_of_def)
    qed
    moreover have "sec ei' ndx = moved_section ?o ?d ?new" using H(7) [OF i1] S(3) eq(2) by simp
    then have "unat (sh_offset (sec ei' ndx)) = unat ?o + (4096 - unat ?o mod 4096)"
      using P(1) by (simp add: moved_section_def)
    then have "unat (sh_offset (sec ei' ndx)) mod 4096 = 0" using page_multiple [of "unat ?o"] by simp
    ultimately show ?thesis using H(10) n by simp
  qed
  then show "wf_elf ei'" "j < shnum ei \<Longrightarrow> same_section ei ei' j" "unat (sh_offset (sec ei' ndx)) mod 4096 = 0" "shnum ei' = shnum ei"
    by blast+
qed

text \<open>
  The conditions under which alignment succeeds: the string table follows the symbol table in the
  section table, and no program or section crosses the start of the symbol table.
\<close>

definition alignable :: "elf_info \<Rightarrow> nat \<Rightarrow> bool" where
  "alignable ei ndx \<longleftrightarrow> unat (sh_link (sec ei ndx)) = ndx + 1 \<and> sh_addralign (sec ei ndx) < 0x1000
     \<and> ei_pht ei + 56 * phnum ei < unat (sh_offset (sec ei ndx))
     \<and> (\<forall>i < phnum ei. \<not> program_spans (sh_offset (sec ei ndx)) (prog ei i))
     \<and> (\<forall>i < shnum ei. \<not> section_spans (sh_offset (sec ei ndx)) (sec ei i))"

lemma align_symtab_returns:
  assumes w: "wf_elf ei" and a: "tables_apart ei" and b: "ei_size ei + 0x1000 < 2 ^ 64"
    and i: "ndx < shnum ei" and ty: "sh_type (sec ei ndx) = ELF_SHT_SYMTAB" and al: "alignable ei ndx"
  shows "\<exists>ei'. align_symtab fresh ndx ei = Inr ei'"
proof (cases "sh_offset (sec ei ndx) AND 0xFFF = 0")
  case aligned: True
  have "symtab_ok ei (sec ei ndx)" using wf_elf_section [OF w i] ty by (simp add: section_ok_def)
  then show ?thesis using aligned al tables_ok_header [OF wf_elf_size(2) [OF w]]
      tables_ok_section [OF wf_elf_size(2) [OF w]] i
    by (simp add: align_symtab_def symtab_ok_def alignable_def)
next
  case False
  note t = wf_elf_size(2) [OF w]
  let ?sh = "sec ei ndx"
  let ?o = "sh_offset ?sh" and ?d = "0x1000 - (sh_offset ?sh AND 0xFFF)"
  let ?new = "?sh\<lparr>sh_addralign := 0x1000\<rparr>"
  have fi: "in_file ei ?sh" and sy: "symtab_ok ei ?sh"
    using wf_elf_section [OF w i] ty has_contents_types(1) by (simp_all add: section_ok_def)
  have ob: "unat ?o + 0x1000 < 2 ^ 64" using fi b unfolding in_file_def by linarith
  have dd: "0 < unat ?d" "unat ?d \<le> 4096" using page_round_up(2) [OF ob] mod_less_divisor [of 4096 "unat ?o"] by simp_all
  then have "?d \<noteq> 0" by (metis unat_0 less_irrefl)
  then have "sint ?d \<noteq> 0" by (simp only: signed_eq_0_iff not_False_eq_True)
  moreover have "\<not> sint ?d < 0" using dd by (simp only: sint_neg_iff) simp
  ultimately have dpos: "0 < sint ?d" by linarith
  have "ei_sht ei + 64 * ndx + 64 \<le> ei_sht ei + 64 * shnum ei" using i by simp
  then have "ei_sht ei + 64 * ndx + 64 \<le> length (ei_data ei)" using t by (simp add: tables_ok_def)
  then obtain ei1 where e1: "store (ei_sht ei + 64 * ndx) (encode_section ?new) ei = Inr ei1" by (simp add: store_def)
  let ?e = "ei1\<lparr>ei_changed := True\<rparr>"
  note S = store_section_spec [OF w a i _ _ _ _ _ e1, simplified]
  note d = data_only [OF S(1)]
  have eq: "hdr ?e = hdr ei1" "sec ?e = sec ei1" "prog ?e = prog ei1" "wf_elf ?e = wf_elf ei1" "tables_apart ?e = tables_apart ei1"
    by (simp_all add: changed_irrelevant)
  have sp: "section_spans x (sec ei1 j) = section_spans x (sec ei j)" if "j < shnum ei" for x j
    using S(7,9) [OF that] by (simp add: section_spans_def same_section_def has_contents_def)
  have "\<exists>ei'. shift_sections fresh ?o ?d ?e = Inr ei'"
  proof (rule shift_sections_returns)
    show "\<forall>i < phnum ?e. \<not> program_spans ?o (prog ?e i)" using al S(8) eq S(2) by (simp add: alignable_def)
    show "\<forall>i < shnum ?e. \<not> section_spans ?o (sec ?e i)" using al sp eq S(2) by (simp add: alignable_def)
  qed (use S(2,5,6) eq d fi b al dpos in \<open>simp_all add: in_file_def alignable_def\<close>)
  then obtain ei' where "shift_sections fresh ?o ?d ?e = Inr ei'" ..
  then have "align_symtab fresh ndx ei = Inr ei'"
    using False al sy tables_ok_header [OF t] tables_ok_section [OF t] i e1
    by (simp add: align_symtab_def symtab_ok_def alignable_def not_le)
  then show ?thesis by blast
qed

text \<open>
  C21: Aligning the symbol table of a well-formed file succeeds, puts the table on a page boundary,
  keeps the contents of every section and yields a file that is still well-formed. This needs, of
  the file: the header, both tables and the contents of the sections do not overlap; the symbol
  table lies behind the program-header table, is followed by its string table in the section table
  and has an alignment below 4096; no program and no section crosses its start, and neither does
  the section-header table; and the grown file is smaller than 2^64 bytes.
\<close>
theorem align_symtab_correct:
  assumes w: "wf_elf ei" and a: "tables_apart ei" and cut: "not_cut ei (unat (sh_offset (sec ei ndx)))"
    and b: "ei_size ei + 0x1000 < 2 ^ 64" and i: "ndx < shnum ei" and ty: "sh_type (sec ei ndx) = ELF_SHT_SYMTAB"
    and al: "alignable ei ndx"
  shows "\<exists>ei'. align_symtab fresh ndx ei = Inr ei' \<and> wf_elf ei' \<and> shnum ei' = shnum ei
    \<and> unat (sh_offset (sec ei' ndx)) mod 4096 = 0
    \<and> (\<forall>j < shnum ei. has_contents (sec ei j) \<longrightarrow> contents_of ei' (sec ei' j) = contents_of ei (sec ei j))"
proof -
  obtain ei' where e: "align_symtab fresh ndx ei = Inr ei'" using align_symtab_returns [OF w a b i ty al] by blast
  note S = align_symtab_spec [OF w a cut b i ty e]
  show ?thesis using e S(1,3,4) S(2) by (intro exI [of _ ei']) (auto simp: same_section_def)
qed

subsection \<open>The kernel reads the table\<close>

lemma loadn_le_val:
  "(\<And>k. k < length bs \<Longrightarrow> m (a + of_nat k) = bs ! k) \<Longrightarrow> loadn (length bs) m a = le_val bs"
proof (induction bs arbitrary: a)
  case (Cons b bs)
  have "m (a + 1 + of_nat k) = bs ! k" if "k < length bs" for k
    using Cons.prems [of "Suc k"] that by (simp add: ac_simps)
  then show ?case using Cons.IH [of "a + 1"] Cons.prems [of 0] by simp
qed simp

definition table_loaded :: "memory \<Rightarrow> symtabref \<Rightarrow> elf_info \<Rightarrow> nat \<Rightarrow> bool" where
  "table_loaded m T ei base \<longleftrightarrow> (\<forall>k < 24 * unat (symtab_nsym T). m (symtab_sym T + of_nat k) = ei_data ei ! (base + k))"

lemma table_loaded_value:
  assumes l: "table_loaded m T ei base" and n: "base + 24 * unat (symtab_nsym T) \<le> length (ei_data ei)" and i: "i < unat (symtab_nsym T)"
  shows "st_value m T (of_nat i) = sy_value (symb ei base i)"
proof -
  let ?bs = "take 8 (drop (base + 24 * i + 8) (ei_data ei))"
  have i24: "24 * i + 24 \<le> 24 * unat (symtab_nsym T)" using i by simp
  then have len: "length ?bs = 8" using n by simp
  have "m (symtab_sym T + 24 * of_nat i + 8 + of_nat k) = ?bs ! k" if "k < 8" for k
  proof -
    have "m (symtab_sym T + of_nat (24 * i + 8 + k)) = ei_data ei ! (base + (24 * i + 8 + k))"
      using l i24 that by (simp add: table_loaded_def del: of_nat_add of_nat_mult)
    then show ?thesis using that len n i24 by (simp add: ac_simps)
  qed
  then have "loadn 8 m (symtab_sym T + 24 * of_nat i + 8) = le_val ?bs" using loadn_le_val [of ?bs] len by simp
  moreover have "field (take 24 (drop (base + 24 * i) (ei_data ei))) 8 8 = le_val ?bs"
    by (simp add: field_def drop_take ac_simps)
  ultimately show ?thesis by (simp add: st_value_def load64_def symb_def decode_symbol_def)
qed

lemma sorted_table:
  assumes w: "wf_elf ei" and ok: "ei_ok ei" and c: "cache_ok ei"
    and tab: "symtab ei = Inr ei1" "sort_symtab ei = Inr ei2"
    and first: "sy_value (symb ei1 (the (ei_symtab ei1)) 0) = 0"
    and plain: "\<And>i. i < ei_nsymtab ei1 \<Longrightarrow> \<not> special (symb ei1 (the (ei_symtab ei1)) i)"
    and n: "ei_nsymtab ei1 \<noteq> 0"
  shows "the (ei_symtab ei1) + 24 * ei_nsymtab ei1 \<le> length (ei_data ei2)"
    "i < j \<Longrightarrow> j < ei_nsymtab ei1 \<Longrightarrow>
      sy_value (symb ei2 (the (ei_symtab ei1)) i) \<le> sy_value (symb ei2 (the (ei_symtab ei1)) j)"
proof -
  let ?base = "the (ei_symtab ei1)" and ?n = "ei_nsymtab ei1"
  let ?xs = "symbols ei1 (?base + 24) (?n - 1)" and ?ys = "symbols ei2 (?base + 24) (?n - 1)"
  have S: "?ys = sort_key symbol_key ?xs" "length (ei_data ei2) = length (ei_data ei)"
      "\<And>p. p < ?base + 24 \<Longrightarrow> ei_data ei2 ! p = ei_data ei ! p"
    using sort_symtab_spec [OF w ok c] tab by (simp_all add: Let_def)
  have w1: "wf_elf ei1" "cache_ok ei1" "ei_data ei1 = ei_data ei"
    using symtab_spec [OF w ok c] tab(1) w wf_elf_cache(1) by auto
  show fit: "?base + 24 * ?n \<le> length (ei_data ei2)"
    using cached_reads(3) [OF w1(1,2), of 0] n S(2) w1(3) by simp
  assume ij: "i < j" "j < ?n"
  have len: "length ?ys = ?n - 1" by (simp add: symbols_def)
  have sy: "symb ei2 ?base (Suc k) = ?ys ! k" if "k < ?n - 1" for k using that by (simp add: symbols_nth)
  have pl: "\<not> special (?ys ! k)" if "k < ?n - 1" for k
  proof -
    have "?ys ! k \<in> set ?xs" using S(1) that len by (metis nth_mem set_sort)
    then obtain l where "l < ?n - 1" "?ys ! k = ?xs ! l" by (metis in_set_conv_nth len length_sort S(1))
    then show ?thesis using plain [of "Suc l"] by (simp add: symbols_nth)
  qed
  show "sy_value (symb ei2 ?base i) \<le> sy_value (symb ei2 ?base j)"
  proof (cases i)
    case 0
    have "symb ei2 ?base 0 = symb ei1 ?base 0"
      using chunk_eqI [of ?base 24 "ei_data ei2" ?base "ei_data ei1"] fit n S(2,3) w1(3)
      by (simp add: symb_def chunk_def)
    then show ?thesis using first 0 by simp
  next
    case (Suc k)
    then obtain l where l: "j = Suc l" "k < l" "l < ?n - 1" using ij by (cases j) auto
    have "sorted (map symbol_key ?ys)" using S(1) by simp
    then have "symbol_key (?ys ! k) \<le> symbol_key (?ys ! l)" using l len by (auto simp: sorted_iff_nth_mono)
    then have "sy_value (?ys ! k) \<le> sy_value (?ys ! l)"
      using pl [of k] pl [of l] l by (auto simp: symbol_key_def less_eq_prod_def)
    then show ?thesis using sy [of k] sy [of l] l Suc by simp
  qed
qed

text \<open>
  C22: When the table that \<open>sort_symtab\<close> left in the file is loaded into memory, the
  binary search of the kernel finds for an address what a search of all entries finds, provided
  the table has no section or file symbols and no two symbols have that address.
\<close>
theorem kernel_symbol_lookup:
  assumes w: "wf_elf ei" "ei_ok ei" "cache_ok ei" and tab: "symtab ei = Inr ei1" "sort_symtab ei = Inr ei2"
    and first: "sy_value (symb ei1 (the (ei_symtab ei1)) 0) = 0"
    and plain: "\<And>i. i < ei_nsymtab ei1 \<Longrightarrow> \<not> special (symb ei1 (the (ei_symtab ei1)) i)"
    and T: "unat (symtab_nsym T) = ei_nsymtab ei1" "table_loaded (symtab_map L m) T ei2 (the (ei_symtab ei1))"
    and uniq: "address_unique (symtab_map L m) T a"
  shows "fst (lookup_symbol L T a m) = linear_lookup (symtab_map L m) T a"
proof -
  have "symbols_sorted (symtab_map L m) T"
    unfolding symbols_sorted_def
  proof (intro allI impI, elim conjE)
    fix i j assume ij: "i < j" "j < unat (symtab_nsym T)"
    then have n: "ei_nsymtab ei1 \<noteq> 0" using T(1) by simp
    note S = sorted_table [OF w tab first plain n]
    show "st_value (symtab_map L m) T (of_nat i) \<le> st_value (symtab_map L m) T (of_nat j)"
      using table_loaded_value [OF T(2)] S(1) S(2) [of i j] T(1) ij by simp
  qed
  then have "lookup_loop (symtab_map L m) T a 0 (symtab_nsym T) = linear_lookup (symtab_map L m) T a"
    by (intro lookup_loop_linear [OF _ uniq]) simp_all
  then show ?thesis by (simp add: lookup_symbol_def Let_def)
qed

subsection \<open>An example file\<close>

definition demo_header :: elf_header where
  "demo_header = \<lparr>eh_magic = ELF_MAGIC, eh_elf = replicate 12 0, eh_type = 2, eh_machine = 62, eh_version = 1,
     eh_entry = 0x40000, eh_phoff = 64, eh_shoff = 232, eh_flags = 0, eh_ehsize = 64, eh_phentsize = 56, eh_phnum = 1,
     eh_shentsize = 64, eh_shnum = 4, eh_shstrndx = 3\<rparr>"

definition demo_program :: elf_program where
  "demo_program = \<lparr>ph_type = 1, ph_flags = 5, ph_offset = 0, ph_va = 0x40000, ph_pa = 0x40000, ph_filesz = 128,
     ph_memsz = 128, ph_align = 0x1000\<rparr>"

definition demo_section :: "u32 \<Rightarrow> u32 \<Rightarrow> u64 \<Rightarrow> u64 \<Rightarrow> u32 \<Rightarrow> elf_section" where
  "demo_section name type off sz link = \<lparr>sh_name = name, sh_type = type, sh_flags = 0, sh_addr = 0, sh_offset = off,
     sh_size = sz, sh_link = link, sh_info = 0, sh_addralign = 8, sh_entsize = 0\<rparr>"

definition demo_symbol :: "u32 \<Rightarrow> u64 \<Rightarrow> elf_symbol" where
  "demo_symbol name value = \<lparr>sy_name = name, sy_info = 2, sy_other = 0, sy_shndx = 1, sy_value = value, sy_size = 0\<rparr>"

definition demo_bytes :: "u8 list" where
  "demo_bytes =
     encode_header demo_header @ encode_program demo_program @ replicate 8 0
     @ encode_symbol (demo_symbol 0 0) @ encode_symbol (demo_symbol 3 0x40200) @ encode_symbol (demo_symbol 1 0x40100)
     @ [0, 97, 0, 98, 0] @ (0 # ascii ''.symtab'' @ 0 # ascii ''.strtab'' @ 0 # ascii ''.shstrtab'' @ [0])
     @ encode_section (demo_section 0 0 0 0 0) @ encode_section (demo_section 1 2 128 72 2)
     @ encode_section (demo_section 9 3 200 5 0) @ encode_section (demo_section 17 3 205 27 0)"

definition demo_elf :: elf_info where
  "demo_elf = new_info\<lparr>ei_data := demo_bytes, ei_size := 488, ei_pht := 64, ei_sht := 232, ei_ok := True\<rparr>"

lemma demo_parts:
  "hdr demo_elf = demo_header" "prog demo_elf 0 = demo_program"
  "sec demo_elf 0 = demo_section 0 0 0 0 0" "sec demo_elf 1 = demo_section 1 2 128 72 2"
  "sec demo_elf 2 = demo_section 9 3 200 5 0" "sec demo_elf 3 = demo_section 17 3 205 27 0"
  "symb demo_elf 128 0 = demo_symbol 0 0" "symb demo_elf 128 1 = demo_symbol 3 0x40200" "symb demo_elf 128 2 = demo_symbol 1 0x40100"
  "length (ei_data demo_elf) = 488"
  by (simp_all add: hdr_def prog_def sec_def symb_def demo_elf_def demo_bytes_def demo_header_def ascii_def)

lemma demo_types [simp]:
  "sh_type (demo_section a b c d e) = b" "sh_name (demo_section a b c d e) = a" "sh_offset (demo_section a b c d e) = c"
  "sh_size (demo_section a b c d e) = d" "sh_link (demo_section a b c d e) = e" "sh_addralign (demo_section a b c d e) = 8"
  "sy_name (demo_symbol x y) = x" "sy_value (demo_symbol x y) = y" "sy_info (demo_symbol x y) = 2"
  by (simp_all add: demo_section_def demo_symbol_def)

lemmas demo_tables = demo_parts(1,2,3) demo_parts(4,5,6,7,8,9,10) [unfolded One_nat_def]

lemma demo_counts: "ei_sht demo_elf = 232" "ei_pht demo_elf = 64" "ei_size demo_elf = 488" "ei_ok demo_elf" "ei_symtab demo_elf = None"
    "ei_nsymtab demo_elf = 0" "eh_shnum demo_header = 4" "eh_phnum demo_header = 1" "eh_shstrndx demo_header = 3"
    "eh_phoff demo_header = 64" "eh_shoff demo_header = 232"
  by (simp_all add: demo_header_def demo_elf_def new_info_def)

lemma less4: "(i :: nat) < 4 \<longleftrightarrow> i = 0 \<or> i = 1 \<or> i = 2 \<or> i = 3"
  by auto

lemma less3: "(i :: nat) < 3 \<longleftrightarrow> i = 0 \<or> i = 1 \<or> i = 2"
  by auto

lemma demo_strings: "ei_data demo_elf ! 200 = 0" "ei_data demo_elf ! 204 = 0" "ei_data demo_elf ! 205 = 0" "ei_data demo_elf ! 231 = 0"
  by (simp_all add: demo_elf_def demo_bytes_def demo_header_def ascii_def nth_append)

lemma demo_wf: "wf_elf demo_elf"
proof -
  have "symtab_ok demo_elf (sec demo_elf 1)"
    by (simp add: symtab_ok_def demo_counts demo_tables less3 sht_consts all_conj_distrib)
  moreover have "strtab_ok demo_elf (sec demo_elf 2)" "strtab_ok demo_elf (sec demo_elf 3)"
    by (simp_all add: strtab_ok_def demo_tables demo_strings)
  ultimately have "section_ok demo_elf i" if "i < 4" for i
    using that by (auto simp: less4 section_ok_def demo_counts demo_tables has_contents_def in_file_def sht_consts)
  moreover have "tables_ok demo_elf" by (simp add: tables_ok_def demo_counts demo_tables)
  ultimately show ?thesis by (simp add: wf_elf_def demo_counts demo_tables demo_header_def sht_consts)
qed

lemma demo_apart: "tables_apart demo_elf"
  by (auto simp: tables_apart_def demo_counts demo_tables apart_def less4 has_contents_def sht_consts)

lemma demo_name: "cstr demo_elf 206 = ascii ''.symtab''"
  by (simp add: cstr_def demo_elf_def demo_bytes_def demo_header_def ascii_def)

theorem align_symtab_correct_witness:
  "\<exists>ei'. align_symtab (\<lambda>_. 0) 1 demo_elf = Inr ei' \<and> unat (sh_offset (sec ei' 1)) mod 4096 = 0
    \<and> contents_of ei' (sec ei' 2) = [0, 97, 0, 98, 0]"
proof -
  have al: "alignable demo_elf 1"
    by (auto simp: alignable_def demo_tables demo_counts program_spans_def section_spans_def demo_program_def less4 has_contents_def sht_consts)
  have "contents_of demo_elf (sec demo_elf 2) = [0, 97, 0, 98, 0]"
    by (simp add: contents_of_def demo_parts) (simp add: chunk_def demo_elf_def demo_bytes_def demo_header_def ascii_def)
  moreover have "not_cut demo_elf (unat (sh_offset (sec demo_elf 1)))" "ei_size demo_elf + 0x1000 < 2 ^ 64" "1 < shnum demo_elf"
      "sh_type (sec demo_elf 1) = ELF_SHT_SYMTAB" "2 < shnum demo_elf" "has_contents (sec demo_elf 2)"
    by (simp_all add: not_cut_def demo_counts demo_tables sht_consts has_contents_def)
  ultimately show ?thesis
    using align_symtab_correct [OF demo_wf demo_apart _ _ _ _ al, where fresh = "\<lambda>_. 0"] by metis
qed

lemma demo_symtab_found:
  "symtab demo_elf = Inr (demo_elf\<lparr>ei_symtab := Some 128, ei_nsymtab := 3, ei_symstrtab := 200\<rparr>)"
proof -
  have "find_section demo_elf (ascii ''.symtab'') = Inr (case find (\<lambda>i. section_name demo_elf i = ascii ''.symtab'') [0..<4] of Some i \<Rightarrow> i | None \<Rightarrow> 0)"
    using find_section_spec [OF demo_wf demo_counts(4), of "ascii ''.symtab''"] by (simp add: demo_tables demo_counts ascii_def)
  moreover have "section_name demo_elf 0 = []" "section_name demo_elf 1 = ascii ''.symtab''"
    using demo_name by (simp_all add: section_name_def demo_tables demo_counts)
      (simp add: cstr_def demo_elf_def demo_bytes_def demo_header_def ascii_def)
  ultimately have "find_section demo_elf (ascii ''.symtab'') = Inr 1" by (simp add: upt_rec ascii_def)
  moreover have "section_at demo_elf 1 = Inr (sec demo_elf 1)" "section_at demo_elf 2 = Inr (sec demo_elf 2)"
    by (intro table_reads(2); simp add: demo_counts demo_tables)+
  ultimately show ?thesis by (simp add: symtab_def demo_counts demo_tables sht_consts)
qed

subsection \<open>The tool's guarantees\<close>

text \<open>
  C23: \<open>elf_info::validate\<close> accepts exactly the well-formed files: header, tables and
  section contents inside the file, names inside their string tables, string tables that end in a
  zero byte.
\<close>
theorem validate_accepts:
  assumes "ei_size ei \<le> length (ei_data ei)" "length (ei_data ei) < 2 ^ 64" "\<not> ei_ok ei"
  shows "validate ei = Inr ei' \<longleftrightarrow>
    wf_elf ei' \<and> ei' = ei\<lparr>ei_pht := unat (eh_phoff (hdr ei)), ei_sht := unat (eh_shoff (hdr ei)), ei_ok := True\<rparr>"
  by (rule validate_iff [OF assms])

definition demo_unread :: elf_info where
  "demo_unread = demo_elf\<lparr>ei_pht := 0, ei_sht := 0, ei_ok := False\<rparr>"

lemma demo_unread_facts:
  "ei_size demo_unread \<le> length (ei_data demo_unread)" "length (ei_data demo_unread) < 2 ^ 64" "\<not> ei_ok demo_unread"
  "demo_elf = demo_unread\<lparr>ei_pht := unat (eh_phoff (hdr demo_unread)), ei_sht := unat (eh_shoff (hdr demo_unread)), ei_ok := True\<rparr>"
proof -
  have "hdr demo_unread = demo_header" using demo_tables(1) by (simp add: demo_unread_def hdr_def)
  then show "demo_elf = demo_unread\<lparr>ei_pht := unat (eh_phoff (hdr demo_unread)), ei_sht := unat (eh_shoff (hdr demo_unread)), ei_ok := True\<rparr>"
    by (simp add: demo_counts) (simp add: demo_unread_def demo_elf_def)
qed (use demo_tables(10) demo_counts in \<open>simp_all add: demo_unread_def\<close>)

theorem validate_accepts_witness: "validate demo_unread = Inr demo_elf"
  using validate_accepts [OF demo_unread_facts(1-3)] demo_unread_facts(4) demo_wf by blast

lemma find_section_view:
  assumes "wf_elf ei" "ei_ok ei" "view_of ei d" "0 \<notin> set nm"
  shows "find_section (ei\<lparr>ei_data := d\<rparr>) nm =
    Inr (case find (\<lambda>i. section_name ei i = nm) [0..<shnum ei] of Some i \<Rightarrow> i | None \<Rightarrow> 0)"
proof -
  have "find (\<lambda>i. section_name (ei\<lparr>ei_data := d\<rparr>) i = nm) [0..<shnum ei] = find (\<lambda>i. section_name ei i = nm) [0..<shnum ei]"
    by (rule find_cong) (simp_all add: view_names(1) [OF assms(1,3)])
  then show ?thesis
    using find_section_spec [OF view_wf [OF assms(1,3)] _ assms(4)] assms(2) view_tables(1) [OF assms(1,3)] by simp
qed

lemma symtab_view:
  assumes w: "wf_elf ei" and ok: "ei_ok ei" and v: "view_of ei d" and s: "symtab ei = Inr ei'"
  shows "symtab (ei\<lparr>ei_data := d\<rparr>) = Inr (ei'\<lparr>ei_data := d\<rparr>)"
proof (cases "ei_symtab ei = None")
  case True
  have nm: "0 \<notin> set (ascii ''.symtab'')" by (simp add: ascii_def)
  let ?r = "case find (\<lambda>i. section_name ei i = ascii ''.symtab'') [0..<shnum ei] of Some i \<Rightarrow> i | None \<Rightarrow> 0"
  have f: "find_section ei (ascii ''.symtab'') = Inr ?r" "find_section (ei\<lparr>ei_data := d\<rparr>) (ascii ''.symtab'') = Inr ?r"
    using find_section_spec [OF w ok nm] find_section_view [OF w ok v nm] by simp_all
  have at: "section_at ei i = Inr (sec ei i)" "section_at (ei\<lparr>ei_data := d\<rparr>) i = Inr (sec ei i)" if "i < shnum ei" for i
    using tables_ok_section [OF wf_elf_size(2) [OF w] that] tables_ok_section [OF wf_elf_size(2) [OF view_wf [OF w v]], of i]
      view_tables [OF w v] that by simp_all
  have r: "?r < shnum ei" if "?r \<noteq> 0" using that by (auto simp: find_Some_iff split: option.splits)
  have "unat (sh_link (sec ei ?r)) < shnum ei" if "?r \<noteq> 0" "sh_type (sec ei ?r) = ELF_SHT_SYMTAB"
    using wf_elf_section [OF w r [OF that(1)]] that(2) by (simp add: section_ok_def symtab_ok_def)
  then show ?thesis using s f at r True by (auto simp: symtab_def)
qed (use s in \<open>auto simp: symtab_def\<close>)

lemma find_symbol_view:
  assumes w: "wf_elf ei" "ei_ok ei" "cache_ok ei" and v: "view_of ei d" and s: "symtab ei = Inr ei'" and nm: "0 \<notin> set nm"
    and after: "after \<noteq> None \<longrightarrow> ei_symtab ei \<noteq> None"
  shows "find_symbol nm after (ei\<lparr>ei_data := d\<rparr>) =
    Inr (find (\<lambda>i. symbol_name ei' i = nm) [(case after of None \<Rightarrow> 0 | Some k \<Rightarrow> k + 1)..<ei_nsymtab ei'], ei'\<lparr>ei_data := d\<rparr>)"
proof -
  obtain a b c where e: "ei' = ei\<lparr>ei_symtab := a, ei_nsymtab := b, ei_symstrtab := c\<rparr>" and c': "cache_ok ei'"
    using symtab_spec [OF w] s by auto
  have w': "wf_elf ei'" and v': "view_of ei' d" using w(1) v by (simp_all add: e view_of_def)
  have "find_symbol nm after (ei\<lparr>ei_data := d\<rparr>) = Inr (find (\<lambda>i. symbol_name (ei'\<lparr>ei_data := d\<rparr>) i = nm)
      [(case after of None \<Rightarrow> 0 | Some k \<Rightarrow> k + 1)..<ei_nsymtab ei'], ei'\<lparr>ei_data := d\<rparr>)"
    using find_symbol_spec [OF view_wf [OF w(1) v] _ view_names(2) [OF w(1) v w(3)] nm, of after] after w(2)
      symtab_view [OF w(1,2) v s] by auto
  moreover have "find (\<lambda>i. symbol_name (ei'\<lparr>ei_data := d\<rparr>) i = nm) [k..<ei_nsymtab ei']
      = find (\<lambda>i. symbol_name ei' i = nm) [k..<ei_nsymtab ei']" for k
    by (rule find_cong) (simp_all add: view_names(3) [OF w' v' c'])
  ultimately show ?thesis by simp
qed

text \<open>
  C24: On a file that \<open>validate\<close> accepted, whatever follows the file in its allocation and
  even when nothing does, \<open>find_section\<close> returns the first section with the given
  name, \<open>find_symbol\<close> the first symbol with it, and once the symbol table is loaded
  \<open>find_symbol\<close> with a symbol the first one after that symbol; none of them reads
  outside the file.
\<close>
theorem validated_lookups:
  assumes "ei_size ei \<le> length (ei_data ei)" "length (ei_data ei) < 2 ^ 64" "\<not> ei_ok ei" "ei_symtab ei = None" "ei_nsymtab ei = 0"
    and "validate ei = Inr ei1" and "0 \<notin> set nm"
  shows "\<exists>ei2. symtab ei1 = Inr ei2 \<and> (\<forall>d. take (ei_size ei) d = take (ei_size ei) (ei_data ei) \<longrightarrow>
      find_section (ei1\<lparr>ei_data := d\<rparr>) nm =
        Inr (case find (\<lambda>i. section_name ei1 i = nm) [0..<shnum ei1] of Some i \<Rightarrow> i | None \<Rightarrow> 0)
    \<and> find_symbol nm None (ei1\<lparr>ei_data := d\<rparr>) =
        Inr (find (\<lambda>i. symbol_name ei2 i = nm) [0..<ei_nsymtab ei2], ei2\<lparr>ei_data := d\<rparr>)
    \<and> (ei_symtab ei2 \<noteq> None \<longrightarrow> (\<forall>k. find_symbol nm (Some k) (ei2\<lparr>ei_data := d\<rparr>) =
        Inr (find (\<lambda>i. symbol_name ei2 i = nm) [k + 1..<ei_nsymtab ei2], ei2\<lparr>ei_data := d\<rparr>))))"
proof -
  have w: "wf_elf ei1" "ei_ok ei1" "cache_ok ei1" and e1: "ei_size ei1 = ei_size ei" "ei_data ei1 = ei_data ei"
    using validate_iff [OF assms(1-3), of ei1] assms(4-6) by (auto simp: cache_ok_def)
  obtain a b c where s: "symtab ei1 = Inr (ei1\<lparr>ei_symtab := a, ei_nsymtab := b, ei_symstrtab := c\<rparr>)"
      and c2: "cache_ok (ei1\<lparr>ei_symtab := a, ei_nsymtab := b, ei_symstrtab := c\<rparr>)"
    using symtab_spec [OF w] by blast
  define ei2 where "ei2 = ei1\<lparr>ei_symtab := a, ei_nsymtab := b, ei_symstrtab := c\<rparr>"
  have w2: "wf_elf ei2" "ei_ok ei2" "cache_ok ei2" using w c2 by (simp_all add: ei2_def)
  show ?thesis
  proof (intro exI [of _ ei2] conjI allI impI)
    fix d assume "take (ei_size ei) d = take (ei_size ei) (ei_data ei)"
    then have v: "view_of ei1 d" "view_of ei2 d" by (simp_all add: view_of_def e1 ei2_def)
    show "find_section (ei1\<lparr>ei_data := d\<rparr>) nm =
        Inr (case find (\<lambda>i. section_name ei1 i = nm) [0..<shnum ei1] of Some i \<Rightarrow> i | None \<Rightarrow> 0)"
      by (rule find_section_view [OF w(1,2) v(1) assms(7)])
    show "find_symbol nm None (ei1\<lparr>ei_data := d\<rparr>) =
        Inr (find (\<lambda>i. symbol_name ei2 i = nm) [0..<ei_nsymtab ei2], ei2\<lparr>ei_data := d\<rparr>)"
      using find_symbol_view [OF w v(1) _ assms(7), of ei2 None] s by (simp add: ei2_def)
    show "find_symbol nm (Some k) (ei2\<lparr>ei_data := d\<rparr>) =
        Inr (find (\<lambda>i. symbol_name ei2 i = nm) [k + 1..<ei_nsymtab ei2], ei2\<lparr>ei_data := d\<rparr>)"
      if "ei_symtab ei2 \<noteq> None" for k
      using find_symbol_view [OF w2 v(2) _ assms(7), of ei2 "Some k"] that by (simp add: symtab_def)
  qed (simp add: s ei2_def)
qed

lemma demo_validates: "validate demo_unread = Inr demo_elf"
  using validate_iff [OF demo_unread_facts(1-3)] demo_unread_facts(4) demo_wf by blast

theorem validated_lookups_witness:
  "\<exists>ei2. symtab demo_elf = Inr ei2
    \<and> find_section (demo_elf\<lparr>ei_data := take (ei_size demo_elf) (ei_data demo_elf)\<rparr>) (ascii ''.symtab'') = Inr 1
    \<and> find_symbol (ascii ''b'') (Some 0) ei2 = Inr (find (\<lambda>i. symbol_name ei2 i = ascii ''b'') [1..<3], ei2)"
proof -
  have n: "section_name demo_elf 0 = []" "section_name demo_elf 1 = ascii ''.symtab''"
    using demo_name by (simp_all add: section_name_def demo_tables demo_counts)
      (simp add: cstr_def demo_elf_def demo_bytes_def demo_header_def ascii_def)
  have d: "ei_size demo_unread = ei_size demo_elf" "ei_data demo_unread = ei_data demo_elf" "ei_symtab demo_unread = None"
      "ei_nsymtab demo_unread = 0" by (simp_all add: demo_unread_def demo_counts)
  note L = validated_lookups [OF demo_unread_facts(1-3) d(3,4) demo_validates, unfolded d(1,2)]
  have z: "0 \<notin> set (ascii ''.symtab'')" "0 \<notin> set (ascii ''b'')" by (simp_all add: ascii_def)
  let ?d = "take (ei_size demo_elf) (ei_data demo_elf)"
  have "find (\<lambda>i. section_name demo_elf i = ascii ''.symtab'') [0..<4] = Some 1"
    using n by (simp add: upt_rec ascii_def)
  moreover have "find_section (demo_elf\<lparr>ei_data := ?d\<rparr>) (ascii ''.symtab'') =
      Inr (case find (\<lambda>i. section_name demo_elf i = ascii ''.symtab'') [0..<shnum demo_elf] of Some i \<Rightarrow> i | None \<Rightarrow> 0)"
    using L [OF z(1)] by (elim exE conjE allE [of _ ?d]) simp
  ultimately have "find_section (demo_elf\<lparr>ei_data := ?d\<rparr>) (ascii ''.symtab'') = Inr 1" by (simp add: demo_counts demo_tables)
  moreover have "find_symbol (ascii ''b'') (Some 0) ei2 = Inr (find (\<lambda>i. symbol_name ei2 i = ascii ''b'') [1..<3], ei2)"
    if e: "ei2 = demo_elf\<lparr>ei_symtab := Some 128, ei_nsymtab := 3, ei_symstrtab := 200\<rparr>" for ei2
    using L [OF z(2)] demo_symtab_found unfolding e by (elim exE conjE allE [of _ "ei_data demo_elf"]) simp
  ultimately show ?thesis using demo_symtab_found by blast
qed

lemma demo_cache: "cache_ok demo_elf"
  by (simp add: cache_ok_def demo_counts)

text \<open>
  C25: \<open>sort_symtab\<close> leaves the symbols after the first as the stable sort by kind,
  address and size, and changes no byte outside them.
\<close>
theorem sort_symtab_sorts:
  assumes w: "wf_elf ei" and ok: "ei_ok ei" and c: "cache_ok ei"
  shows "\<exists>ei1 ei2. symtab ei = Inr ei1 \<and> sort_symtab ei = Inr ei2
    \<and> (let base = the (ei_symtab ei1); n = ei_nsymtab ei1 in
        symbols ei2 (base + 24) (n - 1) = sort_key symbol_key (symbols ei1 (base + 24) (n - 1))
        \<and> length (ei_data ei2) = length (ei_data ei)
        \<and> (\<forall>p. p < base + 24 \<or> base + 24 * n \<le> p \<longrightarrow> ei_data ei2 ! p = ei_data ei ! p)
        \<and> ei2 = ei1\<lparr>ei_data := ei_data ei2, ei_changed := ei_changed ei2\<rparr>)"
  by (rule sort_symtab_spec [OF assms])

lemma demo_symbols_list: "symbols (demo_elf\<lparr>ei_symtab := a, ei_nsymtab := b, ei_symstrtab := c\<rparr>) 152 2
    = [demo_symbol 3 0x40200, demo_symbol 1 0x40100]"
proof -
  have "symbols (demo_elf\<lparr>ei_symtab := a, ei_nsymtab := b, ei_symstrtab := c\<rparr>) 152 2 = map (\<lambda>i. symb demo_elf 128 (Suc i)) [0..<2]"
    by (simp add: symbols_def symb_def ac_simps)
  also have "\<dots> = [demo_symbol 3 0x40200, demo_symbol 1 0x40100]"
    using demo_parts(8,9) by (simp add: upt_rec numeral_2_eq_2)
  finally show ?thesis .
qed

lemma demo_keys:
  "symbol_key (demo_symbol 1 0x40100) \<le> symbol_key (demo_symbol 3 0x40200)"
  "\<not> symbol_key (demo_symbol 3 0x40200) \<le> symbol_key (demo_symbol 1 0x40100)"
  by (simp_all add: symbol_key_def special_def ELF_STT_MASK_def ELF_STT_FUNC_def less_eq_prod_def demo_symbol_def)

theorem sort_symtab_sorts_witness:
  "\<exists>ei2. sort_symtab demo_elf = Inr ei2 \<and> symbols ei2 152 2 = [demo_symbol 1 0x40100, demo_symbol 3 0x40200]"
  using sort_symtab_sorts [OF demo_wf demo_counts(4) demo_cache] demo_keys by (auto simp: demo_symtab_found Let_def demo_symbols_list)

text \<open>The example table in memory, at the address where the kernel expects it.\<close>

definition demo_table_ref :: symtabref where
  "demo_table_ref = \<lparr>symtab_sym = 0x1000000, symtab_nsym = 3, symtab_strtab = 0x1000048\<rparr>"

definition demo_loaded :: "elf_info \<Rightarrow> memory" where
  "demo_loaded ei a =
     (if 0x1000000 \<le> unat a \<and> unat a < 0x1000048 then ei_data ei ! (128 + (unat a - 0x1000000)) else demo_symtab_mem a)"

lemma demo_loaded_map: "symtab_map demo_link (demo_loaded ei) = demo_loaded ei"
proof -
  have e: "entry_of (kpt demo_link 2) (SYMTAB_ADDR div 0x200000) = 0x52040"
    by (simp add: entry_of_def kpt_def demo_link_def SYMTAB_ADDR_def PAGESIZE_def)
  have "load64 (demo_loaded ei) 0x52040 = load64 demo_symtab_mem 0x52040"
    by (simp add: load64_bytes demo_loaded_def)
  also have "\<dots> \<noteq> 0" by (simp add: load64_bytes demo_symtab_mem_def)
  finally show ?thesis by (simp add: symtab_map_def Let_def e)
qed

lemma demo_loaded_table: "table_loaded (demo_loaded ei) demo_table_ref ei 128"
proof -
  have "unat ((0x1000000 :: addr) + of_nat k) = 0x1000000 + k" if "k < 72" for k
  proof -
    have "unat (of_nat k :: addr) = k" using that by (intro unat_of_nat64) simp
    then show ?thesis using that by (subst unat_add64) simp_all
  qed
  then show ?thesis by (simp add: table_loaded_def demo_table_ref_def demo_loaded_def)
qed

theorem kernel_symbol_lookup_witness:
  "\<exists>ei2. sort_symtab demo_elf = Inr ei2
    \<and> fst (lookup_symbol demo_link demo_table_ref 0x40150 (demo_loaded ei2)) = linear_lookup (demo_loaded ei2) demo_table_ref 0x40150"
proof -
  let ?e = "demo_elf\<lparr>ei_symtab := Some 128, ei_nsymtab := 3, ei_symstrtab := 200\<rparr>"
  obtain ei2 where s: "sort_symtab demo_elf = Inr ei2" using sort_symtab_spec [OF demo_wf demo_counts(4) demo_cache] by blast
  have sy: "symb ?e = symb demo_elf" by (simp add: symb_def fun_eq_iff)
  have plain: "\<not> special (symb ?e 128 i)" if "i < 3" for i
    using that by (auto simp: less3 sy demo_tables special_def ELF_STT_MASK_def ELF_STT_FUNC_def)
  have first: "sy_value (symb ?e (the (ei_symtab ?e)) 0) = 0" by (simp add: sy demo_tables)
  note S = sorted_table [OF demo_wf demo_counts(4) demo_cache demo_symtab_found s first]
  have "address_unique (demo_loaded ei2) demo_table_ref 0x40150"
  proof -
    have n: "unat (symtab_nsym demo_table_ref) = 3" by (simp add: demo_table_ref_def)
    have v: "st_value (demo_loaded ei2) demo_table_ref (of_nat i) = sy_value (symb ei2 128 i)" if "i < 3" for i
      using table_loaded_value [OF demo_loaded_table] S(1) plain that n by simp
    have sorted: "symbols ei2 152 2 = [demo_symbol 1 0x40100, demo_symbol 3 0x40200]"
      using sort_symtab_spec [OF demo_wf demo_counts(4) demo_cache] s demo_keys
      by (auto simp: demo_symtab_found Let_def demo_symbols_list)
    have "sy_value (symb ei2 128 j) \<noteq> 0x40150" if "0 < j" "j < 3" for j
    proof -
      have "symb ei2 128 1 = demo_symbol 1 0x40100" "symb ei2 128 2 = demo_symbol 3 0x40200"
        using symbols_nth [of 0 2 ei2 128] symbols_nth [of 1 2 ei2 128] sorted by (simp_all add: numeral_2_eq_2)
      then show ?thesis using that by (auto simp: less3)
    qed
    then have "st_value (demo_loaded ei2) demo_table_ref (of_nat j) \<noteq> 0x40150" if "i < j" "j < 3" for i j
      using v [of j] that by (cases j) auto
    then show ?thesis using n unfolding address_unique_def by metis
  qed
  then show ?thesis
    using kernel_symbol_lookup [OF demo_wf demo_counts(4) demo_cache demo_symtab_found s first, where T = demo_table_ref and L = demo_link and m = "demo_loaded ei2" and a = "0x40150"]
      plain s demo_loaded_table demo_loaded_map by (auto simp: demo_table_ref_def)
qed

end
