(* ===== verification/Guard.thy ===== *)
theory Guard
  imports Prelude
begin

text \<open>
  Guards of function-local statics: \<^verbatim>\<open>__cxa_guard_acquire\<close> and \<^verbatim>\<open>__cxa_guard_release\<close> of
  \<^verbatim>\<open>kernels1/k-hardware.cc\<close>. The guard byte is an atomic variable, so its loads, stores and exchanges
  are the steps of a transition system in which any number of threads are interleaved. A thread
  runs what the compiler emits for a static with a dynamic initialiser: it calls
  \<^verbatim>\<open>__cxa_guard_acquire\<close> and, when that returns 1, runs the initialiser and calls
  \<^verbatim>\<open>__cxa_guard_release\<close>. The invariant, that the guard is untouched
  or has one owner, is proved by induction on reachable states.
\<close>

subsection \<open>Atomic steps\<close>

text \<open>Where a thread is: the atomic access it makes next, or what it has been told.\<close>

datatype guard_pc =
    Called            \<comment> \<open>before the relaxed load\<close>
  | Looping           \<comment> \<open>at the top of \<open>while (true)\<close>, before \<open>exchange(1)\<close>\<close>
  | Pausing           \<comment> \<open>the exchange read 1: at \<open>pause()\<close>\<close>
  | Restoring         \<comment> \<open>the exchange read 2: before \<open>exchange(2)\<close>\<close>
  | Returned u32      \<comment> \<open>\<open>__cxa_guard_acquire\<close> has returned\<close>
  | Initialized       \<comment> \<open>the initialiser has run, before \<open>__cxa_guard_release\<close>\<close>
  | Released          \<comment> \<open>\<open>__cxa_guard_release\<close> has returned\<close>

fun cxa_guard_acquire :: "guard_pc \<Rightarrow> u8 \<Rightarrow> (guard_pc \<times> u8) option" where
  "cxa_guard_acquire Called g = Some (if g = 2 then (Returned 0, g) else (Looping, g))"
| "cxa_guard_acquire Looping g =
     Some (if g = 2 then (Restoring, 1) else if g = 1 then (Pausing, 1) else (Returned 1, 1))"
| "cxa_guard_acquire Pausing g = Some (Looping, g)"
| "cxa_guard_acquire Restoring g = Some (Returned 0, 2)"
| "cxa_guard_acquire _ g = None"

fun cxa_guard_release :: "guard_pc \<Rightarrow> u8 \<Rightarrow> (guard_pc \<times> u8) option" where
  "cxa_guard_release Initialized g = Some (Released, 2)"
| "cxa_guard_release _ g = None"

text \<open>The shared state: the guard, the threads, and whether the initialiser has run to its end.\<close>

record guard_state =
  guard :: u8
  threads :: "nat \<Rightarrow> guard_pc"
  statics_ready :: bool

definition guard_init :: guard_state where
  "guard_init = \<lparr>guard = 0, threads = (\<lambda>_. Called), statics_ready = False\<rparr>"

inductive guard_step :: "guard_state \<Rightarrow> guard_state \<Rightarrow> bool" where
  acquire: "cxa_guard_acquire (threads s t) (guard s) = Some (pc, g) \<Longrightarrow>
    guard_step s (s\<lparr>guard := g, threads := (threads s)(t := pc)\<rparr>)"
| initialize: "threads s t = Returned 1 \<Longrightarrow>
    guard_step s (s\<lparr>statics_ready := True, threads := (threads s)(t := Initialized)\<rparr>)"
| release: "cxa_guard_release (threads s t) (guard s) = Some (pc, g) \<Longrightarrow>
    guard_step s (s\<lparr>guard := g, threads := (threads s)(t := pc)\<rparr>)"

inductive guard_reachable :: "guard_state \<Rightarrow> bool" where
  initial: "guard_reachable guard_init"
| step: "guard_reachable s \<Longrightarrow> guard_step s s' \<Longrightarrow> guard_reachable s'"

fun_cases cxa_guard_releaseE: "cxa_guard_release pc g = Some r"

text \<open>One schedule: the threads of the list take their next step in turn.\<close>

definition guard_turn :: "nat \<Rightarrow> guard_state \<Rightarrow> guard_state" where
  "guard_turn t s =
     (case cxa_guard_acquire (threads s t) (guard s) of
        Some (pc, g) \<Rightarrow> s\<lparr>guard := g, threads := (threads s)(t := pc)\<rparr>
      | None \<Rightarrow> if threads s t = Returned 1
          then s\<lparr>statics_ready := True, threads := (threads s)(t := Initialized)\<rparr>
          else (case cxa_guard_release (threads s t) (guard s) of
                  Some (pc, g) \<Rightarrow> s\<lparr>guard := g, threads := (threads s)(t := pc)\<rparr>
                | None \<Rightarrow> s))"

lemma guard_turn_reachable: "guard_reachable s \<Longrightarrow> guard_reachable (guard_turn t s)"
  unfolding guard_turn_def
  by (auto intro: guard_reachable.step guard_step.intros split: option.split)

lemma guard_run_reachable: "guard_reachable s \<Longrightarrow> guard_reachable (fold guard_turn ts s)"
  by (induction ts arbitrary: s) (simp_all add: guard_turn_reachable)

subsection \<open>Invariant\<close>

text \<open>The thread that was told to initialise, whatever it has done since.\<close>

definition owns :: "guard_pc \<Rightarrow> bool" where
  "owns pc \<longleftrightarrow> pc = Returned 1 \<or> pc = Initialized \<or> pc = Released"

definition untouched_guard :: "guard_state \<Rightarrow> bool" where
  "untouched_guard s \<longleftrightarrow> guard s = 0 \<and> (\<forall>t. threads s t = Called \<or> threads s t = Looping)"

definition somewhere :: "(nat \<Rightarrow> guard_pc) \<Rightarrow> guard_pc \<Rightarrow> bool" where
  "somewhere f pc \<longleftrightarrow> (\<exists>t. f t = pc)"

definition owned_by :: "nat \<Rightarrow> guard_state \<Rightarrow> bool" where
  "owned_by u s \<longleftrightarrow>
     (guard s = 1 \<or> guard s = 2) \<and> owns (threads s u) \<and> (\<forall>t. t \<noteq> u \<longrightarrow> \<not> owns (threads s t))
   \<and> (guard s = 2 \<longrightarrow> threads s u = Released)
   \<and> (\<forall>t. threads s t = Restoring \<or> threads s t = Returned 0 \<longrightarrow> threads s u = Released)
   \<and> (threads s u \<noteq> Returned 1 \<longrightarrow> statics_ready s)
   \<and> (threads s u = Released \<and> guard s = 1 \<longrightarrow> somewhere (threads s) Restoring)"

lemma somewhere_upd: "f t \<noteq> pc \<Longrightarrow> somewhere (f(t := x)) pc \<longleftrightarrow> x = pc \<or> somewhere f pc"
  by (auto simp: somewhere_def)

lemma owns_simps [simp]: "owns (Returned 1)" "owns Initialized" "owns Released" "\<not> owns Called"
    "\<not> owns Looping" "\<not> owns Pausing" "\<not> owns Restoring" "\<not> owns (Returned 0)"
  by (simp_all add: owns_def)

lemma untouched_pc: "untouched_guard s \<Longrightarrow> threads s t = Called \<or> threads s t = Looping"
  by (simp add: untouched_guard_def)

lemma guard_untouched_acquire:
  assumes "untouched_guard s" "cxa_guard_acquire (threads s t) (guard s) = Some (pc, g)"
  defines "s' \<equiv> s\<lparr>guard := g, threads := (threads s)(t := pc)\<rparr>"
  shows "untouched_guard s' \<or> owned_by t s'"
proof (cases "threads s t = Called")
  case True
  then have "untouched_guard s'" using assms by (auto simp: untouched_guard_def)
  then show ?thesis ..
next
  case False
  then have "threads s t = Looping" using assms(1) by (auto simp: untouched_guard_def)
  then have "pc = Returned 1" "g = 1" using assms(1,2) by (auto simp: untouched_guard_def)
  moreover have "\<not> owns (threads s v) \<and> threads s v \<noteq> Restoring \<and> threads s v \<noteq> Returned 0" for v
    using untouched_pc [OF assms(1), of v] by auto
  ultimately have "owned_by t s'" unfolding s'_def owned_by_def by auto
  then show ?thesis ..
qed

lemma owned_acquire:
  assumes inv: "owned_by u s" and acq: "cxa_guard_acquire (threads s t) (guard s) = Some (pc, g)"
  shows "owned_by u (s\<lparr>guard := g, threads := (threads s)(t := pc)\<rparr>)"
proof (cases "threads s t")
  case Called
  then show ?thesis using inv acq by (auto simp: owned_by_def somewhere_upd split: if_splits)
next
  case Looping
  then show ?thesis using inv acq by (auto simp: owned_by_def somewhere_upd split: if_splits)
next
  case Pausing
  then show ?thesis using inv acq by (auto simp: owned_by_def somewhere_upd)
next
  case Restoring
  then show ?thesis using inv acq by (auto simp: owned_by_def somewhere_upd)
qed (use acq in auto)

lemma owned_owns: "owned_by u s \<Longrightarrow> owns (threads s t) \<Longrightarrow> t = u"
  by (auto simp: owned_by_def)

lemma owned_initialize:
  assumes "owned_by u s" "threads s t = Returned 1"
  shows "owned_by u (s\<lparr>statics_ready := True, threads := (threads s)(t := Initialized)\<rparr>)"
proof -
  have "t = u" using owned_owns [OF assms(1)] assms(2) by simp
  then show ?thesis using assms by (auto simp: owned_by_def)
qed

lemma owned_release:
  assumes "owned_by u s" "threads s t = Initialized"
  shows "owned_by u (s\<lparr>guard := 2, threads := (threads s)(t := Released)\<rparr>)"
proof -
  have "t = u" using owned_owns [OF assms(1)] assms(2) by simp
  then show ?thesis using assms by (auto simp: owned_by_def)
qed

lemma guard_step_inv:
  assumes "guard_step s s'" "untouched_guard s \<or> owned_by u s"
  shows "untouched_guard s' \<or> (\<exists>v. owned_by v s')"
  using assms(1)
proof cases
  case (acquire t pc g)
  then show ?thesis using assms(2) guard_untouched_acquire owned_acquire by blast
next
  case (initialize t)
  then have "\<not> untouched_guard s" by (metis untouched_guard_def guard_pc.distinct)
  then show ?thesis using assms(2) initialize owned_initialize by blast
next
  case (release t pc g)
  then have "threads s t = Initialized" "pc = Released" "g = 2"
    by (auto elim!: cxa_guard_releaseE)
  moreover from this have "\<not> untouched_guard s" by (metis untouched_guard_def guard_pc.distinct)
  ultimately show ?thesis using assms(2) release owned_release by blast
qed

lemma guard_reachable_inv: "guard_reachable s \<Longrightarrow> untouched_guard s \<or> (\<exists>u. owned_by u s)"
proof (induction rule: guard_reachable.induct)
  case initial
  then show ?case by (simp add: untouched_guard_def guard_init_def)
next
  case (step s s')
  then show ?case using guard_step_inv by blast
qed

subsection \<open>Initialisation happens once\<close>

text \<open>
  C36: However threads interleave in \<open>__cxa_guard_acquire\<close> and
  \<open>__cxa_guard_release\<close>, at most one thread is ever told to initialise, and a thread
  is told that the statics are initialised only when they are.
\<close>
theorem cxa_guard_once:
  assumes "guard_reachable s"
  shows "(owns (threads s t) \<and> owns (threads s u) \<longrightarrow> t = u)
       \<and> (threads s t = Returned 0 \<longrightarrow> statics_ready s)"
proof -
  consider "untouched_guard s" | v where "owned_by v s" using guard_reachable_inv [OF assms] by blast
  then show ?thesis
  proof cases
    case 1
    then show ?thesis using untouched_pc [OF 1, of t] by auto
  next
    case 2
    then have "threads s t = Returned 0 \<longrightarrow> statics_ready s" by (auto simp: owned_by_def)
    then show ?thesis using owned_owns [OF 2] by blast
  qed
qed

text \<open>Thread 0 initialises while thread 1 waits; then thread 1 is told that the statics are ready.\<close>

definition guard_schedule :: "nat list" where
  "guard_schedule = [0, 1, 0, 1, 0, 1, 0, 1]"

theorem cxa_guard_once_witness:
  "let s = fold guard_turn (guard_schedule @ [1]) guard_init
   in threads s 0 = Released \<and> threads s 1 = Returned 0 \<and> statics_ready s"
proof -
  let ?s = "fold guard_turn (guard_schedule @ [1]) guard_init"
  have "guard_reachable ?s" by (rule guard_run_reachable [OF guard_reachable.initial])
  moreover have "threads ?s 0 = Released \<and> threads ?s 1 = Returned 0"
    by (simp add: guard_schedule_def guard_turn_def guard_init_def)
  ultimately show ?thesis using cxa_guard_once [of ?s 1 0] by (simp only: Let_def)
qed

lemma acquire_run:
  assumes "cxa_guard_acquire (threads s t) (guard s) = Some (pc, g)"
    and "\<exists>s'. guard_step\<^sup>*\<^sup>* (s\<lparr>guard := g, threads := (threads s)(t := pc)\<rparr>) s' \<and> P s'"
  shows "\<exists>s'. guard_step\<^sup>*\<^sup>* s s' \<and> P s'"
  using guard_step.acquire [OF assms(1)] assms(2) converse_rtranclp_into_rtranclp [of guard_step s] by blast

lemma restoring_returns:
  assumes "threads s t = Restoring"
  shows "\<exists>s'. guard_step\<^sup>*\<^sup>* s s' \<and> threads s' t = Returned 0"
  by (rule acquire_run [of s t "Returned 0" 2]) (use assms in auto)

lemma looping_returns:
  assumes "threads s t = Looping" "guard s = 2"
  shows "\<exists>s'. guard_step\<^sup>*\<^sup>* s s' \<and> threads s' t = Returned 0"
  by (rule acquire_run [of s t Restoring 1]) (use assms in \<open>simp_all add: restoring_returns\<close>)

lemma acquire_returns:
  assumes "guard s = 2"
    "threads s t = Called \<or> threads s t = Looping \<or> threads s t = Pausing \<or> threads s t = Restoring"
  shows "\<exists>s'. guard_step\<^sup>*\<^sup>* s s' \<and> threads s' t = Returned 0"
proof -
  consider "threads s t = Called" | "threads s t = Looping" | "threads s t = Pausing"
    | "threads s t = Restoring" using assms(2) by blast
  then show ?thesis
  proof cases
    case 1
    then show ?thesis using assms(1) by (intro acquire_run [of s t "Returned 0" 2]) auto
  next
    case 3
    then show ?thesis using assms(1)
      by (intro acquire_run [of s t Looping 2]) (simp_all add: looping_returns)
  qed (use assms(1) looping_returns restoring_returns in blast)+
qed

text \<open>
  C37: After the guard has been released, \<open>__cxa_guard_acquire\<close> can return 0 in every
  thread that is inside it, whichever threads are between their exchanges.
\<close>
theorem cxa_guard_returns:
  assumes "guard_reachable s" "threads s v = Released"
    "threads s t = Called \<or> threads s t = Looping \<or> threads s t = Pausing \<or> threads s t = Restoring"
  shows "\<exists>s'. guard_step\<^sup>*\<^sup>* s s' \<and> threads s' t = Returned 0"
proof -
  have "\<not> untouched_guard s" using untouched_pc [of s v] assms(2) by auto
  then obtain u where u: "owned_by u s" using guard_reachable_inv [OF assms(1)] by blast
  then have "u = v" using owned_owns [OF u, of v] assms(2) by simp
  then consider "guard s = 2" | w where "threads s w = Restoring"
    using u assms(2) by (auto simp: owned_by_def somewhere_def)
  then show ?thesis
  proof cases
    case 1
    then show ?thesis using acquire_returns assms(3) by blast
  next
    case 2
    show ?thesis
    proof (cases "w = t")
      case True
      then show ?thesis using 2 restoring_returns by blast
    next
      case False
      then show ?thesis using 2 assms(3)
        by (intro acquire_run [of s w "Returned 0" 2] acquire_returns) auto
    qed
  qed
qed

theorem cxa_guard_returns_witness:
  "let s = fold guard_turn guard_schedule guard_init
   in threads s 1 = Restoring \<and> (\<exists>s'. guard_step\<^sup>*\<^sup>* s s' \<and> threads s' 1 = Returned 0)"
proof -
  let ?s = "fold guard_turn guard_schedule guard_init"
  have "guard_reachable ?s" by (rule guard_run_reachable [OF guard_reachable.initial])
  moreover have "threads ?s 0 = Released \<and> threads ?s 1 = Restoring"
    by (simp add: guard_schedule_def guard_turn_def guard_init_def)
  ultimately show ?thesis using cxa_guard_returns [of ?s 0 1] by (simp only: Let_def) blast
qed

end
