(* ===== verification/UserLib.thy ===== *)
theory UserLib
  imports Kernel
begin

text \<open>
  The library of user processes, \<^verbatim>\<open>kernels1/u-lib.hh\<close> and \<^verbatim>\<open>kernels1/u-lib.cc\<close>. A system call is
  the register file that the \<^verbatim>\<open>syscall\<close> instruction hands to the kernel: \<open>make_syscall0\<close> to
  \<open>make_syscall4\<close> load the number and the arguments into the registers of the calling convention,
  and the wrappers \<open>sys_getpid\<close>, \<open>sys_pipewrite\<close> and so on are these calls with their numbers. The
  registers that a call does not load keep the values they have. The rest is \<^verbatim>\<open>panic\<close>,
  \<^verbatim>\<open>error_vprintf\<close> and \<^verbatim>\<open>assert_fail\<close> of user code, which print to the shared console and end in
  \<^verbatim>\<open>sys_panic\<close>. The 160-byte buffer of \<^verbatim>\<open>panic\<close> is at an address that is an argument, and every
  access to it is checked.
\<close>

subsection \<open>System calls\<close>

definition make_syscall0 :: "u64 \<Rightarrow> regstate \<Rightarrow> regstate" where
  "make_syscall0 syscallno r = r\<lparr>reg_rax := syscallno\<rparr>"

definition make_syscall1 :: "u64 \<Rightarrow> u64 \<Rightarrow> regstate \<Rightarrow> regstate" where
  "make_syscall1 syscallno arg0 r = r\<lparr>reg_rax := syscallno, reg_rdi := arg0\<rparr>"

definition make_syscall2 :: "u64 \<Rightarrow> u64 \<Rightarrow> u64 \<Rightarrow> regstate \<Rightarrow> regstate" where
  "make_syscall2 syscallno arg0 arg1 r = r\<lparr>reg_rax := syscallno, reg_rdi := arg0, reg_rsi := arg1\<rparr>"

definition make_syscall3 :: "u64 \<Rightarrow> u64 \<Rightarrow> u64 \<Rightarrow> u64 \<Rightarrow> regstate \<Rightarrow> regstate" where
  "make_syscall3 syscallno arg0 arg1 arg2 r =
     r\<lparr>reg_rax := syscallno, reg_rdi := arg0, reg_rsi := arg1, reg_rdx := arg2\<rparr>"

definition make_syscall4 :: "u64 \<Rightarrow> u64 \<Rightarrow> u64 \<Rightarrow> u64 \<Rightarrow> u64 \<Rightarrow> regstate \<Rightarrow> regstate" where
  "make_syscall4 syscallno arg0 arg1 arg2 arg3 r =
     r\<lparr>reg_rax := syscallno, reg_rdi := arg0, reg_rsi := arg1, reg_rdx := arg2, reg_r10 := arg3\<rparr>"

definition sys_getpid :: "regstate \<Rightarrow> regstate" where
  "sys_getpid = make_syscall0 SYSCALL_GETPID"

definition sys_yield :: "regstate \<Rightarrow> regstate" where
  "sys_yield = make_syscall0 SYSCALL_YIELD"

definition sys_page_alloc :: "addr \<Rightarrow> regstate \<Rightarrow> regstate" where
  "sys_page_alloc a = make_syscall1 SYSCALL_PAGE_ALLOC a"

definition sys_getsysname :: "addr \<Rightarrow> regstate \<Rightarrow> regstate" where
  "sys_getsysname buf = make_syscall1 SYSCALL_GETSYSNAME buf"

definition sys_spawn :: "addr \<Rightarrow> regstate \<Rightarrow> regstate" where
  "sys_spawn command = make_syscall1 SYSCALL_SPAWN command"

definition sys_pipewrite :: "addr \<Rightarrow> u64 \<Rightarrow> regstate \<Rightarrow> regstate" where
  "sys_pipewrite buf sz = make_syscall2 SYSCALL_PIPEWRITE buf sz"

definition sys_piperead :: "addr \<Rightarrow> u64 \<Rightarrow> regstate \<Rightarrow> regstate" where
  "sys_piperead buf sz = make_syscall2 SYSCALL_PIPEREAD buf sz"

definition sys_panic :: "addr \<Rightarrow> regstate \<Rightarrow> regstate" where
  "sys_panic msg = make_syscall1 SYSCALL_PANIC msg"

lemmas make_syscall_defs = make_syscall0_def make_syscall1_def make_syscall2_def make_syscall3_def
  make_syscall4_def

lemmas sys_defs = sys_getpid_def sys_yield_def sys_page_alloc_def sys_getsysname_def sys_spawn_def
  sys_pipewrite_def sys_piperead_def sys_panic_def make_syscall_defs

subsection \<open>Panics and assertions\<close>

definition bytes_at :: "memory \<Rightarrow> addr \<Rightarrow> nat \<Rightarrow> u8 list" where
  "bytes_at m a n = map (\<lambda>i. m (a + of_nat i)) [0..<n]"

definition PANIC_BUF :: nat where "PANIC_BUF = 160"

text \<open>
  The message in the buffer: the prefix, the formatted text, and a newline when the text does not
  end in one. \<open>len\<close> is the length \<^verbatim>\<open>vsnprintf\<close> returns, which counts what did not fit too.
\<close>

definition panic_text :: "addr \<Rightarrow> u8 list \<Rightarrow> va list \<Rightarrow> memory \<Rightarrow> memory res" where
  "panic_text buf format val m =
     bind_res (vsnprintf (put_bytes m buf (ascii ''PANIC: '')) (buf + 7) (of_nat PANIC_BUF - 7) format val) (\<lambda>(n, m1).
     let len = sint (ucast (n + 7) :: u32) in
     if len \<le> 0 then Inr m1
     else check (len \<le> int PANIC_BUF) (OutOfBounds ''buf'')
         (if m1 (buf + of_int (len - 1)) = 10 then Inr m1
          else let p = len - (if len = int PANIC_BUF - 1 then 1 else 0)
               in check (p + 2 \<le> int PANIC_BUF) (OutOfBounds ''buf'')
                    (Inr (put_bytes m1 (buf + of_int p) [10, 0]))))"

definition u_panic ::
  "nat \<Rightarrow> link \<Rightarrow> addr \<Rightarrow> u8 list \<Rightarrow> va list \<Rightarrow> regstate \<Rightarrow> 'a kstate_scheme \<Rightarrow> (outcome \<times> 'a kstate_scheme) res" where
  "u_panic rounds L buf format val r s =
     bind_res (panic_text buf format val (mem s)) (\<lambda>m1.
     bind_res (console_vprintf False (CPOS 23 0) 0xC000 (ascii ''%s'') [VStr (bytes_at m1 buf PANIC_BUF)]
                 (s\<lparr>mem := m1\<rparr>)) (\<lambda>(_, s1).
     syscall rounds L (sys_panic 0 r) s1))"

definition u_error_vprintf ::
  "int \<Rightarrow> u32 \<Rightarrow> u8 list \<Rightarrow> va list \<Rightarrow> 'a kstate_scheme \<Rightarrow> (int \<times> 'a kstate_scheme) res" where
  "u_error_vprintf cpos color format val s = console_vprintf False cpos color format val s"

definition u_error_printf :: "u8 list \<Rightarrow> va list \<Rightarrow> 'a kstate_scheme \<Rightarrow> 'a kstate_scheme res" where
  "u_error_printf format val s =
     bind_res (u_error_vprintf (-1) 0xC000 format val s) (\<lambda>(_, s1). Inr s1)"

definition u_assert_fail ::
  "nat \<Rightarrow> link \<Rightarrow> u8 list \<Rightarrow> int \<Rightarrow> u8 list \<Rightarrow> u8 list option \<Rightarrow> regstate \<Rightarrow> 'a kstate_scheme
   \<Rightarrow> (outcome \<times> 'a kstate_scheme) res" where
  "u_assert_fail rounds L file line msg description r s =
     (let s1 = s\<lparr>cursorpos := CPOS 23 0\<rparr> in
      bind_res (case description of
                  Some d \<Rightarrow> u_error_printf (ascii ''%s:%d: %s\<newline>'') [VStr file, VNum (of_int line), VStr d] s1
                | None \<Rightarrow> Inr s1) (\<lambda>s2.
      bind_res (u_error_printf (ascii ''%s:%d: user assertion '' @ [39] @ ascii ''%s'' @ [39] @ ascii '' failed\<newline>'')
                  [VStr file, VNum (of_int line), VStr msg] s2) (\<lambda>s3.
      syscall rounds L (sys_panic 0 r) s3)))"

lemma bytes_at_nth: "i < n \<Longrightarrow> bytes_at m a n ! i = m (a + of_nat i)"
  by (simp add: bytes_at_def)

lemma length_bytes_at [simp]: "length (bytes_at m a n) = n"
  by (simp add: bytes_at_def)

lemma bytes_at_0 [simp]: "bytes_at m a 0 = []"
  by (simp add: bytes_at_def)

lemma bytes_at_Suc: "bytes_at m a (Suc n) = bytes_at m a n @ [m (a + of_nat n)]"
  by (simp add: bytes_at_def)

lemma bytes_at_Cons: "bytes_at m a (Suc n) = m a # bytes_at m (a + 1) n"
  unfolding bytes_at_def by (simp add: upt_conv_Cons map_Suc_upt [symmetric] add.assoc del: upt_Suc)

lemma bytes_at_cong: "(\<And>i. i < n \<Longrightarrow> m (a + of_nat i) = m' (a + of_nat i)) \<Longrightarrow> bytes_at m a n = bytes_at m' a n"
  by (simp add: bytes_at_def)

subsection \<open>The buffer of panic\<close>

lemma put_bytes_frame: "length bs \<le> unat (b - a) \<Longrightarrow> put_bytes m a bs b = m b"
proof (induction bs arbitrary: m a)
  case (Cons x bs)
  then have "b \<noteq> a" by auto
  with Cons show ?case by (simp add: unat_diff_Suc)
qed simp

lemma put_bytes_read: "length bs < 2 ^ 64 \<Longrightarrow> bytes_at (put_bytes m a bs) a (length bs) = bs"
proof (induction bs arbitrary: m a)
  case (Cons x bs)
  then have "length bs \<le> unat (a - (a + 1))" by (simp add: unat_minus_one_word_eq)
  then show ?case using Cons by (simp add: bytes_at_Cons put_bytes_frame)
qed simp

lemma put_bytes_cstring:
  "0 \<notin> set xs \<Longrightarrow> length xs < 2 ^ 63 \<Longrightarrow> cstring_at (put_bytes m a (xs @ [0])) a xs"
proof (induction xs arbitrary: m a)
  case (Cons x xs)
  have "put_bytes (m(a := x)) (a + 1) (xs @ [0]) a = x"
  proof -
    have "length (xs @ [0]) \<le> unat (a - (a + 1))" using Cons.prems(2) by (simp add: unat_minus_one_word_eq)
    then show ?thesis by (simp add: put_bytes_frame)
  qed
  then show ?case using Cons by simp
qed simp

lemma put_bytes_reads: "length bs = n \<Longrightarrow> n < 2 ^ 64 \<Longrightarrow> bytes_at (put_bytes m a bs) a n = bs"
  using put_bytes_read by blast

lemma put_bytes_other:
  assumes "\<And>i. i < length bs \<Longrightarrow> b \<noteq> a + of_nat i"
  shows "put_bytes m a bs b = m b"
proof (rule put_bytes_frame, rule ccontr)
  assume "\<not> length bs \<le> unat (b - a)"
  then show False using assms [of "unat (b - a)"] by simp
qed

lemma panic_len: "n < 2 ^ 31 - 8 \<Longrightarrow> sint (ucast (of_nat n + 7 :: u64) :: u32) = int n + 7"
proof -
  assume n: "n < 2 ^ 31 - 8"
  have "(ucast (of_nat n + 7 :: u64) :: u32) = of_int (int n + 7)"
    using ucast_of_int_64_32 [of "int n + 7"] by simp
  then show ?thesis using n by (simp only:) (rule sint_of_int32, simp_all)
qed

text \<open>
  C38: The buffer of the user-level \<open>panic\<close> holds a formatted message of at most 152 bytes
  and nothing outside it is written then; a longer message is always accessed past the end of the
  buffer.
\<close>
theorem panic_text_bounds:
  assumes out: "vprintf 0 fmt args = Inr out" and buf: "unat buf + 160 < 2 ^ 64"
    and short: "length out < 2 ^ 31 - 8"
  shows "if length out \<le> 152
         then \<exists>m'. panic_text buf fmt args m = Inr m' \<and> (\<forall>b. 160 \<le> unat (b - buf) \<longrightarrow> m' b = m b)
         else panic_text buf fmt args m = Inl (OutOfBounds ''buf'')"
proof -
  let ?m = "put_bytes m buf (ascii ''PANIC: '')" and ?l = "length out"
  have sz: "(of_nat PANIC_BUF - 7 :: u64) = 153" by (simp add: PANIC_BUF_def)
  have "unat (buf + 7) + unat (153 :: u64) < 2 ^ 64" using buf by (simp add: unat_add64)
  then obtain m1 where m1: "vsnprintf ?m (buf + 7) 153 fmt args = Inr (of_nat ?l, m1)"
      "m1 (buf + 7 + of_nat (min ?l 152)) = 0"
      "\<And>b. 153 \<le> unat (b - (buf + 7)) \<Longrightarrow> m1 b = ?m b"
    using vsnprintf_spec [OF out, of "buf + 7" 153 ?m] by auto
  have frame1: "m1 b = m b" if "160 \<le> unat (b - buf)" for b
  proof -
    have "unat (b - (buf + 7)) = unat (b - buf) - 7"
      using that unat_sub64 [of 7 "b - buf"] by (simp add: diff_diff_eq)
    then show ?thesis using that m1(3) [of b] put_bytes_frame [of "ascii ''PANIC: ''" b buf m]
      by (simp add: ascii_def)
  qed
  note len = panic_len [OF short]
  show ?thesis
  proof (cases "?l \<le> 152")
    case True
    define p where "p = int ?l + 7 - (if ?l = 152 then 1 else 0)"
    have p: "0 \<le> p" "p + 2 \<le> 160" using True by (auto simp: p_def)
    have shape: "panic_text buf fmt args m = (if m1 (buf + of_int (int ?l + 7 - 1)) = 10 then Inr m1
        else Inr (put_bytes m1 (buf + of_int p) [10, 0]))"
      unfolding panic_text_def sz m1(1) bind_res_Inr prod.case Let_def len using True
      by (auto simp: PANIC_BUF_def p_def check_def simp del: put_bytes.simps)
    have "unat (b - (buf + of_int p)) = unat (b - buf) - nat p" if "160 \<le> unat (b - buf)" for b
      using that p unat_sub64 [of "of_int p" "b - buf"] unat_of_int64 [of p] by (simp add: diff_diff_eq)
    then have "put_bytes m1 (buf + of_int p) [10, 0] b = m b" if "160 \<le> unat (b - buf)" for b
      using that p frame1 [OF that] put_bytes_frame [of "[10, 0]" b "buf + of_int p" m1] by simp
    then show ?thesis using shape True frame1 by (auto simp del: put_bytes.simps)
  next
    case False
    have "m1 (buf + 159) = 0" using m1(2) False by (simp add: min_def add.assoc)
    then show ?thesis using False m1(1) len
      by (cases "?l = 153") (auto simp: panic_text_def sz Let_def PANIC_BUF_def check_def)
  qed
qed

lemma vprintf_plain: "37 \<notin> set fmt \<Longrightarrow> vprintf col fmt args = Inr (map (\<lambda>c. (c, col)) fmt)"
  by (induction fmt) (auto simp: vprintf.simps)

text \<open>A message of 153 letters does not fit in the buffer.\<close>

theorem panic_text_bounds_witness:
  "panic_text 0x1000 (replicate 153 65) [] (\<lambda>_. 0) = Inl (OutOfBounds ''buf'')"
  using panic_text_bounds [OF vprintf_plain [of "replicate 153 65" 0 "[]"], of "0x1000" "\<lambda>_. 0"] by simp

end
