(* ===== verification/Isolation.thy ===== *)
theory Isolation
  imports KernelInv UserLib
begin

text \<open>
  What the kernel leaves alone. The locale \<open>kernel_frame\<close> is the interface of a reflexive and
  transitive relation that the small operations of the kernel respect: printing, the cursor, the
  keyboard, the memory viewer's marks, updates of the process table and of the current process.
  Its lemmas lift such a relation to the whole memory viewer, the scheduler, the exception
  handler and the way into a system call. It is interpreted on \<open>keeps_byte\<close>, that a byte of an
  allocated page keeps its value (the memory viewer's own page apart). The kernel's image, its stack
  and the console page are not bytes of \<open>mem\<close> in this model: the property speaks of the other pages.
\<close>

subsection \<open>Relations kept by every kernel entry\<close>

locale kernel_frame =
  fixes R :: "'a kstate_scheme \<Rightarrow> 'a kstate_scheme \<Rightarrow> bool"
  assumes refl: "R s s"
    and trans: "R s s1 \<Longrightarrow> R s1 s2 \<Longrightarrow> R s s2"
    and vprintf: "console_vprintf True cpos col fmt args s = Inr (p, s') \<Longrightarrow> R s s'"
    and log: "log_vprintf fmt args s = Inr s' \<Longrightarrow> R s s'"
    and set: "console_set pos ch s = Inr s' \<Longrightarrow> R s s'"
    and cursor: "R s (console_show_cursor (cursorpos s) s)"
    and keyboard: "R s (s\<lparr>keys := k, key_polls := ds\<rparr>)"
    and shown: "n < NPROC \<or> n = showing s \<Longrightarrow> R s (s\<lparr>last_ticks := t, showing := n\<rparr>)"
    and refresh: "memusage_refresh L s = Inr (v, s') \<Longrightarrow> R s s'"
    and tick: "R s (lapic_ack (s\<lparr>ticks := t\<rparr>))"
    and procs: "R s (set_proc i f s)"
    and switch: "j < NPROC \<or> j = current s \<Longrightarrow> R s (s\<lparr>current := j\<rparr>)"
begin

lemma error: "error_vprintf cpos col fmt args s = Inr (p, s') \<Longrightarrow> R s s'"
  by (auto simp: error_vprintf_def res_simps intro: trans log vprintf)

lemma page_error: "page_error pa desc p s = Inr s' \<Longrightarrow> R s s'"
  by (auto simp: page_error_def res_simps Let_def intro: trans error log)

lemma symbol_at: "symbol_at L v pa s = Inr (ch, s') \<Longrightarrow> R s s'"
  by (auto simp: symbol_at_def res_simps Let_def refl split: if_splits intro: page_error)

lemma row_label: "row_label r a pn s = Inr s' \<Longrightarrow> R s s'"
  by (auto simp: row_label_def res_simps refl split: if_splits intro: vprintf)

lemmas frame = refl error symbol_at row_label set vprintf log keyboard

lemma view_physical: "view_physical n pn L v s = Inr s' \<Longrightarrow> R s s'"
proof (induction n arbitrary: pn s)
  case (Suc n)
  then obtain s1 ch s2 s3 where "row_label 1 (of_nat (pn * 4096)) pn s = Inr s1"
      "symbol_at L v (of_nat pn * PAGESIZE) s1 = Inr (ch, s2)"
      "console_set (CPOS (1 + int (pn div 64)) (12 + int (pn mod 64))) ch s2 = Inr s3"
      "view_physical n (Suc pn) L v s3 = Inr s'"
    by (auto simp: res_simps)
  then show ?case using Suc.IH by (meson frame trans)
qed (simp add: refl)

lemma view_virtual: "view_virtual n L v it s = Inr s' \<Longrightarrow> R s s'"
proof (induction n arbitrary: it s)
  case (Suc n)
  show ?case
  proof (cases "vm_va it < max_view_va")
    case True
    with Suc.prems obtain s1 ch s2 s3 it1 where
      s1: "row_label 11 (vm_va it) (unat (vm_va it div PAGESIZE)) s = Inr s1" and
      s2: "(if \<not> vm_present (mem s1) it then Inr (32, s1)
            else bind_res (symbol_at L v (vm_pa (mem s1) it) s1) (\<lambda>(ch, s2).
                 Inr (if vm_user (mem s2) it then flip_colors ch else ch, s2))) = Inr (ch, s2)" and
      s3: "console_set (CPOS (11 + int (unat (vm_va it div PAGESIZE) div 64))
             (12 + int (unat (vm_va it div PAGESIZE) mod 64))) ch s2 = Inr s3"
          "view_virtual n L v it1 s3 = Inr s'"
      by (auto simp: res_simps Let_def)
    have "R s1 s2" using s2 by (auto simp: res_simps refl split: if_splits intro: symbol_at)
    with s1 s3 show ?thesis using Suc.IH by (meson frame trans)
  qed (use Suc.prems refl in simp)
qed (simp add: refl split: if_splits)

lemma memviewer: "console_memviewer L vmp s = Inr s' \<Longrightarrow> R s s'"
  by (auto simp: console_memviewer_def console_memviewer_virtual_def res_simps split: option.splits)
     (meson refresh vprintf view_physical view_virtual trans)+

lemma find_shown_range: "find_shown n pt sh = (p, sh') \<Longrightarrow> sh' < NPROC \<or> sh' = sh"
  by (induction n pt sh rule: find_shown.induct) (auto split: if_splits simp: NPROC_def)

lemma memshow: "memshow L s = Inr s' \<Longrightarrow> R s s'"
proof (cases "show_memory s")
  case True
  assume run: "memshow L s = Inr s'"
  define s1 where "s1 = (if last_ticks s = 0 \<or> ticks s - last_ticks s \<ge> of_int (HZ div 2)
      then s\<lparr>last_ticks := ticks s, showing := (showing s + 1) mod NPROC\<rparr> else s)"
  obtain p sh where f: "find_shown NPROC (ptable s1) (showing s1) = (p, sh)" by fastforce
  have "R s s1" using refl shown [of "(showing s + 1) mod NPROC" s] by (simp add: s1_def NPROC_def)
  moreover have "R s1 (s1\<lparr>showing := sh\<rparr>)"
    using shown [of sh s1 "last_ticks s1"] find_shown_range [OF f] by simp
  moreover have "console_memviewer L p (s1\<lparr>showing := sh\<rparr>) = Inr s'"
    using run True f by (simp add: memshow_def s1_def [symmetric])
  ultimately show ?thesis using memviewer trans by blast
qed (simp add: memshow_def refl)

lemma check_keyboard: "check_keyboard L s = Inr (Inl c, s') \<Longrightarrow> R s s'"
  by (auto simp: check_keyboard_def poll_keyboard_def res_simps Let_def keyboard
      split: if_splits list.splits prod.splits)

lemma run: "run L i s = Inr (out, s') \<Longrightarrow> i < NPROC \<or> i = current s \<Longrightarrow> R s s'"
  using run_spec [of L i s out s'] switch by blast

lemma schedule_loop:
  "schedule_loop n i spins L s = Inr (out, s') \<Longrightarrow> \<not> resets out \<Longrightarrow> R s s'"
proof (induction n arbitrary: i spins s)
  case (Suc n)
  show ?case
  proof (cases "pstate (ptable s ! ((i + 1) mod NPROC)) = P_RUNNABLE")
    case True
    then show ?thesis using Suc.prems run [of L "(i + 1) mod NPROC" s out s'] by (simp add: NPROC_def)
  next
    case False
    with Suc.prems obtain k s1 where k: "check_keyboard L s = Inr (k, s1)"
        "(case k of Inr out \<Rightarrow> Inr (out, s1)
          | Inl c \<Rightarrow> bind_res (if spins mod 0x1000 = 0 then memshow L s1 else Inr s1) (\<lambda>s2.
               schedule_loop n ((i + 1) mod NPROC) (spins + 1) L s2)) = Inr (out, s')"
      by (auto simp: Let_def res_simps simp del: One_nat_def)
    then obtain c where c: "k = Inl c" using Suc.prems(2)
      by (cases k) (auto simp: check_keyboard_def res_simps resets_def split: if_splits)
    with k obtain s2 where s2: "(if spins mod 0x1000 = 0 then memshow L s1 else Inr s1) = Inr s2"
        "schedule_loop n ((i + 1) mod NPROC) (spins + 1) L s2 = Inr (out, s')" by (auto simp: res_simps)
    have "R s1 s2" using s2(1) memshow refl by (auto split: if_splits)
    moreover have "R s2 s'" using s2(2) Suc.prems(2) by (rule Suc.IH)
    ultimately show ?thesis using k(1) c check_keyboard trans by blast
  qed
qed (simp add: refl)

lemma schedule: "schedule n L s = Inr (out, s') \<Longrightarrow> \<not> resets out \<Longrightarrow> R s s'"
  unfolding schedule_def by (rule schedule_loop)

lemma page_fault: "page_fault a s = Inr s' \<Longrightarrow> R s s'"
  by (auto simp: page_fault_def Let_def res_simps intro: trans error procs)

lemma entry:
  assumes "(if b then memshow L (console_show_cursor (cursorpos s) s)
            else Inr (console_show_cursor (cursorpos s) s)) = Inr s1"
    "check_keyboard L s1 = Inr (k, s2)"
    "(case k of Inr out \<Rightarrow> Inr (out, s2) | Inl c \<Rightarrow> body) = Inr (out, s')" "\<not> resets out"
  shows "R s s2 \<and> body = Inr (out, s')"
proof -
  from assms(2,3,4) obtain c where c: "k = Inl c" "body = Inr (out, s')"
    by (cases k) (auto simp: check_keyboard_def res_simps resets_def split: if_splits)
  have "R (console_show_cursor (cursorpos s) s) s1" using assms(1) memshow refl by (auto split: if_splits)
  then show ?thesis using c assms(2) check_keyboard cursor trans by blast
qed

lemma syscall_entry:
  assumes "syscall n L r s = Inr (out, s')" "\<not> resets out"
  obtains s1 where "R s s1" "syscall_dispatch n L r s1 = Inr (out, s')"
proof -
  let ?s = "set_proc (current s) (\<lambda>p. p\<lparr>regs := r\<rparr>) s"
  from assms(1) obtain s3 k s4 where "(if True then memshow L (console_show_cursor (cursorpos ?s) ?s)
        else Inr (console_show_cursor (cursorpos ?s) ?s)) = Inr s3" "check_keyboard L s3 = Inr (k, s4)"
      "(case k of Inr out \<Rightarrow> Inr (out, s4) | Inl c \<Rightarrow> syscall_dispatch n L r s4) = Inr (out, s')"
    by (auto simp: syscall_def Let_def res_simps)
  from entry [OF this assms(2)] show thesis using that procs trans by blast
qed

lemma exception:
  assumes "exception n L a r s = Inr (out, s')" "\<not> resets out"
  shows "R s s'"
proof -
  let ?s = "set_proc (current s) (\<lambda>p. p\<lparr>regs := r\<rparr>) s"
  from assms(1) obtain s3 k s4 where k: "(if reg_intno r \<noteq> INT_PF \<or> reg_errcode r AND PTE_U \<noteq> 0
        then memshow L (console_show_cursor (cursorpos ?s) ?s)
        else Inr (console_show_cursor (cursorpos ?s) ?s)) = Inr s3" "check_keyboard L s3 = Inr (k, s4)"
      "(case k of Inr out \<Rightarrow> Inr (out, s4) | Inl c \<Rightarrow> exception_dispatch n L a r s4) = Inr (out, s')"
    by (auto simp: exception_def Let_def res_simps)
  from entry [OF this assms(2)] have e: "R ?s s4" "exception_dispatch n L a r s4 = Inr (out, s')" by auto
  have "R s4 s'"
  proof (cases "reg_intno r = INT_IRQ + IRQ_TIMER")
    case True
    then show ?thesis using e(2) schedule assms(2) tick trans by (simp add: exception_dispatch_def) blast
  next
    case False
    with e(2) obtain s5 where s5: "page_fault a s4 = Inr s5"
        "(if pstate (ptable s5 ! current s5) = P_RUNNABLE then run L (current s5) s5
          else schedule n L s5) = Inr (out, s')"
      by (auto simp: exception_dispatch_def res_simps split: if_splits)
    have "R s5 s'" using s5(2) run schedule assms(2) by (auto split: if_splits)
    then show ?thesis using page_fault [OF s5(1)] trans by blast
  qed
  then show ?thesis using e(1) procs trans by blast
qed

end

subsection \<open>Bytes of allocated pages\<close>

text \<open>The byte at \<open>a\<close> is in a page with a reference count, and not in the memory viewer's page.\<close>

definition in_use :: "'a kstate_scheme \<Rightarrow> addr \<Rightarrow> bool" where
  "in_use s a \<longleftrightarrow> page_no a < NPAGES \<and> physpages s ! page_no a \<noteq> 0
     \<and> (case mu_v s of None \<Rightarrow> True | Some v \<Rightarrow> 4096 \<le> unat (a - v))"

definition keeps_byte :: "addr \<Rightarrow> 'a kstate_scheme \<Rightarrow> 'a kstate_scheme \<Rightarrow> bool" where
  "keeps_byte a s s' \<longleftrightarrow>
     (kmem_ok s \<and> in_use s a \<longrightarrow> kmem_ok s' \<and> in_use s' a \<and> mem s' a = mem s a)"

lemma keeps_byte_refl [simp]: "keeps_byte a s s"
  by (simp add: keeps_byte_def)

lemma keeps_byte_trans: "keeps_byte a s s1 \<Longrightarrow> keeps_byte a s1 s2 \<Longrightarrow> keeps_byte a s s2"
  by (auto simp: keeps_byte_def)

lemma keeps_byte_updates [simp]:
  "keeps_byte a s (s'\<lparr>console := c\<rparr>) = keeps_byte a s s'"
  "keeps_byte a s (s'\<lparr>cursorpos := p\<rparr>) = keeps_byte a s s'"
  "keeps_byte a s (s'\<lparr>ports := q\<rparr>) = keeps_byte a s s'"
  "keeps_byte a s (s'\<lparr>ptable := pt\<rparr>) = keeps_byte a s s'"
  "keeps_byte a s (s'\<lparr>current := i\<rparr>) = keeps_byte a s s'"
  "keeps_byte a s (s'\<lparr>ticks := t\<rparr>) = keeps_byte a s s'"
  "keeps_byte a s (s'\<lparr>last_ticks := t\<rparr>) = keeps_byte a s s'"
  "keeps_byte a s (s'\<lparr>showing := sh\<rparr>) = keeps_byte a s s'"
  "keeps_byte a s (s'\<lparr>keys := k\<rparr>) = keeps_byte a s s'"
  "keeps_byte a s (s'\<lparr>key_polls := ks\<rparr>) = keeps_byte a s s'"
  "keeps_byte a s (s'\<lparr>pp_initialized := b\<rparr>) = keeps_byte a s s'"
  "keeps_byte a s (s'\<lparr>lapic_writes := w\<rparr>) = keeps_byte a s s'"
  "keeps_byte a s (s'\<lparr>pipebuf := d\<rparr>) = keeps_byte a s s'"
  "keeps_byte a s (s'\<lparr>pipebuf_len := l\<rparr>) = keeps_byte a s s'"
  by (simp_all add: keeps_byte_def in_use_def kmem_ok_def)

lemma keeps_byte_screen: "screen_only s s' \<Longrightarrow> keeps_byte a s s'"
  by (erule screen_onlyE) simp

lemma keeps_byte_putc: "parallel_port_putc s c col = Inr s' \<Longrightarrow> keeps_byte a s s'"
  by (auto simp: parallel_port_putc_def outb_def Let_def)

lemma keeps_byte_log: "log_vprintf fmt args s = Inr s' \<Longrightarrow> keeps_byte a s s'"
  by (auto simp: log_vprintf_def res_simps
      intro: printer_run_rel [where R = "keeps_byte a", OF keeps_byte_putc keeps_byte_refl keeps_byte_trans])

lemma mark_outside: "4096 \<le> unat (b - v) \<Longrightarrow> mark v pa fl m b = m b"
proof -
  assume b: "4096 \<le> unat (b - v)"
  have "4 \<le> unat (b - (v + 4 * (pa div PAGESIZE)))" if "pa < mu_maxpa"
  proof -
    have "unat pa < 4194304" using that
      by (simp add: mu_maxpa_def PAGESIZE_def word_less_nat_alt)
    then have k: "unat (pa div PAGESIZE) < 1024" by (simp add: PAGESIZE_def unat_div_distrib)
    then have "unat (4 * (pa div PAGESIZE)) = 4 * unat (pa div PAGESIZE)" by (simp add: unat_mult64)
    then have "unat ((b - v) - 4 * (pa div PAGESIZE)) = unat (b - v) - 4 * unat (pa div PAGESIZE)"
      using b k unat_sub64 [of "4 * (pa div PAGESIZE)" "b - v"] by linarith
    then have "unat (b - (v + 4 * (pa div PAGESIZE))) = unat (b - v) - 4 * unat (pa div PAGESIZE)"
      by (simp only: diff_diff_eq)
    then show ?thesis using b k by simp
  qed
  then show ?thesis by (simp add: mark_def store32_def storen_outside Let_def)
qed

lemma mark_tables_outside:
  "mark_tables n v fl cont it m = Inr m' \<Longrightarrow> 4096 \<le> unat (b - v) \<Longrightarrow> m' b = m b"
  by (induction n arbitrary: it m)
     (auto simp: Let_def mark_outside split: if_splits option.splits)

lemma mark_all_tables_outside:
  "mark_all_tables v fl cont pt m = Inr m' \<Longrightarrow> 4096 \<le> unat (b - v) \<Longrightarrow> m' b = m b"
  by (auto simp: mark_all_tables_def res_simps mark_outside mark_tables_outside split: option.splits)

lemma mark_user_pages_outside:
  "mark_user_pages n v fl it m = Inr m' \<Longrightarrow> 4096 \<le> unat (b - v) \<Longrightarrow> m' b = m b"
  by (induction n arbitrary: it m)
     (fastforce simp: Let_def res_simps mark_outside split: if_splits)+

lemma mark_owned_pages_outside:
  "mark_owned_pages n v pps it m = Inr m' \<Longrightarrow> 4096 \<le> unat (b - v) \<Longrightarrow> m' b = m b"
  by (induction n arbitrary: it m)
     (fastforce simp: Let_def res_simps mark_outside split: if_splits)+

lemma mark_processes_outside:
  "mark_processes L v i ps am = Inr am' \<Longrightarrow> 4096 \<le> unat (b - v) \<Longrightarrow> snd am' b = snd am b"
proof (induction L v i ps am rule: mark_processes.induct)
  case (2 L v i p ps am)
  then obtain am1 where "mark_process L v i p am = Inr am1" "mark_processes L v (Suc i) ps am1 = Inr am'"
    by (auto simp: res_simps)
  moreover from this have "snd am1 b = snd am b" using 2(3)
    by (auto simp: mark_process_def res_simps mark_all_tables_outside mark_user_pages_outside
        split: prod.splits if_splits)
  ultimately show ?case using 2 by simp
qed simp

lemma refresh_marks_outside:
  assumes "refresh_marks L v s = Inr m'" "4096 \<le> unat (b - v)"
  shows "m' b = mem s b"
proof -
  from assms(1) obtain m1 any m2 m3 where
    m: "mark_all_tables v f_kernel (\<lambda>it. \<not> ptiter_done it) (kernel_pagetable L) (memset (mem s) v 0 0x1000) = Inr m1"
       "mark_processes L v 1 (tl (ptable s)) (False, m1) = Inr (any, m2)"
       "(if any then Inr m2 else bind_res (vmiter_new m2 (kernel_pagetable L) 0) (\<lambda>it.
           mark_owned_pages mv_fuel v (physpages s) it m2)) = Inr m3"
       "m' = (if any then mark v v f_kernel m3 else m3)"
    by (auto simp: refresh_marks_def res_simps)
  have "m' b = m3 b" using m(4) assms(2) by (simp add: mark_outside)
  also have "\<dots> = m2 b" using m(3) assms(2)
    by (auto simp: res_simps mark_owned_pages_outside split: if_splits)
  also have "\<dots> = m1 b" using mark_processes_outside [OF m(2) assms(2)] by simp
  also have "\<dots> = memset (mem s) v 0 0x1000 b" using mark_all_tables_outside [OF m(1) assms(2)] .
  also have "\<dots> = mem s b" using assms(2) by (simp add: memset_table fill_page_def)
  finally show ?thesis .
qed

lemma page_apart:
  assumes "aligned 4096 pa" "page_no pa \<noteq> page_no a"
  shows "4096 \<le> unat (a - pa)"
proof (rule ccontr)
  assume "\<not> 4096 \<le> unat (a - pa)"
  then have lt: "unat (a - pa) < 4096" by simp
  obtain k where k: "unat pa = 4096 * k" using assms(1) by (auto simp: aligned_def elim: dvdE)
  then have "unat pa + unat (a - pa) < 2 ^ 64" using unat_addr_bound [of pa] lt by simp
  then have "unat a = unat pa + unat (a - pa)" using unat_add64 [of pa "a - pa"] by simp
  then have "unat a div 4096 = unat pa div 4096" using lt k by simp
  then show False using assms(2) by (simp add: page_no_def PAGESIZE_def unat_div_distrib)
qed

lemma kalloc_keeps_byte:
  assumes "kalloc L sz s = (Some v, s')"
  shows "keeps_byte a s (s'\<lparr>mu_v := Some v\<rparr>) \<or> mu_v s \<noteq> None"
proof (cases "kmem_ok s \<and> in_use s a \<and> mu_v s = None")
  case True
  note k = kalloc_Some [OF _ assms]
  have "physpages s ! page_no v = 0" using k(2) True by (simp add: free_page_def)
  then have ne: "page_no v \<noteq> page_no a" using True by (auto simp: in_use_def)
  then have far: "4096 \<le> unat (a - v)" using k(3) True page_apart by blast
  have "kmem_ok s'" "s' = claim_page s v" using k(5,6) True by blast+
  then show ?thesis using True ne far
    by (auto simp: keeps_byte_def in_use_def claim_page_def fill_page_def kmem_ok_def)
qed (auto simp: keeps_byte_def)

lemma keeps_byte_refresh:
  assumes "memusage_refresh L s = Inr (v, s')"
  shows "keeps_byte a s s'"
proof -
  from assms obtain s1 m where s1: "(case mu_v s of Some v \<Rightarrow> Inr (v, s)
        | None \<Rightarrow> (case kalloc L PAGESIZE s of (None, s1) \<Rightarrow> Inl (AssertFail ''v_ != nullptr'')
                 | (Some v, s1) \<Rightarrow> Inr (v, s1\<lparr>mu_v := Some v\<rparr>))) = Inr (v, s1)"
      "refresh_marks L v s1 = Inr m" "s' = s1\<lparr>mem := m\<rparr>"
    by (auto simp: memusage_refresh_def res_simps)
  have "mu_v s1 = Some v" using s1(1) by (auto split: option.splits prod.splits)
  then have "keeps_byte a s1 s'" using s1(3) refresh_marks_outside [OF s1(2)]
    by (auto simp: keeps_byte_def in_use_def kmem_ok_def)
  moreover have "keeps_byte a s s1" using s1(1) kalloc_keeps_byte
    by (fastforce split: option.splits prod.splits)
  ultimately show ?thesis using keeps_byte_trans by blast
qed

interpretation byte: kernel_frame "keeps_byte a" for a :: addr
proof
  show "keeps_byte a s (set_proc i f s)" for s :: "'a kstate_scheme" and i f by (simp add: set_proc_def)
  show "keeps_byte a s (lapic_ack (s\<lparr>ticks := t\<rparr>))" for s :: "'a kstate_scheme" and t
    by (simp add: lapic_ack_def lapic_write_def)
qed (auto intro: keeps_byte_trans keeps_byte_log keeps_byte_refresh keeps_byte_screen console_vprintf_only
     simp: console_set_def res_simps)

text \<open>The bytes a system call may write on behalf of its caller.\<close>

definition call_writes :: "regstate \<Rightarrow> addr \<Rightarrow> bool" where
  "call_writes r a \<longleftrightarrow>
     reg_rax r = SYSCALL_GETSYSNAME \<and> unat (a - reg_rdi r) < 13
   \<or> reg_rax r = SYSCALL_PIPEREAD \<and> a = reg_rdi r
   \<or> reg_rax r = SYSCALL_PAGE_ALLOC \<and> unat (a - reg_rdi r) < 4096"

lemma claim_at_keeps:
  assumes "claim_at b s = Inr s'"
  shows "keeps_byte a s s'"
proof -
  have "s' = s\<lparr>physpages := (physpages s)[page_no b := 1]\<rparr>" "physpages s ! page_no b = 0"
    using assms by (auto simp: claim_at_def res_simps)
  then show ?thesis by (cases "page_no a = page_no b") (auto simp: keeps_byte_def in_use_def kmem_ok_def)
qed

lemma keeps_byte_mem: "(in_use s a \<Longrightarrow> m a = mem s a) \<Longrightarrow> keeps_byte a s (s\<lparr>mem := m\<rparr>)"
  by (simp add: keeps_byte_def in_use_def kmem_ok_def)

lemma syscall_dispatch_byte:
  assumes run: "syscall_dispatch n L r s = Inr (out, s')" and nr: "\<not> resets out"
    and nw: "\<not> call_writes r a"
  shows "keeps_byte a s s'"
proof -
  consider "reg_rax r = SYSCALL_YIELD" | "reg_rax r = SYSCALL_GETSYSNAME" | "reg_rax r = SYSCALL_PAGE_ALLOC"
    | "reg_rax r = SYSCALL_PIPEREAD" | "reg_rax r \<notin> {SYSCALL_YIELD, SYSCALL_GETSYSNAME, SYSCALL_PAGE_ALLOC, SYSCALL_PIPEREAD}"
    by blast
  then show ?thesis
  proof cases
    case 1
    then show ?thesis using run nr byte.schedule byte.procs keeps_byte_trans
      by (simp add: syscall_dispatch_def syscall_consts) blast
  next
    case 2
    then have "length (sysname @ [0]) \<le> unat (a - reg_rdi r)" using nw
      by (simp add: call_writes_def sysname_def ascii_def)
    then show ?thesis using 2 run
      by (auto simp: syscall_dispatch_def syscall_getsysname_def syscall_consts put_bytes_frame res_simps
          intro!: keeps_byte_mem)
  next
    case 3
    with run obtain s1 where s1: "claim_at (reg_rdi r) s = Inr s1"
        "s' = s1\<lparr>mem := memset (mem s1) (reg_rdi r) 0 PAGESIZE\<rparr>"
      by (auto simp: syscall_dispatch_def syscall_page_alloc_def syscall_consts res_simps)
    then have "keeps_byte a s1 s'" using nw 3
      by (auto simp: call_writes_def memset_page fill_page_def intro!: keeps_byte_mem)
    then show ?thesis using claim_at_keeps [OF s1(1)] keeps_byte_trans by blast
  next
    case 4
    then show ?thesis using run nw
      by (auto simp: syscall_dispatch_def syscall_piperead_def syscall_consts call_writes_def res_simps
          split: if_splits intro!: keeps_byte_mem)
  next
    case 5
    then show ?thesis using run
      by (auto simp: syscall_dispatch_def syscall_spawn_def syscall_pipewrite_def user_panic_def
          res_simps split: if_splits)
  qed
qed

lemma syscall_keeps_byte:
  assumes "syscall n L r s = Inr (out, s')" "\<not> resets out" "\<not> call_writes r a"
  shows "keeps_byte a s s'"
proof -
  obtain s1 where "keeps_byte a s s1" "syscall_dispatch n L r s1 = Inr (out, s')"
    using byte.syscall_entry [OF assms(1,2)] by blast
  then show ?thesis using syscall_dispatch_byte assms(2,3) keeps_byte_trans by blast
qed

lemmas exception_keeps_byte = byte.exception

text \<open>
  C6: No exception and no system call that returns (neither stops the kernel nor resets the machine)
  changes a byte of an allocated page outside the kernel's own data and the page of the memory
  viewer, except the bytes that the call was asked to write (the buffer of a pipe read or of the
  system name, the 4096 bytes of an allocation), and allocated pages stay allocated. The kernel's
  own data are its image, its stack, the console page and the devices; a call whose pointer
  reaches them is not one that returns: the model ends there.
\<close>
theorem kernel_writes_only:
  assumes "kmem_ok s" "in_use s a" "\<not> kernel_data L a" "\<not> resets out"
    and "syscall n L r s = Inr (out, s') \<and> \<not> call_writes r a \<or> exception n L b r s = Inr (out, s')"
  shows "mem s' a = mem s a \<and> in_use s' a \<and> kmem_ok s'"
  using assms syscall_keeps_byte exception_keeps_byte unfolding keeps_byte_def by blast

text \<open>
  \<^verbatim>\<open>syscall_page_alloc\<close> does not check that its argument is page-aligned: it claims the page that holds
  the address and clears the 4096 bytes from the address on, so the first bytes of the next page
  are cleared too, whoever uses that page.
\<close>
theorem page_alloc_spills:
  assumes "kmem_ok s" "physpages s ! page_no a = 0" "page_no a < NPAGES" "unat (b - a) < 4096"
    and "\<not> reaches (\<lambda>x. \<not> kernel_mapped x) a 4096" "\<not> reaches (kernel_data L) a 4096"
  shows "\<exists>s'. syscall_page_alloc L a s = Inr (0, s') \<and> mem s' b = 0
    \<and> physpages s' = (physpages s)[page_no a := 1]"
  using assms
  by (simp add: syscall_page_alloc_def user_access_def claim_at_def kmem_ok_def check_def bind_res_def memset_page fill_page_def)

subsection \<open>Concrete instances\<close>

definition demo_busy :: kstate where
  "demo_busy = demo_kernel\<lparr>physpages := replicate 512 1\<rparr>"

lemma demo_busy_write:
  "\<exists>s'. syscall 16 demo_klink (demo_call SYSCALL_PIPEWRITE) demo_busy = Inr (Return 1, s')"
  by (simp add: syscall_def syscall_dispatch_def demo_call_def syscall_consts demo_kernel_def demo_busy_def
      memshow_def check_keyboard_def poll_keyboard_def keyboard_readc_def syscall_pipewrite_def set_proc_def
      console_show_cursor_def outb_def Let_def zero_regs_def demo_pointer [simplified])

lemma demo_busy_ok: "kmem_ok demo_busy"
  by (simp add: demo_busy_def demo_kernel_def kmem_ok_def NPAGES_def aligned_def)

theorem kernel_writes_only_witness:
  "\<exists>s'. syscall 16 demo_klink (demo_call SYSCALL_PIPEWRITE) demo_busy = Inr (Return 1, s')
    \<and> mem s' 0x140000 = 65 \<and> in_use s' 0x140000"
proof -
  obtain s' where s': "syscall 16 demo_klink (demo_call SYSCALL_PIPEWRITE) demo_busy = Inr (Return 1, s')"
    using demo_busy_write by blast
  note demo_busy_ok
  moreover have "\<not> kernel_data demo_klink 0x140000" by (simp add: demo_kernel_data)
  moreover have "in_use demo_busy 0x140000" "mem demo_busy 0x140000 = 65"
    by (simp_all add: in_use_def demo_busy_def demo_kernel_def page_no_def NPAGES_def PAGESIZE_def demo_map_mem_def)
  moreover have "\<not> resets (Return 1)" "\<not> call_writes (demo_call SYSCALL_PIPEWRITE) 0x140000"
    by (simp_all add: resets_def call_writes_def demo_call_def syscall_consts zero_regs_def)
  ultimately show ?thesis using
      kernel_writes_only [where s = demo_busy and a = "0x140000" and out = "Return 1", OF _ _ _ _ disjI1] s' by metis
qed

end
