(* ===== verification/PipePrograms.thy ===== *)
theory PipePrograms
  imports Isolation
begin

text \<open>
  The two processes that talk through the kernel's pipe, \<^verbatim>\<open>kernels1/p-pipewriter.cc\<close> and
  \<^verbatim>\<open>kernels1/p-pipereader.cc\<close>. Each program is a state machine over its local variables and the
  machine: a step runs up to the next system call, the next line on the console, or the next change
  of loop. \<open>pipe_step\<close> puts the two programs, the kernel with all its handlers and the interrupts
  together: the process that the kernel has made current takes a step, or an exception arrives, or
  keys are typed. The bytes of the messages and of the reader's buffer are in the physical memory of
  the machine, which every process sees at the same addresses because all share the kernel's
  page table. The histories \<open>w_sent\<close> and \<open>r_got\<close> record the messages chosen by the writer and printed
  by the reader; the programs do not read them.
\<close>

subsection \<open>The writer\<close>

definition pipe_messages :: "u8 list list" where
  "pipe_messages = [ascii ''Hello, friend!\<newline>'', ascii ''I am a plumber.\<newline>'',
     ascii ''I'' @ [39] @ ascii ''m talking through a pipe.\<newline>'']"

datatype writer_pc = W_choose | W_write | W_sleep | W_wait | W_panic

record writer =
  w_pc :: writer_pc
  w_nwrites :: u64
  w_message :: addr
  w_pos :: u64
  w_len :: u64
  w_wait_until :: u64
  w_rand :: rand_state
  w_sent :: "nat list"

definition pipewrite_returned :: "u64 \<Rightarrow> writer \<Rightarrow> writer" where
  "pipewrite_returned v w =
     (if v = 0 then w\<lparr>w_pc := W_panic\<rparr>
      else if sint v > 0 then w\<lparr>w_pos := w_pos w + v\<rparr> else w)"

text \<open>
  \<open>messages i\<close> is the pointer in the array, i.e. where the linker put the text. The result is the
  outcome of a system call if one was made, the machine and the writer; \<open>r\<close> is the register file
  that a system call starts from.
\<close>

definition writer_step ::
  "nat \<Rightarrow> link \<Rightarrow> (nat \<Rightarrow> addr) \<Rightarrow> regstate \<Rightarrow> kstate \<times> writer \<Rightarrow> (outcome option \<times> kstate \<times> writer) res" where
  "writer_step n L messages r kw =
     (let (k, w) = kw in
      case w_pc w of
        W_choose \<Rightarrow>
          bind_res (rand_range (w_rand w) 0 (of_nat (length pipe_messages) - 1)) (\<lambda>(i, st).
          case strlen (mem k) (messages (unat i)) of
            None \<Rightarrow> Inl Diverges
          | Some len \<Rightarrow>
              Inr (None, k, w\<lparr>w_pc := W_write, w_message := messages (unat i), w_pos := 0, w_len := len,
                              w_rand := st, w_sent := w_sent w @ [unat i]\<rparr>))
      | W_write \<Rightarrow>
          if w_pos w < w_len w
          then bind_res (syscall n L (sys_pipewrite (w_message w + w_pos w) (w_len w - w_pos w) r) k) (\<lambda>(out, k1).
               let w1 = w\<lparr>w_nwrites := w_nwrites w + 1\<rparr>
               in Inr (Some out, k1, case out of Return v \<Rightarrow> pipewrite_returned v w1 | _ \<Rightarrow> w1))
          else bind_res (console_vprintf False (-1) 0x0F00 (ascii ''%zu sys_pipewrite calls: wrote %s'')
                           [VNum (w_nwrites w), VStr (bytes_at (mem k) (w_message w) (unat (w_len w)))] k) (\<lambda>(_, k1).
               Inr (None, k1, w\<lparr>w_pc := W_sleep\<rparr>))
      | W_sleep \<Rightarrow>
          bind_res (rand_range (w_rand w) (of_int HZ) (of_int (3 * HZ - 1))) (\<lambda>(d, st).
          Inr (None, k, w\<lparr>w_pc := W_wait, w_wait_until := ticks k + scast d, w_rand := st\<rparr>))
      | W_wait \<Rightarrow>
          if ticks k < w_wait_until w
          then bind_res (syscall n L (sys_yield r) k) (\<lambda>(out, k1). Inr (Some out, k1, w))
          else Inr (None, k, w\<lparr>w_pc := W_choose\<rparr>)
      | W_panic \<Rightarrow> Inl (Panic ''pipe closed for writing!''))"

subsection \<open>The reader\<close>

datatype reader_pc = R_read | R_print | R_panic

record reader =
  r_pc :: reader_pc
  r_buflen :: u64
  r_nreads :: u64
  r_got :: "u8 list list"

definition READER_BUF :: u64 where "READER_BUF = 200"

definition piperead_returned :: "u64 \<Rightarrow> reader \<Rightarrow> reader" where
  "piperead_returned v rd =
     (if v = 0 then rd\<lparr>r_pc := R_panic\<rparr>
      else if sint v > 0 then rd\<lparr>r_buflen := r_buflen rd + v\<rparr> else rd)"

definition reader_step ::
  "nat \<Rightarrow> link \<Rightarrow> addr \<Rightarrow> regstate \<Rightarrow> kstate \<times> reader \<Rightarrow> (outcome option \<times> kstate \<times> reader) res" where
  "reader_step n L buf r krd =
     (let (k, rd) = krd in
      case r_pc rd of
        R_read \<Rightarrow>
          if memchr (mem k) buf 10 (r_buflen rd) = None
          then bind_res (syscall n L (sys_piperead (buf + r_buflen rd) (READER_BUF - r_buflen rd) r) k) (\<lambda>(out, k1).
               let rd1 = rd\<lparr>r_nreads := r_nreads rd + 1\<rparr>
               in Inr (Some out, k1, case out of Return v \<Rightarrow> piperead_returned v rd1 | _ \<Rightarrow> rd1))
          else Inr (None, k, rd\<lparr>r_pc := R_print\<rparr>)
      | R_print \<Rightarrow>
          (case memchr (mem k) buf 10 (r_buflen rd) of
             None \<Rightarrow> Inl (OutOfBounds ''buf'')
           | Some newline \<Rightarrow>
               let messagelen = (newline + 1) - buf
               in bind_res (console_vprintf False (-1) 0x0E00 (ascii ''%zu sys_piperead calls: read %.*s'')
                              [VNum (r_nreads rd), VNum messagelen,
                               VStr (bytes_at (mem k) buf (unat READER_BUF))] k) (\<lambda>(_, k1).
                  Inr (None, k1\<lparr>mem := memmove (mem k1) buf (buf + messagelen) (r_buflen rd - messagelen)\<rparr>,
                       rd\<lparr>r_pc := R_read, r_buflen := r_buflen rd - messagelen,
                          r_got := r_got rd @ [bytes_at (mem k) buf (unat messagelen)]\<rparr>)))
      | R_panic \<Rightarrow> Inl (Panic ''pipe closed for reading!''))"

subsection \<open>Both processes on the machine\<close>

record pipe_world =
  pw_kernel :: kstate
  pw_writer :: writer
  pw_reader :: reader

definition call_ok :: "outcome option \<Rightarrow> bool" where
  "call_ok out = (case out of None \<Rightarrow> True | Some o' \<Rightarrow> \<not> resets o')"

inductive pipe_step :: "nat \<Rightarrow> link \<Rightarrow> (nat \<Rightarrow> addr) \<Rightarrow> addr \<Rightarrow> pipe_world \<Rightarrow> pipe_world \<Rightarrow> bool"
  for n :: nat and L :: link and messages :: "nat \<Rightarrow> addr" and buf :: addr where
  writer_runs: "current (pw_kernel s) = 1 \<Longrightarrow>
    writer_step n L messages r (pw_kernel s, pw_writer s) = Inr (out, k, w) \<Longrightarrow> call_ok out \<Longrightarrow>
    pipe_step n L messages buf s (s\<lparr>pw_kernel := k, pw_writer := w\<rparr>)"
| reader_runs: "current (pw_kernel s) = 2 \<Longrightarrow>
    reader_step n L buf r (pw_kernel s, pw_reader s) = Inr (out, k, rd) \<Longrightarrow> call_ok out \<Longrightarrow>
    pipe_step n L messages buf s (s\<lparr>pw_kernel := k, pw_reader := rd\<rparr>)"
| interrupted: "exception n L a r (pw_kernel s) = Inr (out, k) \<Longrightarrow> \<not> resets out \<Longrightarrow>
    pipe_step n L messages buf s (s\<lparr>pw_kernel := k\<rparr>)"
| keys_typed: "pipe_step n L messages buf s (s\<lparr>pw_kernel := (pw_kernel s)\<lparr>key_polls := ks\<rparr>\<rparr>)"

text \<open>
  The start: an empty pipe, both programs at the beginning, the messages in memory, and the messages
  and the reader's buffer in allocated pages, apart from each other.
\<close>

definition message_byte :: "(nat \<Rightarrow> addr) \<Rightarrow> addr \<Rightarrow> bool" where
  "message_byte messages a \<longleftrightarrow>
     (\<exists>i < length pipe_messages. unat (a - messages i) \<le> length (pipe_messages ! i))"

definition messages_loaded :: "(nat \<Rightarrow> addr) \<Rightarrow> memory \<Rightarrow> bool" where
  "messages_loaded messages m \<longleftrightarrow>
     (\<forall>i < length pipe_messages. cstring_at m (messages i) (pipe_messages ! i))"

definition pipe_started :: "(nat \<Rightarrow> addr) \<Rightarrow> addr \<Rightarrow> pipe_world \<Rightarrow> bool" where
  "pipe_started messages buf s \<longleftrightarrow>
     kernel_ok (pw_kernel s) \<and> kmem_ok (pw_kernel s) \<and> pipebuf_len (pw_kernel s) = 0
   \<and> messages_loaded messages (mem (pw_kernel s))
   \<and> (\<forall>a. message_byte messages a \<longrightarrow> in_use (pw_kernel s) a \<and> 200 \<le> unat (a - buf))
   \<and> (\<forall>a. unat (a - buf) < 200 \<longrightarrow> in_use (pw_kernel s) a)
   \<and> w_pc (pw_writer s) = W_choose \<and> w_sent (pw_writer s) = []
   \<and> r_pc (pw_reader s) = R_read \<and> r_buflen (pw_reader s) = 0 \<and> r_got (pw_reader s) = []"

subsection \<open>Lines\<close>

definition is_line :: "u8 list \<Rightarrow> bool" where
  "is_line x \<longleftrightarrow> x \<noteq> [] \<and> last x = 10 \<and> 10 \<notin> set (butlast x)"

lemma is_line_split: "is_line x \<Longrightarrow> x = butlast x @ [10]"
  by (simp add: is_line_def) (metis append_butlast_last_id)

lemma is_line_snoc [simp]: "is_line (y @ [10]) \<longleftrightarrow> 10 \<notin> set y"
  by (simp add: is_line_def)

lemma newline_split:
  "y @ 10 # u = (z :: u8 list) @ 10 # v \<Longrightarrow> 10 \<notin> set y \<Longrightarrow> 10 \<notin> set z \<Longrightarrow> y = z \<and> u = v"
proof (induction y arbitrary: z)
  case Nil
  then show ?case by (cases z) auto
next
  case (Cons a y)
  then show ?case by (cases z) auto
qed

lemma lines_prefix:
  "\<forall>a \<in> set A. is_line a \<Longrightarrow> \<forall>b \<in> set B. is_line b \<Longrightarrow> 10 \<notin> set p \<Longrightarrow> concat A @ x = concat B @ p \<Longrightarrow>
   \<exists>C. B = A @ C \<and> x = concat C @ p"
proof (induction A arbitrary: B)
  case (Cons a A)
  obtain y where y: "a = y @ [10]" "10 \<notin> set y" using Cons.prems(1) is_line_split
    by (metis is_line_def list.set_intros(1))
  show ?case
  proof (cases B)
    case Nil
    then show ?thesis using Cons.prems(3,4) y by auto
  next
    case (Cons b B')
    obtain z where z: "b = z @ [10]" "10 \<notin> set z" using Cons.prems(2) \<open>B = b # B'\<close> is_line_split
      by (metis is_line_def list.set_intros(1))
    have "y @ 10 # (concat A @ x) = z @ 10 # (concat B' @ p)"
      using Cons.prems(4) y z \<open>B = b # B'\<close> by simp
    then have "y = z" "concat A @ x = concat B' @ p" using newline_split y z by blast+
    moreover have "\<forall>a \<in> set A. is_line a" "\<forall>b \<in> set B'. is_line b"
      using Cons.prems(1,2) \<open>B = b # B'\<close> by auto
    ultimately obtain C where "B' = A @ C" "x = concat C @ p" using Cons.IH Cons.prems(3) by blast
    then show ?thesis using \<open>B = b # B'\<close> y z \<open>y = z\<close> by auto
  qed
qed simp

lemma partial_line_bound:
  assumes "b @ c = concat C @ p" "\<forall>x \<in> set C. is_line x \<and> length x \<le> n" "length p \<le> n" "10 \<notin> set b"
  shows "length b \<le> n"
proof (cases C)
  case Nil
  then show ?thesis using assms(1,3) by (metis append_Nil concat.simps(1) le_add1 length_append order_trans)
next
  case (Cons x C')
  then have x: "x = butlast x @ [10]" "length x \<le> n" using assms(2) is_line_split by auto
  have "length b \<le> length (butlast x)"
  proof (rule ccontr)
    assume "\<not> length b \<le> length (butlast x)"
    then have lt: "length (butlast x) < length b" by simp
    have "(b @ c) ! length (butlast x) = 10"
      unfolding assms(1) Cons using x(1) by (metis append_Cons append_assoc append_Nil concat.simps(2) nth_append_length)
    then show False using lt assms(4) by (simp add: nth_append) (metis nth_mem)
  qed
  then show ?thesis using x(2) by simp
qed

subsection \<open>Searching the buffer\<close>

lemma set_bytes_at: "c \<in> set (bytes_at m a n) \<longleftrightarrow> (\<exists>i < n. m (a + of_nat i) = c)"
  by (auto simp: bytes_at_def)

lemma memchr_loop_None: "memchr_loop m a c n = None \<longleftrightarrow> c \<notin> set (bytes_at m a n)"
  by (induction n arbitrary: a) (auto simp: bytes_at_Cons)

lemma memchr_loop_Some:
  "memchr_loop m a c n = Some p \<Longrightarrow> \<exists>i < n. p = a + of_nat i \<and> m p = c \<and> c \<notin> set (bytes_at m a i)"
proof (induction n arbitrary: a)
  case (Suc n)
  show ?case
  proof (cases "m a = c")
    case True
    then show ?thesis using Suc.prems by (intro exI [of _ 0]) auto
  next
    case False
    then obtain i where "i < n" "p = a + 1 + of_nat i" "m p = c" "c \<notin> set (bytes_at m (a + 1) i)"
      using Suc by auto
    then show ?thesis using False by (intro exI [of _ "Suc i"]) (auto simp: bytes_at_Cons)
  qed
qed simp

subsection \<open>What the system calls of the programs do\<close>

lemma syscall_pipe:
  assumes "kernel_ok k" "syscall n L r k = Inr (out, k')" "\<not> resets out"
  shows "kernel_ok k' \<and> pipe_content k @ sent r out k' = received r out k' @ pipe_content k'"
  using kernel_step_pipe [OF assms(1) kernel_step.call [OF assms(2,3)]] .

lemma exception_pipe:
  assumes "kernel_ok k" "exception n L a r k = Inr (out, k')" "\<not> resets out"
  shows "kernel_ok k' \<and> pipe_content k' = pipe_content k"
  using kernel_step_pipe [OF assms(1) kernel_step.trap [OF assms(2,3)]] by simp

lemma pipe_call_returns:
  assumes "syscall n L r k = Inr (out, k')" "\<not> resets out" "reg_rsi r \<noteq> 0"
    "reg_rax r = SYSCALL_PIPEWRITE \<or> reg_rax r = SYSCALL_PIPEREAD"
  shows "out = Return 1 \<or> out = Return (-1)"
proof -
  obtain s1 where "syscall_dispatch n L r s1 = Inr (out, k')" using syscall_enter [OF assms(1,2)] by metis
  then show ?thesis using assms(3,4)
    by (auto simp: syscall_dispatch_def syscall_pipewrite_def syscall_piperead_def syscall_consts res_simps split: if_splits)
qed

lemma pipewrite_call:
  assumes "kernel_ok k" "syscall n L (sys_pipewrite b sz r) k = Inr (out, k')" "\<not> resets out" "sz \<noteq> 0"
  shows "kernel_ok k' \<and> (\<forall>a. keeps_byte a k k')
    \<and> (out = Return 1 \<and> pipe_content k' = pipe_content k @ [mem k' b]
       \<or> out = Return (-1) \<and> pipe_content k' = pipe_content k)"
proof -
  have "\<not> call_writes (sys_pipewrite b sz r) a" for a by (simp add: call_writes_def sys_defs syscall_consts)
  then show ?thesis
    using syscall_pipe [OF assms(1-3)] pipe_call_returns [OF assms(2,3)] syscall_keeps_byte [OF assms(2,3)] assms(4)
    by (auto simp: sys_defs syscall_consts sent_def received_def)
qed

lemma yield_call:
  assumes "kernel_ok k" "syscall n L (sys_yield r) k = Inr (out, k')" "\<not> resets out"
  shows "kernel_ok k' \<and> (\<forall>a. keeps_byte a k k') \<and> pipe_content k' = pipe_content k"
proof -
  have "\<not> call_writes (sys_yield r) a" for a by (simp add: call_writes_def sys_defs syscall_consts)
  then show ?thesis using syscall_pipe [OF assms] syscall_keeps_byte [OF assms(2,3)]
    by (auto simp: sys_defs syscall_consts sent_def received_def)
qed

text \<open>A read changes no other byte, and the byte it writes stays in an allocated page.\<close>

lemma piperead_keeps_use:
  assumes "syscall n L (sys_piperead b sz r) k = Inr (out, k')" "\<not> resets out" "kmem_ok k" "in_use k a"
  shows "in_use k' a"
proof -
  let ?r = "sys_piperead b sz r"
  obtain s1 where s1: "keeps_byte a k s1" "syscall_dispatch n L ?r s1 = Inr (out, k')"
    using byte.syscall_entry [OF assms(1,2)] by blast
  then have "in_use k' a = in_use s1 a"
    by (auto simp: syscall_dispatch_def syscall_piperead_def sys_defs syscall_consts in_use_def res_simps split: if_splits)
  then show ?thesis using s1(1) assms(3,4) by (simp add: keeps_byte_def)
qed

lemma piperead_call:
  assumes "kernel_ok k" "syscall n L (sys_piperead b sz r) k = Inr (out, k')" "\<not> resets out" "sz \<noteq> 0"
  shows "kernel_ok k' \<and> (\<forall>a. a \<noteq> b \<longrightarrow> keeps_byte a k k')
    \<and> (out = Return 1 \<and> pipe_content k = mem k' b # pipe_content k'
       \<or> out = Return (-1) \<and> pipe_content k' = pipe_content k \<and> keeps_byte b k k')"
proof -
  have "\<not> call_writes (sys_piperead b sz r) a" if "a \<noteq> b" for a
    using that by (simp add: call_writes_def sys_defs syscall_consts)
  moreover have "keeps_byte b k k'" if "out = Return (-1)"
  proof -
    obtain s1 where s1: "keeps_byte b k s1" "syscall_dispatch n L (sys_piperead b sz r) s1 = Inr (out, k')"
      using byte.syscall_entry [OF assms(2,3)] by blast
    then have "k' = s1" using that assms(4)
      by (auto simp: syscall_dispatch_def syscall_piperead_def sys_defs syscall_consts res_simps split: if_splits)
    then show ?thesis using s1(1) by simp
  qed
  ultimately show ?thesis
    using syscall_pipe [OF assms(1-3)] pipe_call_returns [OF assms(2,3)] syscall_keeps_byte [OF assms(2,3)] assms(4)
    by (auto simp: sys_defs syscall_consts sent_def received_def)
qed

subsection \<open>The invariant\<close>

definition sent_bytes :: "writer \<Rightarrow> u8 list" where
  "sent_bytes w =
     (if w_pc w = W_write
      then concat (map ((!) pipe_messages) (butlast (w_sent w)))
           @ take (unat (w_pos w)) (pipe_messages ! last (w_sent w))
      else concat (map ((!) pipe_messages) (w_sent w)))"

definition writer_ok :: "(nat \<Rightarrow> addr) \<Rightarrow> writer \<Rightarrow> bool" where
  "writer_ok messages w \<longleftrightarrow> w_pc w \<noteq> W_panic \<and> (\<forall>i \<in> set (w_sent w). i < length pipe_messages)
     \<and> (w_pc w = W_write \<longrightarrow> w_sent w \<noteq> [] \<and> w_message w = messages (last (w_sent w))
          \<and> w_len w = of_nat (length (pipe_messages ! last (w_sent w))) \<and> w_pos w \<le> w_len w)"

definition reader_ok :: "addr \<Rightarrow> memory \<Rightarrow> reader \<Rightarrow> bool" where
  "reader_ok buf m rd \<longleftrightarrow> r_pc rd \<noteq> R_panic \<and> r_buflen rd \<le> 29 \<and> (\<forall>x \<in> set (r_got rd). is_line x)
     \<and> 10 \<notin> set (butlast (bytes_at m buf (unat (r_buflen rd))))
     \<and> (r_pc rd = R_print \<longrightarrow> is_line (bytes_at m buf (unat (r_buflen rd))))"

definition pipe_memory :: "(nat \<Rightarrow> addr) \<Rightarrow> addr \<Rightarrow> kstate \<Rightarrow> bool" where
  "pipe_memory messages buf k \<longleftrightarrow>
     kmem_ok k \<and> messages_loaded messages (mem k)
   \<and> (\<forall>a. message_byte messages a \<longrightarrow> in_use k a \<and> 200 \<le> unat (a - buf))
   \<and> (\<forall>a. unat (a - buf) < 200 \<longrightarrow> in_use k a)"

definition pipe_inv :: "(nat \<Rightarrow> addr) \<Rightarrow> addr \<Rightarrow> pipe_world \<Rightarrow> bool" where
  "pipe_inv messages buf s \<longleftrightarrow>
     kernel_ok (pw_kernel s) \<and> pipe_memory messages buf (pw_kernel s)
   \<and> writer_ok messages (pw_writer s) \<and> reader_ok buf (mem (pw_kernel s)) (pw_reader s)
   \<and> concat (r_got (pw_reader s))
       @ bytes_at (mem (pw_kernel s)) buf (unat (r_buflen (pw_reader s))) @ pipe_content (pw_kernel s)
     = sent_bytes (pw_writer s)"

lemma pipe_messages_all: "\<forall>x \<in> set pipe_messages. is_line x \<and> length x \<le> 28"
  by (simp add: pipe_messages_def ascii_def is_line_def)

lemma pipe_messages_line:
  "i < length pipe_messages \<Longrightarrow> is_line (pipe_messages ! i)"
  "i < length pipe_messages \<Longrightarrow> length (pipe_messages ! i) \<le> 28"
  using pipe_messages_all nth_mem by blast+

lemma cstring_at_keep:
  assumes "cstring_at m a xs" "\<And>b. unat (b - a) \<le> length xs \<Longrightarrow> m' b = m b"
  shows "cstring_at m' a xs"
proof -
  have "length xs < 2 ^ 64" using assms(1) by (rule cstring_at_length)
  then have "m' (a + of_nat i) = m (a + of_nat i)" if "i \<le> length xs" for i
    using assms(2) that by (simp add: unat_of_nat64)
  then have "map (\<lambda>i. m' (a + of_nat i)) [0..<length xs] = map (\<lambda>i. m (a + of_nat i)) [0..<length xs]"
    and "m' (a + of_nat (length xs)) = m (a + of_nat (length xs))" by simp_all
  then show ?thesis using assms(1) unfolding cstring_at_def by metis
qed

lemma messages_loaded_keep:
  assumes "messages_loaded messages m" "\<And>a. message_byte messages a \<Longrightarrow> m' a = m a"
  shows "messages_loaded messages m'"
  using assms cstring_at_keep unfolding messages_loaded_def message_byte_def by meson

lemma pipe_memory_keep:
  assumes "pipe_memory messages buf k" "\<And>a. message_byte messages a \<Longrightarrow> keeps_byte a k k'"
    "\<And>a. unat (a - buf) < 200 \<Longrightarrow> in_use k' a"  "kmem_ok k'"
  shows "pipe_memory messages buf k'"
  using assms messages_loaded_keep [of messages "mem k" "mem k'"]
  unfolding pipe_memory_def keeps_byte_def by blast

lemma pipe_memory_frame:
  assumes "pipe_memory messages buf k" "\<And>a. keeps_byte a k k'"
  shows "pipe_memory messages buf k'" "\<And>a. unat (a - buf) < 200 \<Longrightarrow> mem k' a = mem k a"
    "\<And>a. message_byte messages a \<Longrightarrow> mem k' a = mem k a"
proof -
  have "in_use k buf" using assms(1) by (simp add: pipe_memory_def)
  then have "kmem_ok k'" using assms(1) assms(2) [of buf] by (simp add: pipe_memory_def keeps_byte_def)
  then show "pipe_memory messages buf k'" using assms
    by (intro pipe_memory_keep [OF assms(1)]) (auto simp: pipe_memory_def keeps_byte_def)
  show "\<And>a. unat (a - buf) < 200 \<Longrightarrow> mem k' a = mem k a" "\<And>a. message_byte messages a \<Longrightarrow> mem k' a = mem k a"
    using assms by (auto simp: pipe_memory_def keeps_byte_def)
qed

lemma buffer_frame:
  assumes "\<And>a. unat (a - buf) < 200 \<Longrightarrow> mem k' a = mem k a" "l \<le> 29"
  shows "bytes_at (mem k') buf (unat (l :: u64)) = bytes_at (mem k) buf (unat l)"
proof (rule bytes_at_cong)
  fix i assume "i < unat l"
  then have "i < 200" using assms(2) by (simp add: word_le_nat_alt)
  then show "mem k' (buf + of_nat i) = mem k (buf + of_nat i)" using assms(1) by (simp add: unat_of_nat64)
qed

lemma pipe_inv_frame:
  assumes inv: "pipe_inv messages buf s" and keep: "\<And>a. keeps_byte a (pw_kernel s) k"
    and ok: "kernel_ok k" and pc: "pipe_content k = pipe_content (pw_kernel s)"
  shows "pipe_inv messages buf (s\<lparr>pw_kernel := k\<rparr>)"
proof -
  have "pipe_memory messages buf (pw_kernel s)" "r_buflen (pw_reader s) \<le> 29"
    using inv by (simp_all add: pipe_inv_def reader_ok_def)
  note m = pipe_memory_frame [OF this(1) keep] this(2)
  have "bytes_at (mem k) buf (unat (r_buflen (pw_reader s))) =
      bytes_at (mem (pw_kernel s)) buf (unat (r_buflen (pw_reader s)))"
    by (rule buffer_frame) (use m in auto)
  then show ?thesis using inv m ok pc by (simp add: pipe_inv_def reader_ok_def)
qed

subsection \<open>Every step keeps the invariant\<close>

lemma screen_keeps: "screen_only k k' \<Longrightarrow> kernel_ok k \<Longrightarrow>
   kernel_ok k' \<and> (\<forall>a. keeps_byte a k k') \<and> pipe_content k' = pipe_content k"
  by (erule screen_onlyE) (simp add: kernel_ok_def pipe_content_def)

lemma sent_choose:
  "w_pc w \<noteq> W_write \<Longrightarrow> sent_bytes (w\<lparr>w_pc := W_write, w_message := a, w_pos := 0, w_len := l, w_rand := st,
     w_sent := w_sent w @ [i]\<rparr>) = sent_bytes w"
  by (simp add: sent_bytes_def)

lemma choose_message:
  assumes "rand_range st 0 (of_nat (length pipe_messages) - 1) = Inr (i, st')"
  shows "unat i < length pipe_messages"
proof -
  have "(of_nat (length pipe_messages) - 1 :: u32) = 2" by (simp add: pipe_messages_def)
  then have "rand_range st 0 2 = Inr (i, st')" using assms by simp
  moreover obtain v st2 where "rand_range st 0 2 = Inr (v, st2)" "0 \<le> sint v" "sint v \<le> 2"
    using rand_range_bounds [of 0 2 st] by auto
  ultimately have "0 \<le> sint i" "sint i \<le> 2" by auto
  then have "i = of_int (sint i)" "sint i = 0 \<or> sint i = 1 \<or> sint i = 2" by auto
  then have "i = 0 \<or> i = 1 \<or> i = 2" by (metis of_int_0 of_int_1 of_int_numeral)
  then show ?thesis by (auto simp: pipe_messages_def)
qed

lemma message_len: "i < length pipe_messages \<Longrightarrow> unat (of_nat (length (pipe_messages ! i)) :: u64) = length (pipe_messages ! i)"
  using pipe_messages_line(2) [of i] by (simp add: unat_of_nat64)

text \<open>A successful write sends the next byte of the message.\<close>

lemma pipewrite_sends:
  assumes w: "writer_ok messages w" "w_pc w = W_write" "w_pos w < w_len w"
    and m: "messages_loaded messages m"
  shows "writer_ok messages (w\<lparr>w_nwrites := c, w_pos := w_pos w + 1\<rparr>)"
    and "sent_bytes (w\<lparr>w_nwrites := c, w_pos := w_pos w + 1\<rparr>) = sent_bytes w @ [m (w_message w + w_pos w)]"
    and "message_byte messages (w_message w + w_pos w)"
proof -
  let ?i = "last (w_sent w)" and ?p = "unat (w_pos w)"
  have i: "?i < length pipe_messages" and msg: "w_message w = messages ?i"
      and len: "unat (w_len w) = length (pipe_messages ! ?i)"
    using w(1,2) message_len by (auto simp: writer_ok_def)
  have p: "?p < length (pipe_messages ! ?i)" using w(3) len by (simp add: word_less_nat_alt)
  then have p1: "unat (w_pos w + 1) = ?p + 1"
    using pipe_messages_line(2) [OF i] by (simp add: unat_add64)
  then have "w_pos w + 1 \<le> w_len w" using p len by (simp add: word_le_nat_alt)
  then show "writer_ok messages (w\<lparr>w_nwrites := c, w_pos := w_pos w + 1\<rparr>)"
    using w(1,2) by (simp add: writer_ok_def)
  have "map (\<lambda>j. m (messages ?i + of_nat j)) [0..<length (pipe_messages ! ?i)] = pipe_messages ! ?i"
    using m i by (auto simp: messages_loaded_def cstring_at_def)
  then have "m (messages ?i + of_nat ?p) = pipe_messages ! ?i ! ?p"
    using p by (metis (no_types, lifting) add_0 diff_zero length_upt nth_map nth_upt)
  then show "sent_bytes (w\<lparr>w_nwrites := c, w_pos := w_pos w + 1\<rparr>) = sent_bytes w @ [m (w_message w + w_pos w)]"
    using w(2) p p1 msg by (simp add: sent_bytes_def take_Suc_conv_app_nth)
  show "message_byte messages (w_message w + w_pos w)"
    using i p msg by (auto simp: message_byte_def)
qed

lemma pipe_inv_writer:
  assumes "pipe_inv messages buf s" "\<And>a. keeps_byte a (pw_kernel s) k" "kernel_ok k"
    "pipe_content k = pipe_content (pw_kernel s)" "writer_ok messages w"
    "sent_bytes w = sent_bytes (pw_writer s)"
  shows "pipe_inv messages buf (s\<lparr>pw_kernel := k, pw_writer := w\<rparr>)"
  using pipe_inv_frame [OF assms(1-4)] assms(5,6) by (simp add: pipe_inv_def)

lemma pipe_inv_parts:
  assumes "pipe_inv messages buf s"
  shows "kernel_ok (pw_kernel s)" "writer_ok messages (pw_writer s)"
    "pipe_memory messages buf (pw_kernel s)" "reader_ok buf (mem (pw_kernel s)) (pw_reader s)"
  using assms by (auto simp: pipe_inv_def)

lemma writer_writes:
  assumes inv: "pipe_inv messages buf s" and pc: "w_pc (pw_writer s) = W_write" "w_pos (pw_writer s) < w_len (pw_writer s)"
    and step: "writer_step n L messages r (pw_kernel s, pw_writer s) = Inr (out, k, w)" and ok: "call_ok out"
  shows "pipe_inv messages buf (s\<lparr>pw_kernel := k, pw_writer := w\<rparr>)"
proof -
  let ?k = "pw_kernel s" and ?w = "pw_writer s"
  note parts = pipe_inv_parts [OF inv]
  obtain o' where o': "syscall n L (sys_pipewrite (w_message ?w + w_pos ?w) (w_len ?w - w_pos ?w) r) ?k = Inr (o', k)"
      "out = Some o'" "w = (case o' of Return v \<Rightarrow> pipewrite_returned v (?w\<lparr>w_nwrites := w_nwrites ?w + 1\<rparr>)
         | _ \<Rightarrow> ?w\<lparr>w_nwrites := w_nwrites ?w + 1\<rparr>)"
    using step pc by (auto simp: writer_step_def res_simps Let_def)
  have "w_len ?w - w_pos ?w \<noteq> 0" "\<not> resets o'" using pc(2) ok o'(2) by (auto simp: call_ok_def)
  from pipewrite_call [OF parts(1) o'(1) this(2,1)] show ?thesis
  proof (elim conjE disjE)
    assume *: "kernel_ok k" "\<forall>a. keeps_byte a ?k k" "o' = Return 1"
      "pipe_content k = pipe_content ?k @ [mem k (w_message ?w + w_pos ?w)]"
    then have w': "w = ?w\<lparr>w_nwrites := w_nwrites ?w + 1, w_pos := w_pos ?w + 1\<rparr>"
      using o'(3) by (simp add: pipewrite_returned_def)
    have m: "pipe_memory messages buf k" "\<And>a. unat (a - buf) < 200 \<Longrightarrow> mem k a = mem ?k a"
      using pipe_memory_frame [OF parts(3)] *(2) by blast+
    have "bytes_at (mem k) buf (unat (r_buflen (pw_reader s))) =
        bytes_at (mem ?k) buf (unat (r_buflen (pw_reader s)))"
      by (rule buffer_frame) (use m parts in \<open>auto simp: reader_ok_def\<close>)
    moreover have ml: "messages_loaded messages (mem k)" using m(1) by (simp add: pipe_memory_def)
    moreover have "sent_bytes w = sent_bytes ?w @ [mem k (w_message ?w + w_pos ?w)]" "writer_ok messages w"
      using pipewrite_sends [OF parts(2) pc ml] w' by simp_all
    moreover have "concat (r_got (pw_reader s)) @ bytes_at (mem ?k) buf (unat (r_buflen (pw_reader s)))
        @ pipe_content ?k = sent_bytes ?w" using inv by (simp add: pipe_inv_def)
    ultimately show ?thesis using m(1) parts(4) * by (simp add: pipe_inv_def reader_ok_def)
  next
    assume *: "kernel_ok k" "\<forall>a. keeps_byte a ?k k" "o' = Return (-1)" "pipe_content k = pipe_content ?k"
    then have "w = ?w\<lparr>w_nwrites := w_nwrites ?w + 1\<rparr>" using o'(3) by (simp add: pipewrite_returned_def)
    then have "writer_ok messages w" "sent_bytes w = sent_bytes ?w"
      using parts(2) by (auto simp: writer_ok_def sent_bytes_def)
    then show ?thesis using pipe_inv_writer [OF inv] * by simp
  qed
qed

lemma writer_wrote:
  assumes wok: "writer_ok messages w" and pc: "w_pc w = W_write" "\<not> w_pos w < w_len w"
  shows "sent_bytes (w\<lparr>w_pc := W_sleep\<rparr>) = sent_bytes w"
proof -
  have w: "w_pos w = w_len w" "w_len w = of_nat (length (pipe_messages ! last (w_sent w)))" "w_sent w \<noteq> []"
      "last (w_sent w) < length pipe_messages"
    using pc wok by (auto simp: writer_ok_def)
  then have "map ((!) pipe_messages) (w_sent w)
      = map ((!) pipe_messages) (butlast (w_sent w)) @ [pipe_messages ! last (w_sent w)]"
    by (metis append_butlast_last_id list.simps(8) list.simps(9) map_append)
  then show ?thesis using w pc message_len by (simp add: sent_bytes_def)
qed

lemma writer_chooses:
  assumes inv: "pipe_inv messages buf s" and pc: "w_pc (pw_writer s) = W_choose"
    and step: "writer_step n L messages r (pw_kernel s, pw_writer s) = Inr (out, k, w)"
  shows "k = pw_kernel s \<and> writer_ok messages w \<and> sent_bytes w = sent_bytes (pw_writer s)"
proof -
  let ?k = "pw_kernel s" and ?w = "pw_writer s"
  from pc obtain i st len where i: "rand_range (w_rand ?w) 0 (of_nat (length pipe_messages) - 1) = Inr (i, st)"
      "strlen (mem ?k) (messages (unat i)) = Some len" "k = ?k"
      "w = ?w\<lparr>w_pc := W_write, w_message := messages (unat i), w_pos := 0, w_len := len,
              w_rand := st, w_sent := w_sent ?w @ [unat i]\<rparr>"
    using step by (auto simp: writer_step_def res_simps split: option.splits)
  have il: "unat i < length pipe_messages" using choose_message [OF i(1)] .
  then have "cstring_at (mem ?k) (messages (unat i)) (pipe_messages ! unat i)"
    using pipe_inv_parts(3) [OF inv] by (simp add: pipe_memory_def messages_loaded_def)
  then have "len = of_nat (length (pipe_messages ! unat i))"
    using i(2) strlen_loop_cstring by (fastforce simp: strlen_def)
  then show ?thesis using pipe_inv_parts(2) [OF inv] il i sent_choose pc by (auto simp: writer_ok_def)
qed

lemma writer_keeps_inv:
  assumes inv: "pipe_inv messages buf s"
    and step: "writer_step n L messages r (pw_kernel s, pw_writer s) = Inr (out, k, w)" and ok: "call_ok out"
  shows "pipe_inv messages buf (s\<lparr>pw_kernel := k, pw_writer := w\<rparr>)"
proof -
  let ?k = "pw_kernel s" and ?w = "pw_writer s"
  note parts = pipe_inv_parts [OF inv]
  show ?thesis
  proof (cases "w_pc ?w")
    case W_choose
    then show ?thesis using writer_chooses [OF inv _ step] parts(1)
      by (intro pipe_inv_writer [OF inv]) auto
  next
    case W_write
    show ?thesis
    proof (cases "w_pos ?w < w_len ?w")
      case False
      then obtain p where p: "console_vprintf False (-1) 0x0F00 (ascii ''%zu sys_pipewrite calls: wrote %s'')
            [VNum (w_nwrites ?w), VStr (bytes_at (mem ?k) (w_message ?w) (unat (w_len ?w)))] ?k = Inr (p, k)"
          "w = ?w\<lparr>w_pc := W_sleep\<rparr>"
        using step W_write by (auto simp: writer_step_def res_simps Let_def)
      then show ?thesis using writer_wrote [OF parts(2) W_write False] parts(2)
          screen_keeps [OF console_vprintf_only [OF p(1)] parts(1)]
        by (intro pipe_inv_writer [OF inv]) (auto simp: writer_ok_def)
    qed (use writer_writes [OF inv W_write _ step ok] in blast)
  next
    case W_sleep
    then have "k = ?k \<and> (\<exists>u st. w = ?w\<lparr>w_pc := W_wait, w_wait_until := u, w_rand := st\<rparr>)"
      using step by (auto simp: writer_step_def res_simps)
    then show ?thesis using parts W_sleep
      by (intro pipe_inv_writer [OF inv]) (auto simp: writer_ok_def sent_bytes_def)
  next
    case W_wait
    show ?thesis
    proof (cases "ticks ?k < w_wait_until ?w")
      case True
      then obtain o' where "syscall n L (sys_yield r) ?k = Inr (o', k)" "out = Some o'" "w = ?w"
        using step W_wait by (auto simp: writer_step_def res_simps)
      then show ?thesis using yield_call [OF parts(1)] ok parts(2)
        by (intro pipe_inv_writer [OF inv]) (auto simp: call_ok_def)
    next
      case False
      then have "k = ?k" "w = ?w\<lparr>w_pc := W_choose\<rparr>" using step W_wait by (auto simp: writer_step_def)
      then show ?thesis using parts W_wait
        by (intro pipe_inv_writer [OF inv]) (auto simp: writer_ok_def sent_bytes_def)
    qed
  next
    case W_panic
    then show ?thesis using parts(2) by (simp add: writer_ok_def)
  qed
qed

text \<open>The bytes sent are whole lines and the beginning of one more.\<close>

lemma sent_shape:
  assumes "writer_ok messages w"
  shows "\<exists>B C p. sent_bytes w = concat B @ p \<and> (\<forall>b \<in> set B. is_line b \<and> length b \<le> 28)
    \<and> 10 \<notin> set p \<and> length p \<le> 28 \<and> map ((!) pipe_messages) (w_sent w) = B @ C"
proof (cases "w_pc w = W_write \<and> w_pos w < w_len w")
  case True
  let ?B = "map ((!) pipe_messages) (butlast (w_sent w))" and ?x = "pipe_messages ! last (w_sent w)"
  have w: "w_sent w \<noteq> []" "last (w_sent w) < length pipe_messages" "w_len w = of_nat (length ?x)"
    using True assms by (auto simp: writer_ok_def)
  then have "unat (w_pos w) < length ?x" using True message_len by (simp add: word_less_nat_alt)
  then have "set (take (unat (w_pos w)) ?x) \<subseteq> set (butlast ?x)"
    by (simp add: butlast_conv_take set_take_subset_set_take)
  then have "10 \<notin> set (take (unat (w_pos w)) ?x)"
    using pipe_messages_line(1) [OF w(2)] by (auto simp: is_line_def)
  moreover have "map ((!) pipe_messages) (w_sent w) = ?B @ [?x]"
    using w(1) by (metis append_butlast_last_id list.simps(8) list.simps(9) map_append)
  moreover have "\<forall>b \<in> set ?B. is_line b \<and> length b \<le> 28"
    using assms pipe_messages_line by (auto simp: writer_ok_def dest: in_set_butlastD)
  ultimately show ?thesis using True pipe_messages_line(2) [OF w(2)]
    by (intro exI [of _ ?B] exI [of _ "[?x]"] exI [of _ "take (unat (w_pos w)) ?x"])
       (auto simp: sent_bytes_def)
next
  case False
  let ?B = "map ((!) pipe_messages) (w_sent w)"
  have "sent_bytes w = concat ?B"
    using False writer_wrote [OF assms] by (cases "w_pc w = W_write") (auto simp: sent_bytes_def)
  moreover have "\<forall>b \<in> set ?B. is_line b \<and> length b \<le> 28"
    using assms pipe_messages_line by (auto simp: writer_ok_def)
  ultimately show ?thesis by (intro exI [of _ ?B] exI [of _ "[]"]) auto
qed

lemma reader_prefix:
  assumes "pipe_inv messages buf s"
  obtains B C p where "map ((!) pipe_messages) (w_sent (pw_writer s)) = r_got (pw_reader s) @ B @ C"
    "bytes_at (mem (pw_kernel s)) buf (unat (r_buflen (pw_reader s))) @ pipe_content (pw_kernel s) = concat B @ p"
    "\<forall>b \<in> set B. is_line b \<and> length b \<le> 28" "length p \<le> 28"
proof -
  let ?b = "bytes_at (mem (pw_kernel s)) buf (unat (r_buflen (pw_reader s))) @ pipe_content (pw_kernel s)"
  obtain B C p where B: "sent_bytes (pw_writer s) = concat B @ p" "\<forall>b \<in> set B. is_line b \<and> length b \<le> 28"
      "10 \<notin> set p" "length p \<le> 28" "map ((!) pipe_messages) (w_sent (pw_writer s)) = B @ C"
    using sent_shape [OF pipe_inv_parts(2) [OF assms]] by blast
  have "concat (r_got (pw_reader s)) @ ?b = concat B @ p" "\<forall>x \<in> set (r_got (pw_reader s)). is_line x"
    using assms B(1) by (simp_all add: pipe_inv_def reader_ok_def)
  then obtain D where "B = r_got (pw_reader s) @ D" "?b = concat D @ p"
    using lines_prefix [of "r_got (pw_reader s)" B p ?b] B(2,3) by blast
  then show thesis using that [of D C p] B by auto
qed

lemma piperead_memory:
  assumes mem: "pipe_memory messages buf k" and l: "unat l \<le> 28"
    and call: "syscall n L (sys_piperead (buf + l) sz r) k = Inr (out, k')" "\<not> resets out"
    and keep: "\<forall>a. a \<noteq> buf + l \<longrightarrow> keeps_byte a k k'"
  shows "pipe_memory messages buf k'"
proof (rule pipe_memory_keep [OF mem])
  show "keeps_byte a k k'" if "message_byte messages a" for a
    using that mem l keep by (cases "a = buf + l") (auto simp: pipe_memory_def)
  show "in_use k' a" if "unat (a - buf) < 200" for a
    using that mem piperead_keeps_use [OF call] by (simp add: pipe_memory_def)
  have n: "buf + l + 1 \<noteq> buf + l" "unat (buf + l + 1 - buf) < 200" using l by (simp_all add: unat_add64)
  then have "in_use k (buf + l + 1)" using mem unfolding pipe_memory_def by blast
  then show "kmem_ok k'" using n(1) mem keep unfolding pipe_memory_def keeps_byte_def by blast
qed

lemma reader_received:
  assumes inv: "pipe_inv messages buf s" and pc: "r_pc (pw_reader s) = R_read"
    and nl: "10 \<notin> set (bytes_at (mem (pw_kernel s)) buf (unat (r_buflen (pw_reader s))))"
    and l: "unat (r_buflen (pw_reader s)) \<le> 28"
    and call: "syscall n L (sys_piperead (buf + r_buflen (pw_reader s)) sz r) (pw_kernel s) = Inr (out, k)" "\<not> resets out"
    and k: "kernel_ok k" "\<forall>a. a \<noteq> buf + r_buflen (pw_reader s) \<longrightarrow> keeps_byte a (pw_kernel s) k"
      "pipe_content (pw_kernel s) = mem k (buf + r_buflen (pw_reader s)) # pipe_content k"
  shows "pipe_inv messages buf (s\<lparr>pw_kernel := k,
    pw_reader := (pw_reader s)\<lparr>r_nreads := c, r_buflen := r_buflen (pw_reader s) + 1\<rparr>\<rparr>)"
proof -
  let ?k = "pw_kernel s" and ?l = "r_buflen (pw_reader s)"
  note parts = pipe_inv_parts [OF inv]
  have l1: "unat (?l + 1) = Suc (unat ?l)" using l by (simp add: unat_add64)
  have "mem k (buf + of_nat i) = mem ?k (buf + of_nat i)" if "i < unat ?l" for i
  proof -
    have "unat (of_nat i :: u64) = i" using that l by (simp add: unat_of_nat64)
    then have "buf + of_nat i \<noteq> buf + ?l" "unat (buf + of_nat i - buf) < 200" using that l by auto
    then show ?thesis using parts(3) k(2) by (simp add: pipe_memory_def keeps_byte_def)
  qed
  then have "bytes_at (mem k) buf (unat ?l) = bytes_at (mem ?k) buf (unat ?l)" by (rule bytes_at_cong)
  then have b: "bytes_at (mem k) buf (unat (?l + 1)) = bytes_at (mem ?k) buf (unat ?l) @ [mem k (buf + ?l)]"
    by (simp add: l1 bytes_at_Suc)
  have "?l + 1 \<le> 29" using l l1 by (simp add: word_le_nat_alt)
  then show ?thesis
    using inv nl pc k(1,3) b piperead_memory [OF parts(3) l call k(2)] by (simp add: pipe_inv_def reader_ok_def)
qed

lemma reader_reads:
  assumes inv: "pipe_inv messages buf s" and pc: "r_pc (pw_reader s) = R_read"
    "memchr (mem (pw_kernel s)) buf 10 (r_buflen (pw_reader s)) = None"
    and step: "reader_step n L buf r (pw_kernel s, pw_reader s) = Inr (out, k, rd)" and ok: "call_ok out"
  shows "pipe_inv messages buf (s\<lparr>pw_kernel := k, pw_reader := rd\<rparr>)"
proof -
  let ?k = "pw_kernel s" and ?rd = "pw_reader s"
  let ?l = "r_buflen ?rd"
  let ?b = "bytes_at (mem ?k) buf (unat ?l)"
  note parts = pipe_inv_parts [OF inv]
  have nl: "10 \<notin> set ?b" using pc(2) by (simp add: memchr_def memchr_loop_None)
  have l: "unat ?l \<le> 28"
  proof -
    obtain B C p where "?b @ pipe_content ?k = concat B @ p" "\<forall>b \<in> set B. is_line b \<and> length b \<le> 28"
      "length p \<le> 28" using reader_prefix [OF inv] by metis
    from partial_line_bound [OF this nl] show ?thesis by simp
  qed
  obtain o' where o': "syscall n L (sys_piperead (buf + ?l) (READER_BUF - ?l) r) ?k = Inr (o', k)" "out = Some o'"
      "rd = (case o' of Return v \<Rightarrow> piperead_returned v (?rd\<lparr>r_nreads := r_nreads ?rd + 1\<rparr>)
         | _ \<Rightarrow> ?rd\<lparr>r_nreads := r_nreads ?rd + 1\<rparr>)"
    using step pc by (auto simp: reader_step_def res_simps Let_def)
  have sz: "READER_BUF - ?l \<noteq> 0" using l by (auto simp: READER_BUF_def)
  have nr: "\<not> resets o'" using ok o'(2) by (simp add: call_ok_def)
  from piperead_call [OF parts(1) o'(1) nr sz] show ?thesis
  proof (elim conjE disjE)
    assume *: "kernel_ok k" "\<forall>a. a \<noteq> buf + ?l \<longrightarrow> keeps_byte a ?k k" "o' = Return 1"
      "pipe_content ?k = mem k (buf + ?l) # pipe_content k"
    then show ?thesis using reader_received [OF inv pc(1) nl l o'(1) nr] o'(3) by (simp add: piperead_returned_def)
  next
    assume *: "kernel_ok k" "\<forall>a. a \<noteq> buf + ?l \<longrightarrow> keeps_byte a ?k k" "o' = Return (-1)"
      "pipe_content k = pipe_content ?k" "keeps_byte (buf + ?l) ?k k"
    then have "rd = ?rd\<lparr>r_nreads := r_nreads ?rd + 1\<rparr>" using o'(3) by (simp add: piperead_returned_def)
    moreover have "keeps_byte a ?k k" for a using * by (cases "a = buf + ?l") auto
    ultimately show ?thesis using pipe_inv_frame [OF inv _ *(1,4)] by (simp add: pipe_inv_def reader_ok_def)
  qed
qed

lemma reader_prints:
  assumes inv: "pipe_inv messages buf s" and pc: "r_pc (pw_reader s) = R_print"
    and step: "reader_step n L buf r (pw_kernel s, pw_reader s) = Inr (out, k, rd)"
  shows "pipe_inv messages buf (s\<lparr>pw_kernel := k, pw_reader := rd\<rparr>)"
proof -
  let ?k = "pw_kernel s" and ?rd = "pw_reader s"
  let ?n = "unat (r_buflen ?rd)"
  let ?b = "bytes_at (mem ?k) buf ?n"
  note parts = pipe_inv_parts [OF inv]
  from step pc obtain newline p k1 where nl: "memchr (mem ?k) buf 10 (r_buflen ?rd) = Some newline"
      "console_vprintf False (-1) 0x0E00 (ascii ''%zu sys_piperead calls: read %.*s'')
         [VNum (r_nreads ?rd), VNum (newline + 1 - buf), VStr (bytes_at (mem ?k) buf (unat READER_BUF))] ?k = Inr (p, k1)"
      "k = k1\<lparr>mem := memmove (mem k1) buf (buf + (newline + 1 - buf)) (r_buflen ?rd - (newline + 1 - buf))\<rparr>"
      "rd = ?rd\<lparr>r_pc := R_read, r_buflen := r_buflen ?rd - (newline + 1 - buf),
             r_got := r_got ?rd @ [bytes_at (mem ?k) buf (unat (newline + 1 - buf))]\<rparr>"
    by (auto simp: reader_step_def res_simps Let_def split: option.splits)
  have line: "is_line ?b" using parts(4) pc by (simp add: reader_ok_def)
  obtain i where i: "i < ?n" "newline = buf + of_nat i" "mem ?k newline = 10"
    using memchr_loop_Some nl(1) by (fastforce simp: memchr_def)
  have "i = ?n - 1"
  proof (rule ccontr)
    assume "i \<noteq> ?n - 1"
    then have "butlast ?b ! i = 10" "i < length (butlast ?b)" using i by (auto simp: nth_butlast bytes_at_nth)
    then show False using line nth_mem [of i "butlast ?b"] by (simp add: is_line_def)
  qed
  then have "of_nat ?n = (of_nat i + 1 :: u64)" using i(1) by (metis Suc_pred' add.commute less_nat_zero_code neq0_conv of_nat_Suc)
  then have ml: "newline + 1 - buf = r_buflen ?rd" using i(2) by simp
  have "k = k1" using nl(3) ml by (simp add: memmove_def)
  then have k: "kernel_ok k" "\<forall>a. keeps_byte a ?k k" "pipe_content k = pipe_content ?k"
    using screen_keeps [OF console_vprintf_only [OF nl(2)] parts(1)] by auto
  have rd: "rd = ?rd\<lparr>r_pc := R_read, r_buflen := 0, r_got := r_got ?rd @ [?b]\<rparr>" using nl(4) ml by simp
  then show ?thesis using inv line k pipe_memory_frame(1) [OF parts(3), of k]
    by (simp add: pipe_inv_def reader_ok_def)
qed

lemma reader_keeps_inv:
  assumes inv: "pipe_inv messages buf s"
    and step: "reader_step n L buf r (pw_kernel s, pw_reader s) = Inr (out, k, rd)" and ok: "call_ok out"
  shows "pipe_inv messages buf (s\<lparr>pw_kernel := k, pw_reader := rd\<rparr>)"
proof -
  let ?k = "pw_kernel s" and ?rd = "pw_reader s"
  let ?b = "bytes_at (mem ?k) buf (unat (r_buflen ?rd))"
  note parts = pipe_inv_parts [OF inv]
  consider "r_pc ?rd = R_read" "memchr (mem ?k) buf 10 (r_buflen ?rd) = None"
    | "r_pc ?rd = R_read" "memchr (mem ?k) buf 10 (r_buflen ?rd) \<noteq> None" | "r_pc ?rd = R_print"
    using parts(4) by (cases "r_pc ?rd") (auto simp: reader_ok_def)
  then show ?thesis
  proof cases
    case 1
    then show ?thesis using reader_reads [OF inv _ _ step ok] by blast
  next
    case 2
    then have "k = ?k" "rd = ?rd\<lparr>r_pc := R_print\<rparr>" using step by (auto simp: reader_step_def)
    moreover have "10 \<in> set ?b" using 2 by (simp add: memchr_def memchr_loop_None)
    then have "is_line ?b" using parts(4)
      by (cases ?b rule: rev_cases) (auto simp: reader_ok_def is_line_def)
    ultimately show ?thesis using inv by (simp add: pipe_inv_def reader_ok_def)
  next
    case 3
    then show ?thesis using reader_prints [OF inv _ step] by blast
  qed
qed

lemma pipe_step_inv:
  assumes inv: "pipe_inv messages buf s" and step: "pipe_step n L messages buf s s'"
  shows "pipe_inv messages buf s'"
  using step
proof cases
  case (writer_runs r out k w)
  then show ?thesis using writer_keeps_inv [OF inv] by simp
next
  case (reader_runs r out k rd)
  then show ?thesis using reader_keeps_inv [OF inv] by simp
next
  case (interrupted a r out k)
  then show ?thesis using exception_pipe [OF pipe_inv_parts(1) [OF inv]] exception_keeps_byte
    by (auto intro!: pipe_inv_frame [OF inv])
next
  case (keys_typed ks)
  then show ?thesis using pipe_inv_parts(1) [OF inv]
    by (auto intro!: pipe_inv_frame [OF inv] simp: kernel_ok_def pipe_content_def)
qed

lemma pipe_started_inv: "pipe_started messages buf s \<Longrightarrow> pipe_inv messages buf s"
  by (simp add: pipe_started_def pipe_inv_def pipe_memory_def writer_ok_def reader_ok_def sent_bytes_def
      pipe_content_def)

lemma pipe_run_inv: "(pipe_step n L messages buf)\<^sup>*\<^sup>* s0 s \<Longrightarrow> pipe_inv messages buf s0 \<Longrightarrow> pipe_inv messages buf s"
  by (induction rule: rtranclp_induct) (auto intro: pipe_step_inv)

text \<open>
  C3: Along every run of the pipe writer, the pipe reader, the kernel and the interrupts from a start
  with an empty pipe, the messages printed by the reader are a prefix of those chosen by the
  writer, neither program panics and the buffer of the reader never fills up.
\<close>
theorem pipe_delivers_messages:
  assumes "pipe_started messages buf s0" "(pipe_step n L messages buf)\<^sup>*\<^sup>* s0 s"
  shows "(\<exists>rest. map ((!) pipe_messages) (w_sent (pw_writer s)) = r_got (pw_reader s) @ rest)
    \<and> w_pc (pw_writer s) \<noteq> W_panic \<and> r_pc (pw_reader s) \<noteq> R_panic \<and> r_buflen (pw_reader s) < READER_BUF"
proof -
  note inv = pipe_run_inv [OF assms(2) pipe_started_inv [OF assms(1)]]
  have "\<exists>rest. map ((!) pipe_messages) (w_sent (pw_writer s)) = r_got (pw_reader s) @ rest"
    using reader_prefix [OF inv] by metis
  moreover have "r_buflen (pw_reader s) \<le> 29" using pipe_inv_parts(4) [OF inv] by (simp add: reader_ok_def)
  then have "r_buflen (pw_reader s) < READER_BUF"
    by (simp add: READER_BUF_def word_le_nat_alt word_less_nat_alt)
  ultimately show ?thesis
    using pipe_inv_parts(2,4) [OF inv] by (simp add: writer_ok_def reader_ok_def)
qed

subsection \<open>A concrete start\<close>

definition demo_messages :: "nat \<Rightarrow> addr" where
  "demo_messages i = 0x100000 + of_nat (i * 256)"

definition demo_pipe_mem :: memory where
  "demo_pipe_mem =
     put_bytes (put_bytes (put_bytes demo_map_mem (demo_messages 0) (pipe_messages ! 0 @ [0]))
       (demo_messages 1) (pipe_messages ! 1 @ [0])) (demo_messages 2) (pipe_messages ! 2 @ [0])"

definition demo_pipe_world :: pipe_world where
  "demo_pipe_world =
     \<lparr>pw_kernel = demo_busy\<lparr>mem := demo_pipe_mem\<rparr>,
      pw_writer = \<lparr>w_pc = W_choose, w_nwrites = 0, w_message = 0, w_pos = 0, w_len = 0, w_wait_until = 0,
                   w_rand = srand 1, w_sent = []\<rparr>,
      pw_reader = \<lparr>r_pc = R_read, r_buflen = 0, r_nreads = 0, r_got = []\<rparr>\<rparr>"

lemma demo_messages_far:
  assumes "i < 3" "j < 3" "i \<noteq> j" "unat (b - demo_messages i) \<le> 28"
  shows "29 \<le> unat (b - demo_messages j)"
proof -
  let ?d = "demo_messages i - demo_messages j"
  have "(i = 0 \<or> i = 1 \<or> i = 2) \<and> (j = 0 \<or> j = 1 \<or> j = 2)" using assms(1,2) by auto
  then have d: "256 \<le> unat ?d" "unat ?d + 28 < 2 ^ 64" using assms(3) by (auto simp: demo_messages_def)
  have "unat (b - demo_messages j) = unat (b - demo_messages i) + unat ?d"
    using unat_add64 [of "b - demo_messages i" ?d] assms(4) d(2) by simp
  then show ?thesis using d(1) by simp
qed

lemma pipe_messages_len: "length pipe_messages = 3"
  by (simp add: pipe_messages_def)

lemma demo_put_keeps:
  assumes "i < 3" "j < 3" "i \<noteq> j" "cstring_at m (demo_messages i) (pipe_messages ! i)"
  shows "cstring_at (put_bytes m (demo_messages j) (pipe_messages ! j @ [0])) (demo_messages i) (pipe_messages ! i)"
  using assms(4)
proof (rule cstring_at_keep)
  fix b assume "unat (b - demo_messages i) \<le> length (pipe_messages ! i)"
  then have "unat (b - demo_messages i) \<le> 28" using pipe_messages_line(2) [of i] assms(1) pipe_messages_len by simp
  then have "29 \<le> unat (b - demo_messages j)" using demo_messages_far assms by blast
  then show "put_bytes m (demo_messages j) (pipe_messages ! j @ [0]) b = m b"
    using pipe_messages_line(2) [of j] assms(2) pipe_messages_len by (intro put_bytes_frame) simp
qed

lemma demo_pipe_loaded: "messages_loaded demo_messages demo_pipe_mem"
proof -
  have put: "cstring_at (put_bytes m (demo_messages i) (pipe_messages ! i @ [0])) (demo_messages i) (pipe_messages ! i)"
    if "i < 3" for i m
    using that pipe_messages_line(2) [of i] pipe_messages_len
    by (intro put_bytes_cstring) (auto simp: pipe_messages_def ascii_def less_Suc_eq numeral_3_eq_3)
  have "cstring_at demo_pipe_mem (demo_messages i) (pipe_messages ! i)" if "i < 3" for i
  proof -
    consider "i = 0" | "i = 1" | "i = 2" using \<open>i < 3\<close> by fastforce
    then show ?thesis unfolding demo_pipe_mem_def
      by cases (use put demo_put_keeps in \<open>simp_all\<close>)
  qed
  then show ?thesis by (simp add: messages_loaded_def pipe_messages_len)
qed

lemma demo_busy_use: "unat a < 0x200000 \<Longrightarrow> in_use (demo_busy\<lparr>mem := m\<rparr>) a"
  by (simp add: in_use_def demo_busy_def demo_kernel_def page_no_def NPAGES_def PAGESIZE_def unat_div_distrib)

lemma near_use:
  assumes "unat (a - c) \<le> 200" "unat c \<le> 0x180000"
  shows "in_use (demo_busy\<lparr>mem := m\<rparr>) a"
proof (rule demo_busy_use)
  show "unat a < 0x200000" using unat_add64 [of c "a - c"] assms by simp
qed

lemma demo_pipe_started: "pipe_started demo_messages 0x170000 demo_pipe_world"
proof -
  have byte: "in_use (demo_busy\<lparr>mem := demo_pipe_mem\<rparr>) a \<and> 200 \<le> unat (a - 0x170000)"
    if m: "message_byte demo_messages a" for a
  proof -
    obtain i where i: "i < 3" "unat (a - demo_messages i) \<le> 28"
      using m pipe_messages_line(2) by (fastforce simp: message_byte_def pipe_messages_len)
    then have "i = 0 \<or> i = 1 \<or> i = 2" by auto
    then have d: "unat (demo_messages i) \<le> 0x180000" "unat (demo_messages i - 0x170000) + 28 < 2 ^ 64"
      "200 \<le> unat (demo_messages i - 0x170000)" by (auto simp: demo_messages_def)
    have "unat (a - 0x170000) = unat (a - demo_messages i) + unat (demo_messages i - 0x170000)"
      using unat_add64 [of "a - demo_messages i" "demo_messages i - 0x170000"] i(2) d(2) by simp
    then show ?thesis using d near_use [of a "demo_messages i"] i(2) by simp
  qed
  have "kernel_ok (demo_busy\<lparr>mem := demo_pipe_mem\<rparr>)" "kmem_ok (demo_busy\<lparr>mem := demo_pipe_mem\<rparr>)"
      "pipebuf_len (demo_busy\<lparr>mem := demo_pipe_mem\<rparr>) = 0"
    using demo_kernel_ok demo_busy_ok by (simp_all add: kernel_ok_def kmem_ok_def demo_busy_def)
       (simp add: demo_kernel_def)
  then show ?thesis using byte demo_pipe_loaded near_use [of _ "0x170000"]
    by (simp add: pipe_started_def demo_pipe_world_def)
qed

theorem pipe_delivers_messages_witness:
  "\<exists>s i. (pipe_step 16 demo_klink demo_messages 0x170000)\<^sup>*\<^sup>* demo_pipe_world s
     \<and> w_sent (pw_writer s) = [i] \<and> (\<exists>rest. [pipe_messages ! i] = r_got (pw_reader s) @ rest)"
proof -
  let ?k = "pw_kernel demo_pipe_world" and ?w = "pw_writer demo_pipe_world"
  obtain i st where i: "rand_range (srand 1) 0 (of_nat (length pipe_messages) - 1) = Inr (i, st)"
    using rand_range_bounds [of 0 2 "srand 1"] by (auto simp: pipe_messages_len)
  have "cstring_at demo_pipe_mem (demo_messages (unat i)) (pipe_messages ! unat i)"
    using demo_pipe_loaded choose_message [OF i] by (simp add: messages_loaded_def)
  then obtain len where "strlen demo_pipe_mem (demo_messages (unat i)) = Some len"
    using strlen_loop_cstring by (auto simp: strlen_def)
  then obtain w where w: "writer_step 16 demo_klink demo_messages zero_regs (?k, ?w) = Inr (None, ?k, w)"
      "w_sent w = [unat i]"
    using i by (simp add: writer_step_def demo_pipe_world_def)
  have "current ?k = 1" by (simp add: demo_pipe_world_def demo_busy_def demo_kernel_def)
  then have "pipe_step 16 demo_klink demo_messages 0x170000 demo_pipe_world
      (demo_pipe_world\<lparr>pw_kernel := ?k, pw_writer := w\<rparr>)"
    using w(1) by (rule writer_runs) (simp add: call_ok_def)
  then have run: "(pipe_step 16 demo_klink demo_messages 0x170000)\<^sup>*\<^sup>* demo_pipe_world
      (demo_pipe_world\<lparr>pw_kernel := ?k, pw_writer := w\<rparr>)" by blast
  from pipe_delivers_messages [OF demo_pipe_started run] w(2) run show ?thesis
    by (intro exI [of _ "demo_pipe_world\<lparr>pw_kernel := ?k, pw_writer := w\<rparr>"] exI [of _ "unat i"]) auto
qed

end
