(* ===== verification/Programs.thy ===== *)
theory Programs
  imports Isolation
begin

text \<open>
  The other user programs, \<^verbatim>\<open>kernels1/p-alice.cc\<close>, \<^verbatim>\<open>p-eve.cc\<close>, \<^verbatim>\<open>p-spawn.cc\<close>, \<^verbatim>\<open>p-hello.cc\<close>,
  \<^verbatim>\<open>p-recurse.cc\<close> and \<^verbatim>\<open>p-bigdata.cc\<close>. A program that loops for ever is given by what it does before
  its loop and by the body of the loop, which ends in \<^verbatim>\<open>sys_yield\<close>. \<^verbatim>\<open>p-bigdata\<close> is written over the
  translation of its virtual addresses, a parameter, because what it prints depends on it.
\<close>

subsection \<open>Greeters\<close>

definition print_line :: "u32 \<Rightarrow> u8 list \<Rightarrow> va list \<Rightarrow> 'a kstate_scheme \<Rightarrow> 'a kstate_scheme res" where
  "print_line color format val s =
     bind_res (console_vprintf False (-1) color format val s) (\<lambda>(_, s1). Inr s1)"

text \<open>The body of the loop: count, print every 1024th time, yield.\<close>

definition greet ::
  "nat \<Rightarrow> link \<Rightarrow> u32 \<Rightarrow> u8 list \<Rightarrow> (u32 \<Rightarrow> va list) \<Rightarrow> regstate \<Rightarrow> u32 \<times> 'a kstate_scheme
   \<Rightarrow> (outcome \<times> u32 \<times> 'a kstate_scheme) res" where
  "greet rounds L color format val r ns =
     (let n1 = fst ns + 1 in
      bind_res (if n1 mod 1024 = 0 then print_line color format (val n1) (snd ns) else Inr (snd ns)) (\<lambda>s1.
      bind_res (syscall rounds L (sys_yield r) s1) (\<lambda>(out, s2). Inr (out, n1, s2))))"

definition alice_loop ::
  "nat \<Rightarrow> link \<Rightarrow> regstate \<Rightarrow> u32 \<times> 'a kstate_scheme \<Rightarrow> (outcome \<times> u32 \<times> 'a kstate_scheme) res" where
  "alice_loop rounds L =
     greet rounds L 0x0F00 (ascii ''Hi, I'' @ [39] @ ascii ''m Alice! #%u\<newline>'') (\<lambda>n. [VNum (ucast n)])"

definition eve_start ::
  "nat \<Rightarrow> link \<Rightarrow> addr \<Rightarrow> regstate \<Rightarrow> 'a kstate_scheme \<Rightarrow> (outcome \<times> 'a kstate_scheme) res" where
  "eve_start rounds L buf r s =
     bind_res (syscall rounds L (sys_getsysname buf r) s) (\<lambda>(out, s1).
     case out of
       Return v \<Rightarrow> bind_res (print_line 0x0F00 (ascii ''This is %s.\<newline>'') [VStr (bytes_at (mem s1) buf 128)] s1)
                     (\<lambda>s2. Inr (out, s2))
     | _ \<Rightarrow> Inr (out, s1))"

definition eve_loop ::
  "nat \<Rightarrow> link \<Rightarrow> regstate \<Rightarrow> u32 \<times> 'a kstate_scheme \<Rightarrow> (outcome \<times> u32 \<times> 'a kstate_scheme) res" where
  "eve_loop rounds L =
     greet rounds L 0x0E00 (ascii ''Hi, I'' @ [39] @ ascii ''m Eve! #%u\<newline>'') (\<lambda>n. [VNum (ucast n)])"

definition spawn_start ::
  "nat \<Rightarrow> link \<Rightarrow> addr \<Rightarrow> regstate \<Rightarrow> 'a kstate_scheme \<Rightarrow> (outcome \<times> 'a kstate_scheme) res" where
  "spawn_start rounds L command r s = syscall rounds L (sys_spawn command r) s"

definition spawn_loop ::
  "nat \<Rightarrow> link \<Rightarrow> u32 \<Rightarrow> regstate \<Rightarrow> u32 \<times> 'a kstate_scheme \<Rightarrow> (outcome \<times> u32 \<times> 'a kstate_scheme) res" where
  "spawn_loop rounds L alice_pid =
     greet rounds L 0x0E00 (ascii ''Hi, I'' @ [39] @ ascii ''m Sheng! I started %d. #%u\<newline>'')
       (\<lambda>n. [VNum (scast alice_pid), VNum (ucast n)])"

definition hello_start :: "'a kstate_scheme \<Rightarrow> 'a kstate_scheme res" where
  "hello_start s = print_line 0x0F00 (ascii ''Hello!\<newline>'') [] s"

subsection \<open>Recursion\<close>

function recurse_f :: "u32 \<Rightarrow> u32" where
  "recurse_f i = (if i = 0 then i else recurse_f (i - 1) + i)"
  by auto
termination by (relation "measure unat") (auto simp: unat_minus_one unat_gt_0)

primrec recurse_lines :: "nat \<Rightarrow> u32 \<Rightarrow> 'a kstate_scheme \<Rightarrow> 'a kstate_scheme res" where
  "recurse_lines 0 i s = Inr s"
| "recurse_lines (Suc k) i s =
     bind_res (print_line 0x0E00 (ascii ''f(%u) == %u\<newline>'') [VNum (ucast i), VNum (ucast (recurse_f i))] s)
       (recurse_lines k (i + 1))"

definition recurse_start :: "int \<Rightarrow> 'a kstate_scheme \<Rightarrow> 'a kstate_scheme res" where
  "recurse_start getpid s =
     bind_res (print_line 0x0E00 (ascii ''Hello from p-recurse process %d\<newline>'') [VNum (of_int getpid)] s) (\<lambda>s1.
     bind_res (recurse_lines 10 0 s1)
       (print_line 0x0E00 (ascii ''Goodbye now!\<newline>'') []))"

subsection \<open>Two pages of data\<close>

fun strcpy_via :: "(addr \<Rightarrow> addr) \<Rightarrow> memory \<Rightarrow> addr \<Rightarrow> u8 list \<Rightarrow> memory" where
  "strcpy_via tr m a [] = m"
| "strcpy_via tr m a (b # bs) = strcpy_via tr (m(tr a := b)) (a + 1) bs"

definition bytes_via :: "(addr \<Rightarrow> addr) \<Rightarrow> memory \<Rightarrow> addr \<Rightarrow> nat \<Rightarrow> u8 list" where
  "bytes_via tr m a n = map (\<lambda>i. m (tr (a + of_nat i))) [0..<n]"

definition bigdata_copy :: "(addr \<Rightarrow> addr) \<Rightarrow> addr \<Rightarrow> memory \<Rightarrow> memory" where
  "bigdata_copy tr big_data m =
     strcpy_via tr (strcpy_via tr m (big_data + 4086) (ascii ''CS 61 Is Awful\<newline>'' @ [0]))
       big_data (ascii ''mazing\<newline>'' @ [0])"

definition bigdata_start :: "(addr \<Rightarrow> addr) \<Rightarrow> addr \<Rightarrow> 'a kstate_scheme \<Rightarrow> 'a kstate_scheme res" where
  "bigdata_start tr big_data s =
     (let m = bigdata_copy tr big_data (mem s)
      in print_line 0x3000 (ascii ''%s'') [VStr (bytes_via tr m (big_data + 4086) (8192 - 4086))] (s\<lparr>mem := m\<rparr>))"

text \<open>The two pages of \<open>big_data\<close> are mapped to the physical pages \<open>p0\<close> and \<open>p1\<close>.\<close>

definition two_pages :: "(addr \<Rightarrow> addr) \<Rightarrow> addr \<Rightarrow> addr \<Rightarrow> addr \<Rightarrow> bool" where
  "two_pages tr big_data p0 p1 \<longleftrightarrow>
     (\<forall>i < 8192. tr (big_data + of_nat i) = (if i < 4096 then p0 else p1) + of_nat (i mod 4096))
   \<and> aligned 4096 p0 \<and> aligned 4096 p1"

subsection \<open>What the programs do\<close>

theorem recurse_f_sum: "recurse_f i = of_nat (unat i * (unat i + 1) div 2)"
proof (induction i rule: recurse_f.induct)
  case (1 i)
  show ?case
  proof (cases "i = 0")
    case False
    then obtain k where k: "unat i = Suc k" by (metis not0_implies_Suc unat_eq_zero)
    then have "unat (i - 1) = k" using False by (simp add: unat_minus_one)
    then have "recurse_f (i - 1) = of_nat (k * (k + 1) div 2)" using 1 False by simp
    moreover have "i = of_nat (Suc k)" using k [symmetric] by (simp del: of_nat_Suc)
    ultimately have "recurse_f i = of_nat (k * (k + 1) div 2 + Suc k)"
      using False unfolding of_nat_add by (subst recurse_f.simps) (simp del: recurse_f.simps of_nat_Suc)
    also have "k * (k + 1) div 2 + Suc k = Suc k * (Suc k + 1) div 2" by simp
    finally show ?thesis using k by simp
  qed simp
qed

lemma getsysname_call:
  assumes "syscall n L (sys_getsysname buf r) s = Inr (out, s')" "\<not> resets out"
  shows "out = Return 0 \<and> cstring_at (mem s') buf sysname"
proof -
  obtain s1 where "syscall_dispatch n L (sys_getsysname buf r) s1 = Inr (out, s')"
    using syscall_enter [OF assms] by metis
  then have "out = Return 0" "mem s' = put_bytes (mem s1) buf (sysname @ [0])"
    by (auto simp: syscall_dispatch_def syscall_getsysname_def sys_defs syscall_consts res_simps)
  then show ?thesis using put_bytes_cstring [of sysname] by (simp add: sysname_def ascii_def)
qed

lemma strcpy_via_append:
  "strcpy_via tr m a (xs @ ys) = strcpy_via tr (strcpy_via tr m a xs) (a + of_nat (length xs)) ys"
  by (induction xs arbitrary: m a) (simp_all add: add.assoc)

lemma strcpy_via_page:
  "(\<And>i. i < length bs \<Longrightarrow> tr (a + of_nat i) = q + of_nat i) \<Longrightarrow> strcpy_via tr m a bs = put_bytes m q bs"
proof (induction bs arbitrary: m a q)
  case (Cons b bs)
  have "tr a = q" using Cons.prems [of 0] by simp
  moreover have "tr (a + 1 + of_nat i) = q + 1 + of_nat i" if "i < length bs" for i
    using Cons.prems [of "Suc i"] that by (simp add: add.assoc)
  ultimately show ?case using Cons.IH [of "a + 1" "q + 1"] by simp
qed simp

lemma in_page: "aligned 4096 p \<Longrightarrow> i < 4096 \<Longrightarrow> page_no (p + of_nat i) = page_no p"
  using page_apart [of p "p + of_nat i"] by (fastforce simp: unat_of_nat64)

lemma two_pages_apart:
  assumes "two_pages tr b p0 p1" "p0 \<noteq> p1" "i < 4096" "j < 4096"
  shows "p0 + of_nat i \<noteq> p1 + of_nat j"
  using in_page [of p0 i] in_page [of p1 j] page_no_inj [of p0 p1] assms by (auto simp: two_pages_def)

lemma two_pagesD:
  assumes "two_pages tr b p0 p1"
  shows "i < 10 \<Longrightarrow> tr (b + 4086 + of_nat i) = p0 + 4086 + of_nat i"
    "i < 4096 \<Longrightarrow> tr (b + of_nat i) = p0 + of_nat i"
    "i < 4096 \<Longrightarrow> tr (b + 4096 + of_nat i) = p1 + of_nat i"
proof -
  have t: "tr (b + of_nat k) = (if k < 4096 then p0 else p1) + of_nat (k mod 4096)" if "k < 8192" for k
    using assms that by (simp add: two_pages_def)
  show "i < 10 \<Longrightarrow> tr (b + 4086 + of_nat i) = p0 + 4086 + of_nat i" using t [of "4086 + i"] by (simp add: add.assoc)
  show "i < 4096 \<Longrightarrow> tr (b + of_nat i) = p0 + of_nat i" using t [of i] by simp
  show "i < 4096 \<Longrightarrow> tr (b + 4096 + of_nat i) = p1 + of_nat i" using t [of "4096 + i"] by (simp add: add.assoc)
qed

lemma bigdata_copy_pages:
  assumes "two_pages tr b p0 p1"
  shows "bigdata_copy tr b m =
    put_bytes (put_bytes (put_bytes m (p0 + 4086) (ascii ''CS 61 Is A'')) p1 (ascii ''wful\<newline>'' @ [0]))
      p0 (ascii ''mazing\<newline>'' @ [0])"
proof -
  note t = two_pagesD [OF assms]
  have split: "ascii ''CS 61 Is Awful\<newline>'' @ [0] = ascii ''CS 61 Is A'' @ (ascii ''wful\<newline>'' @ [0])"
    by (simp add: ascii_def)
  have l: "length (ascii ''CS 61 Is A'') = 10" "length (ascii ''wful\<newline>'' @ [0]) = 6"
      "length (ascii ''mazing\<newline>'' @ [0]) = 8" by (simp_all add: ascii_def)
  have s1: "strcpy_via tr m' (b + 4086) (ascii ''CS 61 Is A'') = put_bytes m' (p0 + 4086) (ascii ''CS 61 Is A'')" for m'
    by (rule strcpy_via_page) (use t(1) l in simp)
  have s2: "strcpy_via tr m' (b + 4096) (ascii ''wful\<newline>'' @ [0]) = put_bytes m' p1 (ascii ''wful\<newline>'' @ [0])" for m'
    by (rule strcpy_via_page) (use t(3) l in simp)
  have s3: "strcpy_via tr m' b (ascii ''mazing\<newline>'' @ [0]) = put_bytes m' p0 (ascii ''mazing\<newline>'' @ [0])" for m'
    by (rule strcpy_via_page) (use t(2) l in simp)
  have "strcpy_via tr m (b + 4086) (ascii ''CS 61 Is A'' @ (ascii ''wful\<newline>'' @ [0]))
      = strcpy_via tr (strcpy_via tr m (b + 4086) (ascii ''CS 61 Is A'')) (b + 4096) (ascii ''wful\<newline>'' @ [0])"
    using strcpy_via_append [of tr m "b + 4086" "ascii ''CS 61 Is A''" "ascii ''wful\<newline>'' @ [0]"]
    unfolding l(1) by (simp only: add.assoc of_nat_numeral) simp
  then show ?thesis by (simp only: bigdata_copy_def split s1 s2 s3)
qed

lemma bytes_via_pages:
  assumes "two_pages tr b p0 p1" "n \<le> 8"
  shows "bytes_via tr m (b + 4086) (10 + n) = bytes_at m (p0 + 4086) 10 @ bytes_at m p1 n"
proof (rule nth_equalityI)
  fix i assume "i < length (bytes_via tr m (b + 4086) (10 + n))"
  then have i: "i < 10 + n" by (simp add: bytes_via_def)
  show "bytes_via tr m (b + 4086) (10 + n) ! i = (bytes_at m (p0 + 4086) 10 @ bytes_at m p1 n) ! i"
  proof (cases "i < 10")
    case True
    then show ?thesis using i two_pagesD(1) [OF assms(1)] by (simp add: bytes_via_def nth_append bytes_at_nth)
  next
    case False
    then obtain j where "i = 10 + j" by (metis le_add_diff_inverse not_less)
    then show ?thesis using i assms(2) two_pagesD(3) [OF assms(1), of j]
      by (simp add: bytes_via_def nth_append bytes_at_nth add.assoc)
  qed
qed (simp add: bytes_via_def)

lemma bigdata_first_page:
  assumes "two_pages tr b p0 p1"
  shows "bytes_at (bigdata_copy tr b m) (p0 + 4086) 10 = ascii ''CS 61 Is A''"
proof -
  have far: "p0 + 4086 + of_nat i \<noteq> p0 + of_nat j" if "i < 10" "j < 10" for i j
  proof -
    have "unat (of_nat (4086 + i) :: addr) \<noteq> unat (of_nat j :: addr)" using that by (simp add: unat_of_nat64 del: of_nat_add)
    then show ?thesis by (auto simp: add.assoc)
  qed
  have apart: "p0 + 4086 + of_nat i \<noteq> p1 + of_nat j" if "i < 10" "j < 10" for i j
    using far [OF that] two_pages_apart [OF assms, of "4086 + i" j] that by (cases "p0 = p1") (auto simp: add.assoc)
  let ?m1 = "put_bytes m (p0 + 4086) (ascii ''CS 61 Is A'')"
  have "bytes_at (bigdata_copy tr b m) (p0 + 4086) 10 = bytes_at ?m1 (p0 + 4086) 10"
  proof (rule bytes_at_cong)
    fix i :: nat assume i: "i < 10"
    have "put_bytes m' p0 (ascii ''mazing\<newline>'' @ [0]) (p0 + 4086 + of_nat i) = m' (p0 + 4086 + of_nat i)"
      "put_bytes m' p1 (ascii ''wful\<newline>'' @ [0]) (p0 + 4086 + of_nat i) = m' (p0 + 4086 + of_nat i)" for m'
      by (rule put_bytes_other, rule far [OF i], simp add: ascii_def)
         (rule put_bytes_other, rule apart [OF i], simp add: ascii_def)
    then show "bigdata_copy tr b m (p0 + 4086 + of_nat i) = ?m1 (p0 + 4086 + of_nat i)"
      by (simp only: bigdata_copy_pages [OF assms])
  qed
  also have "\<dots> = ascii ''CS 61 Is A''" by (rule put_bytes_reads) (simp_all add: ascii_def)
  finally show ?thesis .
qed

theorem bigdata_text:
  assumes "two_pages tr b p0 p1"
  shows "if p0 = p1
    then bytes_via tr (bigdata_copy tr b m) (b + 4086) 18 = ascii ''CS 61 Is Amazing\<newline>'' @ [0]
    else bytes_via tr (bigdata_copy tr b m) (b + 4086) 16 = ascii ''CS 61 Is Awful\<newline>'' @ [0]"
proof (cases "p0 = p1")
  case True
  have "bytes_at (bigdata_copy tr b m) p0 8 = ascii ''mazing\<newline>'' @ [0]"
    unfolding bigdata_copy_pages [OF assms] by (rule put_bytes_reads) (simp_all add: ascii_def)
  then show ?thesis using True bytes_via_pages [OF assms, of 8] bigdata_first_page [OF assms] by (simp add: ascii_def)
next
  case False
  let ?m2 = "put_bytes (put_bytes m (p0 + 4086) (ascii ''CS 61 Is A'')) p1 (ascii ''wful\<newline>'' @ [0])"
  have "bytes_at (bigdata_copy tr b m) p1 6 = bytes_at ?m2 p1 6"
    unfolding bigdata_copy_pages [OF assms]
    by (rule bytes_at_cong, rule put_bytes_other, rule two_pages_apart [OF assms False, THEN not_sym])
       (simp_all add: ascii_def)
  also have "\<dots> = ascii ''wful\<newline>'' @ [0]"
    by (rule put_bytes_reads) (simp_all add: ascii_def)
  finally show ?thesis using False bytes_via_pages [OF assms, of 6] bigdata_first_page [OF assms] by (simp add: ascii_def)
qed

text \<open>Text without directives after formatting is put on the console as it is.\<close>

lemma vprintf_puts:
  assumes "vprintf color fmt args = Inr (map (\<lambda>c. (c, color)) txt)"
  shows "console_vprintf kern cpos color fmt args s = console_puts kern cpos color txt s"
  using assms by (simp add: console_vprintf_def console_puts_def)

lemma take_bytes_at: "k \<le> n \<Longrightarrow> take k (bytes_at m a n) = bytes_at m a k"
  by (simp add: bytes_at_def take_map)

lemma cstr_bytes_at:
  assumes "cstring_at m a xs" "length xs < n"
  shows "cstr (bytes_at m a n) = xs" "take (length xs) (bytes_at m a n) = xs"
proof -
  have xs: "bytes_at m a (length xs) = xs" "m (a + of_nat (length xs)) = 0" "0 \<notin> set xs"
    using assms(1) by (simp_all add: cstring_at_def bytes_at_def)
  show t: "take (length xs) (bytes_at m a n) = xs" using assms(2) xs(1) by (simp add: take_bytes_at)
  have "bytes_at m a n = xs @ 0 # drop (Suc (length xs)) (bytes_at m a n)"
    using id_take_nth_drop [of "length xs" "bytes_at m a n"] assms(2) t xs(2) by (simp add: bytes_at_nth)
  moreover have "takeWhile (\<lambda>b. b \<noteq> 0) (xs @ 0 # ys) = xs" for ys using xs(3) by (induction xs) auto
  ultimately show "cstr (bytes_at m a n) = xs" unfolding cstr_def by metis
qed

lemma vprintf_prefix:
  "37 \<notin> set xs \<Longrightarrow> vprintf col (xs @ f) args = bind_res (vprintf col f args) (\<lambda>out. Inr (map (\<lambda>c. (c, col)) xs @ out))"
proof (induction xs)
  case Nil
  then show ?case by (cases "vprintf col f args") simp_all
next
  case (Cons x xs)
  then show ?case by (cases "vprintf col f args") (auto simp: vprintf.simps)
qed

lemma parse_string_spec:
  "parse_spec (115 # f) args = Inr (\<lparr>flags = 0, width = -1, precision = -1, long = False\<rparr>, 115 # f, args)"
  by (simp add: parse_spec_def parse_width_def parse_precision_def parse_length_def hd0_def is_dec_def
      flag_chars_def ascii_def)

lemma layout_string: "layout 0 (-1) (-1) 10 0 x = take (length (cstr x)) x"
  by (simp add: layout_def prefix_of_def datalen_of_def zeros_of_def Let_def)

lemma vprintf_string:
  "vprintf col (37 # 115 # f) (VStr x # args)
   = bind_res (vprintf col f args) (\<lambda>out. Inr (map (\<lambda>c. (c, col)) (take (length (cstr x)) x) @ out))"
  by (simp add: parse_string_spec convert_def layout_string hd0_def)

lemma eve_text:
  assumes "cstring_at m buf sysname"
  shows "vprintf 0x0F00 (ascii ''This is %s.\<newline>'') [VStr (bytes_at m buf 128)]
    = Inr (map (\<lambda>c. (c, 0x0F00)) (ascii ''This is DemoOS 61.61.\<newline>''))"
proof -
  have b: "cstr (bytes_at m buf 128) = sysname" "take (length sysname) (bytes_at m buf 128) = sysname"
    using cstr_bytes_at [OF assms, of 128] by (simp_all add: sysname_def ascii_def)
  have "ascii ''This is %s.\<newline>'' = ascii ''This is '' @ 37 # 115 # ascii ''.\<newline>''"
    "ascii ''This is DemoOS 61.61.\<newline>'' = ascii ''This is '' @ sysname @ ascii ''.\<newline>''"
    by (simp_all add: ascii_def sysname_def)
  moreover have "vprintf 0x0F00 (ascii ''.\<newline>'') [] = Inr (map (\<lambda>c. (c, 0x0F00)) (ascii ''.\<newline>''))"
    by (rule vprintf_plain) (simp add: ascii_def)
  moreover have "37 \<notin> set (ascii ''This is '')" by (simp add: ascii_def)
  ultimately show ?thesis using b by (simp add: vprintf_prefix vprintf_string del: vprintf.simps)
qed

theorem eve_names_system:
  assumes "eve_start n L buf r s = Inr (out, s')" "\<not> resets out"
  shows "\<exists>s1 p. syscall n L (sys_getsysname buf r) s = Inr (Return 0, s1)
    \<and> console_puts False (-1) 0x0F00 (ascii ''This is DemoOS 61.61.\<newline>'') s1 = Inr (p, s')"
proof -
  obtain o' s1 where call: "syscall n L (sys_getsysname buf r) s = Inr (o', s1)"
      "(case o' of Return v \<Rightarrow> bind_res (print_line 0x0F00 (ascii ''This is %s.\<newline>'')
           [VStr (bytes_at (mem s1) buf 128)] s1) (\<lambda>s2. Inr (o', s2)) | _ \<Rightarrow> Inr (o', s1)) = Inr (out, s')"
    using assms(1) unfolding eve_start_def bind_res_Inr_iff by fastforce
  then have "out = o'" by (cases o') (auto simp: res_simps)
  then have c: "o' = Return 0" "cstring_at (mem s1) buf sysname"
    using getsysname_call [OF call(1)] assms(2) by simp_all
  then show ?thesis using call vprintf_puts [OF eve_text [OF c(2)], where s = s1]
    by (auto simp: print_line_def res_simps)
qed

text \<open>A greeter counts every turn and prints only on multiples of 1024; yielding never returns a value to it.\<close>

lemma greet_counts:
  assumes "greet n L color fmt val r (c, s) = Inr (out, c', s')"
  shows "c' = c + 1 \<and> ((c + 1) mod 1024 \<noteq> 0 \<longrightarrow> syscall n L (sys_yield r) s = Inr (out, s'))"
  using assms by (auto simp: greet_def Let_def res_simps split: if_splits)

lemma spawn_fails:
  assumes "spawn_start n L command r s = Inr (out, s')" "\<not> resets out"
  shows "out = Return (-1)"
proof -
  obtain s1 where "syscall_dispatch n L (sys_spawn command r) s1 = Inr (out, s')"
    using assms syscall_enter unfolding spawn_start_def by metis
  then show ?thesis by (auto simp: syscall_dispatch_def syscall_spawn_def sys_defs syscall_consts)
qed

subsection \<open>Concrete runs\<close>

definition one_page :: "addr \<Rightarrow> addr" where
  "one_page a = (if a < 0x104000 then a else a - 0x1000)"

lemma demo_two_pages: "two_pages (\<lambda>a. a) 0x103000 0x103000 0x104000"
  unfolding two_pages_def
proof (intro conjI allI impI)
  fix i :: nat assume "i < 8192"
  then show "(0x103000 + of_nat i :: addr) = (if i < 4096 then 0x103000 else 0x104000) + of_nat (i mod 4096)"
    by (cases "i < 4096") (simp, simp add: le_mod_geq not_less)
qed (simp_all add: aligned_def)

lemma demo_one_page: "two_pages one_page 0x103000 0x103000 0x103000"
  unfolding two_pages_def
proof (intro conjI allI impI)
  fix i :: nat assume i: "i < 8192"
  then have "unat (0x103000 + of_nat i :: addr) = 0x103000 + i" by (simp add: unat_add64 unat_of_nat64)
  then have "(0x103000 + of_nat i :: addr) < 0x104000 \<longleftrightarrow> i < 4096" by (simp add: word_less_nat_alt)
  then show "one_page (0x103000 + of_nat i) = (if i < 4096 then 0x103000 else 0x103000) + of_nat (i mod 4096)"
    using i by (cases "i < 4096") (simp add: one_page_def, simp add: one_page_def le_mod_geq not_less)
qed (simp_all add: aligned_def)

theorem bigdata_text_witness:
  "bytes_via (\<lambda>a. a) (bigdata_copy (\<lambda>a. a) 0x103000 (\<lambda>_. 0)) (0x103000 + 4086) 16 = ascii ''CS 61 Is Awful\<newline>'' @ [0]
   \<and> bytes_via one_page (bigdata_copy one_page 0x103000 (\<lambda>_. 0)) (0x103000 + 4086) 18
     = ascii ''CS 61 Is Amazing\<newline>'' @ [0]"
  using bigdata_text [OF demo_two_pages, of "\<lambda>_. 0"] bigdata_text [OF demo_one_page, of "\<lambda>_. 0"]
  by (simp only: if_True simp_thms) (simp only: if_False word_eq_numeral_iff_iszero, simp)

text \<open>On the concrete machine with an empty screen Eve prints her line.\<close>

lemma demo_getsysname:
  "\<exists>s'. syscall 16 demo_klink (sys_getsysname 0x150000 zero_regs) demo_busy = Inr (Return 0, s') \<and> screen_ok s'"
  by (simp add: syscall_def syscall_dispatch_def sys_defs syscall_consts demo_kernel_def demo_busy_def
      memshow_def check_keyboard_def poll_keyboard_def keyboard_readc_def set_proc_def
      console_show_cursor_def outb_def Let_def zero_regs_def screen_ok_def syscall_getsysname_def demo_pointer del: put_bytes.simps)

theorem eve_names_system_witness:
  "\<exists>s1 s' p. syscall 16 demo_klink (sys_getsysname 0x150000 zero_regs) demo_busy = Inr (Return 0, s1)
    \<and> console_puts False (-1) 0x0F00 (ascii ''This is DemoOS 61.61.\<newline>'') s1 = Inr (p, s')"
proof -
  obtain s1 where s1: "syscall 16 demo_klink (sys_getsysname 0x150000 zero_regs) demo_busy = Inr (Return 0, s1)"
      "screen_ok s1" using demo_getsysname by blast
  have nr: "\<not> resets (Return 0)" by (simp add: resets_def)
  have "cstring_at (mem s1) 0x150000 sysname" using getsysname_call [OF s1(1) nr] by blast
  from console_vprintf_in_bounds [OF s1(2) eve_text [OF this], of False "-1"]
  obtain s' where "eve_start 16 demo_klink 0x150000 zero_regs demo_busy = Inr (Return 0, s')"
    using s1(1) by (auto simp: eve_start_def print_line_def)
  from eve_names_system [OF this nr] show ?thesis by blast
qed

end
