(* ===== verification/Descriptors.thy ===== *)
theory Descriptors
  imports Hardware
begin

text \<open>
  What the processor reads back from the descriptors that \<^verbatim>\<open>kernels1/k-hardware.cc\<close> encodes. The first
  part decodes interrupt gates and system segments bit by bit: every field survives, except bits
  16 to 19 of a segment limit. The second part puts the tables into memory the way
  \<^verbatim>\<open>init_interrupts\<close> and \<^verbatim>\<open>init_cpu_hardware\<close> do: the loop over \<^verbatim>\<open>interrupt_descriptors\<close>, which finds
  the address of each handler in the entry it then overwrites, the stores to \<^verbatim>\<open>gdt_segments\<close> and the
  task state with the kernel stack.
\<close>

subsection \<open>Bits of encoded fields\<close>

lemma masks:
  "(0xFFFF :: u64) = mask 16" "(0xFFFF0000 :: u64) = push_bit 16 (mask 16)" "(0xF :: u64) = mask 4" "(3 :: u64) = mask 2"
  "(0xFFFFFF :: u64) = mask 24" "(0xFF000000 :: u64) = push_bit 24 (mask 8)" "(0xF0000 :: u64) = push_bit 16 (mask 4)"
  "(7 :: u64) = mask 3"
  by (simp_all add: mask_eq_exp_minus_1 push_bit_eq_mult)

lemma small_bit: "(x :: u32) < 2 ^ k \<Longrightarrow> bit x n \<Longrightarrow> n < k"
  using less_mask_eq [of x k] by (metis bit_and_iff bit_mask_iff)

lemma small_field: "(x :: u32) < 2 ^ k \<Longrightarrow> k < 32 \<Longrightarrow> bit (scast x :: u64) n \<longleftrightarrow> n < k \<and> bit x n"
  using small_bit [of x k n] small_bit [of x k 31] by (auto simp: bit_simps not_less min_def)

lemma one_bit: "n < 64 \<Longrightarrow> bit (push_bit n 1 :: u64) i \<longleftrightarrow> i = n"
  by (simp only: bit_push_bit_iff bit_1_iff) auto

subsection \<open>Interrupt gates\<close>

definition gate_ist :: "u64 \<times> u64 \<Rightarrow> u64" where
  "gate_ist g = drop_bit 32 (fst g) AND 7"

definition gate_low :: "addr \<Rightarrow> u32 \<Rightarrow> u32 \<Rightarrow> u32 \<Rightarrow> u64" where
  "gate_low a typ dpl ist = (a AND mask 16) OR push_bit 19 1 OR push_bit 32 (scast ist)
     OR push_bit 40 (scast typ) OR push_bit 45 (scast dpl) OR push_bit 47 1
     OR push_bit 32 (a AND push_bit 16 (mask 16))"

lemma set_gate_low:
  assumes "typ < 16" "dpl < 4" "ist < 8"
  shows "set_gate a typ dpl ist = Inr (gate_low a typ dpl ist, drop_bit 32 a)"
proof -
  have sel: "push_bit 16 SEGSEL_KERN_CODE = (push_bit 19 1 :: u64)"
    by (simp add: SEGSEL_KERN_CODE_def)
  show ?thesis using assms unfolding set_gate_def check_def X86SEG_P_def sel gate_low_def masks(1,2)
    by (simp only: simp_thms if_True)
qed

lemma gate_low_bit:
  assumes "typ < 16" "dpl < 4" "ist < 8"
  shows "bit (gate_low a typ dpl ist) n \<longleftrightarrow> n < 16 \<and> bit a n \<or> n = 19 \<or> 32 \<le> n \<and> n < 35 \<and> bit ist (n - 32)
     \<or> 40 \<le> n \<and> n < 44 \<and> bit typ (n - 40) \<or> 45 \<le> n \<and> n < 47 \<and> bit dpl (n - 45) \<or> n = 47
     \<or> 48 \<le> n \<and> n < 64 \<and> bit a (n - 32)"
proof -
  have s: "typ < 2 ^ 4" "dpl < 2 ^ 2" "ist < 2 ^ 3" using assms by simp_all
  have f: "bit (scast typ :: u64) i \<longleftrightarrow> i < 4 \<and> bit typ i" "bit (scast dpl :: u64) i \<longleftrightarrow> i < 2 \<and> bit dpl i" 
    "bit (scast ist :: u64) i \<longleftrightarrow> i < 3 \<and> bit ist i" for i 
    using small_field [OF s(1)] small_field [OF s(2)] small_field [OF s(3)] by simp_all
  have m: "bit (push_bit 32 (a AND push_bit 16 (mask 16))) n \<longleftrightarrow> 48 \<le> n \<and> n < 64 \<and> bit a (n - 32)"
    unfolding bit_push_bit_iff bit_and_iff bit_mask_iff by auto
  have p: "bit (push_bit 32 (scast ist :: u64)) n \<longleftrightarrow> 32 \<le> n \<and> n < 35 \<and> bit ist (n - 32)"
     "bit (push_bit 40 (scast typ :: u64)) n \<longleftrightarrow> 40 \<le> n \<and> n < 44 \<and> bit typ (n - 40)"
     "bit (push_bit 45 (scast dpl :: u64)) n \<longleftrightarrow> 45 \<le> n \<and> n < 47 \<and> bit dpl (n - 45)"
    unfolding bit_push_bit_iff f by auto
  have o: "bit (push_bit 19 1 :: u64) n \<longleftrightarrow> n = 19" "bit (push_bit 47 1 :: u64) n \<longleftrightarrow> n = 47"
    by (rule one_bit, simp)+
  have l: "bit (a AND mask 16) n \<longleftrightarrow> n < 16 \<and> bit a n" by (auto simp: bit_simps)
  show ?thesis unfolding gate_low_def bit_or_iff m p o l by auto
qed

lemma gate_offset_bit:
  "bit (gate_offset (w, h)) n \<longleftrightarrow> n < 16 \<and> bit w n \<or> 16 \<le> n \<and> n < 32 \<and> bit w (32 + n)
     \<or> 32 \<le> n \<and> n < 64 \<and> bit h (n - 32)"
  unfolding gate_offset_def masks(1,2) fst_conv snd_conv bit_or_iff bit_and_iff bit_drop_bit_eq
    bit_push_bit_iff bit_mask_iff o_def
  by (cases "n < 16"; cases "n < 32"; cases "n < 64") (simp_all add: less_diff_conv2 not_less)

lemma gate_decodes:
  assumes "typ < 16" "dpl < 4" "ist < 8"
  shows "\<exists>g. set_gate a typ dpl ist = Inr g \<and> gate_offset g = a \<and> gate_selector g = SEGSEL_KERN_CODE
     \<and> gate_type g = scast typ \<and> gate_dpl g = scast dpl \<and> gate_ist g = scast ist
     \<and> bit (fst g) 47"
proof -
  let ?g = "(gate_low a typ dpl ist, drop_bit 32 a)"
  note b = gate_low_bit [OF assms]
  have s: "typ < 2 ^ 4" "dpl < 2 ^ 2" "ist < 2 ^ 3" using assms by simp_all
  have b1: "n < 16 \<Longrightarrow> bit (gate_low a typ dpl ist) n = bit a n" for n
    unfolding b by auto
  have b2: "16 \<le> n \<Longrightarrow> n < 32 \<Longrightarrow> bit (gate_low a typ dpl ist) (32 + n) = bit a n" for n
    unfolding b by auto
  have "bit (gate_offset ?g) n = bit a n" for n
    using b1 [of n] b2 [of n] bit_imp_le_length [of a n] unfolding gate_offset_bit
    by (cases "n < 16"; cases "n < 32"; cases "n < 64") (auto simp: bit_drop_bit_eq)
  then have "gate_offset ?g = a" by (rule bit_eqI)
  moreover have "bit (gate_selector ?g) n = bit (push_bit 3 1 :: u64) n" for n
    unfolding gate_selector_def masks(1) fst_conv bit_and_iff bit_drop_bit_eq bit_mask_iff o_def b using one_bit [of 3 n] by auto
  then have "gate_selector ?g = push_bit 3 1" by (rule bit_eqI)
  moreover have "push_bit 3 1 = SEGSEL_KERN_CODE" by (simp add: SEGSEL_KERN_CODE_def)
  moreover have "bit (gate_type ?g) n = bit (scast typ :: u64) n" for n
    unfolding gate_type_def masks(3) fst_conv bit_and_iff bit_drop_bit_eq bit_mask_iff o_def b using small_field [OF s(1), of n] by auto
  then have "gate_type ?g = scast typ" by (rule bit_eqI)
  moreover have "bit (gate_dpl ?g) n = bit (scast dpl :: u64) n" for n
    unfolding gate_dpl_def masks(4) fst_conv bit_and_iff bit_drop_bit_eq bit_mask_iff o_def b using small_field [OF s(2), of n] by auto
  then have "gate_dpl ?g = scast dpl" by (rule bit_eqI)
  moreover have "bit (gate_ist ?g) n = bit (scast ist :: u64) n" for n
    unfolding gate_ist_def masks(8) fst_conv bit_and_iff bit_drop_bit_eq bit_mask_iff o_def b using small_field [OF s(3), of n] by auto
  then have "gate_ist ?g = scast ist" by (rule bit_eqI)
  moreover have "bit (fst ?g) 47" unfolding fst_conv b by simp
  ultimately show ?thesis using set_gate_low [OF assms] by auto
qed

subsection \<open>System segments\<close>

text \<open>The base address of a system segment survives; so do the first 16 bits of its limit only.\<close>

definition seg_low :: "addr \<Rightarrow> u64 \<Rightarrow> u64 \<Rightarrow> u32 \<Rightarrow> u64" where
  "seg_low a lim typ dpl = push_bit 16 (a AND mask 24) OR push_bit 32 (a AND push_bit 24 (mask 8))
        OR (lim AND mask 16) OR push_bit 48 (lim AND push_bit 16 (mask 4))
        OR push_bit 40 typ OR push_bit 45 (scast dpl) OR push_bit 47 1"

lemma set_sys_segment_low:
  "set_sys_segment a sz (push_bit 40 typ) dpl = (seg_low a (sz - 1) typ dpl, drop_bit 32 a)"
  unfolding set_sys_segment_def seg_low_def X86SEG_P_def masks(1,5,6,7) by simp

lemma seg_low_bit:
  assumes "dpl < 4" "typ < 2 ^ 4"
  shows "bit (seg_low a lim typ dpl) n \<longleftrightarrow> n < 16 \<and> bit lim n \<or> 16 \<le> n \<and> n < 40 \<and> bit a (n - 16)
     \<or> 40 \<le> n \<and> n < 44 \<and> bit typ (n - 40) \<or> 45 \<le> n \<and> n < 47 \<and> bit dpl (n - 45) \<or> n = 47
     \<or> 56 \<le> n \<and> n < 64 \<and> bit a (n - 32)"
proof -
  have s: "dpl < 2 ^ 2" using assms by simp
  have d: "bit (push_bit 45 (scast dpl :: u64)) n \<longleftrightarrow> 45 \<le> n \<and> n < 47 \<and> bit dpl (n - 45)"
    using small_field [OF s, of "n - 45"] unfolding bit_push_bit_iff by (auto simp: less_diff_conv2)
  have t: "bit typ i \<Longrightarrow> i < 4" for i using less_mask_eq [OF assms(2)] by (metis bit_and_iff bit_mask_iff)
  have t: "bit (push_bit 40 typ) n \<longleftrightarrow> 40 \<le> n \<and> n < 44 \<and> bit typ (n - 40)"
    using t [of "n - 40"] unfolding bit_push_bit_iff by (auto simp: less_diff_conv2)
  have o: "bit (push_bit 47 1 :: u64) n \<longleftrightarrow> n = 47" by (rule one_bit) simp
  have p: "bit (push_bit 16 (a AND mask 24)) n \<longleftrightarrow> 16 \<le> n \<and> n < 40 \<and> bit a (n - 16)"
    "bit (push_bit 32 (a AND push_bit 24 (mask 8))) n \<longleftrightarrow> 56 \<le> n \<and> n < 64 \<and> bit a (n - 32)"
    "bit (lim AND mask 16) n \<longleftrightarrow> n < 16 \<and> bit lim n"
    "\<not> bit (push_bit 48 (lim AND push_bit 16 (mask 4))) n"
    unfolding bit_push_bit_iff bit_and_iff bit_mask_iff by (auto simp: less_diff_conv2)
  show ?thesis unfolding seg_low_def bit_or_iff d t o p(1,2,3) using p(4) by blast
qed

lemma seg_base_bit:
  "bit (seg_base (w, h)) n \<longleftrightarrow> n < 24 \<and> bit w (16 + n) \<or> 24 \<le> n \<and> n < 32 \<and> bit w (32 + n)
     \<or> 32 \<le> n \<and> n < 64 \<and> bit h (n - 32)"
  unfolding seg_base_def masks(5,6) fst_conv snd_conv bit_or_iff bit_and_iff bit_drop_bit_eq
    bit_push_bit_iff bit_mask_iff o_def
  by (cases "n < 24"; cases "n < 32"; cases "n < 64") (simp_all add: less_diff_conv2 not_less)

lemma seg_limit_bit:
  "bit (seg_limit (w, h)) n \<longleftrightarrow> n < 16 \<and> bit w n \<or> 16 \<le> n \<and> n < 20 \<and> bit w (32 + n)"
  unfolding seg_limit_def masks(1,7) fst_conv bit_or_iff bit_and_iff bit_drop_bit_eq
    bit_push_bit_iff bit_mask_iff o_def
  by (cases "n < 16"; cases "n < 20") (simp_all add: less_diff_conv2 not_less)

lemma sys_segment_decodes:
  assumes "typ < 2 ^ 4" "dpl < 4"
  shows "seg_base (set_sys_segment a sz (push_bit 40 typ) dpl) = a
     \<and> seg_limit (set_sys_segment a sz (push_bit 40 typ) dpl) = take_bit 16 (sz - 1)"
proof -
  note b = seg_low_bit [OF assms(2,1)]
  have "bit (seg_base (seg_low a (sz - 1) typ dpl, drop_bit 32 a)) n = bit a n" for n
  proof -
    have "n < 24 \<Longrightarrow> bit (seg_low a (sz - 1) typ dpl) (16 + n) = bit a n" unfolding b by auto
    moreover have "24 \<le> n \<Longrightarrow> n < 32 \<Longrightarrow> bit (seg_low a (sz - 1) typ dpl) (32 + n) = bit a n" unfolding b by auto
    ultimately show ?thesis using bit_imp_le_length [of a n] unfolding seg_base_bit
      by (cases "n < 24"; cases "n < 32"; cases "n < 64") (auto simp: bit_drop_bit_eq)
  qed
  then have "seg_base (seg_low a (sz - 1) typ dpl, drop_bit 32 a) = a" by (rule bit_eqI)
  moreover have "bit (seg_limit (seg_low a (sz - 1) typ dpl, drop_bit 32 a)) n = bit (take_bit 16 (sz - 1)) n" for n
    unfolding seg_limit_bit b bit_take_bit_iff by auto
  then have "seg_limit (seg_low a (sz - 1) typ dpl, drop_bit 32 a) = take_bit 16 (sz - 1)" by (rule bit_eqI)
  ultimately show ?thesis by (simp only: set_sys_segment_low simp_thms)
qed

lemma sys_segment_bits:
  assumes "typ < 2 ^ 4" "dpl < 4"
  shows "bit (fst (set_sys_segment a sz (push_bit 40 typ) dpl)) 47"
  unfolding set_sys_segment_low fst_conv seg_low_bit [OF assms(2,1)] by simp

subsection \<open>The tables in memory\<close>

definition sizeof_taskstate :: nat where
  "sizeof_taskstate = 4 + 8 * 3 + 8 * 8 + 8 + 2 + 2"

fun store_words :: "memory \<Rightarrow> addr \<Rightarrow> u64 list \<Rightarrow> memory" where
  "store_words m a [] = m"
| "store_words m a (w # ws) = store_words (store64 m a w) (a + 8) ws"

definition gate_addr :: "addr \<Rightarrow> nat \<Rightarrow> addr" where
  "gate_addr idt i = idt + of_nat (16 * i)"

primrec init_gates_loop :: "nat \<Rightarrow> addr \<Rightarrow> nat \<Rightarrow> memory \<Rightarrow> memory res" where
  "init_gates_loop 0 idt i m = Inr m"
| "init_gates_loop (Suc k) idt i m =
     bind_res (set_gate (load64 m (gate_addr idt i)) X86GATE_INTERRUPT (if i = INT_BP then 3 else 0) 0)
       (\<lambda>(lo, hi). init_gates_loop k idt (i + 1)
                     (store_words m (gate_addr idt i) [lo, hi]))"

definition init_interrupt_descriptors :: "addr \<Rightarrow> memory \<Rightarrow> memory res" where
  "init_interrupt_descriptors idt m = init_gates_loop 256 idt 0 m"

definition init_cpu_segments :: "addr \<Rightarrow> addr \<Rightarrow> memory \<Rightarrow> memory" where
  "init_cpu_segments gdt taskstate m =
     (let m1 = store_words m gdt (init_gdt taskstate (of_nat sizeof_taskstate));
          m2 = memset m1 taskstate 0 (of_nat sizeof_taskstate)
      in store64 m2 (taskstate + 4) KERNEL_STACK_TOP)"

lemma store_words_outside:
  "8 * length ws < 2 ^ 64 \<Longrightarrow> 8 * length ws \<le> unat (b - a) \<Longrightarrow> store_words m a ws b = m b"
proof (induction ws arbitrary: m a)
  case (Cons w ws)
  have "unat (b - (a + 8)) = unat (b - a) - 8"
    unfolding diff_diff_eq [symmetric] using Cons.prems(2) unat_sub64 [of 8 "b - a"] by simp
  then have "store_words (store64 m a w) (a + 8) ws b = store64 m a w b"
    using Cons.prems by (intro Cons.IH) auto
  then show ?case using Cons.prems(2) by (simp add: store64_outside)
qed simp

lemma load64_store_words:
  "8 * length ws < 2 ^ 64 \<Longrightarrow> i < length ws \<Longrightarrow> load64 (store_words m a ws) (a + of_nat (8 * i)) = ws ! i"
proof (induction ws arbitrary: m a i)
  case (Cons w ws)
  show ?case
  proof (cases i)
    case 0
    have "load64 (store_words (store64 m a w) (a + 8) ws) a = load64 (store64 m a w) a"
    proof (rule load64_cong)
      fix b assume "unat (b - a) < 8"
      then obtain k where k: "b = a + of_nat k" "k < 8" using addr_offset [of b a] by blast
      have "unat (b - (a + 8)) = unat (of_nat k - 8 :: addr)" by (simp add: k)
      also have "\<dots> = 2 ^ 64 - 8 + k"
        using k(2) by (simp add: unat_sub_if' unat_of_nat64)
      finally show "store_words (store64 m a w) (a + 8) ws b = store64 m a w b"
        using Cons.prems(1) by (intro store_words_outside) auto
    qed
    then show ?thesis using 0 by simp
  next
    case (Suc j)
    then show ?thesis using Cons.IH [of j "store64 m a w" "a + 8"] Cons.prems by (simp add: add.assoc)
  qed
qed simp

lemma offset_shift:
  fixes a :: addr
  assumes "unat (b - (a + of_nat k)) < n" "k + n \<le> 2 ^ 64"
  shows "unat (b - a) = k + unat (b - (a + of_nat k))"
proof -
  have "b - a = of_nat k + (b - (a + of_nat k))" by simp
  also have "unat (of_nat k + (b - (a + of_nat k))) = unat (of_nat k :: addr) + unat (b - (a + of_nat k))"
    using assms by (intro unat_add64) (simp add: unat_of_nat64)
  finally show ?thesis using assms by (simp add: unat_of_nat64)
qed

lemma load64_offset_cong:
  assumes "\<And>b. k \<le> unat (b - a) \<Longrightarrow> unat (b - a) < k + 8 \<Longrightarrow> m b = m' b" "k + 8 \<le> 2 ^ 64"
  shows "load64 m (a + of_nat k) = load64 m' (a + of_nat k)"
  using assms offset_shift [of _ a k 8] by (intro load64_cong) simp

definition gate_at :: "memory \<Rightarrow> addr \<Rightarrow> nat \<Rightarrow> u64 \<times> u64" where
  "gate_at m idt i = (load64 m (gate_addr idt i), load64 m (gate_addr idt i + 8))"

definition kernel_gate :: "nat \<Rightarrow> addr \<Rightarrow> u64 \<times> u64 \<Rightarrow> bool" where
  "kernel_gate i handler g \<longleftrightarrow> gate_offset g = handler \<and> gate_selector g = SEGSEL_KERN_CODE
     \<and> gate_type g = 0xE \<and> gate_dpl g = (if i = INT_BP then 3 else 0) \<and> gate_ist g = 0 \<and> bit (fst g) 47"

lemma gate_at_cong:
  assumes "\<And>b. 16 * i \<le> unat (b - idt) \<Longrightarrow> unat (b - idt) < 16 * i + 16 \<Longrightarrow> m b = m' b" "i < 256"
  shows "gate_at m idt i = gate_at m' idt i"
  using assms load64_offset_cong [of "16 * i" idt m m'] load64_offset_cong [of "16 * i + 8" idt m m']
  by (simp add: gate_at_def gate_addr_def add.assoc)

lemma set_gate_kernel:
  obtains lo hi where "set_gate a X86GATE_INTERRUPT (if i = INT_BP then 3 else 0) 0 = Inr (lo, hi)"
    "kernel_gate i a (lo, hi)"
proof -
  have "X86GATE_INTERRUPT < 16" "(if i = INT_BP then 3 else 0 :: u32) < 4" "(0 :: u32) < 8"
    by (simp_all add: X86GATE_INTERRUPT_def)
  from gate_decodes [OF this, of a] that show thesis
    by (auto simp: kernel_gate_def X86GATE_INTERRUPT_def split: if_splits)
qed

lemma init_gates_loop_step:
  assumes "i + k < 256"
  obtains m1 where "init_gates_loop (Suc k) idt i m = init_gates_loop k idt (i + 1) m1"
    "kernel_gate i (load64 m (gate_addr idt i)) (gate_at m1 idt i)"
    "\<And>b. unat (b - idt) < 16 * i \<or> 16 * (i + 1) \<le> unat (b - idt) \<Longrightarrow> m1 b = m b"
proof -
  obtain lo hi where g: "set_gate (load64 m (gate_addr idt i)) X86GATE_INTERRUPT (if i = INT_BP then 3 else 0) 0
        = Inr (lo, hi)" "kernel_gate i (load64 m (gate_addr idt i)) (lo, hi)" by (rule set_gate_kernel)
  let ?m1 = "store_words m (gate_addr idt i) [lo, hi]"
  have "gate_at ?m1 idt i = (lo, hi)"
    using load64_store_words [of "[lo, hi]" 0 m "gate_addr idt i"] load64_store_words [of "[lo, hi]" 1 m "gate_addr idt i"]
    by (simp add: gate_at_def)
  moreover have "?m1 b = m b" if "unat (b - idt) < 16 * i \<or> 16 * (i + 1) \<le> unat (b - idt)" for b
    using offset_shift [of b idt "16 * i" 16] that assms
    by (intro store_words_outside) (auto simp: gate_addr_def not_less [symmetric])
  ultimately show thesis using g that by simp
qed

lemma init_gates_loop_spec:
  assumes "i + k \<le> 256"
  shows "\<exists>m'. init_gates_loop k idt i m = Inr m'
    \<and> (\<forall>b. unat (b - idt) < 16 * i \<or> 16 * (i + k) \<le> unat (b - idt) \<longrightarrow> m' b = m b)
    \<and> (\<forall>j. i \<le> j \<and> j < i + k \<longrightarrow> kernel_gate j (load64 m (gate_addr idt j)) (gate_at m' idt j))"
  using assms
proof (induction k arbitrary: i m)
  case (Suc k)
  have fits: "i + k < 256" using Suc.prems by simp
  obtain m1 where m1: "init_gates_loop (Suc k) idt i m = init_gates_loop k idt (i + 1) m1"
    "kernel_gate i (load64 m (gate_addr idt i)) (gate_at m1 idt i)"
    "\<And>b. unat (b - idt) < 16 * i \<or> 16 * (i + 1) \<le> unat (b - idt) \<Longrightarrow> m1 b = m b"
    by (rule init_gates_loop_step [OF fits, of idt m]) blast
  obtain m' where m': "init_gates_loop k idt (i + 1) m1 = Inr m'"
    "\<And>b. unat (b - idt) < 16 * (i + 1) \<or> 16 * (i + 1 + k) \<le> unat (b - idt) \<Longrightarrow> m' b = m1 b"
    "\<And>j. i + 1 \<le> j \<Longrightarrow> j < i + 1 + k \<Longrightarrow> kernel_gate j (load64 m1 (gate_addr idt j)) (gate_at m' idt j)"
    using Suc.IH [of "i + 1" m1] Suc.prems by auto
  have "kernel_gate j (load64 m (gate_addr idt j)) (gate_at m' idt j)" if j: "i \<le> j" "j < i + Suc k" for j
  proof (cases "j = i")
    case True
    have "gate_at m' idt i = gate_at m1 idt i" using m'(2) Suc.prems by (intro gate_at_cong) auto
    then show ?thesis using m1(2) True by simp
  next
    case False
    then have "load64 m1 (gate_addr idt j) = load64 m (gate_addr idt j)"
      unfolding gate_addr_def using j Suc.prems m1(3) by (intro load64_offset_cong) auto
    then show ?thesis using m'(3) [of j] j False by simp
  qed
  moreover have "m' b = m b" if "unat (b - idt) < 16 * i \<or> 16 * (i + Suc k) \<le> unat (b - idt)" for b
    using m1(3) [of b] m'(2) [of b] that by auto
  ultimately show ?case using m1(1) m'(1) by auto
qed auto

text \<open>The arrays and the task state are different objects.\<close>

definition regions_apart :: "addr \<Rightarrow> nat \<Rightarrow> addr \<Rightarrow> nat \<Rightarrow> bool" where
  "regions_apart a n b k \<longleftrightarrow> (\<forall>x. unat (x - a) < n \<longrightarrow> k \<le> unat (x - b))"

lemma init_gdt_length [simp]: "length (init_gdt tss sz) = 7"
  by (simp add: init_gdt_def)

lemma init_cpu_segments_byte:
  assumes "104 \<le> unat (b - tss)"
  shows "init_cpu_segments gdt tss m b = store_words m gdt (init_gdt tss 104) b"
proof -
  have "8 \<le> unat (b - (tss + 4))"
    using assms offset_shift [of b tss 4 8] by fastforce
  then show ?thesis
    using assms by (simp add: init_cpu_segments_def Let_def store64_outside memset_def memset_loop_closed sizeof_taskstate_def)
qed

lemma init_cpu_segments_gdt:
  assumes "regions_apart gdt 56 tss 104" "i < 7"
  shows "load64 (init_cpu_segments gdt tss m) (gdt + of_nat (8 * i)) = init_gdt tss 104 ! i"
proof -
  have "load64 (init_cpu_segments gdt tss m) (gdt + of_nat (8 * i))
      = load64 (store_words m gdt (init_gdt tss 104)) (gdt + of_nat (8 * i))"
    using assms by (intro load64_offset_cong init_cpu_segments_byte) (auto simp: regions_apart_def)
  also have "\<dots> = init_gdt tss 104 ! i" using assms(2) by (intro load64_store_words) simp_all
  finally show ?thesis .
qed

lemma init_cpu_segments_stack: "load64 (init_cpu_segments gdt tss m) (tss + 4) = KERNEL_STACK_TOP"
  by (simp add: init_cpu_segments_def Let_def)

lemma init_cpu_segments_frame:
  assumes "104 \<le> unat (b - tss)" "56 \<le> unat (b - gdt)"
  shows "init_cpu_segments gdt tss m b = m b"
  unfolding init_cpu_segments_byte [OF assms(1)] using assms(2) by (intro store_words_outside) simp_all

text \<open>Both passes together: what the processor finds in the tables when the kernel has set them up.\<close>

lemma tables_installed:
  assumes apart: "regions_apart gdt 56 tss 104" "regions_apart idt 4096 gdt 56" "regions_apart idt 4096 tss 104"
  obtains m1 where "init_interrupt_descriptors idt m = Inr m1"
    "\<And>i. i < 256 \<Longrightarrow> kernel_gate i (load64 m (gate_addr idt i)) (gate_at (init_cpu_segments gdt tss m1) idt i)"
proof -
  obtain m1 where m1: "init_interrupt_descriptors idt m = Inr m1"
      "\<And>i. i < 256 \<Longrightarrow> kernel_gate i (load64 m (gate_addr idt i)) (gate_at m1 idt i)"
    using init_gates_loop_spec [of 0 256 idt m] by (auto simp: init_interrupt_descriptors_def)
  have "gate_at (init_cpu_segments gdt tss m1) idt i = gate_at m1 idt i" if "i < 256" for i
    using apart(2,3) that by (intro gate_at_cong init_cpu_segments_frame) (auto simp: regions_apart_def)
  then show thesis using m1 that by simp
qed

end
