(* ===== verification/Cpu.thy ===== *)
theory Cpu
  imports Descriptors
begin

text \<open>
  The processor as \<^verbatim>\<open>kernels1/x86-64.h\<close> and \<^verbatim>\<open>kernels1/k-hardware.cc\<close> use it. The record \<open>cpu\<close> holds the
  system registers; each wrapper of a privileged instruction is a function on it. The flag macros
  are datatypes with their bits. \<open>init_kernel_segments\<close> is the part of \<^verbatim>\<open>init_kernel_memory\<close> that loads
  the first segment table, and \<open>init_cpu_registers\<close> the part of \<^verbatim>\<open>init_cpu_hardware\<close> that loads
  descriptor tables, segment registers, \<^verbatim>\<open>%cr0\<close> and the registers of the \<^verbatim>\<open>syscall\<close> instruction.
  \<open>interrupt\<close> and \<open>syscall_insn\<close> say how the processor enters the kernel, as its manual describes it:
  the tables are read from memory. The frame that an interrupt pushes is left out; \<open>c_rsp\<close> is then the
  stack it is pushed on. The theorems show that after the set-up every interrupt and system call
  from user code arrives at the kernel's entry points, on its segments and stack, with
  interrupts off.
\<close>

subsection \<open>Registers and flags\<close>

record x86_64_cpuid_t =
  cpuid_eax :: u32
  cpuid_ebx :: u32
  cpuid_ecx :: u32
  cpuid_edx :: u32

record cpu =
  c_cr0 :: u64
  c_cr2 :: u64
  c_cr3 :: u64
  c_cr4 :: u64
  c_rflags :: u64
  c_rip :: u64
  c_rsp :: u64
  c_rbp :: u64
  c_rcx :: u64
  c_r11 :: u64
  c_cs :: u16
  c_ss :: u16
  c_fs :: u16
  c_gs :: u16
  c_gdtr :: "u16 \<times> addr"
  c_idtr :: "u16 \<times> addr"
  c_ldtr :: u16
  c_tr :: u16
  c_tr_base :: addr
  c_dr :: "nat \<Rightarrow> u64"
  c_msr :: "u32 \<Rightarrow> u64"
  c_tlb :: "u64 \<Rightarrow> u64 option"
  c_tsc :: u64
  c_cpuid :: "u32 \<Rightarrow> u32 \<Rightarrow> x86_64_cpuid_t"
  c_halted :: bool

datatype cr0_flag = CR0_PE | CR0_MP | CR0_EM | CR0_TS | CR0_ET | CR0_NE | CR0_WP | CR0_AM | CR0_NW
  | CR0_CD | CR0_PG

primrec cr0_value :: "cr0_flag \<Rightarrow> u32" where
  "cr0_value CR0_PE = 0x00000001"
| "cr0_value CR0_MP = 0x00000002"
| "cr0_value CR0_EM = 0x00000004"
| "cr0_value CR0_TS = 0x00000008"
| "cr0_value CR0_ET = 0x00000010"
| "cr0_value CR0_NE = 0x00000020"
| "cr0_value CR0_WP = 0x00010000"
| "cr0_value CR0_AM = 0x00040000"
| "cr0_value CR0_NW = 0x20000000"
| "cr0_value CR0_CD = 0x40000000"
| "cr0_value CR0_PG = 0x80000000"

datatype cr4_flag = CR4_DE | CR4_PSE | CR4_PAE | CR4_PGE | CR4_PCE | CR4_OSFXSR | CR4_VMXE

primrec cr4_value :: "cr4_flag \<Rightarrow> u64" where
  "cr4_value CR4_DE = 0x00000008"
| "cr4_value CR4_PSE = 0x00000010"
| "cr4_value CR4_PAE = 0x00000020"
| "cr4_value CR4_PGE = 0x00000080"
| "cr4_value CR4_PCE = 0x00000100"
| "cr4_value CR4_OSFXSR = 0x00000200"
| "cr4_value CR4_VMXE = 0x00004000"

datatype eflag = EFL_CF | EFL_PF | EFL_AF | EFL_ZF | EFL_SF | EFL_TF | EFL_IF | EFL_DF | EFL_OF
  | EFL_IOPL_MASK | EFL_IOPL_0 | EFL_IOPL_1 | EFL_IOPL_2 | EFL_IOPL_3 | EFL_NT | EFL_RF | EFL_VM
  | EFL_AC | EFL_VIF | EFL_VIP | EFL_ID

primrec eflag_value :: "eflag \<Rightarrow> u64" where
  "eflag_value EFL_CF = 0x00000001"
| "eflag_value EFL_PF = 0x00000004"
| "eflag_value EFL_AF = 0x00000010"
| "eflag_value EFL_ZF = 0x00000040"
| "eflag_value EFL_SF = 0x00000080"
| "eflag_value EFL_TF = 0x00000100"
| "eflag_value EFL_IF = 0x00000200"
| "eflag_value EFL_DF = 0x00000400"
| "eflag_value EFL_OF = 0x00000800"
| "eflag_value EFL_IOPL_MASK = 0x00003000"
| "eflag_value EFL_IOPL_0 = 0x00000000"
| "eflag_value EFL_IOPL_1 = 0x00001000"
| "eflag_value EFL_IOPL_2 = 0x00002000"
| "eflag_value EFL_IOPL_3 = 0x00003000"
| "eflag_value EFL_NT = 0x00004000"
| "eflag_value EFL_RF = 0x00010000"
| "eflag_value EFL_VM = 0x00020000"
| "eflag_value EFL_AC = 0x00040000"
| "eflag_value EFL_VIF = 0x00080000"
| "eflag_value EFL_VIP = 0x00100000"
| "eflag_value EFL_ID = 0x00200000"

datatype msr = IA32_APIC_BASE | IA32_MTRR_CAP | IA32_MTRR_BASE | IA32_MTRR_FIX64K_00000
  | IA32_MTRR_FIX16K_80000 | IA32_MTRR_FIX16K_A0000 | IA32_MTRR_FIX4K_C0000 | IA32_MTRR_DEF_TYPE
  | IA32_EFER | IA32_FS_BASE | IA32_GS_BASE | IA32_KERNEL_GS_BASE | IA32_STAR | IA32_LSTAR | IA32_FMASK

primrec MSR :: "msr \<Rightarrow> u32" where
  "MSR IA32_APIC_BASE = 0x1B"
| "MSR IA32_MTRR_CAP = 0xFE"
| "MSR IA32_MTRR_BASE = 0x200"
| "MSR IA32_MTRR_FIX64K_00000 = 0x250"
| "MSR IA32_MTRR_FIX16K_80000 = 0x258"
| "MSR IA32_MTRR_FIX16K_A0000 = 0x259"
| "MSR IA32_MTRR_FIX4K_C0000 = 0x268"
| "MSR IA32_MTRR_DEF_TYPE = 0x2FF"
| "MSR IA32_EFER = 0xC0000080"
| "MSR IA32_FS_BASE = 0xC0000100"
| "MSR IA32_GS_BASE = 0xC0000101"
| "MSR IA32_KERNEL_GS_BASE = 0xC0000102"
| "MSR IA32_STAR = 0xC0000081"
| "MSR IA32_LSTAR = 0xC0000082"
| "MSR IA32_FMASK = 0xC0000084"

definition IA32_EFER_SCE :: u64 where "IA32_EFER_SCE = 0x1"
definition IA32_APIC_BASE_ENABLED :: u64 where "IA32_APIC_BASE_ENABLED = 0x800"

subsection \<open>Instructions\<close>

definition invlpg :: "addr \<Rightarrow> cpu \<Rightarrow> cpu" where
  "invlpg a c = c\<lparr>c_tlb := (c_tlb c)(a div 4096 := None)\<rparr>"

definition lidt :: "memory \<Rightarrow> addr \<Rightarrow> cpu \<Rightarrow> cpu" where
  "lidt m p c = c\<lparr>c_idtr := (load16 m p, load64 m (p + 2))\<rparr>"

definition lldt :: "u16 \<Rightarrow> cpu \<Rightarrow> cpu" where
  "lldt sel c = c\<lparr>c_ldtr := sel\<rparr>"

text \<open>\<^verbatim>\<open>ltr\<close> reads the base of the task state from the descriptor that the selector names.\<close>

definition ltr :: "memory \<Rightarrow> u16 \<Rightarrow> cpu \<Rightarrow> cpu" where
  "ltr m sel c =
     (let p = snd (c_gdtr c) + ucast sel
      in c\<lparr>c_tr := sel, c_tr_base := seg_base (load64 m p, load64 m (p + 8))\<rparr>)"

definition rdcr0 :: "cpu \<Rightarrow> u32" where "rdcr0 c = ucast (c_cr0 c)"
definition wrcr0 :: "u64 \<Rightarrow> cpu \<Rightarrow> cpu" where "wrcr0 x c = c\<lparr>c_cr0 := x\<rparr>"
definition rdcr2 :: "cpu \<Rightarrow> u64" where "rdcr2 c = c_cr2 c"
definition rdcr3 :: "cpu \<Rightarrow> u64" where "rdcr3 c = c_cr3 c"

text \<open>A move to \<^verbatim>\<open>%cr3\<close> drops all cached translations; no entry of the kernel's tables is global.\<close>

definition wrcr3 :: "u64 \<Rightarrow> cpu \<Rightarrow> cpu" where
  "wrcr3 x c = c\<lparr>c_cr3 := x, c_tlb := (\<lambda>_. None)\<rparr>"

definition rdcr4 :: "cpu \<Rightarrow> u64" where "rdcr4 c = c_cr4 c"
definition wrcr4 :: "u64 \<Rightarrow> cpu \<Rightarrow> cpu" where "wrcr4 x c = c\<lparr>c_cr4 := x\<rparr>"

definition cli :: "cpu \<Rightarrow> cpu" where
  "cli c = c\<lparr>c_rflags := c_rflags c AND NOT (eflag_value EFL_IF)\<rparr>"

definition sti :: "cpu \<Rightarrow> cpu" where
  "sti c = c\<lparr>c_rflags := c_rflags c OR eflag_value EFL_IF\<rparr>"

definition tlbflush :: "cpu \<Rightarrow> cpu" where
  "tlbflush c = wrcr3 (rdcr3 c) c"

definition rdeflags :: "cpu \<Rightarrow> u32" where
  "rdeflags c = ucast (c_rflags c)"

text \<open>\<^verbatim>\<open>popfq\<close> in the kernel loads the flags that are not reserved, virtual or the resume flag.\<close>

definition wreflags :: "u32 \<Rightarrow> cpu \<Rightarrow> cpu" where
  "wreflags x c = c\<lparr>c_rflags := (ucast x AND 0x247FD5) OR 2\<rparr>"

definition is_cli :: "cpu \<Rightarrow> bool" where
  "is_cli c \<longleftrightarrow> rdeflags c AND ucast (eflag_value EFL_IF) = 0"

definition rdrbp :: "cpu \<Rightarrow> u64" where "rdrbp c = c_rbp c"
definition rdrsp :: "cpu \<Rightarrow> u64" where "rdrsp c = c_rsp c"

definition cpuid :: "u32 \<Rightarrow> cpu \<Rightarrow> x86_64_cpuid_t" where
  "cpuid fn c = c_cpuid c fn (ucast (c_rcx c))"

definition cpuid_sub :: "u32 \<Rightarrow> u32 \<Rightarrow> cpu \<Rightarrow> x86_64_cpuid_t" where
  "cpuid_sub fn subfn c = c_cpuid c fn subfn"

text \<open>The instructions move 64-bit values in two halves, \<^verbatim>\<open>%eax\<close> and \<^verbatim>\<open>%edx\<close>.\<close>

definition rdmsr :: "u32 \<Rightarrow> cpu \<Rightarrow> u64" where
  "rdmsr r c =
     (let low = ucast (ucast (c_msr c r) :: u32); high = ucast (ucast (drop_bit 32 (c_msr c r)) :: u32)
      in low OR push_bit 32 high)"

definition wrmsr :: "u32 \<Rightarrow> u64 \<Rightarrow> cpu \<Rightarrow> cpu" where
  "wrmsr r x c =
     (let eax = ucast x :: u32; edx = ucast (drop_bit 32 x) :: u32
      in c\<lparr>c_msr := (c_msr c)(r := ucast eax OR push_bit 32 (ucast edx))\<rparr>)"

definition rdtsc :: "cpu \<Rightarrow> u64" where
  "rdtsc c =
     (let low = ucast (ucast (c_tsc c) :: u32); high = ucast (ucast (drop_bit 32 (c_tsc c)) :: u32)
      in low OR push_bit 32 high)"

definition halt :: "cpu \<Rightarrow> cpu" where "halt c = c\<lparr>c_halted := True\<rparr>"

definition rddr0 :: "cpu \<Rightarrow> u64" where "rddr0 c = c_dr c 0"
definition wrdr0 :: "u64 \<Rightarrow> cpu \<Rightarrow> cpu" where "wrdr0 x c = c\<lparr>c_dr := (c_dr c)(0 := x)\<rparr>"
definition rddr1 :: "cpu \<Rightarrow> u64" where "rddr1 c = c_dr c 1"
definition wrdr1 :: "u64 \<Rightarrow> cpu \<Rightarrow> cpu" where "wrdr1 x c = c\<lparr>c_dr := (c_dr c)(1 := x)\<rparr>"
definition rddr2 :: "cpu \<Rightarrow> u64" where "rddr2 c = c_dr c 2"
definition wrdr2 :: "u64 \<Rightarrow> cpu \<Rightarrow> cpu" where "wrdr2 x c = c\<lparr>c_dr := (c_dr c)(2 := x)\<rparr>"
definition rddr3 :: "cpu \<Rightarrow> u64" where "rddr3 c = c_dr c 3"
definition wrdr3 :: "u64 \<Rightarrow> cpu \<Rightarrow> cpu" where "wrdr3 x c = c\<lparr>c_dr := (c_dr c)(3 := x)\<rparr>"
definition rddr6 :: "cpu \<Rightarrow> u64" where "rddr6 c = c_dr c 6"
definition wrdr6 :: "u64 \<Rightarrow> cpu \<Rightarrow> cpu" where "wrdr6 x c = c\<lparr>c_dr := (c_dr c)(6 := x)\<rparr>"
definition rddr7 :: "cpu \<Rightarrow> u64" where "rddr7 c = c_dr c 7"
definition wrdr7 :: "u64 \<Rightarrow> cpu \<Rightarrow> cpu" where "wrdr7 x c = c\<lparr>c_dr := (c_dr c)(7 := x)\<rparr>"

subsection \<open>Setting up the processor\<close>

definition init_kernel_segments :: "addr \<Rightarrow> memory \<times> cpu \<Rightarrow> memory \<times> cpu" where
  "init_kernel_segments gdt_segments mc =
     (store_words (fst mc) gdt_segments
        [0, set_app_segment (X86SEG_X OR X86SEG_L) 0, set_app_segment X86SEG_W 0],
      (snd mc)\<lparr>c_gdtr := (8 * 3 - 1, gdt_segments)\<rparr>)"

definition init_cpu_registers :: "addr \<Rightarrow> addr \<Rightarrow> addr \<Rightarrow> memory \<Rightarrow> cpu \<Rightarrow> cpu" where
  "init_cpu_registers gdt_segments interrupt_descriptors syscall_entry m c =
     (let c1 = c\<lparr>c_gdtr := (8 * 7 - 1, gdt_segments)\<rparr>;
          c2 = (ltr m (ucast SEGSEL_TASKSTATE) c1)\<lparr>c_idtr := (16 * 256 - 1, interrupt_descriptors)\<rparr>;
          c3 = c2\<lparr>c_fs := ucast SEGSEL_KERN_DATA, c_gs := ucast SEGSEL_KERN_DATA\<rparr>;
          cr0 = rdcr0 c3 OR cr0_value CR0_PE OR cr0_value CR0_PG OR cr0_value CR0_WP OR cr0_value CR0_AM
                  OR cr0_value CR0_MP OR cr0_value CR0_NE;
          c4 = wrcr0 (ucast cr0) c3;
          c5 = wrmsr (MSR IA32_STAR) (push_bit 32 SEGSEL_KERN_CODE OR push_bit 48 SEGSEL_APP_CODE) c4;
          c6 = wrmsr (MSR IA32_LSTAR) syscall_entry c5
      in wrmsr (MSR IA32_FMASK) (eflag_value EFL_TF OR eflag_value EFL_DF OR eflag_value EFL_IF
            OR eflag_value EFL_IOPL_MASK OR eflag_value EFL_AC OR eflag_value EFL_NT) c6)"

definition init_cpu :: "addr \<Rightarrow> addr \<Rightarrow> addr \<Rightarrow> addr \<Rightarrow> memory \<times> cpu \<Rightarrow> memory \<times> cpu" where
  "init_cpu gdt_segments interrupt_descriptors taskstate syscall_entry mc =
     (let m1 = init_cpu_segments gdt_segments taskstate (fst mc)
      in (m1, init_cpu_registers gdt_segments interrupt_descriptors syscall_entry m1 (snd mc)))"

text \<open>Constructors of global objects: the functions of an array run in order.\<close>

definition init_constructors :: "('s \<Rightarrow> 's) list \<Rightarrow> 's \<Rightarrow> 's" where
  "init_constructors init_array s = fold (\<lambda>f. f) init_array s"

subsection \<open>How the processor enters the kernel\<close>

definition cpl :: "cpu \<Rightarrow> u64" where "cpl c = ucast (c_cs c AND 3)"

definition segment_at :: "memory \<Rightarrow> cpu \<Rightarrow> u64 \<Rightarrow> u64 option" where
  "segment_at m c sel =
     (if unat (sel AND NOT 7) + 7 \<le> unat (fst (c_gdtr c))
      then Some (load64 m (snd (c_gdtr c) + (sel AND NOT 7))) else None)"

definition seg_dpl :: "u64 \<Rightarrow> u64" where "seg_dpl d = drop_bit 45 d AND 3"

definition code64 :: "u64 \<Rightarrow> bool" where
  "code64 d \<longleftrightarrow> bit d 47 \<and> bit d 44 \<and> bit d 43 \<and> bit d 53 \<and> \<not> bit d 54"

definition interrupt :: "memory \<Rightarrow> nat \<Rightarrow> bool \<Rightarrow> cpu \<Rightarrow> cpu option" where
  "interrupt m v software c =
     (if unat (fst (c_idtr c)) < 16 * v + 15 then None
      else let g = gate_at m (snd (c_idtr c)) v in
        if software \<and> gate_dpl g < cpl c \<or> \<not> bit (fst g) 47 \<or> gate_type g \<notin> {0xE, 0xF} then None
        else case segment_at m c (gate_selector g) of
          None \<Rightarrow> None
        | Some d \<Rightarrow>
            if \<not> code64 d \<or> cpl c < seg_dpl d then None
            else Some (c\<lparr>c_rip := gate_offset g, c_cs := ucast ((gate_selector g AND NOT 3) OR seg_dpl d),
                   c_ss := if seg_dpl d < cpl c then ucast (seg_dpl d) else c_ss c,
                   c_rsp := if gate_ist g \<noteq> 0 then load64 m (c_tr_base c + 28 + 8 * gate_ist g)
                            else if seg_dpl d < cpl c then load64 m (c_tr_base c + 4 + 8 * seg_dpl d)
                            else c_rsp c,
                   c_rflags := c_rflags c AND NOT (eflag_value EFL_TF OR eflag_value EFL_NT OR eflag_value EFL_RF
                     OR eflag_value EFL_VM OR (if gate_type g = 0xE then eflag_value EFL_IF else 0))\<rparr>))"

definition syscall_insn :: "cpu \<Rightarrow> cpu option" where
  "syscall_insn c =
     (if c_msr c (MSR IA32_EFER) AND IA32_EFER_SCE = 0 then None
      else let sel = drop_bit 32 (c_msr c (MSR IA32_STAR)) AND 0xFFFF in
        Some (c\<lparr>c_rcx := c_rip c, c_r11 := c_rflags c, c_rip := c_msr c (MSR IA32_LSTAR),
                c_rflags := c_rflags c AND NOT (c_msr c (MSR IA32_FMASK)),
                c_cs := ucast (sel AND 0xFFFC), c_ss := ucast (sel + 8)\<rparr>))"

definition sysret_insn :: "cpu \<Rightarrow> cpu" where
  "sysret_insn c =
     (let sel = drop_bit 48 (c_msr c (MSR IA32_STAR))
      in c\<lparr>c_rip := c_rcx c, c_rflags := (c_r11 c AND 0x3C7FD7) OR 2,
           c_cs := ucast ((sel + 16) OR 3), c_ss := ucast ((sel + 8) OR 3)\<rparr>)"

definition breakpoint :: "memory \<Rightarrow> cpu \<Rightarrow> cpu option" where
  "breakpoint m c = interrupt m INT_BP True c"

subsection \<open>Properties\<close>

lemma halves: "ucast (ucast x :: u32) OR push_bit 32 (ucast (ucast (drop_bit 32 x) :: u32)) = (x :: u64)"
  by (rule bit_eqI) (auto simp: bit_simps not_less)

lemma rdmsr_eq [simp]: "rdmsr r c = c_msr c r"
  by (simp add: rdmsr_def Let_def halves)

lemma wrmsr_eq: "wrmsr r x c = c\<lparr>c_msr := (c_msr c)(r := x)\<rparr>"
  by (simp add: wrmsr_def Let_def halves)

lemma is_cli_iff: "is_cli c \<longleftrightarrow> \<not> bit (c_rflags c) 9"
proof -
  have "ucast (eflag_value EFL_IF) = (2 ^ 9 :: u32)" by simp
  then show ?thesis unfolding is_cli_def rdeflags_def
    by (simp only: and_exp_eq_0_iff_not_bit) (simp add: bit_simps)
qed

lemma eflag_IF_bit: "bit (eflag_value EFL_IF) n \<longleftrightarrow> n = 9"
proof -
  have "eflag_value EFL_IF = push_bit 9 1" by simp
  then show ?thesis by (simp only: one_bit)
qed

lemma cli_is_cli: "is_cli (cli c)" and sti_not_cli: "\<not> is_cli (sti c)"
  by (simp_all add: is_cli_iff cli_def sti_def bit_simps eflag_IF_bit del: eflag_value.simps)

lemma wreflags_rdeflags: "is_cli (wreflags (rdeflags c) d) \<longleftrightarrow> is_cli c"
  by (simp add: is_cli_iff wreflags_def rdeflags_def bit_simps)

lemma tlbflush_spec: "tlbflush c = c\<lparr>c_tlb := (\<lambda>_. None)\<rparr>"
  by (simp add: tlbflush_def wrcr3_def rdcr3_def)

text \<open>What the set-up leaves in the registers.\<close>

lemma init_cpu_registers_spec:
  "c_gdtr (init_cpu_registers gdt idt entry m c) = (55, gdt)"
  "c_idtr (init_cpu_registers gdt idt entry m c) = (4095, idt)"
  "c_tr_base (init_cpu_registers gdt idt entry m c) = seg_base (load64 m (gdt + 0x28), load64 m (gdt + 0x30))"
  "c_msr (init_cpu_registers gdt idt entry m c) (MSR IA32_STAR) = 0x0018000800000000"
  "c_msr (init_cpu_registers gdt idt entry m c) (MSR IA32_LSTAR) = entry"
  "c_msr (init_cpu_registers gdt idt entry m c) (MSR IA32_FMASK) = 0x47700"
  "c_msr (init_cpu_registers gdt idt entry m c) (MSR IA32_EFER) = c_msr c (MSR IA32_EFER)"
  by (simp_all add: init_cpu_registers_def Let_def wrmsr_eq wrcr0_def ltr_def SEGSEL_TASKSTATE_def
      SEGSEL_KERN_CODE_def SEGSEL_APP_CODE_def add.assoc)

text \<open>The entries of the segment table as the processor sees them.\<close>

lemma kernel_code_segment:
  "code64 (init_gdt tss 104 ! 1)" "seg_dpl (init_gdt tss 104 ! 1) = 0"
  by (simp_all add: init_gdt_def code64_def seg_dpl_def set_app_segment_def X86SEG_X_def X86SEG_L_def
      X86SEG_S_def X86SEG_P_def)

lemma init_cpu_task_base:
  assumes "regions_apart gdt 56 tss 104" "init_cpu gdt idt tss entry (m, c) = (m', c')"
  shows "c_tr_base c' = tss"
proof -
  have m': "m' = init_cpu_segments gdt tss m" "c' = init_cpu_registers gdt idt entry m' c"
    using assms(2) by (auto simp: init_cpu_def Let_def)
  have "load64 m' (gdt + 0x28) = init_gdt tss 104 ! 5" "load64 m' (gdt + 0x30) = init_gdt tss 104 ! 6"
    unfolding m' using init_cpu_segments_gdt [OF assms(1), of 5] init_cpu_segments_gdt [OF assms(1), of 6] by simp_all
  moreover have "(init_gdt tss 104 ! 5, init_gdt tss 104 ! 6) = set_sys_segment tss 104 (push_bit 40 9) 0"
    by (simp add: init_gdt_def X86SEG_TSS_def)
  ultimately show ?thesis
    unfolding m'(2) init_cpu_registers_spec using sys_segment_decodes [of 9 0 tss 104] by simp
qed

definition table_layout :: "addr \<Rightarrow> addr \<Rightarrow> addr \<Rightarrow> bool" where
  "table_layout gdt idt tss \<longleftrightarrow> regions_apart gdt 56 tss 104 \<and> regions_apart idt 4096 gdt 56
     \<and> regions_apart idt 4096 tss 104"

text \<open>User code with the system registers as the kernel loaded them.\<close>

definition in_user_mode :: "cpu \<Rightarrow> cpu \<Rightarrow> bool" where
  "in_user_mode c u \<longleftrightarrow> cpl u = 3 \<and> c_gdtr u = c_gdtr c \<and> c_idtr u = c_idtr c
     \<and> c_tr_base u = c_tr_base c \<and> c_msr u = c_msr c"

lemma segment_at_cong: "c_gdtr u' = c_gdtr u \<Longrightarrow> segment_at m u' sel = segment_at m u sel"
  by (simp add: segment_at_def)

lemma init_cpu_kernel_code:
  assumes "table_layout gdt idt tss" "init_cpu gdt idt tss entry (m, c) = (m', c')" "in_user_mode c' u"
  obtains d where "segment_at m' u SEGSEL_KERN_CODE = Some d" "code64 d" "seg_dpl d = 0"
proof -
  have m': "m' = init_cpu_segments gdt tss m" "c' = init_cpu_registers gdt idt entry m' c"
    using assms(2) by (auto simp: init_cpu_def Let_def)
  have "load64 m' (gdt + 8) = init_gdt tss 104 ! 1"
    unfolding m' using init_cpu_segments_gdt [of gdt tss 1 m] assms(1) by (simp add: table_layout_def)
  moreover have "c_gdtr u = (55, gdt)" using assms(3) by (simp add: in_user_mode_def m'(2) init_cpu_registers_spec)
  ultimately have "segment_at m' u SEGSEL_KERN_CODE = Some (init_gdt tss 104 ! 1)"
    by (simp add: segment_at_def SEGSEL_KERN_CODE_def)
  then show thesis using that kernel_code_segment by blast
qed

lemma interrupt_from_user:
  assumes "table_layout gdt idt tss" "init_cpu gdt idt tss entry (m, c) = (m', c')" "in_user_mode c' u"
    and "v < 256" "kernel_gate v handler (gate_at m' idt v)"
  shows "interrupt m' v software u =
     (if software \<and> v \<noteq> INT_BP then None
      else Some (u\<lparr>c_rip := handler, c_cs := ucast SEGSEL_KERN_CODE, c_ss := 0, c_rsp := KERNEL_STACK_TOP,
        c_rflags := c_rflags u AND NOT 0x34300\<rparr>))"
proof -
  have m': "m' = init_cpu_segments gdt tss m" "c' = init_cpu_registers gdt idt entry m' c"
    using assms(2) by (auto simp: init_cpu_def Let_def)
  have tss: "c_tr_base u = tss"
    using assms(1,3) init_cpu_task_base [OF _ assms(2)] by (simp add: in_user_mode_def table_layout_def)
  have idt: "c_idtr u = (4095, idt)" "cpl u = 3"
    using assms(3) by (simp_all add: in_user_mode_def m'(2) init_cpu_registers_spec)
  have stack: "load64 m' (tss + 4) = KERNEL_STACK_TOP" unfolding m' by (rule init_cpu_segments_stack)
  have fits: "16 * v + 15 \<le> 4095" using assms(4) by simp
  have sel: "ucast ((SEGSEL_KERN_CODE AND NOT 3) OR 0) = (ucast SEGSEL_KERN_CODE :: u16)"
    by (simp add: SEGSEL_KERN_CODE_def)
  have g: "gate_offset (gate_at m' idt v) = handler" "gate_selector (gate_at m' idt v) = SEGSEL_KERN_CODE"
    "gate_type (gate_at m' idt v) = 0xE" "gate_dpl (gate_at m' idt v) = (if v = INT_BP then 3 else 0)"
    "gate_ist (gate_at m' idt v) = 0" "bit (fst (gate_at m' idt v)) 47"
    using assms(5) by (simp_all add: kernel_gate_def)
  obtain d where "segment_at m' u SEGSEL_KERN_CODE = Some d" "code64 d" "seg_dpl d = 0"
    by (rule init_cpu_kernel_code [OF assms(1-3)])
  then show ?thesis using fits sel by (simp add: interrupt_def Let_def idt g tss stack)
qed

text \<open>
  C11: After start-up has filled the descriptor tables and loaded the processor, every one of the 256
  interrupts from user code enters the kernel at its own handler, on the kernel code segment and
  stack, with interrupts off; the \<open>int\<close> instruction of user code reaches only the
  breakpoint handler.
\<close>
theorem interrupt_enters_kernel:
  assumes "table_layout gdt idt tss" "init_interrupt_descriptors idt m = Inr m1"
    and "init_cpu gdt idt tss entry (m1, c) = (m2, c')" "in_user_mode c' u" "v < 256"
  shows "\<exists>u'. interrupt m2 v False u = Some u' \<and> c_rip u' = load64 m (gate_addr idt v)
      \<and> c_cs u' = ucast SEGSEL_KERN_CODE \<and> c_rsp u' = KERNEL_STACK_TOP \<and> is_cli u' \<and> cpl u' = 0
      \<and> (interrupt m2 v True u = (if v = INT_BP then Some u' else None))"
proof -
  have m2: "m2 = init_cpu_segments gdt tss m1" using assms(3) by (auto simp: init_cpu_def Let_def)
  have "kernel_gate v (load64 m (gate_addr idt v)) (gate_at m2 idt v)"
    unfolding m2 using tables_installed [of gdt tss idt m] assms(1,2,5) unfolding table_layout_def
    by (metis sum.inject(2))
  note i = interrupt_from_user [OF assms(1,3,4,5) this]
  have "\<not> bit (NOT 0x34300 :: u64) 9" by simp
  then show ?thesis unfolding i
    by (simp add: is_cli_iff bit_and_iff cpl_def SEGSEL_KERN_CODE_def)
qed

text \<open>
  C32: After start-up the \<open>syscall\<close> instruction of user code jumps to
  \<open>syscall_entry\<close> on the kernel segments, saves the return address and flags, and
  clears the trap, direction, interrupt, I/O privilege, alignment and nested-task flags and no
  other.
\<close>
theorem syscall_enters_kernel:
  assumes "table_layout gdt idt tss" "init_cpu gdt idt tss entry (m, c) = (m', c')" "in_user_mode c' u"
    and "bit (c_msr c (MSR IA32_EFER)) 0"
  shows "\<exists>u' d. syscall_insn u = Some u' \<and> c_rip u' = entry \<and> c_cs u' = ucast SEGSEL_KERN_CODE
      \<and> c_ss u' = ucast SEGSEL_KERN_DATA \<and> c_rcx u' = c_rip u \<and> c_r11 u' = c_rflags u
      \<and> c_rflags u' = c_rflags u AND NOT 0x47700 \<and> is_cli u'
      \<and> segment_at m' u' SEGSEL_KERN_CODE = Some d \<and> code64 d \<and> seg_dpl d = 0"
proof -
  have c': "c' = init_cpu_registers gdt idt entry m' c" using assms(2) by (auto simp: init_cpu_def Let_def)
  have u: "c_msr u (MSR IA32_STAR) = 0x0018000800000000" "c_msr u (MSR IA32_LSTAR) = entry"
    "c_msr u (MSR IA32_FMASK) = 0x47700" "c_msr u (MSR IA32_EFER) = c_msr c (MSR IA32_EFER)"
    using assms(3) unfolding in_user_mode_def c' by (simp_all only: init_cpu_registers_spec)
  have sce: "c_msr c (MSR IA32_EFER) AND IA32_EFER_SCE \<noteq> 0"
    using assms(4) and_exp_eq_0_iff_not_bit [of "c_msr c (MSR IA32_EFER)" 0] by (simp add: IA32_EFER_SCE_def)
  obtain d where "segment_at m' u SEGSEL_KERN_CODE = Some d" "code64 d" "seg_dpl d = 0"
    by (rule init_cpu_kernel_code [OF assms(1-3)])
  moreover obtain u' where u': "syscall_insn u = Some u'" "c_rip u' = entry" "c_cs u' = ucast SEGSEL_KERN_CODE"
      "c_ss u' = ucast SEGSEL_KERN_DATA" "c_rcx u' = c_rip u" "c_r11 u' = c_rflags u"
      "c_rflags u' = c_rflags u AND NOT 0x47700" "c_gdtr u' = c_gdtr u"
    using sce unfolding syscall_insn_def u
    by (simp add: Let_def SEGSEL_KERN_CODE_def SEGSEL_KERN_DATA_def del: MSR.simps)
  moreover have "is_cli u'" unfolding is_cli_iff u'(7) bit_and_iff by simp
  ultimately show ?thesis using segment_at_cong [OF u'(8)] by metis
qed

text \<open>
  \<^verbatim>\<open>sysret\<close> adds 16 to the selector in \<^verbatim>\<open>STAR\<close>. The kernel returns with \<^verbatim>\<open>iretq\<close>; were it to use \<^verbatim>\<open>sysret\<close>,
  the code segment of the process would be the selector of the task state.
\<close>

lemma sysret_selects_taskstate:
  assumes "init_cpu gdt idt tss entry (m, c) = (m', c')" "in_user_mode c' u"
  shows "c_cs (sysret_insn u) = ucast (SEGSEL_TASKSTATE OR 3)"
proof -
  have c': "c' = init_cpu_registers gdt idt entry m' c" using assms(1) by (auto simp: init_cpu_def Let_def)
  have "c_msr u (MSR IA32_STAR) = 0x0018000800000000"
    using assms(2) unfolding in_user_mode_def c' by (simp only: init_cpu_registers_spec)
  then show ?thesis by (simp add: sysret_insn_def SEGSEL_TASKSTATE_def del: MSR.simps)
qed

subsection \<open>A concrete processor\<close>

lemma regions_apartI:
  assumes "unat a + n \<le> unat b \<and> unat b + k \<le> 2 ^ 64 \<or> unat b + k \<le> unat a \<and> unat a + n \<le> 2 ^ 64"
  shows "regions_apart a n b k"
  unfolding regions_apart_def
proof (intro allI impI)
  fix x :: addr assume x: "unat (x - a) < n"
  have "x = a + (x - a)" by simp
  also have "unat (a + (x - a)) = unat a + unat (x - a)"
    using x assms by (intro unat_add64) auto
  finally have "unat x = unat a + unat (x - a)" .
  then show "k \<le> unat (x - b)"
    using x assms unat_addr_bound [of b] by (simp add: unat_sub_if' split: if_splits) linarith
qed

definition demo_cpu :: cpu where
  "demo_cpu = \<lparr>c_cr0 = 0x80000011, c_cr2 = 0, c_cr3 = 0, c_cr4 = 0x20, c_rflags = 2, c_rip = 0x40000, c_rsp = 0x80000,
     c_rbp = 0, c_rcx = 0, c_r11 = 0, c_cs = 8, c_ss = 0x10, c_fs = 0, c_gs = 0, c_gdtr = (0, 0), c_idtr = (0, 0),
     c_ldtr = 0, c_tr = 0, c_tr_base = 0, c_dr = (\<lambda>_. 0), c_msr = (\<lambda>r. if r = 0xC0000080 then 0x501 else 0),
     c_tlb = (\<lambda>_. None), c_tsc = 0, c_cpuid = (\<lambda>_ _. \<lparr>cpuid_eax = 0, cpuid_ebx = 0, cpuid_ecx = 0, cpuid_edx = 0\<rparr>),
     c_halted = False\<rparr>"

lemma demo_table_layout: "table_layout 0x50000 0x51000 0x53000"
  unfolding table_layout_def by (intro conjI regions_apartI) simp_all

lemma demo_user_mode: "in_user_mode c (c\<lparr>c_cs := 0x1B\<rparr>)"
  by (simp add: in_user_mode_def cpl_def)

theorem interrupt_enters_kernel_witness:
  "\<exists>m1 m2 c' u'. init_interrupt_descriptors 0x51000 (store64 (\<lambda>_. 0) (gate_addr 0x51000 14) 0x40E00) = Inr m1
     \<and> init_cpu 0x50000 0x51000 0x53000 0x40100 (m1, demo_cpu) = (m2, c')
     \<and> interrupt m2 14 False (c'\<lparr>c_cs := 0x1B\<rparr>) = Some u' \<and> c_rip u' = 0x40E00 \<and> c_rsp u' = KERNEL_STACK_TOP
     \<and> interrupt m2 14 True (c'\<lparr>c_cs := 0x1B\<rparr>) = None"
proof -
  let ?m = "store64 (\<lambda>_. 0) (gate_addr 0x51000 14) 0x40E00"
  obtain m1 where m1: "init_interrupt_descriptors 0x51000 ?m = Inr m1"
    using init_gates_loop_spec [of 0 256 "0x51000" ?m] by (auto simp: init_interrupt_descriptors_def)
  obtain m2 c' where c': "init_cpu 0x50000 0x51000 0x53000 0x40100 (m1, demo_cpu) = (m2, c')" by fastforce
  have "14 < (256 :: nat)" by simp
  from interrupt_enters_kernel [OF demo_table_layout m1 c' demo_user_mode this] m1 c' show ?thesis
    by (auto simp: INT_BP_def)
qed

theorem syscall_enters_kernel_witness:
  "\<exists>m' c' u'. init_cpu 0x50000 0x51000 0x53000 0x40100 ((\<lambda>_. 0), demo_cpu) = (m', c')
     \<and> syscall_insn (c'\<lparr>c_cs := 0x1B\<rparr>) = Some u' \<and> c_rip u' = 0x40100 \<and> c_cs u' = 8 \<and> c_ss u' = 0x10 \<and> is_cli u'"
proof -
  obtain m' c' where c': "init_cpu 0x50000 0x51000 0x53000 0x40100 ((\<lambda>_. 0), demo_cpu) = (m', c')" by fastforce
  have "bit (c_msr demo_cpu (MSR IA32_EFER)) 0" by (simp add: demo_cpu_def)
  from syscall_enters_kernel [OF demo_table_layout c' demo_user_mode this] c' show ?thesis
    by (auto simp: SEGSEL_KERN_CODE_def SEGSEL_KERN_DATA_def)
qed

end
