(* ===== verification/Apic.thy ===== *)
theory Apic
  imports Kernel
begin

text \<open>
  The interrupt controllers, \<^verbatim>\<open>kernels1/k-apic.hh\<close>, and their programming in \<^verbatim>\<open>init_cpu_hardware\<close>. Both
  controllers are memory-mapped 32-bit registers behind a parameter \<open>mmio\<close>: the local APIC has one
  register every 16 bytes, the I/O APIC a register that selects and a window onto the selected
  one. What the documentation of the controllers promises is stated in \<open>lapic_spec\<close> and \<open>ioapic_spec\<close>
  over the registers that a state of the device holds. The theorems say what the programming
  leaves in the registers, and that it makes the accesses that the state of the kernel records.
\<close>

subsection \<open>Registers\<close>

datatype lapic_reg = lapic_reg_id | reg_tpr | reg_svr | reg_isr | reg_tmr | reg_irr | reg_esr | reg_eoi
  | reg_cmci | reg_lvt_timer | reg_lvt_lint0 | reg_lvt_lint1 | reg_lvt_error | reg_icr_low | reg_icr_high
  | reg_timer_initial_count | reg_timer_current_count | reg_timer_divide

primrec lapic_no :: "lapic_reg \<Rightarrow> u32" where
  "lapic_no lapic_reg_id = 0x02"
| "lapic_no reg_tpr = 0x08"
| "lapic_no reg_svr = 0x0F"
| "lapic_no reg_isr = 0x10"
| "lapic_no reg_tmr = 0x18"
| "lapic_no reg_irr = 0x20"
| "lapic_no reg_esr = 0x28"
| "lapic_no reg_eoi = 0x0B"
| "lapic_no reg_cmci = 0x2F"
| "lapic_no reg_lvt_timer = 0x32"
| "lapic_no reg_lvt_lint0 = 0x35"
| "lapic_no reg_lvt_lint1 = 0x36"
| "lapic_no reg_lvt_error = 0x37"
| "lapic_no reg_icr_low = 0x30"
| "lapic_no reg_icr_high = 0x31"
| "lapic_no reg_timer_initial_count = 0x38"
| "lapic_no reg_timer_current_count = 0x39"
| "lapic_no reg_timer_divide = 0x3E"

datatype ipi_type_t = ipi_init | ipi_startup

primrec ipi_value :: "ipi_type_t \<Rightarrow> u32" where
  "ipi_value ipi_init = 0x500"
| "ipi_value ipi_startup = 0x600"

datatype ipi_flag = ipi_delivery_status | ipi_level_assert | ipi_trigger_level | ipi_given | ipi_self | ipi_all
  | ipi_all_excluding_self

primrec ipi_bits :: "ipi_flag \<Rightarrow> u32" where
  "ipi_bits ipi_delivery_status = 0x1000"
| "ipi_bits ipi_level_assert = 0x4000"
| "ipi_bits ipi_trigger_level = 0x8000"
| "ipi_bits ipi_given = 0"
| "ipi_bits ipi_self = 0x40000"
| "ipi_bits ipi_all = 0x80000"
| "ipi_bits ipi_all_excluding_self = 0xC0000"

definition timer_divide_1 :: u32 where "timer_divide_1 = 0x0B"
definition timer_periodic :: u32 where "timer_periodic = 0x20000"
definition lvt_masked :: u32 where "lvt_masked = 0x10000"
definition lapic_pa :: addr where "lapic_pa = 0xFEE00000"

definition IRQ_KEYBOARD :: u32 where "IRQ_KEYBOARD = 1"
definition IRQ_ERROR :: u32 where "IRQ_ERROR = 19"
definition IRQ_SPURIOUS :: u32 where "IRQ_SPURIOUS = 31"

text \<open>Accesses to device memory; a read may change the device too.\<close>

record 'd mmio =
  mm_read :: "addr \<Rightarrow> 'd \<Rightarrow> u32 \<times> 'd"
  mm_write :: "addr \<Rightarrow> u32 \<Rightarrow> 'd \<Rightarrow> 'd"

subsection \<open>The local APIC\<close>

definition apic_read :: "'d mmio \<Rightarrow> lapic_reg \<Rightarrow> 'd \<Rightarrow> u32 \<times> 'd" where
  "apic_read IO reg d = mm_read IO (lapic_pa + 16 * ucast (lapic_no reg)) d"

definition apic_write :: "'d mmio \<Rightarrow> lapic_reg \<Rightarrow> u32 \<Rightarrow> 'd \<Rightarrow> 'd" where
  "apic_write IO reg v d = mm_write IO (lapic_pa + 16 * ucast (lapic_no reg)) v d"

definition apic_id :: "'d mmio \<Rightarrow> 'd \<Rightarrow> u32 \<times> 'd" where
  "apic_id IO d = (let (v, d1) = apic_read IO lapic_reg_id d in (drop_bit 24 v, d1))"

definition enable_lapic :: "'d mmio \<Rightarrow> u32 \<Rightarrow> 'd \<Rightarrow> 'd" where
  "enable_lapic IO vector d =
     (let (v, d1) = apic_read IO reg_svr d in apic_write IO reg_svr ((v AND NOT 0xFF) OR 0x100 OR vector) d1)"

definition disable_lapic :: "'d mmio \<Rightarrow> 'd \<Rightarrow> 'd" where
  "disable_lapic IO d =
     (let (v, d1) = apic_read IO reg_svr d in apic_write IO reg_svr (v AND NOT 0x100) d1)"

definition apic_error :: "'d mmio \<Rightarrow> 'd \<Rightarrow> u32 \<times> 'd" where
  "apic_error IO d = apic_read IO reg_esr (apic_write IO reg_esr 0 d)"

definition apic_ack :: "'d mmio \<Rightarrow> 'd \<Rightarrow> 'd" where
  "apic_ack IO d = apic_write IO reg_eoi 0 d"

definition ipi_others :: "'d mmio \<Rightarrow> ipi_type_t \<Rightarrow> u32 \<Rightarrow> 'd \<Rightarrow> 'd" where
  "ipi_others IO t vector d =
     apic_write IO reg_icr_low (ipi_bits ipi_all_excluding_self OR ipi_bits ipi_level_assert OR ipi_value t OR vector) d"

definition ipi_pending :: "'d mmio \<Rightarrow> 'd \<Rightarrow> bool \<times> 'd" where
  "ipi_pending IO d =
     (let (v, d1) = apic_read IO reg_icr_low d in (v AND ipi_bits ipi_delivery_status \<noteq> 0, d1))"

definition apic_setup :: "'d mmio \<Rightarrow> 'd \<Rightarrow> 'd" where
  "apic_setup IO d =
     (let d1 = enable_lapic IO (INT_IRQ + IRQ_SPURIOUS) d;
          d2 = apic_write IO reg_timer_divide timer_divide_1 d1;
          d3 = apic_write IO reg_lvt_timer (timer_periodic OR (INT_IRQ + IRQ_TIMER)) d2;
          d4 = apic_write IO reg_timer_initial_count 0 d3;
          d5 = apic_write IO reg_lvt_lint0 lvt_masked d4;
          d6 = apic_write IO reg_lvt_lint1 lvt_masked d5;
          d7 = apic_write IO reg_lvt_error (INT_IRQ + IRQ_ERROR) d6
      in apic_ack IO (snd (apic_error IO d7)))"

definition apic_timer :: "'d mmio \<Rightarrow> int \<Rightarrow> 'd \<Rightarrow> 'd" where
  "apic_timer IO rate d =
     (if rate > 0 then apic_write IO reg_timer_initial_count (of_int (1000000000 div rate)) d
      else apic_write IO reg_timer_initial_count 0 d)"

subsection \<open>The I/O APIC\<close>

datatype ioapic_reg = ioapic_reg_id | reg_ver | reg_redtbl

primrec ioapic_no :: "ioapic_reg \<Rightarrow> u32" where
  "ioapic_no ioapic_reg_id = 0x0"
| "ioapic_no reg_ver = 0x1"
| "ioapic_no reg_redtbl = 0x10"

definition redtbl_masked :: u32 where "redtbl_masked = 0x10000"
definition ioapic_pa :: addr where "ioapic_pa = 0xFEC00000"

definition ioapic_read :: "'d mmio \<Rightarrow> u32 \<Rightarrow> 'd \<Rightarrow> u32 \<times> 'd" where
  "ioapic_read IO reg d = mm_read IO (ioapic_pa + 16) (mm_write IO ioapic_pa reg d)"

definition ioapic_write :: "'d mmio \<Rightarrow> u32 \<Rightarrow> u32 \<Rightarrow> 'd \<Rightarrow> 'd" where
  "ioapic_write IO reg v d = mm_write IO (ioapic_pa + 16) v (mm_write IO ioapic_pa reg d)"

definition ioapic_id :: "'d mmio \<Rightarrow> 'd \<Rightarrow> u32 \<times> 'd" where
  "ioapic_id IO d = (let (v, d1) = ioapic_read IO (ioapic_no ioapic_reg_id) d in (drop_bit 24 v, d1))"

definition enable_irq :: "'d mmio \<Rightarrow> u32 \<Rightarrow> u32 \<Rightarrow> u32 \<Rightarrow> 'd \<Rightarrow> 'd" where
  "enable_irq IO entry vector cpu_lapicid d =
     ioapic_write IO (ioapic_no reg_redtbl + 2 * entry + 1) (push_bit 24 cpu_lapicid)
       (ioapic_write IO (ioapic_no reg_redtbl + 2 * entry) vector d)"

definition disable_irq :: "'d mmio \<Rightarrow> u32 \<Rightarrow> 'd \<Rightarrow> 'd" where
  "disable_irq IO entry d =
     ioapic_write IO (ioapic_no reg_redtbl + 2 * entry + 1) 0
       (ioapic_write IO (ioapic_no reg_redtbl + 2 * entry) redtbl_masked d)"

subsection \<open>What the controllers promise\<close>

text \<open>
  The configuration registers of the local APIC and their programmable bits; the other bits are
  reserved or read-only. \<open>R d r\<close> is what the programmable bits of register \<open>r\<close> hold. The documentation
  promises what a write stores only when the value has zeroes in the reserved bits, or what was
  read from them, and, for the spurious-interrupt vector, ones in its four low bits, which some
  processors fix. A write to an entry of the local vector table while the APIC is disabled by
  software (bit 8 of the spurious-interrupt register is clear) leaves the entry masked, and disabling
  the APIC masks every entry. A write to the error status or the end of interrupt changes no
  configuration register.
\<close>

definition configures :: "lapic_reg \<Rightarrow> bool" where
  "configures r \<longleftrightarrow> r \<in> {reg_svr, reg_lvt_timer, reg_lvt_lint0, reg_lvt_lint1, reg_lvt_error,
     reg_timer_initial_count, reg_timer_divide}"

definition is_lvt :: "lapic_reg \<Rightarrow> bool" where
  "is_lvt r \<longleftrightarrow> r \<in> {reg_lvt_timer, reg_lvt_lint0, reg_lvt_lint1, reg_lvt_error}"

definition programmable :: "lapic_reg \<Rightarrow> u32" where
  "programmable r = (if r = reg_svr then 0x13FF else if r = reg_lvt_timer then 0x700FF
     else if r = reg_lvt_lint0 \<or> r = reg_lvt_lint1 then 0x1A7FF else if r = reg_lvt_error then 0x100FF
     else if r = reg_timer_divide then 0xB else if r = reg_timer_initial_count then 0xFFFFFFFF else 0)"

definition lapic_store :: "lapic_reg \<Rightarrow> u32 \<Rightarrow> (lapic_reg \<Rightarrow> u32) \<Rightarrow> lapic_reg \<Rightarrow> u32" where
  "lapic_store r v old r' =
     (if r' = r then (v AND programmable r) OR (if is_lvt r \<and> old reg_svr AND 0x100 = 0 then lvt_masked else 0)
      else if r = reg_svr \<and> v AND 0x100 = 0 \<and> is_lvt r' then old r' OR lvt_masked
      else old r')"

definition lapic_value_ok :: "lapic_reg \<Rightarrow> u32 \<Rightarrow> u32 \<Rightarrow> bool" where
  "lapic_value_ok r v old \<longleftrightarrow>
     (v AND NOT (programmable r) = 0 \<or> v AND NOT (programmable r) = old AND NOT (programmable r))
   \<and> (r = reg_svr \<longrightarrow> v AND 0xF = 0xF)"

definition lapic_spec :: "'d mmio \<Rightarrow> ('d \<Rightarrow> lapic_reg \<Rightarrow> u32) \<Rightarrow> bool" where
  "lapic_spec IO R \<longleftrightarrow>
     (\<forall>r d. configures r \<longrightarrow> fst (apic_read IO r d) AND programmable r = R d r)
   \<and> (\<forall>r r' d. configures r' \<longrightarrow> R (snd (apic_read IO r d)) r' = R d r'
        \<and> fst (apic_read IO r' (snd (apic_read IO r d))) = fst (apic_read IO r' d))
   \<and> (\<forall>r v r' d. configures r \<longrightarrow> configures r' \<longrightarrow> lapic_value_ok r v (fst (apic_read IO r d)) \<longrightarrow>
        R (apic_write IO r v d) r' = lapic_store r v (R d) r')
   \<and> (\<forall>r v r' d. r = reg_esr \<or> r = reg_eoi \<longrightarrow> configures r' \<longrightarrow> R (apic_write IO r v d) r' = R d r')"

text \<open>The I/O APIC has a selected register; the window reads and writes it.\<close>

definition ioapic_spec :: "'d mmio \<Rightarrow> ('d \<Rightarrow> u32) \<Rightarrow> ('d \<Rightarrow> u32 \<Rightarrow> u32) \<Rightarrow> bool" where
  "ioapic_spec IO sel R \<longleftrightarrow>
     (\<forall>v d. sel (mm_write IO ioapic_pa v d) = v AND 0xFF \<and> R (mm_write IO ioapic_pa v d) = R d)
   \<and> (\<forall>d. mm_read IO (ioapic_pa + 16) d = (R d (sel d), d))
   \<and> (\<forall>v d. 0x10 \<le> sel d \<longrightarrow> sel d < 0x40 \<longrightarrow>
        sel (mm_write IO (ioapic_pa + 16) v d) = sel d
      \<and> R (mm_write IO (ioapic_pa + 16) v d) = (R d)(sel d := v))"

subsection \<open>Properties\<close>

lemma lapic_specD:
  assumes "lapic_spec IO R"
  shows "configures r \<Longrightarrow> fst (apic_read IO r d) AND programmable r = R d r"
    "configures r' \<Longrightarrow> R (snd (apic_read IO r d)) r' = R d r'"
    "configures r' \<Longrightarrow> fst (apic_read IO r' (snd (apic_read IO r d))) = fst (apic_read IO r' d)"
    "configures r \<Longrightarrow> configures r' \<Longrightarrow> lapic_value_ok r v (fst (apic_read IO r d)) \<Longrightarrow>
      R (apic_write IO r v d) r' = lapic_store r v (R d) r'"
    "configures r' \<Longrightarrow> R (apic_write IO reg_esr v d) r' = R d r'"
    "configures r' \<Longrightarrow> R (apic_write IO reg_eoi v d) r' = R d r'"
  using assms unfolding lapic_spec_def by blast+

lemma configures_simps [simp]:
  "configures reg_svr" "configures reg_lvt_timer" "configures reg_lvt_lint0" "configures reg_lvt_lint1"
  "configures reg_lvt_error" "configures reg_timer_initial_count" "configures reg_timer_divide"
  by (simp_all add: configures_def)

text \<open>A constant without reserved bits may be written to any register but the spurious-interrupt one.\<close>

lemma lapic_constant:
  assumes "lapic_spec IO R" "configures r" "r \<noteq> reg_svr" "v AND NOT (programmable r) = 0" "configures r'"
  shows "R (apic_write IO r v d) r' = lapic_store r v (R d) r'"
  by (rule lapic_specD(4) [OF assms(1,2,5)]) (use assms(3,4) in \<open>simp add: lapic_value_ok_def\<close>)

lemma enable_lapic_registers:
  assumes S: "lapic_spec IO R" and r: "configures r"
  shows "R (enable_lapic IO 63 d) r = (if r = reg_svr then (R d reg_svr AND NOT 0xFF) OR 0x13F else R d r)"
proof -
  note spec = lapic_specD [OF S]
  let ?v = "fst (apic_read IO reg_svr d)" and ?d = "snd (apic_read IO reg_svr d)"
  let ?n = "(?v AND NOT 0xFF) OR 0x100 OR 63"
  have p: "programmable reg_svr = 0x13FF" by (simp add: programmable_def)
  have n: "?n = (?v AND NOT 0xFF) OR 0x13F" by (simp add: or.assoc)
  have res: "?n AND NOT 0x13FF = ?v AND NOT 0x13FF" "?n AND 0xF = 0xF" "?n AND 0x100 = 0x100"
    unfolding n bit.conj_disj_distrib2 by (simp_all add: and.assoc)
  have "?v AND 0x13FF = R d reg_svr" using spec(1) [of reg_svr d] by (simp add: p)
  moreover have "?n AND 0x13FF = ((?v AND 0x13FF) AND NOT 0xFF) OR 0x13F"
    unfolding n bit.conj_disj_distrib2 by (simp add: and.assoc and.left_commute)
  ultimately have st: "?n AND 0x13FF = (R d reg_svr AND NOT 0xFF) OR 0x13F" by (simp only:)
  have "lapic_value_ok reg_svr ?n (fst (apic_read IO reg_svr ?d))"
    using res spec(3) [of reg_svr reg_svr d] by (simp add: lapic_value_ok_def p)
  then have "R (apic_write IO reg_svr ?n ?d) r = lapic_store reg_svr ?n (R ?d) r" by (simp add: spec(4) r)
  then show ?thesis using st res(3) spec(2) [OF r] p
    by (auto simp: enable_lapic_def Let_def case_prod_unfold lapic_store_def is_lvt_def)
qed

text \<open>
  C34: On a local APIC that behaves as documented (reserved bits, entries of the local vector table
  that stay masked while the APIC is disabled by software), whatever state it is in, the
  programming in \<open>init_cpu_hardware\<close> enables it with spurious vector 63, sets the
  timer periodic on vector 32, unmasked and stopped, masks both local lines and routes errors to
  vector 51, unmasked.
\<close>
theorem apic_setup_registers:
  assumes "lapic_spec IO R" "configures r"
  shows "R (apic_setup IO d) r =
     (if r = reg_svr then (R d reg_svr AND NOT 0xFF) OR 0x13F
      else if r = reg_lvt_timer then 0x20020 else if r = reg_timer_divide then 0xB
      else if r = reg_timer_initial_count then 0 else if r = reg_lvt_error then 51 else 0x10000)"
proof -
  note spec = lapic_specD [OF assms(1)] and w = lapic_constant [OF assms(1)]
  have v: "INT_IRQ + IRQ_SPURIOUS = 63" "timer_periodic OR (INT_IRQ + IRQ_TIMER) = 0x20020" "INT_IRQ + IRQ_ERROR = 51"
      "timer_divide_1 = 0xB" "lvt_masked = 0x10000"
    by (simp_all add: INT_IRQ_def IRQ_SPURIOUS_def IRQ_TIMER_def IRQ_ERROR_def timer_periodic_def
        timer_divide_1_def lvt_masked_def)
  have on: "((x AND NOT 0xFF) OR 0x13F) AND 0x100 \<noteq> 0" for x :: u32
    unfolding bit.conj_disj_distrib2 by (simp add: and.assoc)
  have last: "R (apic_setup IO d) r = R (apic_write IO reg_lvt_error 51 (apic_write IO reg_lvt_lint1 0x10000
      (apic_write IO reg_lvt_lint0 0x10000 (apic_write IO reg_timer_initial_count 0 (apic_write IO reg_lvt_timer 0x20020
      (apic_write IO reg_timer_divide 0xB (enable_lapic IO 63 d))))))) r"
    unfolding apic_setup_def Let_def v apic_error_def apic_ack_def by (simp only: spec(2,5,6) assms(2))
  have w': "configures r' \<Longrightarrow> R (apic_write IO reg_timer_divide 0xB x) r' = lapic_store reg_timer_divide 0xB (R x) r'"
    "configures r' \<Longrightarrow> R (apic_write IO reg_lvt_timer 0x20020 x) r' = lapic_store reg_lvt_timer 0x20020 (R x) r'"
    "configures r' \<Longrightarrow> R (apic_write IO reg_timer_initial_count 0 x) r' = lapic_store reg_timer_initial_count 0 (R x) r'"
    "configures r' \<Longrightarrow> R (apic_write IO reg_lvt_lint0 0x10000 x) r' = lapic_store reg_lvt_lint0 0x10000 (R x) r'"
    "configures r' \<Longrightarrow> R (apic_write IO reg_lvt_lint1 0x10000 x) r' = lapic_store reg_lvt_lint1 0x10000 (R x) r'"
    "configures r' \<Longrightarrow> R (apic_write IO reg_lvt_error 51 x) r' = lapic_store reg_lvt_error 51 (R x) r'" for r' x
    by (rule w; simp add: programmable_def)+
  show ?thesis using assms(2) unfolding last configures_def
    by (auto simp: w' lapic_store_def is_lvt_def programmable_def enable_lapic_registers [OF assms(1)] on [simplified])
qed

lemma redirection_index:
  fixes e :: u32
  assumes "e < 24"
  shows "0x10 + 2 * e \<ge> 0x10" "0x10 + 2 * e < 0x40" "0x10 + 2 * e + 1 \<ge> 0x10" "0x10 + 2 * e + 1 < 0x40"
proof -
  have e: "unat e < 24" using assms by (simp add: word_less_nat_alt)
  then have "unat (0x10 + 2 * e) = 16 + 2 * unat e" "unat (0x10 + 2 * e + 1) = 17 + 2 * unat e"
    by (simp_all add: unat_word_ariths)
  then show "0x10 + 2 * e \<ge> 0x10" "0x10 + 2 * e < 0x40" "0x10 + 2 * e + 1 \<ge> 0x10" "0x10 + 2 * e + 1 < 0x40"
    using e by (simp_all only: word_less_nat_alt word_le_nat_alt) simp_all
qed

lemma small_register: "(r :: u32) < 0x40 \<Longrightarrow> r AND 0xFF = r"
proof -
  assume r: "r < 0x40"
  have "(0xFF :: u32) = mask 8" by (simp add: mask_eq_exp_minus_1)
  moreover have "r < 2 ^ 8" using r by (rule order_less_trans) simp
  ultimately show ?thesis by (simp only: less_mask_eq)
qed

lemma ioapic_write_register:
  assumes "ioapic_spec IO sel R" "0x10 \<le> r" "r < 0x40"
  shows "R (ioapic_write IO r v d) = (R d)(r := v)"
proof -
  have "sel (mm_write IO ioapic_pa r d) = r" "R (mm_write IO ioapic_pa r d) = R d"
    using assms(1) small_register [OF assms(3)] by (simp_all add: ioapic_spec_def)
  then show ?thesis using assms unfolding ioapic_write_def ioapic_spec_def by metis
qed

theorem ioapic_redirection:
  assumes "ioapic_spec IO sel R" "entry < 24"
  shows "R (enable_irq IO entry vector cpu_id d)
      = (R d)(0x10 + 2 * entry := vector, 0x10 + 2 * entry + 1 := push_bit 24 cpu_id)
    \<and> R (disable_irq IO entry d) = (R d)(0x10 + 2 * entry := 0x10000, 0x10 + 2 * entry + 1 := 0)
    \<and> fst (ioapic_read IO (0x10 + 2 * entry) (enable_irq IO entry vector cpu_id d)) = vector"
proof -
  note i = redirection_index [OF assms(2)] and w = ioapic_write_register [OF assms(1)]
  have on: "R (enable_irq IO entry vector cpu_id d)
      = (R d)(0x10 + 2 * entry := vector, 0x10 + 2 * entry + 1 := push_bit 24 cpu_id)"
    unfolding enable_irq_def ioapic_no.simps by (simp only: w i)
  have off: "R (disable_irq IO entry d) = (R d)(0x10 + 2 * entry := 0x10000, 0x10 + 2 * entry + 1 := 0)"
    unfolding disable_irq_def ioapic_no.simps redtbl_masked_def by (simp only: w i)
  have "fst (ioapic_read IO (0x10 + 2 * entry) x) = R x (0x10 + 2 * entry)" for x
    using assms(1) small_register [OF i(2)] by (simp add: ioapic_spec_def ioapic_read_def)
  then show ?thesis using on off by simp
qed

text \<open>The accesses are those that the state of the kernel records.\<close>

definition recorder :: "u32 \<Rightarrow> (addr \<times> u32) list mmio" where
  "recorder svr = \<lparr>mm_read = (\<lambda>a d. (svr, d)), mm_write = (\<lambda>a v d. d @ [(a, v)])\<rparr>"

definition as_accesses :: "(u32 \<times> u32) list \<Rightarrow> (addr \<times> u32) list" where
  "as_accesses ws = map (\<lambda>(r, v). (lapic_pa + 16 * ucast r, v)) ws"

theorem apic_refines_kernel:
  "as_accesses (lapic_writes (init_cpu_hardware hw s)) = apic_setup (recorder (lapic_svr hw)) (as_accesses (lapic_writes s))
   \<and> as_accesses (lapic_writes (init_timer rate s)) = apic_timer (recorder svr) rate (as_accesses (lapic_writes s))
   \<and> as_accesses (lapic_writes (lapic_ack s)) = apic_ack (recorder svr) (as_accesses (lapic_writes s))"
  by (simp add: init_cpu_hardware_def apic_setup_def init_timer_def apic_timer_def lapic_ack_def apic_ack_def
      lapic_write_def as_accesses_def recorder_def enable_lapic_def apic_error_def apic_write_def apic_read_def
      Let_def INT_IRQ_def IRQ_SPURIOUS_def IRQ_TIMER_def IRQ_ERROR_def timer_divide_1_def timer_periodic_def
      lvt_masked_def)

subsection \<open>A concrete device\<close>

record demo_apics =
  da_lapic :: "lapic_reg \<Rightarrow> u32"
  da_sel :: u32
  da_ioapic :: "u32 \<Rightarrow> u32"

definition config_at :: "addr \<Rightarrow> lapic_reg option" where
  "config_at a = find (\<lambda>r. lapic_pa + 16 * ucast (lapic_no r) = a)
     [reg_svr, reg_lvt_timer, reg_lvt_lint0, reg_lvt_lint1, reg_lvt_error, reg_timer_initial_count, reg_timer_divide]"

definition demo_mmio :: "demo_apics mmio" where
  "demo_mmio = \<lparr>
     mm_read = (\<lambda>a d. if a = ioapic_pa + 16 then (da_ioapic d (da_sel d), d)
        else (case config_at a of None \<Rightarrow> 0 | Some r \<Rightarrow> da_lapic d r AND programmable r, d)),
     mm_write = (\<lambda>a v d. if a = ioapic_pa then d\<lparr>da_sel := v AND 0xFF\<rparr>
        else if a = ioapic_pa + 16 then d\<lparr>da_ioapic := (da_ioapic d)(da_sel d := v)\<rparr>
        else case config_at a of None \<Rightarrow> d | Some r \<Rightarrow> d\<lparr>da_lapic := lapic_store r v (da_lapic d)\<rparr>)\<rparr>"

definition demo_regs :: "demo_apics \<Rightarrow> lapic_reg \<Rightarrow> u32" where
  "demo_regs d r = da_lapic d r AND programmable r"

definition demo_apic_state :: demo_apics where
  "demo_apic_state = \<lparr>da_lapic = (\<lambda>r. if r = reg_svr then 0xFF else if is_lvt r then lvt_masked else 0),
     da_sel = 0, da_ioapic = (\<lambda>_. 0)\<rparr>"

lemma config_at_reg: "config_at (lapic_pa + 16 * ucast (lapic_no r)) = (if configures r then Some r else None)"
  by (cases r) (simp_all add: config_at_def lapic_pa_def configures_def)

lemma lapic_store_programmable:
  "lapic_store r v f r' AND programmable r' = lapic_store r v (\<lambda>r. f r AND programmable r) r'"
proof -
  have "lvt_masked AND programmable r' = lvt_masked" if "is_lvt r'" for r'
    using that by (auto simp: is_lvt_def lvt_masked_def programmable_def)
  moreover have "x AND programmable reg_svr AND 0x100 = x AND 0x100" for x
    by (simp add: programmable_def and.assoc)
  ultimately show ?thesis by (auto simp: lapic_store_def bit.conj_disj_distrib2 and.assoc)
qed

lemma demo_lapic_spec: "lapic_spec demo_mmio demo_regs"
proof -
  have ne: "lapic_pa + 16 * ucast (lapic_no r) \<noteq> ioapic_pa" "lapic_pa + 16 * ucast (lapic_no r) \<noteq> ioapic_pa + 16" for r
    by (cases r; simp add: lapic_pa_def ioapic_pa_def)+
  have "demo_regs (apic_write demo_mmio r v d) r' = lapic_store r v (demo_regs d) r'" if "configures r" for r v d r'
    using that ne lapic_store_programmable [of r v "da_lapic d" r']
    by (simp add: apic_write_def demo_mmio_def demo_regs_def config_at_reg) (simp add: lapic_store_def demo_regs_def)
  moreover have "apic_write demo_mmio r v d = d" if "r = reg_esr \<or> r = reg_eoi" for r v d
    using that ne by (auto simp: apic_write_def demo_mmio_def config_at_reg configures_def)
  moreover have "apic_read demo_mmio r d = (if configures r then demo_regs d r else 0, d)" for r d
    using ne by (simp add: apic_read_def demo_mmio_def demo_regs_def config_at_reg)
  ultimately show ?thesis by (auto simp: lapic_spec_def demo_regs_def and.assoc)
qed

lemma demo_ioapic_spec: "ioapic_spec demo_mmio da_sel da_ioapic"
  by (simp add: ioapic_spec_def demo_mmio_def ioapic_pa_def)

theorem apic_setup_registers_witness:
  "demo_regs demo_apic_state reg_lvt_timer = 0x10000
   \<and> demo_regs (apic_setup demo_mmio demo_apic_state) reg_svr = 0x13F
   \<and> demo_regs (apic_setup demo_mmio demo_apic_state) reg_lvt_timer = 0x20020"
  using apic_setup_registers [OF demo_lapic_spec, of reg_svr demo_apic_state]
    apic_setup_registers [OF demo_lapic_spec, of reg_lvt_timer demo_apic_state]
  by (simp add: demo_regs_def demo_apic_state_def is_lvt_def programmable_def lvt_masked_def)

theorem ioapic_redirection_witness:
  "fst (ioapic_read demo_mmio (0x10 + 2 * 1) (enable_irq demo_mmio 1 33 0 demo_apic_state)) = 33"
proof -
  have "(1 :: u32) < 24" by simp
  from ioapic_redirection [OF demo_ioapic_spec this, of 33 0 demo_apic_state] show ?thesis by blast
qed

end
