(* ===== verification/LogPort.thy ===== *)
theory LogPort
  imports KernelState Ports
begin

text \<open>
  The log device: \<^verbatim>\<open>parallel_port_putc\<close> of \<^verbatim>\<open>kernels1/k-hardware.cc\<close> with its wait for the port, over port
  instructions whose effect is a parameter. The model of the kernel records only the bytes that
  are written (\<^const>\<open>parallel_port_putc\<close>); the theorem shows that this is right whatever is attached
  to the port: the wait ends, and the port sees the recorded writes in order.
\<close>

subsection \<open>Operations\<close>

definition IO_PARALLEL1_DATA :: int where "IO_PARALLEL1_DATA = 0x378"
definition IO_PARALLEL1_STATUS :: int where "IO_PARALLEL1_STATUS = 0x379"
definition IO_PARALLEL_STATUS_BUSY :: u8 where "IO_PARALLEL_STATUS_BUSY = 0x80"
definition IO_PARALLEL1_CONTROL :: int where "IO_PARALLEL1_CONTROL = 0x37A"
definition IO_PARALLEL_CONTROL_SELECT :: u8 where "IO_PARALLEL_CONTROL_SELECT = 0x08"
definition IO_PARALLEL_CONTROL_INIT :: u8 where "IO_PARALLEL_CONTROL_INIT = 0x04"
definition IO_PARALLEL_CONTROL_STROBE :: u8 where "IO_PARALLEL_CONTROL_STROBE = 0x01"

lemmas parallel_consts = IO_PARALLEL1_DATA_def IO_PARALLEL1_STATUS_def IO_PARALLEL_STATUS_BUSY_def
  IO_PARALLEL1_CONTROL_def IO_PARALLEL_CONTROL_SELECT_def IO_PARALLEL_CONTROL_INIT_def
  IO_PARALLEL_CONTROL_STROBE_def

definition delay :: "'d port_io \<Rightarrow> 'd \<Rightarrow> 'd" where
  "delay IO d = snd (inb IO 0x84 (snd (inb IO 0x84 (snd (inb IO 0x84 (snd (inb IO 0x84 d)))))))"

primrec parallel_wait :: "nat \<Rightarrow> 'd port_io \<Rightarrow> 'd \<Rightarrow> 'd" where
  "parallel_wait 0 IO d = d"
| "parallel_wait (Suc n) IO d =
     (let (v, d1) = inb IO IO_PARALLEL1_STATUS d
      in if v AND IO_PARALLEL_STATUS_BUSY = 0 then parallel_wait n IO (delay IO d1) else d1)"

definition parallel_putc :: "'d port_io \<Rightarrow> u8 \<Rightarrow> bool \<times> 'd \<Rightarrow> bool \<times> 'd" where
  "parallel_putc IO c st =
     (let d1 = (if fst st then snd st else port_outb IO IO_PARALLEL1_CONTROL 0 (snd st));
          d2 = parallel_wait 12800 IO d1;
          d3 = port_outb IO IO_PARALLEL1_DATA c d2;
          d4 = port_outb IO IO_PARALLEL1_CONTROL (IO_PARALLEL_CONTROL_SELECT OR IO_PARALLEL_CONTROL_INIT
                 OR IO_PARALLEL_CONTROL_STROBE) d3
      in (True, port_outb IO IO_PARALLEL1_CONTROL (IO_PARALLEL_CONTROL_SELECT OR IO_PARALLEL_CONTROL_INIT) d4))"

definition port_log_vprintf :: "'d port_io \<Rightarrow> u8 list \<Rightarrow> va list \<Rightarrow> bool \<times> 'd \<Rightarrow> (bool \<times> 'd) res" where
  "port_log_vprintf IO format val st =
     bind_res (vprintf 0 format val) (\<lambda>out. Inr (fold (\<lambda>(c, _). parallel_putc IO c) out st))"

text \<open>\<^verbatim>\<open>reboot\<close> up to its endless loop.\<close>

definition reboot :: "'d port_io \<Rightarrow> 'd \<Rightarrow> 'd" where
  "reboot IO d = port_outb IO 0x92 3 d"

subsection \<open>What the port sees\<close>

text \<open>Any device with a record of the accesses made to it.\<close>

datatype port_event = Read u16 u8 | Wrote u16 u8

definition traced :: "'d port_io \<Rightarrow> ('d \<times> port_event list) port_io" where
  "traced IO = \<lparr>
     in8 = (\<lambda>p (d, t). let (v, d1) = in8 IO p d in (v, d1, t @ [Read p v])),
     in16 = (\<lambda>p (d, t). let (v, d1) = in16 IO p d in (v, d1, t)),
     in32 = (\<lambda>p (d, t). let (v, d1) = in32 IO p d in (v, d1, t)),
     out8 = (\<lambda>p v (d, t). (out8 IO p v d, t @ [Wrote p v])),
     out16 = (\<lambda>p v (d, t). (out16 IO p v d, t)),
     out32 = (\<lambda>p v (d, t). (out32 IO p v d, t))\<rparr>"

fun written :: "port_event list \<Rightarrow> (int \<times> int) list" where
  "written [] = []"
| "written (Wrote p v # t) = (uint p, uint v) # written t"
| "written (Read p v # t) = written t"

fun reads :: "port_event list \<Rightarrow> nat" where
  "reads [] = 0"
| "reads (Read p v # t) = Suc (reads t)"
| "reads (Wrote p v # t) = reads t"

lemma written_append [simp]: "written (t @ u) = written t @ written u"
  by (induction t rule: written.induct) simp_all

lemma reads_append [simp]: "reads (t @ u) = reads t + reads u"
  by (induction t rule: reads.induct) simp_all

lemma traced_inb: "\<exists>v d'. inb (traced IO) p (d, t) = (v, d', t @ [Read (of_int p) v])"
  by (simp add: inb_def traced_def case_prod_unfold Let_def)

lemma traced_outb: "port_outb (traced IO) p v (d, t) = (out8 IO (of_int p) v d, t @ [Wrote (of_int p) v])"
  by (simp add: port_outb_def traced_def)

lemma traced_delay: "\<exists>d' u. delay (traced IO) (d, t) = (d', t @ u) \<and> written u = [] \<and> reads u = 4"
proof -
  define port :: int where "port = 0x84"
  obtain v1 d1 where 1: "inb (traced IO) port (d, t) = (v1, d1, t @ [Read (of_int port) v1])"
    using traced_inb [of IO port d t] by (elim exE)
  obtain v2 d2 where 2: "inb (traced IO) port (d1, t @ [Read (of_int port) v1])
      = (v2, d2, (t @ [Read (of_int port) v1]) @ [Read (of_int port) v2])"
    using traced_inb [of IO port d1 "t @ [Read (of_int port) v1]"] by (elim exE)
  let ?t2 = "(t @ [Read (of_int port) v1]) @ [Read (of_int port) v2]"
  obtain v3 d3 where 3: "inb (traced IO) port (d2, ?t2) = (v3, d3, ?t2 @ [Read (of_int port) v3])"
    using traced_inb [of IO port d2 ?t2] by (elim exE)
  obtain v4 d4 where 4: "inb (traced IO) port (d3, ?t2 @ [Read (of_int port) v3])
      = (v4, d4, (?t2 @ [Read (of_int port) v3]) @ [Read (of_int port) v4])"
    using traced_inb [of IO port d3 "?t2 @ [Read (of_int port) v3]"] by (elim exE)
  show ?thesis unfolding delay_def port_def [symmetric] 1 snd_conv 2 3 4 by simp
qed

lemma traced_wait:
  "\<exists>d' u. parallel_wait n (traced IO) (d, t) = (d', t @ u) \<and> written u = [] \<and> reads u \<le> 5 * n"
proof (induction n arbitrary: d t)
  case (Suc n)
  obtain v d1 where v: "inb (traced IO) IO_PARALLEL1_STATUS (d, t) = (v, d1, t @ [Read (of_int IO_PARALLEL1_STATUS) v])"
    using traced_inb [of IO IO_PARALLEL1_STATUS d t] by (elim exE)
  show ?case
  proof (cases "v AND IO_PARALLEL_STATUS_BUSY = 0")
    case True
    obtain d2 u2 where d2: "delay (traced IO) (d1, t @ [Read (of_int IO_PARALLEL1_STATUS) v])
        = (d2, (t @ [Read (of_int IO_PARALLEL1_STATUS) v]) @ u2)" "written u2 = []" "reads u2 = 4"
      using traced_delay [of IO d1 "t @ [Read (of_int IO_PARALLEL1_STATUS) v]"] by (elim exE conjE)
    obtain d3 u3 where "parallel_wait n (traced IO) (d2, (t @ [Read (of_int IO_PARALLEL1_STATUS) v]) @ u2)
        = (d3, ((t @ [Read (of_int IO_PARALLEL1_STATUS) v]) @ u2) @ u3)" "written u3 = []" "reads u3 \<le> 5 * n"
      using Suc [of d2 "(t @ [Read (of_int IO_PARALLEL1_STATUS) v]) @ u2"] by (elim exE conjE)
    then show ?thesis using v True d2 by (auto simp: Let_def)
  next
    case False
    then show ?thesis using v by (auto simp: Let_def)
  qed
qed simp

lemma traced_putc:
  obtains d' u s' where "parallel_putc (traced IO) c (pp_initialized s, d, t) = (True, d', t @ u)"
    "parallel_port_putc s c col = Inr s'" "ports s' = ports s @ written u" "pp_initialized s'"
    "reads u \<le> 64000"
proof -
  let ?w = "if pp_initialized s then [] else [Wrote 0x37A 0]"
  obtain d1 where d1: "(if pp_initialized s then (d, t) else port_outb (traced IO) IO_PARALLEL1_CONTROL 0 (d, t)) = (d1, t @ ?w)"
    by (cases "pp_initialized s") (simp_all add: traced_outb parallel_consts)
  obtain d2 u where u: "parallel_wait 12800 (traced IO) (d1, t @ ?w) = (d2, (t @ ?w) @ u)" "written u = []" "reads u \<le> 64000"
    using traced_wait [of 12800 IO d1 "t @ ?w"] by auto
  let ?u = "?w @ u @ [Wrote 0x378 c, Wrote 0x37A 0xD, Wrote 0x37A 0xC]"
  have "\<exists>d'. parallel_putc (traced IO) c (pp_initialized s, d, t) = (True, d', t @ ?u)"
    unfolding parallel_putc_def Let_def fst_conv snd_conv d1 u(1) by (simp add: traced_outb parallel_consts)
  moreover have "written ?u = (if pp_initialized s then [] else [(0x37A, 0)]) @ [(0x378, uint c), (0x37A, 0xD), (0x37A, 0xC)]"
    using u(2) by simp
  moreover have "reads ?u \<le> 64000" using u(3) by simp
  moreover have "\<exists>s'. parallel_port_putc s c col = Inr s' \<and> pp_initialized s' \<and> ports s' = ports s
      @ (if pp_initialized s then [] else [(0x37A, 0)]) @ [(0x378, uint c), (0x37A, 0xD), (0x37A, 0xC)]"
    by (simp add: parallel_port_putc_def outb_def Let_def)
  ultimately show thesis using that by metis
qed

lemma traced_puts:
  "\<exists>d' u s'. fold (\<lambda>(c, _). parallel_putc (traced IO) c) out (pp_initialized s, d, t) = (pp_initialized s', d', t @ u)
     \<and> printer_run parallel_port_putc s out = Inr s' \<and> ports s' = ports s @ written u \<and> reads u \<le> 64000 * length out"
proof (induction out arbitrary: s d t)
  case Nil
  show ?case by (intro exI [of _ d] exI [of _ "[]"] exI [of _ s]) simp
next
  case (Cons x out)
  obtain c col where x: "x = (c, col)" by force
  obtain d1 u1 s1 where s1: "parallel_putc (traced IO) c (pp_initialized s, d, t) = (True, d1, t @ u1)"
    "parallel_port_putc s c col = Inr s1" "ports s1 = ports s @ written u1" "pp_initialized s1" "reads u1 \<le> 64000"
    by (rule traced_putc)
  obtain d2 u2 s2 where s2: "fold (\<lambda>(c, _). parallel_putc (traced IO) c) out (pp_initialized s1, d1, t @ u1)
      = (pp_initialized s2, d2, (t @ u1) @ u2)" "printer_run parallel_port_putc s1 out = Inr s2"
    "ports s2 = ports s1 @ written u2" "reads u2 \<le> 64000 * length out"
    using Cons.IH [of s1 d1 "t @ u1"] by (elim exE conjE)
  show ?case using s1 s2 unfolding x
    by (intro exI [of _ d2] exI [of _ "u1 @ u2"] exI [of _ s2]) simp
qed

text \<open>
  C33: Whatever is attached to the parallel port, logging a message ends after a bounded number of
  reads, and the port sees exactly the writes that the state of the kernel records, in order.
\<close>
theorem log_port_refines:
  "case vprintf 0 format val of
     Inl e \<Rightarrow> port_log_vprintf (traced IO) format val (pp_initialized s, d, []) = Inl e \<and> log_vprintf format val s = Inl e
   | Inr out \<Rightarrow> \<exists>s' d' t. log_vprintf format val s = Inr s'
       \<and> port_log_vprintf (traced IO) format val (pp_initialized s, d, []) = Inr (pp_initialized s', d', t)
       \<and> ports s' = ports s @ written t \<and> reads t \<le> 64000 * length out"
proof (cases "vprintf 0 format val")
  case (Inr out)
  then show ?thesis using traced_puts [of IO out s d "[]"]
    by (auto simp: log_vprintf_def port_log_vprintf_def simp del: vprintf.simps)
qed (simp add: log_vprintf_def port_log_vprintf_def del: vprintf.simps)

end
