(* ===== verification/Puzzles.thy ===== *)
theory Puzzles
  imports Hostlib
begin

text \<open>
  The puzzle functions of \<^verbatim>\<open>asms1/\<close>, \<^verbatim>\<open>fun01.cc\<close> to \<^verbatim>\<open>fun06.cc\<close>, and their driver \<^verbatim>\<open>fundriver.cc\<close>. A C
  string is the list of its characters without the terminating zero; every access to a character
  is checked against it. The theorem says for which strings a function returns 0, which is what the
  driver celebrates.
\<close>

subsection \<open>Strings\<close>

definition char_at :: "u8 list \<Rightarrow> nat \<Rightarrow> u8 res" where
  "char_at s i = (if i < length s then Inr (s ! i) else if i = length s then Inr 0 else Inl (OutOfBounds ''s''))"

text \<open>\<^verbatim>\<open>char\<close> is signed; the result of a function is an \<^verbatim>\<open>int\<close>.\<close>

definition char_int :: "u8 \<Rightarrow> int" where "char_int c = sint c"

fun c_strchr :: "u8 list \<Rightarrow> u8 \<Rightarrow> nat option" where
  "c_strchr [] c = (if c = 0 then Some 0 else None)"
| "c_strchr (x # s) c = (if x = c then Some 0 else map_option Suc (c_strchr s c))"

subsection \<open>The functions\<close>

definition fun01 :: "u8 list \<Rightarrow> int res" where
  "fun01 s = Inr (if c_strchr s 33 \<noteq> None then 0 else -1)"

text \<open>The sum is a \<^verbatim>\<open>long\<close> and is converted to \<^verbatim>\<open>int\<close>; adding to the largest \<^verbatim>\<open>long\<close> overflows.\<close>

definition fun02 :: "u8 list \<Rightarrow> int res" where
  "fun02 s = (let v = c_strtol s in
     if v = 2 ^ 63 - 1 then Inl (AssertFail ''signed overflow'') else Inr (sint (of_int (v + 1) :: u32)))"

definition fun03 :: "u8 list \<Rightarrow> int res" where
  "fun03 s = bind_res (char_at s 0) (\<lambda>c0.
     if c0 \<noteq> 0 then bind_res (char_at s 1) (\<lambda>c1. Inr (char_int c1)) else Inr (-1))"

definition fun04 :: "u8 list \<Rightarrow> int res" where
  "fun04 s = bind_res (char_at s 0) (\<lambda>c0.
     if c0 = 0 then Inr (-1)
     else bind_res (char_at s 1) (\<lambda>c1.
       if c0 = c1 \<and> c1 \<noteq> 0 then bind_res (char_at s 2) (\<lambda>c2. Inr (char_int c2)) else Inr (-1)))"

text \<open>The loop moves \<^verbatim>\<open>s\<close> forward; past the terminating zero there is nothing to read.\<close>

fun fun05_loop :: "u8 list \<Rightarrow> int res" where
  "fun05_loop [] = Inl (OutOfBounds ''s'')"
| "fun05_loop [c] = (if c \<noteq> 0 then Inr 0 else Inl (OutOfBounds ''s''))"
| "fun05_loop (c # d # s) = (if c \<noteq> d then Inr (char_int d) else fun05_loop (d # s))"

definition fun05 :: "u8 list \<Rightarrow> int res" where
  "fun05 s = bind_res (char_at s 0) (\<lambda>c0. if c0 = 0 then Inr (-1) else fun05_loop s)"

text \<open>\<^verbatim>\<open>len\<close> is an \<^verbatim>\<open>unsigned\<close>, so it would wrap on a string of 4 GiB.\<close>

function fun06_loop :: "u8 list \<Rightarrow> nat \<Rightarrow> nat res" where
  "fun06_loop s len =
     (if len < length s then (if s ! len \<noteq> 0 then fun06_loop s (len + 1) else Inr len)
      else if len = length s then Inr len else Inl (OutOfBounds ''s''))"
  by auto
termination by (relation "measure (\<lambda>(s, len). length s - len)") auto

definition fun06 :: "u8 list \<Rightarrow> int res" where
  "fun06 s = bind_res (fun06_loop s 0) (\<lambda>len. Inr (int (len mod 4)))"

subsection \<open>The driver\<close>

datatype fun_exit = Yay | No_fun

definition join_args :: "u8 list list \<Rightarrow> u8 list" where
  "join_args args = concat (map (\<lambda>i. (if i = 0 then [] else [32]) @ args ! i) [0..<length args])"

definition fundriver_main :: "(u8 list \<Rightarrow> int res) \<Rightarrow> u8 list list \<Rightarrow> fun_exit res" where
  "fundriver_main f args = bind_res (f (join_args args)) (\<lambda>r. Inr (if r = 0 then Yay else No_fun))"

subsection \<open>When it is fun\<close>

lemma c_strchr_Some: "c \<noteq> 0 \<Longrightarrow> c_strchr s c \<noteq> None \<longleftrightarrow> c \<in> set s"
  by (induction s) auto

lemma char_int_0_iff [simp]: "char_int c = 0 \<longleftrightarrow> c = 0"
  unfolding char_int_def by (metis signed_0 signed_word_eqI)

lemma fun05_loop_fun:
  "s \<noteq> [] \<Longrightarrow> 0 \<notin> set s \<Longrightarrow>
   (\<exists>r. fun05_loop s = Inr r) \<and> (fun05_loop s = Inr 0 \<longleftrightarrow> (\<forall>c \<in> set s. c = hd s))"
  by (induction s rule: fun05_loop.induct) auto

lemma fun06_loop_length: "0 \<notin> set s \<Longrightarrow> len \<le> length s \<Longrightarrow> fun06_loop s len = Inr (length s)"
proof (induction s len rule: fun06_loop.induct)
  case (1 s len)
  show ?case
  proof (cases "len < length s")
    case True
    then have "s ! len \<noteq> 0" using 1(2) nth_mem [of len s] by metis
    then show ?thesis using True 1 by (subst fun06_loop.simps) (simp del: fun06_loop.simps)
  next
    case False
    then show ?thesis using 1(3) by (subst fun06_loop.simps) simp
  qed
qed

lemma fun03_fun: "0 \<notin> set s \<Longrightarrow> (\<exists>r. fun03 s = Inr r) \<and> (fun03 s = Inr 0 \<longleftrightarrow> length s = 1)"
  by (cases s rule: fun05_loop.cases) (auto simp: fun03_def char_at_def)

lemma fun04_fun: "0 \<notin> set s \<Longrightarrow> (\<exists>r. fun04 s = Inr r) \<and> (fun04 s = Inr 0 \<longleftrightarrow> (\<exists>c. s = [c, c]))"
proof -
  assume z: "0 \<notin> set s"
  consider "s = []" | c where "s = [c]" | c d where "s = [c, d]" | c d e t where "s = c # d # e # t"
    by (metis neq_Nil_conv)
  then show ?thesis using z by cases (auto simp: fun04_def char_at_def)
qed

theorem fun_inputs:
  assumes "0 \<notin> set s"
  shows "(fun01 s = Inr 0 \<longleftrightarrow> 33 \<in> set s) \<and> (fun03 s = Inr 0 \<longleftrightarrow> length s = 1)
    \<and> (fun04 s = Inr 0 \<longleftrightarrow> (\<exists>c. s = [c, c])) \<and> (fun05 s = Inr 0 \<longleftrightarrow> s \<noteq> [] \<and> (\<forall>c \<in> set s. c = hd s))
    \<and> (fun06 s = Inr 0 \<longleftrightarrow> length s mod 4 = 0) \<and> (\<forall>f \<in> {fun01, fun03, fun04, fun05, fun06}. \<exists>r. f s = Inr r)"
proof -
  have 5: "(\<exists>r. fun05 s = Inr r) \<and> (fun05 s = Inr 0 \<longleftrightarrow> s \<noteq> [] \<and> (\<forall>c \<in> set s. c = hd s))"
    using fun05_loop_fun [of s] assms by (cases s) (auto simp: fun05_def char_at_def)
  have 6: "fun06 s = Inr (int (length s mod 4))"
    using fun06_loop_length [OF assms, of 0] by (simp add: fun06_def del: fun06_loop.simps)
  show ?thesis using c_strchr_Some [of 33 s] fun03_fun [OF assms] fun04_fun [OF assms] 5 6
    by (simp add: fun01_def del: not_None_eq)
qed

theorem fun_inputs_witness:
  "fundriver_main fun01 [[104, 105], [33]] = Inr Yay \<and> fun05 [97, 97, 97] = Inr 0 \<and> fun04 [97, 98] \<noteq> Inr 0"
proof -
  have "join_args [[104, 105], [33]] = [104, 105, 32, 33]" by (simp add: join_args_def upt_rec)
  then have "fundriver_main fun01 [[104, 105], [33]] = Inr Yay"
    using fun_inputs [of "[104, 105, 32, 33]"] by (simp add: fundriver_main_def)
  then show ?thesis using fun_inputs [of "[97, 97, 97]"] fun_inputs [of "[97, 98]"] by simp
qed

end
