(* ===== verification/Access.thy ===== *)
theory Access
  imports Prelude "HOL-Library.Multiset"
begin

text \<open>
  The two timing programs of \<^verbatim>\<open>s02/\<close>: \<^verbatim>\<open>inserter.cc\<close> builds a sorted list by insertion and asserts that it
  is sorted, \<^verbatim>\<open>accessor.cc\<close> sums an array in one of three orders. What \<^verbatim>\<open>rand\<close> returns is an argument, a
  natural number for every call; the options are the characters that \<^verbatim>\<open>getopt\<close> returns. Reading
  the clock and the text printed with the time are left out.
\<close>

subsection \<open>Orders of access\<close>

datatype access_style = access_up | access_down | access_random

definition parse_style :: "string \<Rightarrow> access_style" where
  "parse_style opts =
     fold (\<lambda>opt style. if opt = CHR ''r'' then access_random else if opt = CHR ''d'' then access_down
                       else if opt = CHR ''u'' then access_up else style) opts access_up"

definition access_index :: "access_style \<Rightarrow> nat \<Rightarrow> (nat \<Rightarrow> nat) \<Rightarrow> nat \<Rightarrow> nat" where
  "access_index style n rand i =
     (let r = rand i mod n in
      case style of access_up \<Rightarrow> i | access_down \<Rightarrow> n - i - 1 | access_random \<Rightarrow> r)"

subsection \<open>Insertion into a sorted list\<close>

fun list_insert :: "nat \<Rightarrow> nat list \<Rightarrow> nat list" where
  "list_insert x [] = [x]"
| "list_insert x (y # ls) = (if y < x then y # list_insert x ls else x # y # ls)"

fun adjacent_greater :: "nat list \<Rightarrow> bool" where
  "adjacent_greater (x # y # ls) \<longleftrightarrow> x > y \<or> adjacent_greater (y # ls)"
| "adjacent_greater _ \<longleftrightarrow> False"

definition inserter_main :: "nat \<Rightarrow> string \<Rightarrow> (nat \<Rightarrow> nat) \<Rightarrow> nat list res" where
  "inserter_main n opts rand =
     (let style = parse_style opts;
          ls = fold (\<lambda>i ls. list_insert (access_index style n rand i) ls) [0..<n] []
      in check (\<not> adjacent_greater ls) (AssertFail ''it == ls.end()'') (Inr ls))"

subsection \<open>Summing an array\<close>

primrec accessor_loop ::
  "nat \<Rightarrow> access_style \<Rightarrow> nat \<Rightarrow> u32 list \<Rightarrow> (nat \<Rightarrow> nat) \<Rightarrow> nat \<Rightarrow> u64 \<times> u64 \<Rightarrow> (u64 \<times> u64) res" where
  "accessor_loop 0 style n v rand i sums = Inr sums"
| "accessor_loop (Suc k) style n v rand i sums =
     (let r = rand i mod n; idx = access_index style n rand i
      in check (idx < length v) (OutOfBounds ''v'')
           (accessor_loop k style n v rand (i + 1) (fst sums + scast (v ! idx), snd sums + of_nat r)))"

text \<open>The first \<open>n\<close> calls of \<^verbatim>\<open>rand\<close> fill the array.\<close>

definition accessor_main :: "nat \<Rightarrow> string \<Rightarrow> (nat \<Rightarrow> u32) \<Rightarrow> (nat \<Rightarrow> nat) \<Rightarrow> (u64 \<times> u64) res" where
  "accessor_main n opts fill rand = accessor_loop n (parse_style opts) n (map fill [0..<n]) rand 0 (0, 0)"

subsection \<open>Properties\<close>

lemma list_insert_mset [simp]: "mset (list_insert x ls) = add_mset x (mset ls)"
  by (induction ls) auto

lemma list_insert_sorted: "sorted ls \<Longrightarrow> sorted (list_insert x ls)"
proof (induction ls)
  case (Cons y ls)
  have "set (list_insert x ls) = insert x (set ls)"
    using list_insert_mset [of x ls] by (metis set_mset_add_mset_insert set_mset_mset)
  then show ?case using Cons by auto
qed simp

lemma fold_insert:
  "sorted ls \<Longrightarrow> sorted (fold (\<lambda>i. list_insert (f i)) is ls)
     \<and> mset (fold (\<lambda>i. list_insert (f i)) is ls) = mset ls + mset (map f is)"
  by (induction "is" arbitrary: ls) (simp_all add: list_insert_sorted)

lemma adjacent_greater_sorted: "adjacent_greater ls \<longleftrightarrow> \<not> sorted ls"
proof (induction ls rule: adjacent_greater.induct)
  case (1 x y ls)
  have "sorted (x # y # ls) \<longleftrightarrow> x \<le> y \<and> sorted (y # ls)" by (rule sorted2)
  with 1 show ?case by (simp only: adjacent_greater.simps) auto
qed simp_all

lemma down_upt: "map (\<lambda>i. n - i - 1) [0..<n] = rev [0..<n]"
  by (rule nth_equalityI) (simp_all add: rev_nth)

theorem inserter_sorts:
  "\<exists>ls. inserter_main n opts rand = Inr ls \<and> sorted ls
     \<and> mset ls = mset (map (access_index (parse_style opts) n rand) [0..<n])
     \<and> (parse_style opts = access_random \<or> ls = [0..<n])"
proof -
  let ?f = "access_index (parse_style opts) n rand"
  let ?ls = "fold (\<lambda>i. list_insert (?f i)) [0..<n] []"
  have ls: "sorted ?ls" "mset ?ls = mset (map ?f [0..<n])" using fold_insert [of "[]" ?f "[0..<n]"] by simp_all
  have "?ls = [0..<n]" if "parse_style opts \<noteq> access_random"
  proof -
    have "mset (map ?f [0..<n]) = mset [0..<n]"
      using that down_upt [of n] mset_rev [of "[0..<n]"]
      by (cases "parse_style opts") (simp_all add: access_index_def [abs_def] Let_def)
    then show ?thesis using ls properties_for_sort [of ?ls "[0..<n]"] properties_for_sort [of "[0..<n]" "[0..<n]"] by simp
  qed
  then show ?thesis using ls adjacent_greater_sorted [of ?ls] by (auto simp: inserter_main_def Let_def)
qed

lemma access_in_range: "i < n \<Longrightarrow> access_index style n rand i < n"
  by (auto simp: access_index_def Let_def split: access_style.split)

lemma accessor_loop_sums:
  "length v = n \<Longrightarrow> i + k \<le> n \<Longrightarrow> accessor_loop k style n v rand i sums =
     Inr (fst sums + (\<Sum>j \<leftarrow> [i..<i + k]. scast (v ! access_index style n rand j)),
          snd sums + (\<Sum>j \<leftarrow> [i..<i + k]. of_nat (rand j mod n)))"
proof (induction k arbitrary: i sums)
  case (Suc k)
  then have "access_index style n rand i < n" by (intro access_in_range) simp
  moreover have "[i..<i + Suc k] = i # [Suc i..<Suc i + k]" by (simp add: upt_rec)
  ultimately show ?case using Suc by (simp add: Let_def add.assoc)
qed simp

theorem accessor_sums:
  "accessor_main n opts fill rand =
     Inr ((if parse_style opts = access_random then \<Sum>i \<leftarrow> [0..<n]. scast (fill (rand i mod n))
           else \<Sum>i \<leftarrow> [0..<n]. scast (fill i)),
          \<Sum>i \<leftarrow> [0..<n]. of_nat (rand i mod n))"
proof -
  let ?v = "map fill [0..<n]"
  have run: "accessor_main n opts fill rand = Inr (\<Sum>j \<leftarrow> [0..<n]. scast (?v ! access_index (parse_style opts) n rand j),
      \<Sum>j \<leftarrow> [0..<n]. of_nat (rand j mod n))"
    using accessor_loop_sums [of ?v n 0 n "parse_style opts" rand "(0, 0)"] by (simp add: accessor_main_def)
  have v: "map (\<lambda>j. scast (?v ! access_index style n rand j)) [0..<n] = map (\<lambda>j. scast (fill (access_index style n rand j))) [0..<n]"
    for style using access_in_range by (intro map_cong) auto
  have "(\<Sum>j \<leftarrow> [0..<n]. scast (fill (n - j - 1))) = (\<Sum>j \<leftarrow> map (\<lambda>j. n - j - 1) [0..<n]. scast (fill j))"
    by (simp add: comp_def)
  also have "\<dots> = (\<Sum>j \<leftarrow> [0..<n]. scast (fill j))"
    unfolding down_upt by (simp add: rev_map [symmetric])
  finally have down: "(\<Sum>j \<leftarrow> [0..<n]. scast (fill (n - j - 1))) = (\<Sum>j \<leftarrow> [0..<n]. scast (fill j))" .
  show ?thesis unfolding run v
    using down by (cases "parse_style opts") (simp_all add: access_index_def Let_def)
qed

end
