(* ===== verification/Hexdump.thy ===== *)
theory Hexdump
  imports Prelude
begin

text \<open>
  \<^verbatim>\<open>hexdump.cc\<close> of \<^verbatim>\<open>s01/\<close> and \<^verbatim>\<open>s02/\<close> (the two files are the same). The output is the list of characters
  printed. \<open>fhexdump_at\<close> prints one byte per round of its loop and a report of the characters at the
  end of each group of 16; \<open>dump_lines\<close> is the format that the header promises, line by line. The
  theorem states that they agree, and that the address and the bytes of a line can be read back from
  their columns. The columns are counted from the end of the address, which has 8 digits below
  \<open>2 ^ 32\<close> and up to 16 above.
\<close>

subsection \<open>The program\<close>

definition hex_digit :: "nat \<Rightarrow> char" where
  "hex_digit d = ''0123456789abcdef'' ! d"

fun hex_digits :: "nat \<Rightarrow> string" where
  "hex_digits n = (if n < 16 then [hex_digit n] else hex_digits (n div 16) @ [hex_digit (n mod 16)])"

text \<open>The conversions \<^verbatim>\<open>%08zx\<close> and \<^verbatim>\<open>%02x\<close>: at least \<open>w\<close> digits, filled with zeroes.\<close>

definition hex_pad :: "nat \<Rightarrow> nat \<Rightarrow> string" where
  "hex_pad w n = (let s = hex_digits n in replicate (w - length s) CHR ''0'' @ s)"

definition printable :: "u8 \<Rightarrow> char" where
  "printable c = (if 32 \<le> c \<and> c < 127 then char_of (unat c) else CHR ''.'')"

definition fhexdump_ascii :: "u8 list \<Rightarrow> nat \<Rightarrow> string res" where
  "fhexdump_ascii p pos =
     (let first = pos - pos mod 16; n = pos + 1 - first
      in check (n \<le> 17) (OutOfBounds ''buf'')
        (Inr (replicate (51 - (3 * n + (if n > 8 then 1 else 0))) CHR '' '' @ ''|''
              @ map (\<lambda>i. printable (p ! i)) [first..<first + n] @ ''|\<newline>'')))"

primrec fhexdump_loop :: "nat \<Rightarrow> u64 \<Rightarrow> u8 list \<Rightarrow> nat \<Rightarrow> string res" where
  "fhexdump_loop 0 first_offset p i = Inr []"
| "fhexdump_loop (Suc k) first_offset p i =
     (let s1 = (if i mod 16 = 0 then hex_pad 8 (unat (first_offset + of_nat i)) else []);
          s2 = (if i mod 8 = 0 then ''  '' else '' '') @ hex_pad 2 (unat (p ! i))
      in bind_res (if i mod 16 = 15 \<or> i = length p - 1 then fhexdump_ascii p i else Inr []) (\<lambda>s3.
         bind_res (fhexdump_loop k first_offset p (i + 1)) (\<lambda>rest. Inr (s1 @ s2 @ s3 @ rest))))"

definition fhexdump_at :: "u64 \<Rightarrow> u8 list \<Rightarrow> string res" where
  "fhexdump_at first_offset p = fhexdump_loop (length p) first_offset p 0"

text \<open>\<^verbatim>\<open>hexdump\<close> and \<^verbatim>\<open>fhexdump\<close> start with the address of the bytes, which lie in memory.\<close>

definition fhexdump :: "memory \<Rightarrow> addr \<Rightarrow> nat \<Rightarrow> string res" where
  "fhexdump m ptr n = fhexdump_at ptr (map (\<lambda>i. m (ptr + of_nat i)) [0..<n])"

subsection \<open>The format\<close>

definition byte_cell :: "nat \<Rightarrow> u8 \<Rightarrow> string" where
  "byte_cell j b = (if j mod 8 = 0 then ''  '' else '' '') @ hex_pad 2 (unat b)"

definition dump_line :: "u64 \<Rightarrow> u8 list \<Rightarrow> string" where
  "dump_line offset c =
     hex_pad 8 (unat offset) @ concat (map (\<lambda>j. byte_cell j (c ! j)) [0..<length c])
     @ replicate (51 - (3 * length c + (if length c > 8 then 1 else 0))) CHR '' '' @ ''|'' @ map printable c @ ''|\<newline>''"

function dump_lines :: "u64 \<Rightarrow> u8 list \<Rightarrow> string list" where
  "dump_lines offset p = (if p = [] then [] else dump_line offset (take 16 p) # dump_lines (offset + 16) (drop 16 p))"
  by auto
termination by (relation "measure (\<lambda>(offset, p). length p)") auto

definition line_tail :: "u8 list \<Rightarrow> string" where
  "line_tail c = replicate (51 - (3 * length c + (if length c > 8 then 1 else 0))) CHR '' '' @ ''|'' @ map printable c @ ''|\<newline>''"

subsection \<open>The loop prints the lines\<close>

lemma position_in_line:
  assumes "(base :: nat) mod 16 = 0" "j < 16"
  shows "(base + j) mod 16 = j" "(base + j) mod 8 = j mod 8"
proof -
  obtain q where q: "base = 16 * q" using assms(1) by auto
  show "(base + j) mod 16 = j" using q assms(2) by simp
  have "base + j = j + q * 2 * 8" using q by simp
  then show "(base + j) mod 8 = j mod 8" by (metis mod_mult_self1)
qed

lemma fhexdump_ascii_line:
  assumes "base mod 16 = 0" "0 < n" "n \<le> 16" "base + n \<le> length p"
  shows "fhexdump_ascii p (base + (n - 1)) = Inr (line_tail (take n (drop base p)))"
proof -
  have "(base + (n - 1)) mod 16 = n - 1" using position_in_line [OF assms(1), of "n - 1"] assms(3,2) by simp
  then have f: "base + (n - 1) - (base + (n - 1)) mod 16 = base" "base + (n - 1) + 1 - base = n" using assms(2) by simp_all
  have m: "map (\<lambda>i. printable (p ! i)) [base..<base + n] = map printable (take n (drop base p))"
    using assms(4) by (intro nth_equalityI) simp_all
  have "length (take n (drop base p)) = n" using assms(4) by simp
  then show ?thesis unfolding fhexdump_ascii_def Let_def f line_tail_def m using assms(3) by simp
qed

lemma fhexdump_step:
  assumes "base mod 16 = 0" "j < 16"
  shows "fhexdump_loop (Suc k) off p (base + j) =
    bind_res (if j = 15 \<or> base + j = length p - 1 then fhexdump_ascii p (base + j) else Inr []) (\<lambda>s3.
    bind_res (fhexdump_loop k off p (base + Suc j)) (\<lambda>rest.
      Inr ((if j = 0 then hex_pad 8 (unat (off + of_nat base)) else []) @ byte_cell j (p ! (base + j)) @ s3 @ rest)))"
  using position_in_line [OF assms] by (cases "j = 0") (simp_all add: byte_cell_def Let_def)

lemma fhexdump_line:
  assumes base: "base mod 16 = 0" and n: "n = min 16 (length p - base)" "j < n"
    and rest: "fhexdump_loop (length p - (base + n)) off p (base + n) = Inr rest"
  shows "fhexdump_loop (length p - (base + j)) off p (base + j) =
      Inr ((if j = 0 then hex_pad 8 (unat (off + of_nat base)) else [])
        @ concat (map (\<lambda>j. byte_cell j (p ! (base + j))) [j..<n]) @ line_tail (take n (drop base p)) @ rest)"
  using n(2)
proof (induction "n - j" arbitrary: j)
  case (Suc d)
  have fits: "j < 16" "base + n \<le> length p" "n \<le> 16" "0 < n" using n(1) Suc.prems by auto
  have len: "length p - (base + j) = Suc (length p - (base + Suc j))" using Suc.prems fits by simp
  have ends: "j = 15 \<or> base + j = length p - 1 \<longleftrightarrow> Suc j = n" using n(1) Suc.prems by auto
  have cells: "[j..<n] = j # [Suc j..<n]" using Suc.prems by (rule upt_conv_Cons)
  note step = len fhexdump_step [OF base fits(1)] ends cells
  show ?case
  proof (cases "Suc j = n")
    case True
    then have "fhexdump_ascii p (base + j) = Inr (line_tail (take n (drop base p)))"
      using fhexdump_ascii_line [OF base fits(4,3,2)] by (metis diff_Suc_1)
    moreover have "[Suc j..<n] = []" using True by simp
    ultimately show ?thesis unfolding step using rest True by (simp only: if_True bind_res_Inr) simp
  next
    case False
    then have "Suc j < n" "d = n - Suc j" using Suc by simp_all
    from Suc.hyps(1) [OF this(2) this(1)] False show ?thesis unfolding step by simp
  qed
qed simp

lemma fhexdump_loop_lines:
  assumes "base mod 16 = 0" "base \<le> length p"
  shows "fhexdump_loop (length p - base) off p base = Inr (concat (dump_lines (off + of_nat base) (drop base p)))"
  using assms
proof (induction "length p - base" arbitrary: base rule: less_induct)
  case less
  show ?case
  proof (cases "base = length p")
    case False
    define n where "n = min 16 (length p - base)"
    have n: "0 < n" "base + n \<le> length p" "n \<le> 16" using False less.prems by (auto simp: n_def)
    let ?c = "take n (drop base p)"
    have c: "take 16 (drop base p) = ?c" "drop 16 (drop base p) = drop (base + n) p" "length ?c = n"
      using n by (auto simp: n_def min_def add.commute)
    have rest: "fhexdump_loop (length p - (base + n)) off p (base + n)
        = Inr (concat (dump_lines (off + of_nat base + 16) (drop (base + n) p)))"
    proof (cases "n = 16")
      case True
      then show ?thesis using less.hyps [of "base + 16"] less.prems(1) n by (simp add: add.assoc del: dump_lines.simps)
    next
      case False
      then have "base + n = length p" using n by (simp add: n_def min_def split: if_splits)
      then show ?thesis by (subst dump_lines.simps) simp
    qed
    have cells: "map (\<lambda>j. byte_cell j (p ! (base + j))) [0..<n] = map (\<lambda>j. byte_cell j (?c ! j)) [0..<n]"
      using n by (intro map_cong) simp_all
    have "dump_lines (off + of_nat base) (drop base p)
        = dump_line (off + of_nat base) ?c # dump_lines (off + of_nat base + 16) (drop (base + n) p)"
      using False less.prems(2) c by (subst dump_lines.simps) (simp del: dump_lines.simps)
    then show ?thesis using fhexdump_line [OF less.prems(1) n_def n(1) rest] c(3)
      by (simp only: cells dump_line_def line_tail_def) (simp del: dump_lines.simps)
  next
    case True
    then show ?thesis by (subst dump_lines.simps) simp
  qed
qed

subsection \<open>Reading a dump\<close>

definition unhex :: "char \<Rightarrow> nat" where
  "unhex c = (let k = of_char c in if k \<ge> 97 then k - 87 else k - 48)"

text \<open>
  Of a line whose address has \<open>w\<close> digits: the address, and the byte \<open>j\<close>, two digits in a column that
  depends on \<open>w\<close> and \<open>j\<close> only.
\<close>

definition line_address :: "nat \<Rightarrow> string \<Rightarrow> nat" where
  "line_address w line = foldl (\<lambda>a c. 16 * a + unhex c) 0 (take w line)"

definition line_byte :: "nat \<Rightarrow> string \<Rightarrow> nat \<Rightarrow> u8" where
  "line_byte w line j =
     (let col = w + 2 + 3 * j + (if j < 8 then 0 else 1) in of_nat (16 * unhex (line ! col) + unhex (line ! (col + 1))))"

lemma unhex_hex_digit: "d < 16 \<Longrightarrow> unhex (hex_digit d) = d"
proof -
  have "\<forall>d \<in> set [0..<16]. unhex (hex_digit d) = d" by (simp add: upt_rec unhex_def hex_digit_def)
  then show "d < 16 \<Longrightarrow> unhex (hex_digit d) = d" by simp
qed

lemma hex_pad_byte: "n < 256 \<Longrightarrow> hex_pad 2 n = [hex_digit (n div 16), hex_digit (n mod 16)]"
proof -
  assume n: "n < 256"
  have z: "hex_digit 0 = CHR ''0''" by (simp add: hex_digit_def)
  have "n div 16 < 16" using n by (simp add: less_mult_imp_div_less)
  then show ?thesis using z by (cases "n < 16") (simp_all add: hex_pad_def)
qed

lemma hex_pad_wide: "w > 0 \<Longrightarrow> n < 16 ^ w \<Longrightarrow> length (hex_pad w n) = w"
proof -
  assume "w > 0" "n < 16 ^ w"
  then have "length (hex_digits n) \<le> w"
  proof (induction n arbitrary: w rule: hex_digits.induct)
    case (1 n)
    show ?case
    proof (cases "n < 16")
      case False
      then obtain v where v: "w = Suc v" "v > 0" using 1(2,3) by (cases w; cases "w - 1") auto
      then have "n div 16 < 16 ^ v" using 1(3) by (simp add: less_mult_imp_div_less mult.commute)
      from 1(1) [OF False v(2) this] show ?thesis using False v by (subst hex_digits.simps) (simp del: hex_digits.simps)
    qed (use 1 in auto)
  qed
  then show ?thesis by (simp add: hex_pad_def Let_def del: hex_digits.simps)
qed

lemma hex_pad_length: "length (hex_pad 8 (unat (off :: u64))) \<le> 16" "8 \<le> length (hex_pad 8 (unat off))"
proof -
  have "unat off < 16 ^ 16" using unat_less_2_64 [of off] by simp
  then have "length (hex_pad 16 (unat off)) = 16" by (rule hex_pad_wide [rotated]) simp
  then have "length (hex_digits (unat off)) \<le> 16" by (simp add: hex_pad_def Let_def del: hex_digits.simps)
  then show "length (hex_pad 8 (unat off)) \<le> 16" "8 \<le> length (hex_pad 8 (unat off))"
    by (simp_all add: hex_pad_def Let_def del: hex_digits.simps)
qed

lemma hex_digits_value: "foldl (\<lambda>a c. 16 * a + unhex c) 0 (hex_digits n) = n"
proof (induction n rule: hex_digits.induct)
  case (1 n)
  show ?case
  proof (cases "n < 16")
    case False
    then have "hex_digits n = hex_digits (n div 16) @ [hex_digit (n mod 16)]" by (subst hex_digits.simps) (simp del: hex_digits.simps)
    then show ?thesis using 1 [OF False] unhex_hex_digit [of "n mod 16"] by (simp del: hex_digits.simps)
  qed (simp add: unhex_hex_digit)
qed

lemma hex_pad_value: "foldl (\<lambda>a c. 16 * a + unhex c) 0 (hex_pad w n) = n"
proof -
  have "foldl (\<lambda>a c. 16 * a + unhex c) 0 (replicate k CHR ''0'') = 0" for k
    by (induction k) (simp_all add: unhex_def)
  then show ?thesis using hex_digits_value by (simp add: hex_pad_def Let_def del: hex_digits.simps)
qed

lemma dump_line_address: "line_address (length (hex_pad 8 (unat off))) (dump_line off c) = unat off"
  by (simp add: line_address_def dump_line_def hex_pad_value)

lemma byte_less: "unat (b :: u8) < 256"
  using unsigned_less [of b, where ?'a = nat] by simp

lemma byte_cell_eq:
  "byte_cell j b = (if j mod 8 = 0 then ''  '' else '' '') @ [hex_digit (unat b div 16), hex_digit (unat b mod 16)]"
  using hex_pad_byte [of "unat b"] byte_less [of b] by (simp add: byte_cell_def)

lemma cells_length:
  "j \<le> 16 \<Longrightarrow> length (concat (map (\<lambda>j. byte_cell j (c ! j)) [0..<j])) = 3 * j + (if j = 0 then 0 else if j \<le> 8 then 1 else 2)"
proof (induction j)
  case (Suc j)
  have "j mod 8 = 0 \<longleftrightarrow> j = 0 \<or> j = 8" using Suc.prems by presburger
  then show ?case using Suc by (auto simp: byte_cell_eq)
qed simp

lemma dump_line_byte:
  assumes "length c \<le> 16" "j < length c"
  shows "line_byte (length (hex_pad 8 (unat off))) (dump_line off c) j = c ! j"
proof -
  let ?w = "length (hex_pad 8 (unat off))"
  let ?pre = "hex_pad 8 (unat off) @ concat (map (\<lambda>j. byte_cell j (c ! j)) [0..<j]) @ (if j mod 8 = 0 then ''  '' else '' '')"
  let ?b = "unat (c ! j)"
  have "[0..<length c] = [0..<j] @ j # [Suc j..<length c]"
    using assms(2) by (metis less_imp_le_nat upt_add_eq_append upt_conv_Cons le0 le_add_diff_inverse)
  then obtain post where line: "dump_line off c = ?pre @ [hex_digit (?b div 16), hex_digit (?b mod 16)] @ post"
    by (simp add: dump_line_def byte_cell_eq [of j])
  have "j mod 8 = 0 \<longleftrightarrow> j = 0 \<or> j = 8" using assms by presburger
  then have "length ?pre = ?w + 2 + 3 * j + (if j < 8 then 0 else 1)"
    using cells_length [of j c] assms by auto
  then have "dump_line off c ! (?w + 2 + 3 * j + (if j < 8 then 0 else 1)) = hex_digit (?b div 16)"
    "dump_line off c ! (?w + 2 + 3 * j + (if j < 8 then 0 else 1) + 1) = hex_digit (?b mod 16)"
    unfolding line by (simp_all only: nth_append_length [of ?pre] nth_append) simp_all
  moreover have "?b div 16 < 16" using byte_less [of "c ! j"] by (simp add: less_mult_imp_div_less)
  ultimately show ?thesis by (simp only: line_byte_def Let_def unhex_hex_digit) (simp add: unhex_hex_digit)
qed

lemma dump_line_bar:
  assumes "0 < length c" "length c \<le> 16"
  shows "dump_line off c ! (length (hex_pad 8 (unat off)) + 52) = CHR ''|''"
proof -
  let ?n = "length c"
  let ?pre = "hex_pad 8 (unat off) @ concat (map (\<lambda>j. byte_cell j (c ! j)) [0..<?n])
    @ replicate (51 - (3 * ?n + (if ?n > 8 then 1 else 0))) CHR '' ''"
  have "length ?pre = length (hex_pad 8 (unat off)) + 52" using cells_length [of ?n c] assms by auto
  then have "(?pre @ CHR ''|'' # map printable c @ ''|\<newline>'') ! (length (hex_pad 8 (unat off)) + 52) = CHR ''|''"
    using nth_append_length [of ?pre] by (simp only:)
  then show ?thesis by (simp only: dump_line_def append_assoc append_Cons append_Nil)
qed

lemma dump_lines_nth:
  assumes "16 * k < length p"
  shows "dump_lines off p ! k = dump_line (off + of_nat (16 * k)) (take 16 (drop (16 * k) p))"
  using assms
proof (induction k arbitrary: off p)
  case 0
  then show ?case by (subst dump_lines.simps) auto
next
  case (Suc k)
  then have "dump_lines off p ! Suc k = dump_lines (off + 16) (drop 16 p) ! k" by (subst dump_lines.simps) auto
  also have "\<dots> = dump_line (off + 16 + of_nat (16 * k)) (take 16 (drop (16 * k) (drop 16 p)))"
    using Suc.prems by (intro Suc.IH) simp
  finally show ?case by (simp add: add.assoc add.commute)
qed

text \<open>
  C18: For any offset and any object \<open>fhexdump_at\<close> prints one line for each 16 bytes. A
  line starts with the offset of its first byte in \<open>w\<close> hexadecimal digits, 8 for
  offsets below 2^32 and at most 16; byte \<open>i\<close> can be read back from the two
  hexadecimal digits at its column of line \<open>i div 16\<close>, and the text column of every
  line starts 52 columns after the offset.
\<close>
theorem hexdump_readable:
  fixes off :: u64 and p :: "u8 list"
  defines "w \<equiv> \<lambda>i. length (hex_pad 8 (unat (off + of_nat (16 * (i div 16)))))"
  shows "fhexdump_at off p = Inr (concat (dump_lines off p))
    \<and> (\<forall>i < length p. line_address (w i) (dump_lines off p ! (i div 16)) = unat (off + of_nat (16 * (i div 16)))
         \<and> line_byte (w i) (dump_lines off p ! (i div 16)) (i mod 16) = p ! i
         \<and> dump_lines off p ! (i div 16) ! (w i + 52) = CHR ''|''
         \<and> 8 \<le> w i \<and> w i \<le> 16 \<and> (unat (off + of_nat (16 * (i div 16))) < 2 ^ 32 \<longrightarrow> w i = 8))"
proof (intro conjI allI impI)
  show "fhexdump_at off p = Inr (concat (dump_lines off p))"
    using fhexdump_loop_lines [of 0 p off] by (simp add: fhexdump_at_def del: dump_lines.simps)
next
  fix i assume i: "i < length p"
  let ?k = "i div 16" and ?c = "take 16 (drop (16 * (i div 16)) p)"
  have k: "16 * ?k \<le> i" "i = 16 * ?k + i mod 16" by simp_all
  have c: "i mod 16 < length ?c" "?c ! (i mod 16) = p ! i" "length ?c \<le> 16"
  proof -
    have "i mod 16 < length p - 16 * ?k" using i k by linarith
    then show "i mod 16 < length ?c" "?c ! (i mod 16) = p ! i" "length ?c \<le> 16" using k(1) by auto
  qed
  have line: "dump_lines off p ! ?k = dump_line (off + of_nat (16 * ?k)) ?c"
    using i k(1) by (intro dump_lines_nth) linarith
  show "line_address (w i) (dump_lines off p ! ?k) = unat (off + of_nat (16 * ?k))"
    unfolding line w_def by (rule dump_line_address)
  show "line_byte (w i) (dump_lines off p ! ?k) (i mod 16) = p ! i"
    unfolding line w_def using dump_line_byte [OF c(3,1)] c(2) by simp
  show "dump_lines off p ! ?k ! (w i + 52) = CHR ''|''"
    unfolding line w_def using c by (intro dump_line_bar) auto
  show "8 \<le> w i" "w i \<le> 16" unfolding w_def by (rule hex_pad_length)+
  show "w i = 8" if "unat (off + of_nat (16 * ?k)) < 2 ^ 32"
    unfolding w_def using that by (intro hex_pad_wide) simp_all
qed

theorem hexdump_readable_witness:
  "\<exists>w. line_byte w (dump_lines 0x7FFF00001000 (replicate 20 65) ! 1) 3 = 65
    \<and> dump_lines 0x7FFF00001000 (replicate 20 65) ! 1 ! (w + 52) = CHR ''|''"
proof -
  note H = hexdump_readable [of "0x7FFF00001000" "replicate 20 65", THEN conjunct2, THEN spec, of 19]
  have d: "(19 :: nat) div 16 = 1" "(19 :: nat) mod 16 = 3" by simp_all
  show ?thesis using H unfolding d by (auto simp del: dump_lines.simps)
qed

end
