(* ===== verification/Containers.thy ===== *)
theory Containers
  imports Prelude "HOL-Library.List_Lexorder" "HOL-Library.Char_ord" "HOL-Library.Multiset"
begin

text \<open>
  The container exercises of \<^verbatim>\<open>s01/\<close>: \<^verbatim>\<open>vector1.cc\<close>, \<^verbatim>\<open>list1.cc\<close>, \<^verbatim>\<open>map1.cc\<close>, \<^verbatim>\<open>uomap1.cc\<close> and \<^verbatim>\<open>uoset1.cc\<close>. A
  \<^verbatim>\<open>std::vector\<close> or \<^verbatim>\<open>std::list\<close> is a list whose partial operations are checked; a \<^verbatim>\<open>std::map\<close> is a list of
  pairs ordered by key, a \<^verbatim>\<open>std::unordered_map\<close> a list of pairs in no particular order, which is
  what the parameter \<open>order\<close> of its traversal stands for. The locale \<open>dictionary\<close> states what both
  promise of their keys, and the run of the exercise is proved in it for both. A \<^verbatim>\<open>main\<close> returns the lines
  it prints, or the first assertion that fails.
\<close>

subsection \<open>Sequences\<close>

definition vec_at :: "int list \<Rightarrow> nat \<Rightarrow> int res" where
  "vec_at a i = check (i < length a) (OutOfBounds ''a'') (Inr (a ! i))"

definition vec_set :: "nat \<Rightarrow> int \<Rightarrow> int list \<Rightarrow> int list res" where
  "vec_set i v a = check (i < length a) (OutOfBounds ''a'') (Inr (a[i := v]))"

definition push_back :: "int \<Rightarrow> int list \<Rightarrow> int list" where "push_back v a = a @ [v]"
definition push_front :: "int \<Rightarrow> int list \<Rightarrow> int list" where "push_front v a = v # a"

definition vec_back :: "int list \<Rightarrow> int res" where
  "vec_back a = check (a \<noteq> []) (OutOfBounds ''back'') (Inr (last a))"

definition vec_front :: "int list \<Rightarrow> int res" where
  "vec_front a = check (a \<noteq> []) (OutOfBounds ''front'') (Inr (hd a))"

definition pop_back :: "int list \<Rightarrow> int list res" where
  "pop_back a = check (a \<noteq> []) (OutOfBounds ''pop_back'') (Inr (butlast a))"

definition digit_text :: "int \<Rightarrow> string" where
  "digit_text d = (if 0 \<le> d \<and> d < 10 then [''0123456789'' ! nat d]
     else [''0123456789'' ! nat (d div 10 mod 10), ''0123456789'' ! nat (d mod 10)])"

definition elements_text :: "int list \<Rightarrow> string" where
  "elements_text a = concat (map (\<lambda>i. (if i \<noteq> 0 then '', '' else []) @ digit_text (a ! i)) [0..<length a])"

definition vector1_main :: "string list res" where
  "vector1_main =
    (let a = [1, 2, 3, 4] in
     bind_res (vec_at a 2) (\<lambda>e2.
     check (e2 = 3) (AssertFail ''a[2] == 3'') (
     bind_res (vec_set 2 4 a) (\<lambda>a.
     bind_res (vec_at a 2) (\<lambda>x.
     check (x = 4) (AssertFail ''a[2] == 4'') (
     check (length a = 4) (AssertFail ''a.size() == 4'') (
     let a = push_back 5 a in
     check (length a = 5) (AssertFail ''a.size() == 5'') (
     bind_res (vec_at a 4) (\<lambda>x.
     check (x = 5) (AssertFail ''a[4] == 5'') (
     bind_res (vec_back a) (\<lambda>x.
     check (x = 5) (AssertFail ''a.back() == 5'') (
     bind_res (pop_back a) (\<lambda>a.
     check (length a = 4) (AssertFail ''a.size() == 4'') (
     check (a \<noteq> []) (AssertFail ''!e'') (
     Inr [''a: ['' @ elements_text a @ '']'', ''Done!''])))))))))))))))"

definition list1_main :: "string list res" where
  "list1_main =
    (let l = [1, 2, 3, 4] in
     check (length l = 4) (AssertFail ''l.size() == 4'') (
     let l = push_back 5 l in
     check (length l = 5) (AssertFail ''l.size() == 5'') (
     bind_res (vec_back l) (\<lambda>x.
     check (x = 5) (AssertFail ''l.back() == 5'') (
     bind_res (vec_front l) (\<lambda>x.
     check (x = 1) (AssertFail ''l.front() == 1'') (
     let l = push_front 0 l in
     check (length l = 6) (AssertFail ''l.size() == 6'') (
     bind_res (vec_front l) (\<lambda>x.
     check (x = 0) (AssertFail ''l.front() == 0'') (
     bind_res (pop_back l) (\<lambda>l.
     check (length l = 5) (AssertFail ''l.size() == 5'') (
     check (l \<noteq> []) (AssertFail ''!e'') (
     Inr [''l: ['' @ elements_text l @ '']'', ''Done!''])))))))))))))"

subsection \<open>Dictionaries\<close>

type_synonym dict = "(string \<times> int) list"

text \<open>
  \<open>place k v m\<close> adds a key that is not in \<open>m\<close>; it is the only operation in which the ordered and the
  unordered container differ.
\<close>

fun ordered_place :: "string \<Rightarrow> int \<Rightarrow> dict \<Rightarrow> dict" where
  "ordered_place k v [] = [(k, v)]"
| "ordered_place k v ((k', v') # m) = (if k' < k then (k', v') # ordered_place k v m else (k, v) # (k', v') # m)"

definition unordered_place :: "string \<Rightarrow> int \<Rightarrow> dict \<Rightarrow> dict" where
  "unordered_place k v m = (k, v) # m"

definition dict_find :: "string \<Rightarrow> dict \<Rightarrow> int option" where
  "dict_find k m = map_of m k"

definition dict_count :: "string \<Rightarrow> dict \<Rightarrow> nat" where
  "dict_count k m = length (filter (\<lambda>(k', _). k' = k) m)"

definition dict_insert :: "(string \<Rightarrow> int \<Rightarrow> dict \<Rightarrow> dict) \<Rightarrow> string \<Rightarrow> int \<Rightarrow> dict \<Rightarrow> dict" where
  "dict_insert place k v m = (if dict_find k m = None then place k v m else m)"

definition dict_assign :: "(string \<Rightarrow> int \<Rightarrow> dict \<Rightarrow> dict) \<Rightarrow> string \<Rightarrow> int \<Rightarrow> dict \<Rightarrow> dict" where
  "dict_assign place k v m =
     (if dict_find k m = None then place k v m
      else map (\<lambda>(k', v'). (k', if k' = k then v else v')) m)"

text \<open>\<^verbatim>\<open>m[k]\<close> as a value: a missing key is added with the value 0.\<close>

definition dict_get :: "(string \<Rightarrow> int \<Rightarrow> dict \<Rightarrow> dict) \<Rightarrow> string \<Rightarrow> dict \<Rightarrow> int \<times> dict" where
  "dict_get place k m = (case dict_find k m of Some v \<Rightarrow> (v, m) | None \<Rightarrow> (0, place k 0 m))"

definition dict_erase :: "string \<Rightarrow> dict \<Rightarrow> dict" where
  "dict_erase k m = filter (\<lambda>(k', _). k' \<noteq> k) m"

definition found_line :: "string \<times> int \<Rightarrow> string" where
  "found_line kv = ''Found '' @ fst kv @ '' -> '' @ digit_text (snd kv)"

definition dict_main :: "(string \<Rightarrow> int \<Rightarrow> dict \<Rightarrow> dict) \<Rightarrow> (dict \<Rightarrow> dict) \<Rightarrow> string list res" where
  "dict_main place order =
    (let m = dict_insert place ''one'' 1 [] in
     check (length m = 1) (AssertFail ''m.size() == 1'') (
     check (m \<noteq> []) (AssertFail ''!m.empty()'') (
     let line1 = ''m.size = '' @ digit_text (int (length m)) in
     check (dict_count ''one'' m = 1) (AssertFail ''exists == 1'') (
     check (dict_count ''two'' m = 0) (AssertFail ''exists == 0'') (
     case dict_find ''one'' m of
       None \<Rightarrow> Inl (AssertFail ''it0 != m.end()'')
     | Some v \<Rightarrow>
     check (v = 1) (AssertFail ''it0->second == 1'') (
     let line2 = ''m.find(\"one\") -> '' @ digit_text v in
     check (dict_find ''two'' m = None) (AssertFail ''it1 == m.end()'') (
     let m = dict_assign place ''one'' 61 m; (x, m) = dict_get place ''one'' m in
     check (x = 61) (AssertFail ''m[\"one\"] == 61'') (
     let (two_value, m) = dict_get place ''two'' m in
     check (two_value = 0) (AssertFail ''two_value == 0'') (
     check (length m = 2) (AssertFail ''m.size() == 2'') (
     check (dict_find ''two'' m \<noteq> None) (AssertFail ''m.find(\"two\") != m.end()'') (
     let m = dict_erase ''two'' m in
     check (length m = 1) (AssertFail ''m.size() == 1'') (
     let m = dict_insert place ''five'' 5 (dict_insert place ''four'' 4
               (dict_insert place ''three'' 3 (dict_insert place ''two'' 2 m)))
     in Inr ([line1, line2] @ map found_line (order m) @ [''Done!''])))))))))))))"

definition map1_main :: "string list res" where
  "map1_main = dict_main ordered_place (\<lambda>m. m)"

definition uomap1_main :: "(dict \<Rightarrow> dict) \<Rightarrow> string list res" where
  "uomap1_main order = dict_main unordered_place order"

subsection \<open>Sets\<close>

definition set_insert :: "string \<Rightarrow> string list \<Rightarrow> string list" where
  "set_insert k m = (if k \<in> set m then m else k # m)"

definition uoset1_main :: "(string list \<Rightarrow> string list) \<Rightarrow> string list res" where
  "uoset1_main order =
    (let m = set_insert ''one'' [] in
     check (length m = 1) (AssertFail ''m.size() == 1'') (
     check (m \<noteq> []) (AssertFail ''!m.empty()'') (
     let line1 = ''m.size = '' @ digit_text (int (length m)) in
     check (count_list m ''one'' = 1) (AssertFail ''exists == 1'') (
     check (count_list m ''two'' = 0) (AssertFail ''exists == 0'') (
     check (''one'' \<in> set m) (AssertFail ''it0 != m.end()'') (
     check (''two'' \<notin> set m) (AssertFail ''it1 == m.end()'') (
     let m = set_insert ''two'' m in
     check (length m = 2) (AssertFail ''m.size() == 2'') (
     let m = removeAll ''two'' m in
     check (length m = 1) (AssertFail ''m.size() == 1'') (
     let m = set_insert ''five'' (set_insert ''four'' (set_insert ''three'' (set_insert ''two'' m)))
     in Inr ([line1, ''m.find(\"one\") -> one''] @ map (\<lambda>k. ''Found '' @ k) (order m) @ [''Done!''])))))))))) "

subsection \<open>What a dictionary promises\<close>

locale dictionary =
  fixes place :: "string \<Rightarrow> int \<Rightarrow> dict \<Rightarrow> dict" and inv :: "dict \<Rightarrow> bool"
  assumes empty_inv: "inv []"
    and place_inv: "inv m \<Longrightarrow> map_of m k = None \<Longrightarrow> inv (place k v m)"
    and place_mset: "mset (place k v m) = add_mset (k, v) (mset m)"
    and filter_inv: "inv m \<Longrightarrow> inv (filter P m)"
    and map_inv: "inv m \<Longrightarrow> inv (map (\<lambda>(k', v'). (k', f k' v')) m)"
    and inv_distinct: "inv m \<Longrightarrow> distinct (map fst m)"
begin

lemma place_set: "set (place k v m) = insert (k, v) (set m)"
  using place_mset [of k v m] by (metis set_mset_add_mset_insert set_mset_mset)

lemma place_length: "length (place k v m) = Suc (length m)"
  using place_mset [of k v m] by (metis size_mset size_add_mset)

lemma place_find:
  assumes "inv m" "map_of m k = None"
  shows "map_of (place k v m) = (map_of m)(k \<mapsto> v)"
proof
  fix x
  have d: "distinct (map fst (place k v m))" "distinct (map fst m)"
    using inv_distinct place_inv assms by blast+
  show "map_of (place k v m) x = ((map_of m)(k \<mapsto> v)) x"
  proof (cases "x = k")
    case True
    then show ?thesis using map_of_is_SomeI [OF d(1)] place_set by simp
  next
    case False
    have "map_of (place k v m) x = Some y \<longleftrightarrow> map_of m x = Some y" for y
      unfolding map_of_eq_Some_iff [OF d(1)] map_of_eq_Some_iff [OF d(2)] place_set using False by auto
    then show ?thesis using False by (metis fun_upd_other not_Some_eq)
  qed
qed

lemma insert_inv: "inv m \<Longrightarrow> inv (dict_insert place k v m)"
  by (simp add: dict_insert_def dict_find_def place_inv)

lemma insert_find: "inv m \<Longrightarrow> map_of (dict_insert place k v m) = (if map_of m k = None then (map_of m)(k \<mapsto> v) else map_of m)"
  by (simp add: dict_insert_def dict_find_def place_find)

lemma assign_inv: "inv m \<Longrightarrow> inv (dict_assign place k v m)"
  using map_inv [of m "\<lambda>k' v'. if k' = k then v else v'"] by (auto simp: dict_assign_def dict_find_def place_inv)

lemma assign_find: "inv m \<Longrightarrow> map_of (dict_assign place k v m) = (map_of m)(k \<mapsto> v)"
proof -
  assume i: "inv m"
  have "map_of (map (\<lambda>(k', v'). (k', if k' = k then v else v')) m) x = (if x = k then map_option (\<lambda>_. v) (map_of m x) else map_of m x)" for x
    by (induction m) auto
  then show ?thesis using i by (auto simp: dict_assign_def dict_find_def place_find fun_eq_iff)
qed

lemma get_spec:
  assumes "inv m"
  shows "fst (dict_get place k m) = (case map_of m k of Some v \<Rightarrow> v | None \<Rightarrow> 0)"
    "inv (snd (dict_get place k m))"
    "map_of (snd (dict_get place k m)) = (if map_of m k = None then (map_of m)(k \<mapsto> 0) else map_of m)"
  using assms by (auto simp: dict_get_def dict_find_def place_inv place_find split: option.split)

lemma erase_find: "map_of (dict_erase k m) = (map_of m)(k := None)"
  unfolding dict_erase_def by (rule ext) (induction m, auto)

end

lemma ordered_place_set: "set (map fst (ordered_place k v m)) = insert k (set (map fst m))"
  by (induction k v m rule: ordered_place.induct) auto

lemma ordered_place_sorted: "sorted (map fst m) \<Longrightarrow> sorted (map fst (ordered_place k v m))"
proof (induction k v m rule: ordered_place.induct)
  case (2 k v k' v' m)
  then show ?case using ordered_place_set [of k v m] by auto
qed simp

interpretation om: dictionary ordered_place "\<lambda>m. sorted (map fst m) \<and> distinct (map fst m)"
proof
  fix k :: string and v m
  show "mset (ordered_place k v m) = add_mset (k, v) (mset m)"
    by (induction k v m rule: ordered_place.induct) auto
  assume i: "sorted (map fst m) \<and> distinct (map fst m)" "map_of m k = None"
  then have "k \<notin> set (map fst m)" by (simp add: map_of_eq_None_iff)
  then have "distinct (map fst (ordered_place k v m))" using i
  proof (induction k v m rule: ordered_place.induct)
    case (2 k v k' v' m)
    then show ?case using ordered_place_set [of k v m] by auto
  qed simp
  then show "sorted (map fst (ordered_place k v m)) \<and> distinct (map fst (ordered_place k v m))"
    using i ordered_place_sorted by blast
next
  fix m :: dict and P
  assume "sorted (map fst m) \<and> distinct (map fst m)"
  then show "sorted (map fst (filter P m)) \<and> distinct (map fst (filter P m))"
    by (simp add: distinct_map_filter sorted_filter)
next
  fix m :: dict and f
  assume "sorted (map fst m) \<and> distinct (map fst m)"
  moreover have "map fst (map (\<lambda>(k', v'). (k', f k' v')) m) = map fst m" by (simp add: comp_def case_prod_unfold)
  ultimately show "sorted (map fst (map (\<lambda>(k', v'). (k', f k' v')) m)) \<and> distinct (map fst (map (\<lambda>(k', v'). (k', f k' v')) m))"
    by metis
qed simp_all

interpretation um: dictionary unordered_place "\<lambda>m. distinct (map fst m)"
proof
  fix m :: dict and f
  assume "distinct (map fst m)"
  moreover have "map fst (map (\<lambda>(k', v'). (k', f k' v')) m) = map fst m" by (simp add: comp_def case_prod_unfold)
  ultimately show "distinct (map fst (map (\<lambda>(k', v'). (k', f k' v')) m))" by metis
qed (auto simp: unordered_place_def map_of_eq_None_iff distinct_map_filter)

lemma vector1_run: "vector1_main = Inr [''a: [1, 2, 4, 4]'', ''Done!'']"
  by (simp add: vector1_main_def vec_at_def vec_set_def push_back_def vec_back_def pop_back_def elements_text_def
      digit_text_def upt_rec)

lemma list1_run: "list1_main = Inr [''l: [0, 1, 2, 3, 4]'', ''Done!'']"
  by (simp add: list1_main_def push_back_def push_front_def vec_back_def vec_front_def pop_back_def elements_text_def
      digit_text_def upt_rec)

lemma uomap1_run: "uomap1_main order = Inr ([''m.size = 1'', ''m.find(\"one\") -> 1''] @ map found_line (order
    [(''five'', 5), (''four'', 4), (''three'', 3), (''two'', 2), (''one'', 61)]) @ [''Done!''])"
  by (simp add: uomap1_main_def dict_main_def dict_insert_def dict_find_def dict_count_def dict_assign_def dict_get_def
      dict_erase_def unordered_place_def digit_text_def)

lemma map1_run: "map1_main = Inr ([''m.size = 1'', ''m.find(\"one\") -> 1'', ''Found five -> 5'', ''Found four -> 4'',
    ''Found one -> 61'', ''Found three -> 3'', ''Found two -> 2'', ''Done!''])"
  by code_simp

lemma uoset1_run: "uoset1_main order = Inr ([''m.size = 1'', ''m.find(\"one\") -> one'']
    @ map (\<lambda>k. ''Found '' @ k) (order [''five'', ''four'', ''three'', ''two'', ''one'']) @ [''Done!''])"
  by (simp add: uoset1_main_def set_insert_def digit_text_def)

text \<open>The operations of the ordered dictionary keep its keys in order and find what they stored.\<close>

lemma map_operations:
  assumes "sorted (map fst m) \<and> distinct (map fst m)"
  shows "sorted (map fst (dict_assign ordered_place k v m))"
    "dict_find k (dict_assign ordered_place k v m) = Some v"
    "dict_find k (dict_insert ordered_place k v m) = Some (case dict_find k m of None \<Rightarrow> v | Some w \<Rightarrow> w)"
    "dict_find k (dict_erase k m) = None"
  using om.assign_inv [OF assms] om.assign_find [OF assms] om.insert_find [OF assms, of k v] om.erase_find [of k m]
  by (auto simp: dict_find_def split: option.split)

theorem containers_run:
  assumes "\<And>m. mset (order m) = mset m" "\<And>m. mset (set_order m) = mset m"
  shows "vector1_main = Inr [''a: [1, 2, 4, 4]'', ''Done!''] \<and> list1_main = Inr [''l: [0, 1, 2, 3, 4]'', ''Done!'']
    \<and> map1_main = Inr [''m.size = 1'', ''m.find(\"one\") -> 1'', ''Found five -> 5'', ''Found four -> 4'',
        ''Found one -> 61'', ''Found three -> 3'', ''Found two -> 2'', ''Done!'']
    \<and> (\<exists>found. uomap1_main order = Inr ([''m.size = 1'', ''m.find(\"one\") -> 1''] @ found @ [''Done!''])
         \<and> mset found = mset [''Found five -> 5'', ''Found four -> 4'', ''Found one -> 61'', ''Found three -> 3'', ''Found two -> 2''])
    \<and> (\<exists>found. uoset1_main set_order = Inr ([''m.size = 1'', ''m.find(\"one\") -> one''] @ found @ [''Done!''])
         \<and> mset found = mset [''Found five'', ''Found four'', ''Found one'', ''Found three'', ''Found two''])"
proof -
  let ?m = "[(''five'', 5), (''four'', 4), (''three'', 3), (''two'', 2), (''one'', 61)] :: dict"
  let ?s = "[''five'', ''four'', ''three'', ''two'', ''one'']"
  have "mset (map found_line (order ?m)) = mset [''Found five -> 5'', ''Found four -> 4'', ''Found one -> 61'', ''Found three -> 3'', ''Found two -> 2'']"
    by (simp add: assms(1) found_line_def digit_text_def)
  moreover have "mset (map (\<lambda>k. ''Found '' @ k) (set_order ?s)) = mset [''Found five'', ''Found four'', ''Found one'', ''Found three'', ''Found two'']"
    by (simp add: assms(2))
  ultimately show ?thesis using vector1_run list1_run map1_run uomap1_run uoset1_run by metis
qed

theorem containers_run_witness:
  "\<exists>found. uomap1_main rev = Inr ([''m.size = 1'', ''m.find(\"one\") -> 1''] @ found @ [''Done!'']) \<and> length found = 5"
proof -
  have "mset (rev m) = mset m" for m :: "'x list" by simp
  from containers_run [OF this this] obtain found where
    f: "uomap1_main rev = Inr ([''m.size = 1'', ''m.find(\"one\") -> 1''] @ found @ [''Done!''])"
    "mset found = mset [''Found five -> 5'', ''Found four -> 4'', ''Found one -> 61'', ''Found three -> 3'', ''Found two -> 2'']"
    by blast
  have "length found = 5" using arg_cong [OF f(2), of size] by (simp only: size_mset) simp
  then show ?thesis using f(1) by blast
qed

end
