(* ===== verification/Lifetimes.thy ===== *)
theory Lifetimes
  imports Prelude
begin

text \<open>
  The programs of \<^verbatim>\<open>s02/\<close> about storage and lifetimes: \<^verbatim>\<open>l1.cc\<close> to \<^verbatim>\<open>l11.cc\<close>, \<^verbatim>\<open>membug1.cc\<close> to \<^verbatim>\<open>membug8.cc\<close>
  and \<^verbatim>\<open>greet1.cc\<close>. An object is a block of cells with a storage class and a flag that says whether it is
  alive; a pointer is a block and an index. Every access and every deletion is checked by the rules of
  the language, and the first rule that is broken is the result. A program that breaks none returns
  what it prints and how many dynamic objects it leaves allocated.
\<close>

subsection \<open>Objects\<close>

datatype storage = Static | Automatic | Single | Array

datatype lifetime_error = Dangling | Outside | Uninitialized | Invalid_delete | Mismatched_delete | Double_delete

record block =
  b_storage :: storage
  b_alive :: bool
  b_cells :: "int option list"

type_synonym objects = "block list"

datatype pointer = Ptr nat nat | Wild

type_synonym 'a checked = "lifetime_error + 'a"

definition step :: "'a checked \<Rightarrow> ('a \<Rightarrow> 'b checked) \<Rightarrow> 'b checked" where
  "step r f = (case r of Inl e \<Rightarrow> Inl e | Inr x \<Rightarrow> f x)"

definition create :: "storage \<Rightarrow> int option list \<Rightarrow> objects \<Rightarrow> pointer \<times> objects" where
  "create st cells os = (Ptr (length os) 0, os @ [\<lparr>b_storage = st, b_alive = True, b_cells = cells\<rparr>])"

definition end_lifetime :: "nat \<Rightarrow> objects \<Rightarrow> objects" where
  "end_lifetime b os = os[b := (os ! b)\<lparr>b_alive := False\<rparr>]"

text \<open>The end of the scope of an automatic object.\<close>

fun leave_scope :: "pointer \<Rightarrow> objects \<Rightarrow> objects" where
  "leave_scope (Ptr b i) os = end_lifetime b os"
| "leave_scope Wild os = os"

fun cell :: "pointer \<Rightarrow> objects \<Rightarrow> (nat \<times> nat) checked" where
  "cell Wild os = Inl Uninitialized"
| "cell (Ptr b i) os =
     (if \<not> b_alive (os ! b) then Inl Dangling
      else if length (b_cells (os ! b)) \<le> i then Inl Outside else Inr (b, i))"

definition load :: "pointer \<Rightarrow> objects \<Rightarrow> int checked" where
  "load p os = step (cell p os) (\<lambda>(b, i).
     case b_cells (os ! b) ! i of None \<Rightarrow> Inl Uninitialized | Some v \<Rightarrow> Inr v)"

definition put :: "pointer \<Rightarrow> int \<Rightarrow> objects \<Rightarrow> objects checked" where
  "put p v os = step (cell p os) (\<lambda>(b, i). Inr (os[b := (os ! b)\<lparr>b_cells := (b_cells (os ! b))[i := Some v]\<rparr>]))"

fun plus :: "pointer \<Rightarrow> nat \<Rightarrow> pointer" where
  "plus (Ptr b i) n = Ptr b (i + n)"
| "plus Wild n = Wild"

fun delete :: "storage \<Rightarrow> pointer \<Rightarrow> objects \<Rightarrow> objects checked" where
  "delete form Wild os = Inl Uninitialized"
| "delete form (Ptr b i) os =
     (if b_storage (os ! b) \<notin> {Single, Array} \<or> i \<noteq> 0 then Inl Invalid_delete
      else if \<not> b_alive (os ! b) then Inl Double_delete
      else if b_storage (os ! b) \<noteq> form then Inl Mismatched_delete
      else Inr (end_lifetime b os))"

primrec put_all :: "int list \<Rightarrow> pointer \<Rightarrow> objects \<Rightarrow> objects checked" where
  "put_all [] p os = Inr os"
| "put_all (v # vs) p os = step (put p v os) (put_all vs (plus p 1))"

text \<open>Reading a string up to its zero; an object has only so many cells.\<close>

primrec load_string :: "nat \<Rightarrow> pointer \<Rightarrow> objects \<Rightarrow> int list checked" where
  "load_string 0 p os = Inl Outside"
| "load_string (Suc n) p os =
     step (load p os) (\<lambda>c. if c = 0 then Inr [] else step (load_string n (plus p 1) os) (\<lambda>cs. Inr (c # cs)))"

definition leaked :: "objects \<Rightarrow> nat" where
  "leaked os = length (filter (\<lambda>b. b_alive b \<and> b_storage b \<in> {Single, Array}) os)"

datatype printed = Number int | Text "int list" | Address pointer

type_synonym run = "(printed list \<times> nat) checked"

definition done_with :: "printed list \<Rightarrow> objects \<Rightarrow> run" where
  "done_with out os = Inr (out, leaked os)"

definition example_text :: "int list" where "example_text = map of_char ''example''"

subsection \<open>Pointers to objects of every kind\<close>

definition l1 :: run where
  "l1 = (let (x, os) = create Automatic [Some 2] [] in
     step (load x os) (\<lambda>v. done_with [Number v] (leave_scope x os)))"

definition l2 :: run where
  "l2 = (let (g, os) = create Static [Some 0] []; ptr = g in
     step (load ptr os) (\<lambda>v. done_with [Number v] os))"

definition l3 :: run where
  "l3 = (let (x, os) = create Automatic [Some 2] []; ptr = x; os = leave_scope x os in
     step (load ptr os) (\<lambda>v. done_with [Number v] os))"

definition l4 :: run where
  "l4 = (let (x, os) = create Automatic [Some 2] []; ptr = x in
     step (load ptr os) (\<lambda>v. done_with [Number v] (leave_scope x os)))"

definition l5 :: run where
  "l5 = (let (x, os) = create Automatic [Some 2] []; ptr = x; os = leave_scope x os in
     step (load ptr os) (\<lambda>v. done_with [Number v] os))"

definition l6 :: run where
  "l6 = (let (s, os) = create Static (map Some (example_text @ [0])) [] in
     step (load_string 8 s os) (\<lambda>t. done_with [Text t] os))"

definition automatic_buf :: "pointer \<times> objects" where
  "automatic_buf = create Automatic (map Some (example_text @ replicate 93 0)) []"

definition l7 :: run where
  "l7 = (let (buf, os) = automatic_buf; os = leave_scope buf os in
     step (load_string 100 buf os) (\<lambda>t. done_with [Text t] os))"

definition l8 :: run where
  "l8 = (let (buf, os) = automatic_buf; os = leave_scope buf os in done_with [Address buf] os)"

definition copied :: "nat \<Rightarrow> (pointer \<times> objects) checked" where
  "copied n = (let (buf, os) = create Array (replicate n None) [] in
     step (put_all (example_text @ [0]) buf os) (\<lambda>os. Inr (buf, os)))"

definition l9 :: run where
  "l9 = step (copied 100) (\<lambda>(s, os).
     step (load_string 100 s os) (\<lambda>t. step (delete Array s os) (done_with [Text t])))"

definition l10 :: run where
  "l10 = step (copied 100) (\<lambda>(s, os).
     step (delete Array s os) (\<lambda>os. step (load_string 100 s os) (\<lambda>t. done_with [Text t] os)))"

definition l11 :: run where
  "l11 = step (copied (length example_text)) (\<lambda>(s, os).
     step (load_string 100 s os) (\<lambda>t. step (delete Array s os) (done_with [Text t])))"

subsection \<open>Memory bugs\<close>

definition membug1 :: run where
  "membug1 = (let (ptr, os) = create Array (replicate 2001 None) [] in
     step (delete Single (plus ptr 100) os) (done_with []))"

definition membug2 :: run where
  "membug2 = (let (ptr, os) = create Automatic [None] [] in step (delete Single ptr os) (done_with []))"

text \<open>The object deleted is the variable \<^verbatim>\<open>ptr\<close> itself; its value is not looked at.\<close>

definition membug3 :: run where
  "membug3 = (let (obj, os) = create Single [Some 1] []; (ptr, os) = create Automatic [None] os in
     step (delete Single ptr os) (done_with []))"

definition membug4 :: run where
  "membug4 = (let (ptr1, os) = create Array [None, None, None] [] in
     step (delete Array ptr1 os) (\<lambda>os.
     step (put ptr1 1 os) (\<lambda>os.
     step (load ptr1 os) (\<lambda>v.
     let ptr2 = Wild in
     step (put ptr2 2 os) (\<lambda>os.
     step (load ptr2 os) (\<lambda>w. done_with [Address ptr1, Number v, Address ptr2, Number w] os))))))"

definition membug5 :: run where
  "membug5 = (let (ptr1, os) = create Single [Some 1] []; (ptr2, os) = create Single [Some 2] os in
     step (delete Single ptr1 os) (\<lambda>os. step (delete Single ptr1 os) (done_with [])))"

definition membug6 :: run where
  "membug6 = (let (str, os) = create Array (replicate 10 None) [] in
     step (put_all (replicate 10 65) str os) (\<lambda>os.
     let (str, os) = create Array (replicate 10 None) os in
     step (put_all (replicate 10 66) str os) (\<lambda>os. step (delete Array str os) (done_with []))))"

definition membug7 :: run where
  "membug7 = (let (array, os) = create Array (replicate 10 None) [] in
     step (put_all (replicate 11 1) array os) (\<lambda>os. step (delete Array array os) (done_with [])))"

definition membug8 :: run where
  "membug8 = (let (array, os) = create Array (replicate 10 None) [] in
     step (put_all (replicate 10 1) array os) (\<lambda>os.
     let (ptr1, os) = create Single [Some 3] os in
     step (delete Array array os) (\<lambda>os. step (delete Single ptr1 os) (done_with []))))"

subsection \<open>A greeting\<close>

definition hulk_players :: "string list" where
  "hulk_players = [''RUFFALO'', ''BANA'', ''FERRIGNO'', ''MIYAUCHI'']"

definition c_toupper :: "char \<Rightarrow> char" where
  "c_toupper c = (let k = of_char c :: nat in if 97 \<le> k \<and> k \<le> 122 then char_of (k - 32) else c)"

text \<open>\<^verbatim>\<open>uc_name\<close> has 16 elements; the terminating zero takes one of them.\<close>

primrec upper_loop :: "string \<Rightarrow> string \<Rightarrow> string res" where
  "upper_loop [] uc = check (length uc < 16) (OutOfBounds ''uc_name'') (Inr uc)"
| "upper_loop (c # name) uc =
     check (length uc < 16) (OutOfBounds ''uc_name'') (upper_loop name (uc @ [c_toupper c]))"

text \<open>The loop stops at a null pointer, and the array has none.\<close>

function find_player :: "string \<Rightarrow> nat \<Rightarrow> string list res" where
  "find_player uc i =
     (if i < length hulk_players
      then if hulk_players ! i = uc then Inr [''YOU GOOD ACTOR''] else find_player uc (i + 1)
      else Inl (OutOfBounds ''hulk_players''))"
  by auto
termination by (relation "measure (\<lambda>(uc, i). length hulk_players - i)") auto

definition hulk_greeting :: "string \<Rightarrow> string list res" where
  "hulk_greeting name =
     bind_res (upper_loop name []) (\<lambda>uc.
     bind_res (find_player uc 0) (\<lambda>lines. Inr ((''HULK SAY HELLO TO '' @ uc) # lines)))"

definition greet1_main :: "string list \<Rightarrow> string list res" where
  "greet1_main argv = hulk_greeting (if length argv > 1 then argv ! 1 else ''Ruffalo'')"

subsection \<open>Rules of lifetimes\<close>

lemma create_load: "load (fst (create st [Some v] os)) (snd (create st [Some v] os)) = Inr v"
  by (simp add: create_def load_def step_def)

lemma put_load:
  assumes "put p v os = Inr os'" "\<And>b i. p = Ptr b i \<Longrightarrow> b < length os"
  shows "load p os' = Inr v"
  using assms by (cases p) (auto simp: put_def load_def step_def split: if_splits)

text \<open>After a deletion every use of the object breaks a rule.\<close>

lemma deleted_unusable:
  assumes "delete form (Ptr b 0) os = Inr os'" "b < length os"
  shows "load (Ptr b i) os' = Inl Dangling" "put (Ptr b i) v os' = Inl Dangling"
    "delete form' (Ptr b 0) os' = Inl Double_delete"
  using assms by (auto simp: load_def put_def step_def end_lifetime_def split: if_splits)

theorem lifetimes:
  "l1 = Inr ([Number 2], 0) \<and> l2 = Inr ([Number 0], 0) \<and> l3 = Inl Dangling \<and> l4 = Inr ([Number 2], 0)
   \<and> l5 = Inl Dangling \<and> l6 = Inr ([Text example_text], 0) \<and> l7 = Inl Dangling \<and> l8 = Inr ([Address (Ptr 0 0)], 0)
   \<and> l9 = Inr ([Text example_text], 0) \<and> l10 = Inl Dangling \<and> l11 = Inl Outside
   \<and> membug1 = Inl Invalid_delete \<and> membug2 = Inl Invalid_delete \<and> membug3 = Inl Invalid_delete
   \<and> membug4 = Inl Dangling \<and> membug5 = Inl Double_delete \<and> membug6 = Inr ([], 1) \<and> membug7 = Inl Outside
   \<and> membug8 = Inr ([], 0)"
  by code_simp

lemma upper_loop_spec:
  "upper_loop name uc = (if length uc + length name < 16 then Inr (uc @ map c_toupper name) else Inl (OutOfBounds ''uc_name''))"
  by (induction name arbitrary: uc) (auto simp: check_def)

lemma find_player_spec:
  "find_player uc i = (if uc \<in> set (drop i hulk_players) then Inr [''YOU GOOD ACTOR''] else Inl (OutOfBounds ''hulk_players''))"
proof (induction uc i rule: find_player.induct)
  case (1 uc i)
  show ?case
  proof (cases "i < length hulk_players")
    case True
    then have "drop i hulk_players = hulk_players ! i # drop (i + 1) hulk_players"
      by (metis Cons_nth_drop_Suc Suc_eq_plus1)
    then show ?thesis using 1 True by (subst find_player.simps) (auto simp del: find_player.simps)
  next
    case False
    then show ?thesis by (subst find_player.simps) simp
  qed
qed

text \<open>
  C29: \<open>hulk_greeting\<close> prints its two lines exactly for the names, in any case of letters,
  that are in its table; for every other name it reads past the end of the table, and a name of 16
  or more characters overruns its buffer before that.
\<close>
theorem hulk_greeting_runs:
  "hulk_greeting name =
     (if 16 \<le> length name then Inl (OutOfBounds ''uc_name'')
      else if map c_toupper name \<in> set hulk_players
      then Inr [''HULK SAY HELLO TO '' @ map c_toupper name, ''YOU GOOD ACTOR'']
      else Inl (OutOfBounds ''hulk_players''))"
  using find_player_spec [of "map c_toupper name" 0]
  by (simp add: hulk_greeting_def upper_loop_spec not_less del: find_player.simps)

end
