(* ===== verification/Byteswap.thy ===== *)
theory Byteswap
  imports ElfFile
begin

text \<open>
  Conversion to and from little-endian byte order, \<^verbatim>\<open>kernels1/cbyteswap.hh\<close>. In the kernel, which runs on a
  little-endian machine, both directions are the identity; on a host they are the functions of the
  host's \<^verbatim>\<open>endian.h\<close> for the size of the type. The order of the host is the argument \<open>little\<close>; a value of
  \<open>n\<close> bytes is a number below \<open>256 ^ n\<close>.
\<close>

definition kernel_to_le :: "nat \<Rightarrow> nat" where "kernel_to_le x = x"
definition kernel_from_le :: "nat \<Rightarrow> nat" where "kernel_from_le x = x"

text \<open>The functions of \<^verbatim>\<open>endian.h\<close> swap the bytes on a host that stores the most significant byte first.\<close>

definition swap_bytes :: "nat \<Rightarrow> nat \<Rightarrow> nat" where
  "swap_bytes n x = le_val (rev (le n x))"

definition htole :: "bool \<Rightarrow> nat \<Rightarrow> nat \<Rightarrow> nat" where
  "htole little n x = (if little then x else swap_bytes n x)"

definition letoh :: "bool \<Rightarrow> nat \<Rightarrow> nat \<Rightarrow> nat" where
  "letoh little n x = (if little then x else swap_bytes n x)"

text \<open>The specialisations by size; there is none for other sizes, so such a call does not compile.\<close>

definition sized_to_le :: "bool \<Rightarrow> nat \<Rightarrow> nat \<Rightarrow> nat option" where
  "sized_to_le little n x =
     (if n = 1 then Some x else if n = 2 \<or> n = 4 \<or> n = 8 then Some (htole little n x) else None)"

definition sized_from_le :: "bool \<Rightarrow> nat \<Rightarrow> nat \<Rightarrow> nat option" where
  "sized_from_le little n x =
     (if n = 1 then Some x else if n = 2 \<or> n = 4 \<or> n = 8 then Some (letoh little n x) else None)"

text \<open>What is in memory where the host has stored a value.\<close>

definition stored :: "bool \<Rightarrow> nat \<Rightarrow> nat \<Rightarrow> u8 list" where
  "stored little n x = (if little then le n x else rev (le n x))"

lemma swap_bytes_bound: "swap_bytes n x < 256 ^ n"
  using le_val_bound [of "rev (le n x)"] by (simp add: swap_bytes_def)

lemma le_swap_bytes: "le n (swap_bytes n x) = rev (le n x)"
  using le_le_val [of "rev (le n x)"] by (simp add: swap_bytes_def)

lemma swap_swap: "x < 256 ^ n \<Longrightarrow> swap_bytes n (swap_bytes n x) = x"
  by (simp add: swap_bytes_def [of n "swap_bytes n x"] le_swap_bytes)

theorem byteswap_roundtrip:
  assumes "n \<in> {1, 2, 4, 8}" "x < 256 ^ n"
  shows "\<exists>y. sized_to_le little n x = Some y \<and> y < 256 ^ n \<and> stored little n y = le n x
    \<and> sized_from_le little n y = Some x"
proof (cases "n = 1")
  case True
  then show ?thesis using assms by (simp add: sized_to_le_def sized_from_le_def stored_def numeral_2_eq_2)
next
  case False
  then have "n = 2 \<or> n = 4 \<or> n = 8" using assms(1) by auto
  then show ?thesis using assms(2) swap_bytes_bound [of n x] False
    by (auto simp: sized_to_le_def sized_from_le_def htole_def letoh_def stored_def le_swap_bytes swap_swap)
qed

theorem byteswap_roundtrip_witness:
  "\<exists>y. sized_to_le False 4 0x12345678 = Some y \<and> stored False 4 y = [0x78, 0x56, 0x34, 0x12]"
proof -
  have "(0x12345678 :: nat) < 256 ^ 4" by simp
  from byteswap_roundtrip [OF _ this, of False] obtain y where
    "sized_to_le False 4 0x12345678 = Some y" "stored False 4 y = le 4 0x12345678" by auto
  moreover have "le (Suc (Suc (Suc (Suc 0)))) 0x12345678 = [0x78, 0x56, 0x34, 0x12]" by simp
  moreover have "Suc (Suc (Suc (Suc 0))) = (4 :: nat)" by simp
  ultimately show ?thesis by metis
qed

end
