(* ===== verification/Assertions.thy ===== *)
theory Assertions
  imports Debug Programs
begin

text \<open>
  The typed assertions of \<^verbatim>\<open>kernels1/lib.hh\<close>: \<^verbatim>\<open>assert_op\<close> with its six forms, \<^verbatim>\<open>assert_op_fail\<close>, which prints
  a format into a buffer of 48 bytes and then prints with that format, the format letters
  \<^verbatim>\<open>printfmt\<close> of the types, and the overloads of \<^verbatim>\<open>error_printf\<close> in \<^verbatim>\<open>lib.cc\<close>. The buffer is in memory at an
  address that is an argument. A value of the common type of both sides is a 64-bit argument.
\<close>

subsection \<open>Operations\<close>

datatype c_type = C_bool | C_char | C_signed_char | C_unsigned_char | C_short | C_unsigned_short | C_int
  | C_unsigned | C_long | C_unsigned_long | C_pointer

primrec printfmt :: "c_type \<Rightarrow> u8 list" where
  "printfmt C_bool = ascii ''d''"
| "printfmt C_char = ascii ''c''"
| "printfmt C_signed_char = ascii ''d''"
| "printfmt C_unsigned_char = ascii ''u''"
| "printfmt C_short = ascii ''d''"
| "printfmt C_unsigned_short = ascii ''u''"
| "printfmt C_int = ascii ''d''"
| "printfmt C_unsigned = ascii ''u''"
| "printfmt C_long = ascii ''ld''"
| "printfmt C_unsigned_long = ascii ''lu''"
| "printfmt C_pointer = ascii ''p''"

definition error_printf_at ::
  "int \<Rightarrow> u32 \<Rightarrow> u8 list \<Rightarrow> va list \<Rightarrow> 'a kstate_scheme \<Rightarrow> (int \<times> 'a kstate_scheme) res" where
  "error_printf_at cpos color format val s = error_vprintf cpos color format val s"

definition error_printf_color :: "u32 \<Rightarrow> u8 list \<Rightarrow> va list \<Rightarrow> 'a kstate_scheme \<Rightarrow> 'a kstate_scheme res" where
  "error_printf_color color format val s = bind_res (error_vprintf (-1) color format val s) (\<lambda>(_, s1). Inr s1)"

definition assert_op_format :: "memory \<Rightarrow> addr \<Rightarrow> c_type \<Rightarrow> u8 list \<Rightarrow> memory res" where
  "assert_op_format m fmt t op =
     bind_res (vsnprintf m fmt 48 (ascii ''%%s:%%d: expected %%%s %s %%%s\<newline>'')
                 [VStr (printfmt t), VStr op, VStr (printfmt t)]) (\<lambda>(_, m1). Inr m1)"

definition assert_op_fail ::
  "nat \<Rightarrow> nat \<Rightarrow> link \<Rightarrow> symtabref \<Rightarrow> addr \<Rightarrow> addr \<Rightarrow> addr \<Rightarrow> c_type \<Rightarrow> u8 list \<Rightarrow> int \<Rightarrow> u8 list \<Rightarrow> u64 \<Rightarrow> u8 list \<Rightarrow> u64
   \<Rightarrow> 'a kstate_scheme \<Rightarrow> (outcome \<times> 'a kstate_scheme) res" where
  "assert_op_fail polls fuel L T rsp rbp fmt t file line msg x op y s =
     bind_res (assert_op_format (mem s) fmt t op) (\<lambda>m1.
     bind_res (string_at m1 fmt) (\<lambda>format.
     bind_res (error_printf_at (CPOS 22 0) COLOR_ERROR format [VStr file, VNum (of_int line), VNum x, VNum y]
                 (s\<lparr>mem := m1\<rparr>)) (\<lambda>(_, s1).
     assert_fail polls fuel L T rsp rbp file line msg None s1)))"

datatype comparison = Op_eq | Op_ne | Op_lt | Op_le | Op_gt | Op_ge

primrec op_text :: "comparison \<Rightarrow> u8 list" where
  "op_text Op_eq = ascii ''==''"
| "op_text Op_ne = ascii ''!=''"
| "op_text Op_lt = ascii ''<''"
| "op_text Op_le = ascii ''<=''"
| "op_text Op_gt = ascii ''>''"
| "op_text Op_ge = ascii ''>=''"

text \<open>The sides compare as the numbers they are in their common type.\<close>

definition type_value :: "c_type \<Rightarrow> u64 \<Rightarrow> int" where
  "type_value t x = (if t \<in> {C_char, C_signed_char, C_short, C_int, C_long} then sint x else uint x)"

primrec compares :: "comparison \<Rightarrow> int \<Rightarrow> int \<Rightarrow> bool" where
  "compares Op_eq x y \<longleftrightarrow> x = y"
| "compares Op_ne x y \<longleftrightarrow> x \<noteq> y"
| "compares Op_lt x y \<longleftrightarrow> x < y"
| "compares Op_le x y \<longleftrightarrow> x \<le> y"
| "compares Op_gt x y \<longleftrightarrow> x > y"
| "compares Op_ge x y \<longleftrightarrow> x \<ge> y"

text \<open>\<open>None\<close>: the assertion holds and the program goes on.\<close>

definition assert_op ::
  "nat \<Rightarrow> nat \<Rightarrow> link \<Rightarrow> symtabref \<Rightarrow> addr \<Rightarrow> addr \<Rightarrow> addr \<Rightarrow> c_type \<Rightarrow> u8 list \<Rightarrow> int \<Rightarrow> u8 list \<Rightarrow> u64 \<Rightarrow> comparison \<Rightarrow> u64
   \<Rightarrow> 'a kstate_scheme \<Rightarrow> (outcome option \<times> 'a kstate_scheme) res" where
  "assert_op polls fuel L T rsp rbp fmt t file line msg x op y s =
     (if compares op (type_value t x) (type_value t y) then Inr (None, s)
      else bind_res (assert_op_fail polls fuel L T rsp rbp fmt t file line msg x (op_text op) y s)
             (\<lambda>(out, s1). Inr (Some out, s1)))"

subsection \<open>The format fits\<close>

lemma parse_percent:
  "parse_spec (37 # f) args = Inr (\<lparr>flags = 0, width = -1, precision = -1, long = False\<rparr>, 37 # f, args)"
  by (simp add: parse_spec_def parse_width_def parse_precision_def parse_length_def hd0_def is_dec_def
      flag_chars_def ascii_def)

lemma vprintf_percent:
  "vprintf col (37 # 37 # f) args = bind_res (vprintf col f args) (\<lambda>out. Inr ((37, col) # out))"
  by (simp add: parse_percent convert_def layout_string hd0_def cstr_def)

lemma printfmt_chars: "0 \<notin> set (printfmt t)" "length (printfmt t) \<le> 2"
  by (cases t; simp add: ascii_def)+

lemma op_text_chars: "0 \<notin> set (op_text op)" "length (op_text op) \<le> 2"
  by (cases op; simp add: ascii_def)+

lemma cstr_no_zero: "0 \<notin> set x \<Longrightarrow> cstr x = x"
  by (auto simp: cstr_def takeWhile_eq_all_conv)

definition comparison_format :: "c_type \<Rightarrow> comparison \<Rightarrow> u8 list" where
  "comparison_format t op = ascii ''%s:%d: expected %'' @ printfmt t @ ascii '' '' @ op_text op @ ascii '' %'' @ printfmt t @ [10]"

lemma comparison_format_text:
  "vprintf 0 (ascii ''%%s:%%d: expected %%%s %s %%%s\<newline>'') [VStr (printfmt t), VStr (op_text op), VStr (printfmt t)]
   = Inr (map (\<lambda>c. (c, 0)) (comparison_format t op))"
proof -
  let ?p = "printfmt t" and ?o = "op_text op"
  have f: "ascii ''%%s:%%d: expected %%%s %s %%%s\<newline>'' = 37 # 37 # ascii ''s:'' @ 37 # 37 # ascii ''d: expected '' @ 37 # 37 # 37 # 115 # ascii '' '' @ 37 # 115 # ascii '' '' @ 37 # 37 # 37 # 115 # [10]"
    by (simp add: ascii_def)
  have n: "37 \<notin> set (ascii ''s:'')" "37 \<notin> set (ascii ''d: expected '')" "37 \<notin> set (ascii '' '')" by (simp_all add: ascii_def)
  have e: "vprintf 0 [10] [] = Inr [(10, 0)]" by (simp add: vprintf.simps)
  have t: "take (length (cstr ?p)) ?p = ?p" "take (length (cstr ?o)) ?o = ?o"
    using printfmt_chars(1) op_text_chars(1) by (simp_all add: cstr_no_zero)
  have c: "comparison_format t op = 37 # ascii ''s:'' @ 37 # ascii ''d: expected '' @ 37 # ?p @ ascii '' '' @ ?o @ ascii '' '' @ 37 # ?p @ [10]"
    by (simp add: comparison_format_def ascii_def)
  show ?thesis unfolding f c
    by (simp only: vprintf_percent vprintf_prefix [OF n(1)] vprintf_prefix [OF n(2)] vprintf_prefix [OF n(3)]
        vprintf_string e t bind_res_Inr) simp
qed

text \<open>
  C40: The format that \<open>assert_op_fail\<close> builds for its message fits its 48-byte buffer for
  every operator and every type of operands, is the intended format with a terminating zero byte,
  and nothing outside the buffer is written, for a buffer that does not wrap around the end of
  memory.
\<close>
theorem assert_op_format_fits:
  assumes "unat fmt + 48 < 2 ^ 64"
  shows "\<exists>m'. assert_op_format m fmt t (op_text op) = Inr m' \<and> cstring_at m' fmt (comparison_format t op)
    \<and> (\<forall>b. 48 \<le> unat (b - fmt) \<longrightarrow> m' b = m b)"
proof -
  let ?f = "comparison_format t op"
  have len: "length ?f \<le> 30" using printfmt_chars(2) [of t] op_text_chars(2) [of op]
    by (simp add: comparison_format_def ascii_def)
  have nz: "0 \<notin> set ?f" using printfmt_chars(1) [of t] op_text_chars(1) [of op]
    by (auto simp: comparison_format_def ascii_def)
  obtain m' where m': "vsnprintf m fmt 48 (ascii ''%%s:%%d: expected %%%s %s %%%s\<newline>'')
      [VStr (printfmt t), VStr (op_text op), VStr (printfmt t)] = Inr (of_nat (length ?f), m')"
    "\<And>i. i < length ?f \<Longrightarrow> m' (fmt + of_nat i) = ?f ! i" "m' (fmt + of_nat (length ?f)) = 0"
    "\<And>b. 48 \<le> unat (b - fmt) \<Longrightarrow> m' b = m b"
    using vsnprintf_spec [OF comparison_format_text [of t op], of fmt 48 m] assms len by (auto simp: min_def)
  have "map (\<lambda>i. m' (fmt + of_nat i)) [0..<length ?f] = ?f" using m'(2) by (intro nth_equalityI) simp_all
  then have "cstring_at m' fmt ?f" using m'(3) nz len by (simp add: cstring_at_def)
  then show ?thesis using m' by (auto simp: assert_op_format_def)
qed

theorem assert_op_format_fits_witness:
  "\<exists>m'. assert_op_format (\<lambda>_. 7) 0x7F000 C_unsigned_long (ascii ''<='') = Inr m'
     \<and> cstring_at m' 0x7F000 (ascii ''%s:%d: expected %lu <= %lu\<newline>'') \<and> m' 0x7F030 = 7"
  using assert_op_format_fits [of "0x7F000" "\<lambda>_. 7" C_unsigned_long Op_le]
  by (auto simp: comparison_format_def ascii_def)

end
