(* ===== verification/Spec2Isabelle.thy ===== *)
theory Spec2Isabelle
  imports KernelMap Bootdisk Pci Symtab Guard PipePrograms Programs Cpu Apic LogPort Puzzles Access Hexdump
    Containers Lifetimes Byteswap Assertions
begin

text \<open>
  Verification of the section programs of a systems course. The main one is the small operating system
  in \<^verbatim>\<open>kernels1/\<close>: a boot loader, a kernel for one x86-64 processor with paging, processes and a one-byte
  pipe, user programs, and the two host tools that build its disk image. The smaller ones are the
  exercises of \<^verbatim>\<open>s01/\<close>, \<^verbatim>\<open>s02/\<close> and \<^verbatim>\<open>asms1/\<close>. All paths below are relative to \<^verbatim>\<open>src/\<close>.

  \<^bold>\<open>How the parts interact.\<close> \<^verbatim>\<open>mkchickadeesymtab\<close> prepares the symbol table inside the kernel file;
  \<^verbatim>\<open>mkbootdisk\<close> puts boot sector and kernel on a disk image; the boot loader reads the kernel from that
  disk and jumps to it; \<^verbatim>\<open>kernel_start\<close> sets up memory, descriptor tables and interrupt controllers, maps
  its page table, loads programs and runs the first process. From then on the kernel is entered only
  through \<^verbatim>\<open>exception\<close> and \<^verbatim>\<open>syscall\<close>, and left through \<^verbatim>\<open>run\<close>. The theorems follow this chain:
  \<open>Bootdisk\<close> composes the disk builder with the boot loader, \<open>Symtab\<close> the symbol-table builder with the
  lookup of the kernel, \<open>Cpu\<close> the tables with the way the processor enters the kernel, \<open>KernelMap\<close> the
  page-table iterator with the start-up code, and \<open>PipePrograms\<close> user programs with the kernel.

  \<^bold>\<open>Conventions.\<close> \<open>Prelude\<close> fixes the types. Integers are words of their width in C++ and wrap; pointers
  are 64-bit addresses into \<open>memory\<close>, a function from addresses to bytes, so that structures in memory
  (page-table entries, ELF headers, descriptors, buffers) are read and written byte by byte as the
  machine does. A routine that can fail returns \<open>fault + 'a\<close>: failed assertions, panics and accesses
  outside an array are \<open>Inl\<close>, and so is \<open>Diverges\<close>, a loop of the source that does not end. State is passed explicitly, as a record. Addresses chosen by the linker are
  fields of the record \<open>link\<close>. Devices (IDE controller, PCI host bridge, keyboard controller, parallel
  port, interrupt controllers), files and the random numbers of the C library are arguments; what the
  code relies on is a hypothesis that states their documented behaviour, and each theorem with such a
  hypothesis is followed by a witness with a concrete device.

  \<^bold>\<open>The library and the console.\<close>
  \<^item> \<open>Clib\<close> (\<^verbatim>\<open>lib.cc\<close>, \<^verbatim>\<open>lib.hh\<close>): memory and string functions, character classes, \<^verbatim>\<open>strtol\<close>, \<^verbatim>\<open>rand\<close>,
    rounding and bit searches. \<^verbatim>\<open>memmove\<close> is shown to copy correctly for overlapping ranges.
  \<^item> \<open>Printf\<close> (\<^verbatim>\<open>printer::vprintf\<close>, \<^verbatim>\<open>string_printer\<close>, \<^verbatim>\<open>vsnprintf\<close>): the format interpreter and its
    reference; \<^verbatim>\<open>strtol\<close> reads back what \<^verbatim>\<open>%d\<close> prints; \<^verbatim>\<open>vsnprintf\<close> stays in its buffer. The locale \<open>printer\<close>
    is the interface of a character sink with an invariant; it is interpreted on the string printer, on
    the console (\<open>Console\<close>) and on the log (\<open>KernelState\<close>).
  \<^item> \<open>Console\<close> (\<^verbatim>\<open>console_printer\<close>, \<^verbatim>\<open>console_puts\<close>): exactly which output leaves the 2000 cells of the screen:
    text printed at the cursor while the cursor variable, which processes can write, is negative.
  \<^item> \<open>Byteswap\<close> (\<^verbatim>\<open>cbyteswap.hh\<close>) and \<open>Assertions\<close> (the typed \<^verbatim>\<open>assert_op\<close> of \<^verbatim>\<open>lib.hh\<close>).

  \<^bold>\<open>Memory.\<close>
  \<^item> \<open>PhysMem\<close> (\<^verbatim>\<open>kalloc\<close>, \<^verbatim>\<open>kalloc_pagetable\<close>, address classes): \<^verbatim>\<open>kalloc\<close> returns a free allocatable page
    whenever there is one at or after its scan position. The locale \<open>page_allocator\<close> is what page-table code relies on.
  \<^item> \<open>Vmiter\<close> (\<^verbatim>\<open>k-vmiter.hh\<close>, \<^verbatim>\<open>k-vmiter.cc\<close>): both iterators, and \<open>mmu_walk\<close>, the four-level translation of
    the processor, as reference. \<open>VmWalk\<close>: an iterator always agrees with the processor; \<^verbatim>\<open>next\<close> and
    \<^verbatim>\<open>range_perm\<close>. \<open>VmMap\<close>: \<^verbatim>\<open>try_map\<close> changes the translation of one page, keeps the table a tree and
    succeeds when the allocator can supply the missing tables.
  \<^item> \<open>KernelMap\<close>: the translation of every address after the set-up part of \<^verbatim>\<open>kernel_start\<close>, before the
    processes are loaded.
  \<^item> \<open>Memviewer\<close> (\<^verbatim>\<open>k-memviewer.cc\<close>): the map of physical and virtual memory on the screen.

  \<^bold>\<open>The processor and its devices.\<close>
  \<^item> \<open>Hardware\<close>, \<open>Descriptors\<close> and \<open>Cpu\<close> (\<^verbatim>\<open>k-hardware.cc\<close>, \<^verbatim>\<open>x86-64.h\<close>): encodings of gates and segments, the
    tables in memory, system registers and privileged instructions; every interrupt and system call from
    user code enters the kernel at its entry point on the kernel's segments and stack.
  \<^item> \<open>Apic\<close> (\<^verbatim>\<open>k-apic.hh\<close>), \<open>Ports\<close>, \<open>Pci\<close> (\<^verbatim>\<open>k-pci.hh\<close>), \<open>Keyboard\<close>, \<open>LogPort\<close>: the devices. \<open>LogPort\<close> and
    \<open>Apic\<close> show that the device-level code makes the accesses that the kernel state records. The local APIC
    has its documented reserved bits, and masks local vectors while it is disabled by software.
  \<^item> \<open>Debug\<close>: symbol lookup, backtraces, panics; a backtrace ends on any stack contents when the last 16 bytes
    of the address space are not mapped, and so do the names it prints when memory has a zero byte.
  \<^item> \<open>Guard\<close>: guards of function-local statics under every interleaving of threads.

  \<^bold>\<open>The kernel and its programs.\<close>
  \<^item> \<open>KernelState\<close>: \<open>kstate\<close>, the globals of \<^verbatim>\<open>kernel.cc\<close> over memory and screen, and the routines shared by
    the handlers. \<open>Elf\<close>: program images. \<open>Kernel\<close> (\<^verbatim>\<open>kernel.cc\<close>): start-up, \<^verbatim>\<open>process_setup\<close>, \<^verbatim>\<open>exception\<close>,
    \<^verbatim>\<open>syscall\<close>, the pipe, \<^verbatim>\<open>schedule\<close>; each handler is a function from a state to an outcome and a state.
    The handlers use the pointers of their callers unchecked. The model keeps the kernel's variables, its
    stack, the console and the devices out of \<open>mem\<close>, so it follows such an access only elsewhere: a pointer
    that is not mapped panics, one that reaches the kernel's own data ends in \<open>KernelData\<close>. The theorems
    about system calls that return do not speak of those, which can do anything in the program.
  \<^item> \<open>KernelInv\<close>: the invariant \<open>kernel_ok\<close> of every handler, isolation of page faults, round-robin
    scheduling, and the pipe as an instance of the locale \<open>fifo_channel\<close> over the step relation
    \<open>kernel_step\<close>.
  \<^item> \<open>Isolation\<close>: the locale \<open>kernel_frame\<close>, a relation that all handlers respect once their small operations
    do, interpreted on the bytes of allocated pages outside the kernel's own data.
  \<^item> \<open>UserLib\<close> (\<^verbatim>\<open>u-lib.hh\<close>, \<^verbatim>\<open>u-lib.cc\<close>), \<open>PipePrograms\<close> and \<open>Programs\<close> (\<^verbatim>\<open>p-*.cc\<close>): system-call wrappers and user
    programs; the reader and the writer are state machines composed with the kernel in \<open>pipe_step\<close>.

  \<^bold>\<open>Building and booting.\<close>
  \<^item> \<open>Boot\<close> (\<^verbatim>\<open>boot.cc\<close>) and \<open>Mkbootdisk\<close> (\<^verbatim>\<open>build/mkbootdisk.cc\<close>), composed in \<open>Bootdisk\<close>. The locale
    \<open>disk_writer\<close> is what every write of the tool keeps, interpreted on confinement to a partition, for every way the tool
    can end: an error exit carries the disk as the tool left it.
  \<^item> \<open>ElfFile\<close> (\<^verbatim>\<open>elf.h\<close>), \<open>Mksymtab\<close> (\<^verbatim>\<open>build/mkchickadeesymtab.cc\<close>) and \<open>Symtab\<close>: validation accepts exactly
    the well-formed files, lookups read nothing outside them, alignment moves sections without changing their contents, sorting is stable,
    and the kernel's binary search finds what a search of all entries finds.

  \<^item> \<open>Hostlib\<close>: \<^verbatim>\<open>strtol\<close> and \<^verbatim>\<open>strtoul\<close> of the host's C library, which the tools and the puzzles call.

  \<^bold>\<open>The exercises.\<close> \<open>Puzzles\<close> (\<^verbatim>\<open>asms1/\<close>), \<open>Containers\<close> and \<open>Hexdump\<close> (\<^verbatim>\<open>s01/\<close>), \<open>Access\<close> and \<open>Lifetimes\<close>
  (\<^verbatim>\<open>s02/\<close>). The locale \<open>dictionary\<close> is the contract of the maps, interpreted on the ordered and on the
  unordered one.

  \<^bold>\<open>Bounds.\<close> Loops over a word that decreases or an index that grows to a bound are total functions.
  String loops, which run over memory until a zero byte, are \<^theory_text>\<open>partial_function (option)\<close>, with \<open>Some\<close> proved
  for strings that end. Where a caller needs the value, \<open>None\<close> is the fault \<open>Diverges\<close>. The others count their rounds and end in \<open>OutOfFuel\<close>:
  \<^item> \<^verbatim>\<open>schedule\<close> takes a number of rounds, since with no runnable process the code spins (\<open>Spinning\<close>); one
    round per process slot is enough when some process is runnable.
  \<^item> \<^verbatim>\<open>boot_waitdisk\<close> takes a number of polls; the hypothesis on the controller says how many it needs. The
    loop of \<^verbatim>\<open>boot\<close> that rejects a wrong magic number does not end in the code and is \<open>OutOfFuel\<close> too.
  \<^item> Program headers are counted by a 16-bit field, so \<open>seg_fuel\<close> is 65536. \<^verbatim>\<open>range_perm\<close> moves at least one
    byte per round, and it is proved that its bound is never reached. A backtrace is proved to end,
    since its frame pointers increase in steps of at least 16 bytes: 2^60 frames are enough.
  \<^item> A chain of extended partitions may be cyclic; \<^verbatim>\<open>find_partition\<close> is given its depth.
  \<^item> The memory viewer visits at most one address per byte of an address space, the bound \<open>mv_fuel\<close>.

  \<^bold>\<open>Not modelled.\<close> Assembly (\<^verbatim>\<open>bootentry.S\<close>, \<^verbatim>\<open>k-exception.S\<close>, \<^verbatim>\<open>fun07.s\<close> to \<^verbatim>\<open>fun12.s\<close>): its register
  saving is the assumption that the handlers get the interrupted registers. \<^verbatim>\<open>build/qemu-nograb.c\<close>, which
  patches private structures of QEMU. The exercise templates \<^verbatim>\<open>vectorq.cc\<close>, \<^verbatim>\<open>mapq.cc\<close> and the empty
  programs, which contain question marks or nothing. Reading the clock, and the wording of what the host
  tools print. Atomicity of the kernel handlers is that of the code, which runs with interrupts off on one
  processor; more than one processor occurs only in \<open>Guard\<close>. Many remaining lines of the headers are
  declarations without behaviour.
\<close>

end
